(* ===== verification/Prelude.thy ===== *)
theory Prelude
  imports Main "HOL-Library.Word"
begin

unbundle bit_operations_syntax

text \<open>
  Shared vocabulary of the development: the C types of the target (RV64, little endian,
  \<open>char\<close> unsigned as the RISC-V ABI has it), byte literals for C character and string
  constants, and generic facts on words and lists that several components use.

  The collections: \<open>c_const\<close> holds the definitions of the macros and enum constants of the
  headers, so that \<open>simp add: c_const\<close> evaluates a register address or a bit mask;
  \<open>dev_simps\<close> holds the register-level behaviour of the device models.
\<close>

named_theorems c_const \<open>definitions of C macros and enum constants\<close>
named_theorems dev_simps \<open>register reads and writes of the device models\<close>

type_synonym byte = "8 word"
type_synonym u16 = "16 word"
type_synonym u32 = "32 word"
type_synonym u64 = "64 word"
type_synonym addr = "64 word"

section \<open>Characters and strings of C\<close>

text \<open>A C character constant is its byte, a C string constant the list of its bytes
  (the terminating NUL is not part of the list).\<close>

abbreviation ch :: "char \<Rightarrow> byte" where
  "ch c \<equiv> of_char c"

definition str :: "string \<Rightarrow> byte list" where
  "str s = map of_char s"

lemma str_Nil [simp]: "str [] = []"
  by (simp add: str_def)

lemma str_Cons [simp]: "str (c # s) = ch c # str s"
  by (simp add: str_def)

lemma length_str [simp]: "length (str s) = length s"
  by (simp add: str_def)

section \<open>Words\<close>

lemma word64_of_nat_inj:
  assumes "i < 2 ^ 64" and "j < 2 ^ 64"
  shows "(of_nat i = (of_nat j :: 64 word)) = (i = j)"
proof
  assume "of_nat i = (of_nat j :: 64 word)"
  then have "unat (of_nat i :: 64 word) = unat (of_nat j :: 64 word)" by simp
  with assms show "i = j" by (simp add: unat_of_nat take_bit_nat_eq_self)
qed simp

lemma unat_of_nat64 [simp]: "i < 2 ^ 64 \<Longrightarrow> unat (of_nat i :: 64 word) = i"
  by (simp add: unat_of_nat take_bit_nat_eq_self)

lemma unat_lt64 [simp]: "unat (w :: 64 word) < 18446744073709551616"
  using unsigned_less [of w, where ?'a = nat] by simp

lemma unat_lt32 [simp]: "unat (w :: 32 word) < 4294967296"
  using unsigned_less [of w, where ?'a = nat] by simp

lemma unat_of_nat_below [simp]: "i < unat (n :: 64 word) \<Longrightarrow> unat (of_nat i :: 64 word) = i"
  by (rule unat_of_nat64, erule less_trans) simp

lemma unat_of_nat_below' [simp]: "i \<le> unat (n :: 64 word) \<Longrightarrow> unat (of_nat i :: 64 word) = i"
  by (rule unat_of_nat64, erule le_less_trans) simp

lemma unat_Suc_minus_one:
  assumes "(w :: 'a :: len word) \<noteq> 0"
  shows "Suc (unat (w - 1)) = unat w"
proof -
  have "unat (w - 1) = unat w - 1" using assms by (rule unat_minus_one)
  moreover have "unat w \<noteq> 0" using assms by (simp add: unat_eq_0)
  ultimately show ?thesis by simp
qed

text \<open>The measure of a loop that counts a 64-bit index up to a bound.\<close>

lemma word64_less_step:
  fixes i w :: "64 word"
  assumes "i < w" shows "unat (w - (i + 1)) < unat (w - i)"
proof -
  have "w - i \<noteq> 0" using assms by auto
  then have "Suc (unat (w - i - 1)) = unat (w - i)" by (rule unat_Suc_minus_one)
  then show ?thesis by (simp add: diff_diff_eq)
qed

lemma word64_Suc: "(i :: 64 word) < w \<Longrightarrow> unat (i + 1) = Suc (unat i)"
  by unat_arith

lemma unat_ucast32 [simp]: "unat (ucast (w :: 32 word) :: 64 word) = unat w"
  by (simp add: unsigned_ucast_eq take_bit_nat_eq_self less_trans [OF unat_lt32])

lemma ucast_of_nat_64_32 [simp]: "ucast (of_nat n :: 64 word) = (of_nat n :: 32 word)"
  by (rule bit_word_eqI) (simp add: bit_simps)

lemma ucast_ucast_32_64 [simp]: "ucast (ucast (w :: 32 word) :: 64 word) = w"
  by (rule bit_word_eqI) (simp add: bit_simps)

lemma bit_255: "bit (255 :: int) n \<longleftrightarrow> n < 8"
proof -
  have "(255 :: int) = mask 8" by (simp add: mask_eq_exp_minus_1)
  then show ?thesis by (simp only: bit_mask_iff possible_bit_int simp_thms)
qed

lemma eq_of_nat_unat: "unat x = n \<Longrightarrow> x = (of_nat n :: 64 word)"
  by auto

section \<open>Lists\<close>

lemma butlast_eq_Nil: "butlast xs = [] \<longleftrightarrow> length xs \<le> 1"
  by (metis One_nat_def diff_is_0_eq length_0_conv length_butlast)

lemma take_append_replicate_length:
  "length xs \<le> n \<Longrightarrow> length (xs @ replicate (n - length xs) x) = n"
  by simp

end
