(* ===== verification/Cmem.thy ===== *)
theory Cmem
  imports Prelude
begin

text \<open>
  The byte-addressed memory of the target: one byte per 64-bit address, with the reads and
  writes of \<open>uintptr_t\<close> words in little-endian order, byte blocks, NUL-terminated strings,
  and the block write \<open>mem_put\<close> by which the string functions are specified.
\<close>

type_synonym mem = "addr \<Rightarrow> byte"

definition bytes_at :: "mem \<Rightarrow> addr \<Rightarrow> nat \<Rightarrow> byte list" where
  "bytes_at m a n = map (\<lambda>i. m (a + of_nat i)) [0..<n]"

text \<open>The bytes \<open>s\<close>, none of them NUL, followed by a NUL.\<close>

definition cstr_at :: "mem \<Rightarrow> addr \<Rightarrow> byte list \<Rightarrow> bool" where
  "cstr_at m a s \<longleftrightarrow> 0 \<notin> set s \<and> bytes_at m a (Suc (length s)) = s @ [0]"

text \<open>The memory in which byte \<open>o\<close> of the block of \<open>n\<close> bytes at \<open>d\<close> is \<open>f o\<close>.\<close>

definition mem_put :: "mem \<Rightarrow> addr \<Rightarrow> nat \<Rightarrow> (addr \<Rightarrow> byte) \<Rightarrow> mem" where
  "mem_put m d n f = (\<lambda>x. if unat (x - d) < n then f (x - d) else m x)"

definition load64 :: "mem \<Rightarrow> addr \<Rightarrow> u64" where
  "load64 m a =
     ucast (m a) OR push_bit 8 (ucast (m (a + 1))) OR push_bit 16 (ucast (m (a + 2)))
     OR push_bit 24 (ucast (m (a + 3))) OR push_bit 32 (ucast (m (a + 4)))
     OR push_bit 40 (ucast (m (a + 5))) OR push_bit 48 (ucast (m (a + 6)))
     OR push_bit 56 (ucast (m (a + 7)))"

definition byte_of :: "u64 \<Rightarrow> nat \<Rightarrow> byte" where
  "byte_of v k = ucast (drop_bit (8 * k) v)"

definition store64 :: "mem \<Rightarrow> addr \<Rightarrow> u64 \<Rightarrow> mem" where
  "store64 m a v = mem_put m a 8 (\<lambda>o'. byte_of v (unat o'))"

section \<open>Blocks and strings\<close>

lemma length_bytes_at [simp]: "length (bytes_at m a n) = n"
  by (simp add: bytes_at_def)

lemma bytes_at_nth [simp]: "i < n \<Longrightarrow> bytes_at m a n ! i = m (a + of_nat i)"
  by (simp add: bytes_at_def)

lemma bytes_at_0 [simp]: "bytes_at m a 0 = []"
  by (simp add: bytes_at_def)

lemma bytes_at_Suc: "bytes_at m a (Suc n) = m a # bytes_at m (a + 1) n"
proof (rule nth_equalityI)
  fix i assume "i < length (bytes_at m a (Suc n))"
  then show "bytes_at m a (Suc n) ! i = (m a # bytes_at m (a + 1) n) ! i"
    by (cases i) (simp_all add: add.assoc)
qed simp

lemma cstr_at_Nil [simp]: "cstr_at m a [] = (m a = 0)"
  by (simp add: cstr_at_def bytes_at_Suc)

lemma cstr_at_Cons [simp]:
  "cstr_at m a (c # s) = (c \<noteq> 0 \<and> m a = c \<and> cstr_at m (a + 1) s)"
  by (auto simp: cstr_at_def bytes_at_Suc [of m a])

lemma bytes_at_put:
  assumes "n < 2 ^ 64"
  shows "bytes_at (mem_put m d n f) d n = map (\<lambda>i. f (of_nat i)) [0..<n]"
  using assms by (intro nth_equalityI) (auto simp: mem_put_def)

lemma bytes_at_cong:
  "(\<And>i. i < n \<Longrightarrow> m (a + of_nat i) = m' (a' + of_nat i)) \<Longrightarrow> bytes_at m a n = bytes_at m' a' n"
  by (simp add: bytes_at_def)

lemma bytes_at_copy:
  "n < 2 ^ 64 \<Longrightarrow> bytes_at (mem_put m d n (\<lambda>o'. m' (s + o'))) d n = bytes_at m' s n"
  by (simp add: bytes_at_put) (simp add: bytes_at_def)

lemma mem_put_0 [simp]: "mem_put m d 0 f = m"
  by (simp add: mem_put_def)

lemma mem_put_outside: "n \<le> unat (x - d) \<Longrightarrow> mem_put m d n f x = m x"
  by (simp add: mem_put_def)

lemma mem_put_cong:
  "d = d' \<Longrightarrow> n = n' \<Longrightarrow> (\<And>o'. unat o' < n' \<Longrightarrow> f o' = g o') \<Longrightarrow> mem_put m d n f = mem_put m d' n' g"
  by (auto simp: mem_put_def)

text \<open>A write of \<open>k\<close> bytes followed by a write of the \<open>n\<close> bytes after them.\<close>

lemma mem_put_append:
  assumes "k + n < 2 ^ 64"
  shows "mem_put (mem_put m d k f) (d + of_nat k) n g =
         mem_put m d (k + n) (\<lambda>o'. if unat o' < k then f o' else g (o' - of_nat k))"
proof
  fix x
  have step: "x - (d + of_nat k) = (x - d) - of_nat k" by (simp add: algebra_simps)
  have k: "unat (of_nat k :: addr) = k" using assms by simp
  show "mem_put (mem_put m d k f) (d + of_nat k) n g x =
        mem_put m d (k + n) (\<lambda>o'. if unat o' < k then f o' else g (o' - of_nat k)) x"
  proof (cases "unat (x - d) < k")
    case True
    have lt: "x - d < of_nat k" using True k by (simp add: word_less_nat_alt)
    have "unat (x - d - of_nat k) = 2 ^ 64 + unat (x - d) - k"
      using lt k True by (simp add: unat_sub_if_size word_size)
    then have "\<not> unat (x - d - of_nat k) < n" using assms by simp
    then show ?thesis using True by (simp add: mem_put_def step)
  next
    case False
    then have "of_nat k \<le> x - d" using k by (simp add: word_le_nat_alt)
    then have "unat (x - d - of_nat k) = unat (x - d) - k" using k by (simp add: unat_sub)
    then show ?thesis using False by (auto simp: mem_put_def step)
  qed
qed

lemma mem_put_single: "m(d := v) = mem_put m d 1 (\<lambda>_. v)"
  by (auto simp: mem_put_def unat_eq_0)

lemma mem_put_Suc:
  assumes "Suc n < 2 ^ 64"
  shows "mem_put (m(d := v)) (d + 1) n g =
         mem_put m d (Suc n) (\<lambda>o'. if o' = 0 then v else g (o' - 1))"
proof -
  have one: "(of_nat (1 :: nat) :: addr) = 1" by simp
  have "mem_put (mem_put m d 1 (\<lambda>_. v)) (d + of_nat 1) n g =
        mem_put m d (1 + n) (\<lambda>o'. if unat o' < 1 then v else g (o' - of_nat 1))"
    by (rule mem_put_append) (use assms in simp)
  then show ?thesis unfolding one by (simp add: mem_put_single unat_eq_0)
qed

section \<open>Words in memory\<close>

lemma byte_of_load64_cases:
  "byte_of (load64 m a) 0 = m a" "byte_of (load64 m a) 1 = m (a + 1)"
  "byte_of (load64 m a) 2 = m (a + 2)" "byte_of (load64 m a) 3 = m (a + 3)"
  "byte_of (load64 m a) 4 = m (a + 4)" "byte_of (load64 m a) 5 = m (a + 5)"
  "byte_of (load64 m a) 6 = m (a + 6)" "byte_of (load64 m a) 7 = m (a + 7)"
  by (rule bit_word_eqI; auto simp: byte_of_def load64_def bit_simps dest: bit_imp_le_length)+

lemma nat_lt8_cases: "k < 8 \<Longrightarrow> k \<in> {0, 1, 2, 3, 4, 5, 6, 7 :: nat}"
  by auto

lemma byte_of_load64: "k < 8 \<Longrightarrow> byte_of (load64 m a) k = m (a + of_nat k)"
  by (drule nat_lt8_cases) (elim insertE emptyE; simp add: byte_of_load64_cases [simplified])

lemma store64_load64:
  "store64 m d (load64 m' s) = mem_put m d 8 (\<lambda>o'. m' (s + o'))"
  unfolding store64_def by (rule mem_put_cong) (simp_all add: byte_of_load64)

lemma store64_outside: "8 \<le> unat (x - a) \<Longrightarrow> store64 m a v x = m x"
  by (simp add: store64_def mem_put_outside)

lemma load64_cong: "(\<And>k. k < 8 \<Longrightarrow> m (a + of_nat k) = m' (a + of_nat k)) \<Longrightarrow> load64 m a = load64 m' a"
proof -
  assume h: "\<And>k. k < 8 \<Longrightarrow> m (a + of_nat k) = m' (a + of_nat k)"
  show ?thesis
    using h [of 0] h [of 1] h [of 2] h [of 3] h [of 4] h [of 5] h [of 6] h [of 7]
    by (simp add: load64_def)
qed

lemma bit_byte_of: "bit (byte_of v k) j \<longleftrightarrow> bit v (8 * k + j) \<and> j < 8"
  by (auto simp: byte_of_def bit_simps)

lemma word_eq_by_bytes:
  assumes "\<And>k. k < 8 \<Longrightarrow> byte_of v k = byte_of w k"
  shows "v = w"
proof (rule bit_word_eqI)
  fix n assume "n < LENGTH(64)"
  then have "byte_of v (n div 8) = byte_of w (n div 8)" by (intro assms) simp
  then have "bit (byte_of v (n div 8)) (n mod 8) = bit (byte_of w (n div 8)) (n mod 8)" by simp
  then show "bit v n = bit w n" by (simp add: bit_byte_of)
qed

lemma load64_store64 [simp]: "load64 (store64 m a v) a = v"
  by (rule word_eq_by_bytes) (simp add: byte_of_load64, simp add: store64_def mem_put_def)

end
