(* ===== verification/Printf_Out.thy ===== *)
theory Printf_Out
  imports Cmem
begin

text \<open>
  The output functions of \<open>software/sdk/src/printf.c\<close>. An output function takes the character,
  the buffer, the index and the buffer size, as \<open>out_fct_type\<close> does, and the state it acts on.
  \<open>emit\<close> is the sequence of calls by which every formatting routine produces its text, and
  the locale \<open>sink\<close> is what a caller may rely on: a relation between the states before and after,
  kept by every call of the output function.
\<close>

type_synonym 's out_fct = "byte \<Rightarrow> addr \<Rightarrow> u64 \<Rightarrow> u64 \<Rightarrow> 's \<Rightarrow> 's"

section \<open>The output functions\<close>

definition out_buffer :: "mem out_fct" where
  "out_buffer c buffer idx maxlen m = (if idx < maxlen then m(buffer + idx := c) else m)"

definition out_null :: "'s out_fct" where
  "out_null c buffer idx maxlen s = s"

text \<open>\<open>_putchar\<close> is the BSP's: a state transformer, given by the theory of system calls.\<close>

definition out_char :: "(byte \<Rightarrow> 's \<Rightarrow> 's) \<Rightarrow> 's out_fct" where
  "out_char putc c buffer idx maxlen s = (if c \<noteq> 0 then putc c s else s)"

text \<open>For \<open>fctprintf\<close> the buffer argument points to the pair of function and argument.\<close>

record 's out_fct_wrap =
  fct :: "byte \<Rightarrow> addr \<Rightarrow> 's \<Rightarrow> 's"
  fct_arg :: addr

definition out_wrap :: "(addr \<Rightarrow> 's out_fct_wrap) \<Rightarrow> 's out_fct" where
  "out_wrap deref c buffer idx maxlen s =
     (if c \<noteq> 0 then fct (deref buffer) c (fct_arg (deref buffer)) s else s)"

section \<open>Sequences of output calls\<close>

text \<open>The calls \<open>out(c, buffer, idx++, maxlen)\<close> for the characters of a list in order.\<close>

fun emit :: "'s out_fct \<Rightarrow> addr \<Rightarrow> u64 \<Rightarrow> byte list \<Rightarrow> u64 \<times> 's \<Rightarrow> u64 \<times> 's" where
  "emit out buffer maxlen [] (idx, s) = (idx, s)"
| "emit out buffer maxlen (c # cs) (idx, s) =
     emit out buffer maxlen cs (idx + 1, out c buffer idx maxlen s)"

lemma emit_append [simp]:
  "emit out b n (xs @ ys) st = emit out b n ys (emit out b n xs st)"
  by (induction out b n xs st rule: emit.induct) simp_all

lemma fst_emit: "fst (emit out b n cs (idx, s)) = idx + of_nat (length cs)"
  by (induction cs arbitrary: idx s) (simp_all add: algebra_simps)

lemma emit_eq_pair: "emit out b n cs (idx, s) = (idx + of_nat (length cs), snd (emit out b n cs (idx, s)))"
  by (metis fst_emit prod.collapse)

lemma emit_null [simp]: "emit out_null b n cs (idx, s) = (idx + of_nat (length cs), s)"
  by (induction cs arbitrary: idx) (simp_all add: out_null_def algebra_simps)

lemma emit_char:
  "emit (out_char putc) b n cs (idx, s) =
     (idx + of_nat (length cs), fold putc (filter (\<lambda>c. c \<noteq> 0) cs) s)"
  by (induction cs arbitrary: idx s) (simp_all add: out_char_def algebra_simps)

lemma emit_wrap:
  "emit (out_wrap deref) b n cs (idx, s) =
     (idx + of_nat (length cs),
      fold (\<lambda>c. fct (deref b) c (fct_arg (deref b))) (filter (\<lambda>c. c \<noteq> 0) cs) s)"
  by (induction cs arbitrary: idx s) (simp_all add: out_wrap_def algebra_simps)

text \<open>Into a buffer of \<open>n\<close> bytes, the characters whose index is below \<open>n\<close> are stored.\<close>

lemma emit_buffer:
  "unat idx + length cs < 2 ^ 64 \<Longrightarrow>
   snd (emit out_buffer b n cs (idx, m)) =
     (\<lambda>x. if idx \<le> x - b \<and> x - b < n \<and> unat (x - b) < unat idx + length cs
          then cs ! (unat (x - b) - unat idx) else m x)"
proof (induction cs arbitrary: idx m)
  case Nil
  show ?case by (rule ext) (auto simp: word_le_nat_alt)
next
  case (Cons c cs)
  have suc: "unat (idx + 1) = Suc (unat idx)" using Cons.prems by (simp add: unat_plus_if_size word_size)
  have IH: "snd (emit out_buffer b n cs (idx + 1, m')) =
     (\<lambda>x. if idx + 1 \<le> x - b \<and> x - b < n \<and> unat (x - b) < unat (idx + 1) + length cs
          then cs ! (unat (x - b) - unat (idx + 1)) else m' x)" for m'
    by (rule Cons.IH) (use Cons.prems suc in simp)
  show ?case
  proof
    fix x
    have at: "x = b + idx \<longleftrightarrow> unat (x - b) = unat idx"
      by (metis add_diff_cancel_left' diff_add_cancel add.commute word_unat_eq_iff)
    show "snd (emit out_buffer b n (c # cs) (idx, m)) x =
      (if idx \<le> x - b \<and> x - b < n \<and> unat (x - b) < unat idx + length (c # cs)
       then (c # cs) ! (unat (x - b) - unat idx) else m x)"
      by (auto simp: IH out_buffer_def suc at word_le_nat_alt word_less_nat_alt nth_Cons' )
  qed
qed

text \<open>A routine sends the characters \<open>cs\<close>, whatever the output function, the buffer, the index
  and the state are.\<close>

definition emits :: "('s out_fct \<Rightarrow> addr \<Rightarrow> u64 \<Rightarrow> u64 \<times> 's \<Rightarrow> u64 \<times> 's) \<Rightarrow> byte list \<Rightarrow> bool" where
  "emits R cs \<longleftrightarrow> (\<forall>out b n st. R out b n st = emit out b n cs st)"

text \<open>\<open>_ftoa\<close> may also throw the index away (it returns 0 for a value that is too large), so the
  general form of what a routine does is a sequence of characters sent and resets of the index.\<close>

datatype action = Put byte | Rewind

fun play :: "'s out_fct \<Rightarrow> addr \<Rightarrow> u64 \<Rightarrow> action list \<Rightarrow> u64 \<times> 's \<Rightarrow> u64 \<times> 's" where
  "play out buffer maxlen [] st = st"
| "play out buffer maxlen (Put c # as) (idx, s) =
     play out buffer maxlen as (idx + 1, out c buffer idx maxlen s)"
| "play out buffer maxlen (Rewind # as) (idx, s) = play out buffer maxlen as (0, s)"

lemma play_append [simp]:
  "play out b n (xs @ ys) st = play out b n ys (play out b n xs st)"
  by (induction out b n xs st rule: play.induct) simp_all

lemma play_Put [simp]: "play out b n (map Put cs) st = emit out b n cs st"
proof (induction cs arbitrary: st)
  case (Cons c cs)
  then show ?case by (cases st) simp
next
  case Nil
  then show ?case by (cases st) simp
qed

text \<open>What the C code does that has no defined result: it reads beyond the format, beyond the
  arguments or beyond its table of powers of ten, or scans for ever for the end of a string.\<close>

datatype pf_error = Format_overrun | Missing_argument | Pow10_out_of_range | Endless_string

section \<open>What an output function keeps\<close>

locale sink =
  fixes out :: "'s out_fct" and keeps :: "addr \<Rightarrow> u64 \<Rightarrow> 's \<Rightarrow> 's \<Rightarrow> bool"
  assumes keeps_refl: "keeps b n s s"
    and keeps_trans: "keeps b n s t \<Longrightarrow> keeps b n t u \<Longrightarrow> keeps b n s u"
    and keeps_out: "keeps b n s (out c b i n s)"
begin

lemma keeps_emit: "keeps b n s (snd (emit out b n cs (idx, s)))"
proof (induction cs arbitrary: idx s)
  case (Cons c cs)
  show ?case by (simp add: keeps_trans [OF keeps_out Cons.IH])
qed (simp add: keeps_refl)

lemma keeps_play: "keeps b n s (snd (play out b n as (idx, s)))"
proof (induction as arbitrary: idx s)
  case (Cons a as)
  show ?case
  proof (cases a)
    case (Put c)
    then show ?thesis by (simp add: keeps_trans [OF keeps_out Cons.IH])
  qed (simp add: Cons.IH)
qed (simp add: keeps_refl)

end

text \<open>The buffer functions write only the \<open>n\<close> bytes of the buffer; the null function nothing;
  the character functions only call \<open>_putchar\<close> or the given function with characters other
  than NUL.\<close>

definition writes_within :: "addr \<Rightarrow> u64 \<Rightarrow> mem \<Rightarrow> mem \<Rightarrow> bool" where
  "writes_within b n m m' \<longleftrightarrow> (\<forall>x. n \<le> x - b \<longrightarrow> m' x = m x)"

definition only_puts :: "(byte \<Rightarrow> 's \<Rightarrow> 's) \<Rightarrow> addr \<Rightarrow> u64 \<Rightarrow> 's \<Rightarrow> 's \<Rightarrow> bool" where
  "only_puts putc b n s s' \<longleftrightarrow> (\<exists>cs. 0 \<notin> set cs \<and> s' = fold putc cs s)"

interpretation buffer_sink: sink out_buffer writes_within
  by unfold_locales (auto simp: writes_within_def out_buffer_def not_less [symmetric])

interpretation null_sink: sink out_null "\<lambda>_ _. (=)"
  by unfold_locales (auto simp: out_null_def)

interpretation char_sink: sink "out_char putc" "only_puts putc" for putc
proof unfold_locales
  fix b n s c i
  show "only_puts putc b n s s"
    by (auto simp: only_puts_def intro: exI [of _ "[]"])
  show "only_puts putc b n s (out_char putc c b i n s)"
    by (auto simp: only_puts_def out_char_def intro: exI [of _ "[]"] exI [of _ "[c]"])
next
  fix b n s t u
  assume "only_puts putc b n s t" "only_puts putc b n t u"
  then obtain xs ys where "0 \<notin> set xs" "t = fold putc xs s" "0 \<notin> set ys" "u = fold putc ys t"
    unfolding only_puts_def by blast
  then show "only_puts putc b n s u"
    unfolding only_puts_def by (intro exI [of _ "xs @ ys"]) simp
qed

end
