(* ===== verification/Printf_Num.thy ===== *)
theory Printf_Num
  imports Printf_Out
begin

text \<open>
  The integer conversions of \<open>software/sdk/src/printf.c\<close>: \<open>_strnlen_s\<close>, \<open>_atoi\<close>, \<open>_ntoa_format\<close>,
  \<open>_ntoa_long\<close> and \<open>_ntoa_long_long\<close>. The conversion buffer \<open>buf\<close> of 32 bytes, of which the C
  code only uses the first \<open>len\<close>, is the list of those bytes: \<open>buf[len++] = c\<close> appends \<open>c\<close>.
\<close>

section \<open>Flags\<close>

definition FLAGS_ZEROPAD :: u32 where [c_const]: "FLAGS_ZEROPAD = 0x1"
definition FLAGS_LEFT :: u32 where [c_const]: "FLAGS_LEFT = 0x2"
definition FLAGS_PLUS :: u32 where [c_const]: "FLAGS_PLUS = 0x4"
definition FLAGS_SPACE :: u32 where [c_const]: "FLAGS_SPACE = 0x8"
definition FLAGS_HASH :: u32 where [c_const]: "FLAGS_HASH = 0x10"
definition FLAGS_UPPERCASE :: u32 where [c_const]: "FLAGS_UPPERCASE = 0x20"
definition FLAGS_CHAR :: u32 where [c_const]: "FLAGS_CHAR = 0x40"
definition FLAGS_SHORT :: u32 where [c_const]: "FLAGS_SHORT = 0x80"
definition FLAGS_LONG :: u32 where [c_const]: "FLAGS_LONG = 0x100"
definition FLAGS_LONG_LONG :: u32 where [c_const]: "FLAGS_LONG_LONG = 0x200"
definition FLAGS_PRECISION :: u32 where [c_const]: "FLAGS_PRECISION = 0x400"

definition NTOA_BUFFER_SIZE :: nat where [c_const]: "NTOA_BUFFER_SIZE = 32"

abbreviation flag_set :: "u32 \<Rightarrow> u32 \<Rightarrow> bool" where
  "flag_set flags f \<equiv> flags AND f \<noteq> 0"

section \<open>Reading strings and numbers\<close>

text \<open>\<open>for (s = str; *s && maxsize--; ++s)\<close>: the pointer \<open>s\<close> at which the loop stops.\<close>

function strnlen_end :: "mem \<Rightarrow> addr \<Rightarrow> u64 \<Rightarrow> addr" where
  "strnlen_end m s maxsize =
     (if m s \<noteq> 0 \<and> maxsize \<noteq> 0 then strnlen_end m (s + 1) (maxsize - 1) else s)"
  by pat_completeness auto
termination
  by (relation "measure (\<lambda>(m, s, maxsize). unat maxsize)") (auto dest!: unat_Suc_minus_one)

definition strnlen_s :: "mem \<Rightarrow> addr \<Rightarrow> u64 \<Rightarrow> u32" where
  "strnlen_s m str' maxsize = ucast (strnlen_end m str' maxsize - str')"

definition is_digit :: "byte \<Rightarrow> bool" where
  "is_digit c \<longleftrightarrow> ch CHR ''0'' \<le> c \<and> c \<le> ch CHR ''9''"

text \<open>The format is the list of its characters before the NUL; \<open>*format\<close> at its end is the NUL.\<close>

definition cur :: "byte list \<Rightarrow> byte" where
  "cur f = (case f of [] \<Rightarrow> 0 | c # _ \<Rightarrow> c)"

fun atoi_loop :: "byte list \<Rightarrow> u32 \<Rightarrow> u32 \<times> byte list" where
  "atoi_loop [] i = (i, [])"
| "atoi_loop (c # f) i =
     (if is_digit c then atoi_loop f (i * 10 + ucast (c - ch CHR ''0'')) else (i, c # f))"

definition atoi :: "byte list \<Rightarrow> u32 \<times> byte list" where
  "atoi f = atoi_loop f 0"

section \<open>\<open>_ntoa_format\<close>\<close>

text \<open>The loops that append zeros while \<open>len\<close> is below a bound and the buffer has room, given
  what room is left.\<close>

fun pad_zeros :: "nat \<Rightarrow> nat \<Rightarrow> byte list \<Rightarrow> byte list" where
  "pad_zeros 0 bound buf = buf"
| "pad_zeros (Suc room) bound buf =
     (if length buf < bound then pad_zeros room bound (buf @ [ch CHR ''0'']) else buf)"

abbreviation has_room :: "byte list \<Rightarrow> bool" where
  "has_room buf \<equiv> length buf < NTOA_BUFFER_SIZE"

definition sign_width :: "bool \<Rightarrow> u32 \<Rightarrow> u32 \<Rightarrow> u32" where
  "sign_width negative width flags =
     (if width \<noteq> 0 \<and> flag_set flags FLAGS_ZEROPAD \<and>
         (negative \<or> flag_set flags (FLAGS_PLUS OR FLAGS_SPACE))
      then width - 1 else width)"

definition ntoa_pad :: "bool \<Rightarrow> u32 \<Rightarrow> u32 \<Rightarrow> u32 \<Rightarrow> byte list \<Rightarrow> u32 \<times> byte list" where
  "ntoa_pad negative prec width flags buf =
     (if flag_set flags FLAGS_LEFT then (width, buf)
      else
        let width = sign_width negative width flags;
            buf = pad_zeros (NTOA_BUFFER_SIZE - length buf) (unat prec) buf;
            buf = (if flag_set flags FLAGS_ZEROPAD
                   then pad_zeros (NTOA_BUFFER_SIZE - length buf) (unat width) buf else buf)
        in (width, buf))"

definition ntoa_hash :: "u32 \<Rightarrow> u32 \<Rightarrow> u32 \<Rightarrow> u32 \<Rightarrow> byte list \<Rightarrow> byte list" where
  "ntoa_hash base prec width flags buf =
     (if flag_set flags FLAGS_HASH then
        let buf = (if \<not> flag_set flags FLAGS_PRECISION \<and> buf \<noteq> [] \<and>
                      (length buf = unat prec \<or> length buf = unat width)
                   then (let buf = butlast buf in
                         if buf \<noteq> [] \<and> base = 16 then butlast buf else buf)
                   else buf);
            buf = (if base = 16 \<and> \<not> flag_set flags FLAGS_UPPERCASE \<and> has_room buf
                   then buf @ [ch CHR ''x'']
                   else if base = 16 \<and> flag_set flags FLAGS_UPPERCASE \<and> has_room buf
                   then buf @ [ch CHR ''X'']
                   else if base = 2 \<and> has_room buf then buf @ [ch CHR ''b''] else buf)
        in (if has_room buf then buf @ [ch CHR ''0''] else buf)
      else buf)"

definition ntoa_sign :: "bool \<Rightarrow> u32 \<Rightarrow> byte list \<Rightarrow> byte list" where
  "ntoa_sign negative flags buf =
     (if has_room buf then
        (if negative then buf @ [ch CHR ''-'']
         else if flag_set flags FLAGS_PLUS then buf @ [ch CHR ''+'']
         else if flag_set flags FLAGS_SPACE then buf @ [ch CHR '' ''] else buf)
      else buf)"

text \<open>\<open>for (size_t i = len; i < width; i++) out(' ', buffer, idx++, maxlen)\<close>.\<close>

function pad_spaces :: "'s out_fct \<Rightarrow> addr \<Rightarrow> u64 \<Rightarrow> u64 \<Rightarrow> u64 \<Rightarrow> u64 \<times> 's \<Rightarrow> u64 \<times> 's" where
  "pad_spaces out buffer maxlen i width (idx, s) =
     (if i < width
      then pad_spaces out buffer maxlen (i + 1) width
             (idx + 1, out (ch CHR '' '') buffer idx maxlen s)
      else (idx, s))"
  by pat_completeness auto
termination
  by (relation "measure (\<lambda>(out, b, n, i, width, st). unat (width - i))")
     (auto dest: word64_less_step)

text \<open>\<open>for (i = 0; i < len; i++) out(buf[len - i - 1], buffer, idx++, maxlen)\<close>.\<close>

fun out_reversed :: "'s out_fct \<Rightarrow> addr \<Rightarrow> u64 \<Rightarrow> byte list \<Rightarrow> nat \<Rightarrow> u64 \<times> 's \<Rightarrow> u64 \<times> 's" where
  "out_reversed out buffer maxlen buf 0 (idx, s) = (idx, s)"
| "out_reversed out buffer maxlen buf (Suc k) (idx, s) =
     out_reversed out buffer maxlen buf k (idx + 1, out (buf ! k) buffer idx maxlen s)"

text \<open>\<open>while (idx - start_idx < width) out(' ', buffer, idx++, maxlen)\<close>.\<close>

function pad_after :: "'s out_fct \<Rightarrow> addr \<Rightarrow> u64 \<Rightarrow> u64 \<Rightarrow> u32 \<Rightarrow> u64 \<times> 's \<Rightarrow> u64 \<times> 's" where
  "pad_after out buffer maxlen start_idx width (idx, s) =
     (if idx - start_idx < ucast width
      then pad_after out buffer maxlen start_idx width
             (idx + 1, out (ch CHR '' '') buffer idx maxlen s)
      else (idx, s))"
  by pat_completeness auto

termination pad_after
proof (relation "measure (\<lambda>(out, b, n, start_idx, width, idx, s). unat (ucast width - (idx - start_idx)))")
  fix out :: "'s out_fct" and b n start_idx idx :: "64 word" and width :: u32 and s
  assume "idx - start_idx < ucast width"
  from word64_less_step [OF this]
  show "((out, b, n, start_idx, width, idx + 1, out (ch CHR '' '') b idx n s), out, b, n, start_idx, width, idx, s)
        \<in> measure (\<lambda>(out, b, n, start_idx, width, idx, s). unat (ucast width - (idx - start_idx)))"
    by (simp add: algebra_simps)
qed simp

text \<open>The end of \<open>_ntoa_format\<close>, and word for word of \<open>_ftoa\<close>: the spaces before, the reversed
  buffer, the spaces after.\<close>

definition out_field :: "'s out_fct \<Rightarrow> addr \<Rightarrow> u64 \<Rightarrow> byte list \<Rightarrow> u32 \<Rightarrow> u32 \<Rightarrow> u64 \<times> 's \<Rightarrow> u64 \<times> 's" where
  "out_field out buffer maxlen buf width flags = (\<lambda>(idx, s).
     let start_idx = idx;
         st = (if \<not> flag_set flags FLAGS_LEFT \<and> \<not> flag_set flags FLAGS_ZEROPAD
               then pad_spaces out buffer maxlen (of_nat (length buf)) (ucast width) (idx, s)
               else (idx, s));
         st = out_reversed out buffer maxlen buf (length buf) st
     in (if flag_set flags FLAGS_LEFT then pad_after out buffer maxlen start_idx width st else st))"

definition ntoa_format :: "'s out_fct \<Rightarrow> addr \<Rightarrow> u64 \<Rightarrow> byte list \<Rightarrow> bool \<Rightarrow> u32 \<Rightarrow> u32 \<Rightarrow> u32 \<Rightarrow>
    u32 \<Rightarrow> u64 \<times> 's \<Rightarrow> u64 \<times> 's" where
  "ntoa_format out buffer maxlen buf negative base prec width flags st =
     (let (width, buf) = ntoa_pad negative prec width flags buf;
          buf = ntoa_sign negative flags (ntoa_hash base prec width flags buf)
      in out_field out buffer maxlen buf width flags st)"

section \<open>\<open>_ntoa_long\<close> and \<open>_ntoa_long_long\<close>\<close>

definition digit_char :: "u32 \<Rightarrow> byte \<Rightarrow> byte" where
  "digit_char flags digit =
     (if digit < 10 then ch CHR ''0'' + digit
      else (if flag_set flags FLAGS_UPPERCASE then ch CHR ''A'' else ch CHR ''a'') + digit - 10)"

text \<open>The \<open>do ... while (value && len < 32)\<close> loop; \<open>room\<close> is what is left of the buffer before
  the body's write.\<close>

fun ntoa_digits :: "nat \<Rightarrow> u64 \<Rightarrow> u64 \<Rightarrow> u32 \<Rightarrow> byte list \<Rightarrow> byte list" where
  "ntoa_digits 0 value base flags buf = buf"
| "ntoa_digits (Suc room) value base flags buf =
     (let buf = buf @ [digit_char flags (ucast (value mod base))];
          value = value div base
      in if value \<noteq> 0 then ntoa_digits room value base flags buf else buf)"

definition ntoa_long :: "'s out_fct \<Rightarrow> addr \<Rightarrow> u64 \<Rightarrow> u64 \<Rightarrow> bool \<Rightarrow> u64 \<Rightarrow> u32 \<Rightarrow> u32 \<Rightarrow> u32 \<Rightarrow>
    u64 \<times> 's \<Rightarrow> u64 \<times> 's" where
  "ntoa_long out buffer maxlen value negative base prec width flags st =
     (let flags = (if value = 0 then flags AND NOT FLAGS_HASH else flags);
          buf = (if \<not> flag_set flags FLAGS_PRECISION \<or> value \<noteq> 0
                 then ntoa_digits NTOA_BUFFER_SIZE value base flags [] else [])
      in ntoa_format out buffer maxlen buf negative (ucast base) prec width flags st)"

text \<open>\<open>unsigned long long\<close> has the width of \<open>unsigned long\<close> on this target and the body is the
  same text.\<close>

definition ntoa_long_long :: "'s out_fct \<Rightarrow> addr \<Rightarrow> u64 \<Rightarrow> u64 \<Rightarrow> bool \<Rightarrow> u64 \<Rightarrow> u32 \<Rightarrow> u32 \<Rightarrow> u32 \<Rightarrow>
    u64 \<times> 's \<Rightarrow> u64 \<times> 's" where
  "ntoa_long_long out buffer maxlen value negative base prec width flags st =
     (let flags = (if value = 0 then flags AND NOT FLAGS_HASH else flags);
          buf = (if \<not> flag_set flags FLAGS_PRECISION \<or> value \<noteq> 0
                 then ntoa_digits NTOA_BUFFER_SIZE value base flags [] else [])
      in ntoa_format out buffer maxlen buf negative (ucast base) prec width flags st)"


declare pad_spaces.simps [simp del] pad_after.simps [simp del] strnlen_end.simps [simp del]

section \<open>The text that a conversion emits\<close>

lemma pad_spaces_emit:
  "pad_spaces out b n i width st = emit out b n (replicate (unat width - unat i) (ch CHR '' '')) st"
proof (induction out b n i width st rule: pad_spaces.induct)
  case (1 out b n i width idx s)
  show ?case
  proof (cases "i < width")
    case True
    then have "unat width - unat i = Suc (unat width - unat (i + 1))"
      by (simp add: word_less_nat_alt word64_Suc [OF True] Suc_diff_Suc)
    then show ?thesis using True 1 by (subst pad_spaces.simps) simp
  qed (subst pad_spaces.simps, simp add: word_less_nat_alt)
qed

lemma out_reversed_emit:
  "k \<le> length buf \<Longrightarrow> out_reversed out b n buf k st = emit out b n (rev (take k buf)) st"
proof (induction k arbitrary: st)
  case 0
  show ?case by (cases st) simp
next
  case (Suc k)
  then show ?case by (cases st) (simp add: take_Suc_conv_app_nth)
qed

lemma pad_after_emit:
  "pad_after out b n start width (idx, s) =
     emit out b n (replicate (unat width - unat (idx - start)) (ch CHR '' '')) (idx, s)"
proof (induction out b n start width "(idx, s)" arbitrary: idx s rule: pad_after.induct)
  case (1 out b n start width idx s)
  show ?case
  proof (cases "idx - start < ucast width")
    case True
    then have lt: "unat (idx - start) < unat width"
      by (simp add: word_less_nat_alt)
    have "idx + 1 - start = idx - start + 1" by simp
    then have "unat (idx + 1 - start) = Suc (unat (idx - start))"
      by (simp only: word64_Suc [OF True])
    then have "unat width - unat (idx - start) = Suc (unat width - unat (idx + 1 - start))"
      using lt by (simp only: Suc_diff_Suc)
    then show ?thesis using True 1 by (subst pad_after.simps) simp
  qed (subst pad_after.simps, simp add: word_less_nat_alt)
qed

text \<open>The text of \<open>_ntoa_format\<close>, and of \<open>_ntoa_long\<close> from the value.\<close>

definition field_text :: "byte list \<Rightarrow> u32 \<Rightarrow> u32 \<Rightarrow> byte list" where
  "field_text buf width flags =
     (let spaces = replicate (unat width - length buf) (ch CHR '' '')
      in if flag_set flags FLAGS_LEFT then rev buf @ spaces
         else if flag_set flags FLAGS_ZEROPAD then rev buf
         else spaces @ rev buf)"

definition ntoa_text :: "byte list \<Rightarrow> bool \<Rightarrow> u32 \<Rightarrow> u32 \<Rightarrow> u32 \<Rightarrow> u32 \<Rightarrow> byte list" where
  "ntoa_text buf negative base prec width flags =
     (let (width, buf) = ntoa_pad negative prec width flags buf;
          buf = ntoa_sign negative flags (ntoa_hash base prec width flags buf)
      in field_text buf width flags)"

definition int_text :: "u64 \<Rightarrow> bool \<Rightarrow> u64 \<Rightarrow> u32 \<Rightarrow> u32 \<Rightarrow> u32 \<Rightarrow> byte list" where
  "int_text value negative base prec width flags =
     (let flags = (if value = 0 then flags AND NOT FLAGS_HASH else flags);
          buf = (if \<not> flag_set flags FLAGS_PRECISION \<or> value \<noteq> 0
                 then ntoa_digits NTOA_BUFFER_SIZE value base flags [] else [])
      in ntoa_text buf negative (ucast base) prec width flags)"

lemma pad_zeros_eq:
  "pad_zeros room bound buf = buf @ replicate (min room (bound - length buf)) (ch CHR ''0'')"
proof (induction room bound buf rule: pad_zeros.induct)
  case (2 room bound buf)
  show ?case
  proof (cases "length buf < bound")
    case True
    then have "bound - length buf = Suc (bound - Suc (length buf))" by simp
    then show ?thesis using 2 True by simp
  qed simp
qed simp

lemma pad_zeros_length:
  "length (pad_zeros room bound buf) = length buf + min room (bound - length buf)"
  by (simp add: pad_zeros_eq)

lemma pad_zeros_fit:
  assumes "length buf \<le> 32"
  shows "length buf \<le> length (pad_zeros (32 - length buf) bound buf)"
    and "length (pad_zeros (32 - length buf) bound buf) \<le> 32"
  using assms by (simp_all add: pad_zeros_length)

lemma ntoa_pad_length:
  assumes "length buf \<le> 32" and "ntoa_pad negative prec width flags buf = (w, buf')"
  shows "length buf \<le> length buf'" and "length buf' \<le> 32"
  using assms pad_zeros_fit [OF assms(1), of "unat prec"]
    pad_zeros_fit [OF pad_zeros_fit(2) [OF assms(1), of "unat prec"]]
  unfolding ntoa_pad_def Let_def NTOA_BUFFER_SIZE_def
  by (auto split: if_splits intro: order_trans)

lemma ntoa_hash_length:
  assumes "length buf \<le> 32"
  shows "length buf \<le> length (ntoa_hash base prec width flags buf)"
    and "length (ntoa_hash base prec width flags buf) \<le> 32"
  using assms by (auto simp: ntoa_hash_def NTOA_BUFFER_SIZE_def Let_def butlast_eq_Nil)

lemma ntoa_sign_length:
  assumes "length buf \<le> 32"
  shows "length buf \<le> length (ntoa_sign negative flags buf)"
    and "length (ntoa_sign negative flags buf) \<le> 32"
  using assms by (auto simp: ntoa_sign_def NTOA_BUFFER_SIZE_def)

lemma ntoa_digits_length:
  "length buf \<le> length (ntoa_digits room v base flags buf) \<and>
   length (ntoa_digits room v base flags buf) \<le> length buf + room"
proof (induction room v base flags buf rule: ntoa_digits.induct)
  case (2 room v base flags buf)
  then show ?case by (auto simp: Let_def dest: Suc_leD)
qed simp

lemmas conversion_lengths = ntoa_pad_length ntoa_hash_length ntoa_sign_length

lemma out_field_emit:
  assumes "length buf \<le> 32"
  shows "out_field out b n buf w flags st = emit out b n (field_text buf w flags) st"
proof -
  obtain idx s where st: "st = (idx, s)" by fastforce
  have l64: "unat (of_nat (length buf) :: u64) = length buf" using assms by simp
  have after: "pad_after out b n idx w (emit out b n (rev buf) (idx, s)) =
      emit out b n (rev buf @ replicate (unat w - length buf) (ch CHR '' '')) (idx, s)"
    using emit_eq_pair [of out b n "rev buf" idx s]
    by (metis pad_after_emit add_diff_cancel_left' length_rev l64 emit_append)
  show ?thesis
    unfolding out_field_def field_text_def
    by (simp add: st Let_def out_reversed_emit pad_spaces_emit after l64)
qed

lemma ntoa_format_emit:
  assumes "length buf \<le> 32"
  shows "ntoa_format out b n buf negative base prec width flags st =
         emit out b n (ntoa_text buf negative base prec width flags) st"
proof -
  obtain w buf1 where pad: "ntoa_pad negative prec width flags buf = (w, buf1)" by fastforce
  have "length (ntoa_sign negative flags (ntoa_hash base prec w flags buf1)) \<le> 32"
    by (intro ntoa_sign_length ntoa_hash_length ntoa_pad_length [OF assms pad])
  then show ?thesis by (simp add: ntoa_format_def ntoa_text_def pad Let_def out_field_emit)
qed

lemma ntoa_long_emit:
  "ntoa_long out b n value negative base prec width flags st =
     emit out b n (int_text value negative base prec width flags) st"
proof -
  have "length (ntoa_digits NTOA_BUFFER_SIZE value base f []) \<le> 32" for f
    using ntoa_digits_length [where room = NTOA_BUFFER_SIZE and buf = "[]"] by (simp add: NTOA_BUFFER_SIZE_def)
  then show ?thesis by (simp add: ntoa_long_def int_text_def Let_def ntoa_format_emit)
qed

lemma ntoa_long_long_emit:
  "ntoa_long_long out b n value negative base prec width flags st =
     emit out b n (int_text value negative base prec width flags) st"
  by (simp add: ntoa_long_emit [symmetric] ntoa_long_def ntoa_long_long_def)


section \<open>Digits\<close>

text \<open>Reading a numeral back: the value of a digit character and of a most-significant-first
  list of them.\<close>

definition digit_value :: "byte \<Rightarrow> nat" where
  "digit_value c =
     (if is_digit c then unat (c - ch CHR ''0'')
      else if ch CHR ''a'' \<le> c then unat (c - ch CHR ''a'') + 10
      else unat (c - ch CHR ''A'') + 10)"

definition value_of :: "nat \<Rightarrow> byte list \<Rightarrow> nat" where
  "value_of base cs = foldl (\<lambda>a c. a * base + digit_value c) 0 cs"

lemma value_of_snoc [simp]: "value_of base (cs @ [c]) = value_of base cs * base + digit_value c"
  by (simp add: value_of_def)

lemma value_of_Nil [simp]: "value_of base [] = 0"
  by (simp add: value_of_def)

lemma byte_below_16:
  assumes "(d :: byte) < 16"
  shows "d \<in> {0, 1, 2, 3, 4, 5, 6, 7, 8, 9, 10, 11, 12, 13, 14, 15}"
proof -
  have "x \<in> {0, 1, 2, 3, 4, 5, 6, 7, 8, 9, 10, 11, 12, 13, 14, 15}" if "x < 16" for x :: nat
    using that by (simp only: insert_iff empty_iff) presburger
  from this [of "unat d"] show ?thesis using assms by (simp add: word_less_nat_alt word_unat_eq_iff)
qed

lemma digit_value_char: "d < 16 \<Longrightarrow> digit_value (digit_char flags d) = unat d"
  by (drule byte_below_16) (elim insertE emptyE; simp add: digit_value_def digit_char_def is_digit_def)

lemma digit_char_decimal: "d < 10 \<Longrightarrow> is_digit (digit_char flags d)"
  using unsigned_less [of d, where ?'a = nat]
  by (simp add: digit_char_def is_digit_def word_less_nat_alt word_le_nat_alt unat_plus_if_size word_size)

lemma ntoa_digits_acc:
  "ntoa_digits room v base flags buf = buf @ ntoa_digits room v base flags []"
proof (induction room arbitrary: v buf)
  case (Suc room)
  show ?case
    using Suc [of "v div base" "buf @ [digit_char flags (ucast (v mod base))]"]
      Suc [of "v div base" "[digit_char flags (ucast (v mod base))]"]
    by (simp add: Let_def)
qed simp

lemma ntoa_digits_Suc:
  "ntoa_digits (Suc room) v base flags [] =
     digit_char flags (ucast (v mod base)) #
       (if v div base = 0 then [] else ntoa_digits room (v div base) base flags [])"
  by (simp add: Let_def ntoa_digits_acc [of room _ _ _ "[_]"])

declare ntoa_digits.simps(2) [simp del]

lemma digit_of_mod:
  assumes "2 \<le> base" and "base \<le> (16 :: u64)"
  shows "(ucast (v mod base) :: byte) < 16" and "unat (ucast (v mod base) :: byte) = unat v mod unat base"
proof -
  have "unat base \<le> 16" "0 < unat base" using assms by (auto simp: word_le_nat_alt)
  then have lt: "unat v mod unat base < 16" by (meson mod_less_divisor less_le_trans)
  have "unat (ucast (v mod base) :: byte) = take_bit 8 (unat v mod unat base)"
    by (simp add: unsigned_ucast_eq unat_mod)
  also have "\<dots> = unat v mod unat base" using lt by (simp add: take_bit_nat_eq_self)
  finally show *: "unat (ucast (v mod base) :: byte) = unat v mod unat base" .
  show "(ucast (v mod base) :: byte) < 16" using * lt by (simp add: word_less_nat_alt)
qed

lemma value_of_ntoa_digits:
  assumes "2 \<le> base" and "base \<le> 16"
  shows "value_of (unat base) (rev (ntoa_digits room v base flags [])) = unat v mod unat base ^ room"
proof (induction room arbitrary: v)
  case (Suc room)
  have "unat v mod unat base ^ Suc room =
      unat base * (unat (v div base) mod unat base ^ room) + unat v mod unat base"
    by (simp add: mod_mult2_eq unat_div)
  then show ?case using Suc [of "v div base"]
    by (simp add: ntoa_digits_Suc digit_value_char digit_of_mod [OF assms] algebra_simps
        unat_eq_0 [symmetric] del: unat_eq_0)
qed simp

lemma ntoa_digits_decimal: "c \<in> set (ntoa_digits room v 10 flags []) \<Longrightarrow> is_digit c"
proof (induction room arbitrary: v)
  case (Suc room)
  have "(ucast (v mod 10) :: byte) < 10"
    using digit_of_mod(2) [of 10 v] by (simp add: word_less_nat_alt)
  then show ?case using Suc by (auto simp: ntoa_digits_Suc digit_char_decimal split: if_splits)
qed simp



section \<open>Plain numerals and field widths\<close>

lemma int_text_plain: "int_text v False base 0 0 0 = rev (ntoa_digits 32 v base 0 [])"
  by (simp add: int_text_def ntoa_text_def field_text_def ntoa_pad_def ntoa_hash_def ntoa_sign_def sign_width_def
      Let_def NTOA_BUFFER_SIZE_def pad_zeros_eq)

lemma atoi_loop_digits:
  "(\<And>c. c \<in> set cs \<Longrightarrow> is_digit c) \<Longrightarrow> \<not> is_digit (cur rest) \<Longrightarrow>
   atoi_loop (cs @ rest) (of_nat x) = (of_nat (foldl (\<lambda>a c. a * 10 + digit_value c) x cs), rest)"
proof (induction cs arbitrary: x)
  case Nil
  then show ?case by (cases rest) (auto simp: cur_def)
next
  case (Cons c cs)
  have "ucast (c - ch CHR ''0'') = (of_nat (digit_value c) :: u32)"
    using Cons.prems(1) [of c] by (simp add: digit_value_def) 
  then have "of_nat x * 10 + ucast (c - ch CHR ''0'') = (of_nat (x * 10 + digit_value c) :: u32)" by simp
  then show ?case using Cons.prems Cons.IH [of "x * 10 + digit_value c"] by simp
qed

text \<open>The field is as wide as asked, with
  spaces up to any width and with zeros up to the 32 bytes of the buffer.\<close>

lemma sign_width_le: "unat (sign_width negative width flags) \<le> unat width"
  by (auto simp: sign_width_def unat_minus_one)

lemma ntoa_pad_width:
  assumes "length buf \<le> 32" and "ntoa_pad negative prec width flags buf = (w, buf')"
  shows "flag_set flags FLAGS_LEFT \<Longrightarrow> w = width"
    and "\<not> flag_set flags FLAGS_LEFT \<Longrightarrow> w = sign_width negative width flags"
    and "\<not> flag_set flags FLAGS_LEFT \<Longrightarrow> flag_set flags FLAGS_ZEROPAD \<Longrightarrow> min 32 (unat w) \<le> length buf'"
proof -
  show "\<not> flag_set flags FLAGS_LEFT \<Longrightarrow> flag_set flags FLAGS_ZEROPAD \<Longrightarrow> min 32 (unat w) \<le> length buf'"
    using assms pad_zeros_fit [OF assms(1), of "unat prec"]
    by (auto simp: ntoa_pad_def Let_def NTOA_BUFFER_SIZE_def pad_zeros_length
        [of _ _ "pad_zeros _ _ _"])
qed (use assms in \<open>auto simp: ntoa_pad_def Let_def\<close>)

lemma field_text_length:
  "length (field_text buf w flags) =
     (if flag_set flags FLAGS_LEFT \<or> \<not> flag_set flags FLAGS_ZEROPAD
      then max (length buf) (unat w) else length buf)"
  by (simp add: field_text_def Let_def max_def)

lemma ntoa_text_length:
  assumes "length buf \<le> 32"
  shows "length buf \<le> length (ntoa_text buf negative base prec width flags)"
    and "length (ntoa_text buf negative base prec width flags) \<le> max 32 (unat width)"
    and "\<not> flag_set flags FLAGS_ZEROPAD \<or> flag_set flags FLAGS_LEFT \<or> unat width \<le> 32 \<Longrightarrow>
      unat width \<le> length (ntoa_text buf negative base prec width flags)"
proof -
  obtain w buf1 where pad: "ntoa_pad negative prec width flags buf = (w, buf1)" by fastforce
  define buf2 where "buf2 = ntoa_hash base prec w flags buf1"
  define buf3 where "buf3 = ntoa_sign negative flags buf2"
  have len1: "length buf \<le> length buf1" "length buf1 \<le> 32" by (rule ntoa_pad_length [OF assms pad])+
  have len2: "length buf1 \<le> length buf2" "length buf2 \<le> 32"
    unfolding buf2_def using ntoa_hash_length [OF len1(2)] by blast+
  have len3: "length buf2 \<le> length buf3" "length buf3 \<le> 32"
    unfolding buf3_def using ntoa_sign_length [OF len2(2)] by blast+
  have w: "unat w \<le> unat width" using ntoa_pad_width(1,2) [OF assms pad] sign_width_le by (metis order_refl)
  have total: "length (ntoa_text buf negative base prec width flags) =
     (if flag_set flags FLAGS_LEFT \<or> \<not> flag_set flags FLAGS_ZEROPAD
      then max (length buf3) (unat w) else length buf3)"
    by (simp add: ntoa_text_def pad buf2_def [symmetric] buf3_def [symmetric] Let_def field_text_length)
  show "length buf \<le> length (ntoa_text buf negative base prec width flags)"
    using len1 len2 len3 by (simp add: total le_max_iff_disj)
  show "length (ntoa_text buf negative base prec width flags) \<le> max 32 (unat width)"
    using len3 w by (auto simp: total max_def)
  show "unat width \<le> length (ntoa_text buf negative base prec width flags)"
    if h: "\<not> flag_set flags FLAGS_ZEROPAD \<or> flag_set flags FLAGS_LEFT \<or> unat width \<le> 32"
  proof (cases "flag_set flags FLAGS_LEFT \<or> \<not> flag_set flags FLAGS_ZEROPAD")
    case True
    then have "w = width" using ntoa_pad_width(1,2) [OF assms pad] by (auto simp: sign_width_def)
    then show ?thesis using True by (simp add: total)
  next
    case False
    then have sw: "w = sign_width negative width flags" and "min 32 (unat w) \<le> length buf1"
      using ntoa_pad_width(2,3) [OF assms pad] by auto
    then have wb: "unat w \<le> length buf2" using h False w len2 by linarith
    show ?thesis
    proof (cases "w = width")
      case True
      then show ?thesis using wb len3 False by (simp add: total)
    next
      case less: False
      then have "Suc (unat w) = unat width" "negative \<or> flag_set flags FLAGS_PLUS \<or> flag_set flags FLAGS_SPACE"
        using sw by (auto simp: sign_width_def unat_Suc_minus_one bit.conj_disj_distrib split: if_splits)
      then have "unat width \<le> length buf3"
        using wb len2 h False unfolding buf3_def ntoa_sign_def NTOA_BUFFER_SIZE_def by auto
      then show ?thesis using False by (simp add: total)
    qed
  qed
qed

lemma int_text_length:
  shows "length (int_text v negative base prec width flags) \<le> max 32 (unat width)"
    and "\<not> flag_set flags FLAGS_ZEROPAD \<or> flag_set flags FLAGS_LEFT \<or> unat width \<le> 32 \<Longrightarrow>
      unat width \<le> length (int_text v negative base prec width flags)"
proof -
  have "length (ntoa_digits NTOA_BUFFER_SIZE v base f []) \<le> 32" for f
    using ntoa_digits_length [where room = NTOA_BUFFER_SIZE and buf = "[]"] by (simp add: NTOA_BUFFER_SIZE_def)
  then have len: "length (if b then ntoa_digits NTOA_BUFFER_SIZE v base f [] else []) \<le> 32" for b f by simp
  have keep: "flag_set (flags AND NOT FLAGS_HASH) f \<longleftrightarrow> flag_set flags f"
    if "f = FLAGS_ZEROPAD \<or> f = FLAGS_LEFT" for f
  proof -
    have "NOT FLAGS_HASH AND f = f" using that by (auto simp: c_const)
    then show ?thesis by (simp add: word_bw_assocs)
  qed
  show "length (int_text v negative base prec width flags) \<le> max 32 (unat width)"
    unfolding int_text_def Let_def by (rule ntoa_text_length(2) [OF len])
  assume "\<not> flag_set flags FLAGS_ZEROPAD \<or> flag_set flags FLAGS_LEFT \<or> unat width \<le> 32"
  then show "unat width \<le> length (int_text v negative base prec width flags)"
    unfolding int_text_def Let_def by (intro ntoa_text_length(3) [OF len]) (use keep [of FLAGS_ZEROPAD] keep [of FLAGS_LEFT] in auto)
qed

section \<open>Properties\<close>

text \<open>C4. \<open>_ntoa_long\<close> without flags sends every sink the same digits, and they read back, in
  the base, as the value modulo \<open>base ^ 32\<close>: exactly the value for the bases 8, 10 and 16, and
  its low 32 bits in base 2, where the 32-byte buffer cuts the numeral.\<close>

theorem ntoa_long_value:
  assumes "2 \<le> base" and "base \<le> 16"
  shows "\<exists>cs. emits (\<lambda>out b n. ntoa_long out b n v False base 0 0 0) cs \<and>
              value_of (unat base) cs = unat v mod unat base ^ 32"
  by (intro exI [of _ "int_text v False base 0 0 0"])
     (simp add: emits_def ntoa_long_emit int_text_plain value_of_ntoa_digits [OF assms])

theorem ntoa_long_value_witness:
  "\<exists>cs. emits (\<lambda>out b n. ntoa_long (out :: unit out_fct) b n 0x123456789 False 2 0 0 0) cs \<and>
        value_of 2 cs = 0x23456789"
  using ntoa_long_value [where base = 2 and v = "0x123456789"] by simp

text \<open>A conversion with a field width sends at least that many characters, unless it pads
  with zeros beyond the 32 bytes of the buffer, and never more than the larger of 32 and the
  width.\<close>

theorem ntoa_long_width:
  "\<exists>cs. emits (\<lambda>out b n. ntoa_long out b n v negative base prec width flags) cs \<and>
        length cs \<le> max 32 (unat width) \<and>
        (flags AND FLAGS_ZEROPAD = 0 \<or> flags AND FLAGS_LEFT \<noteq> 0 \<or> unat width \<le> 32 \<longrightarrow>
         unat width \<le> length cs)"
  using int_text_length [where v = v and negative = negative and base = base and prec = prec and width = width and flags = flags]
  by (intro exI [of _ "int_text v negative base prec width flags"]) (simp add: emits_def ntoa_long_emit)

theorem ntoa_long_width_witness:
  "\<exists>cs. emits (\<lambda>out b n. ntoa_long (out :: unit out_fct) b n 7 True 10 0 40 FLAGS_LEFT) cs \<and> length cs = 40"
proof -
  have "FLAGS_LEFT AND FLAGS_ZEROPAD = 0" by (simp add: c_const)
  then show ?thesis using ntoa_long_width [where v = 7 and negative = True and base = 10 and prec = 0 and width = 40 and flags = FLAGS_LEFT] by fastforce
qed

text \<open>C22. What \<open>_ntoa_long\<close> prints in decimal, \<open>_atoi\<close> reads back: the whole numeral is
  consumed, and the result is the value truncated to \<open>unsigned int\<close>.\<close>

theorem atoi_ntoa_long:
  assumes "\<not> is_digit (cur rest)"
  shows "\<exists>cs. emits (\<lambda>out b n. ntoa_long out b n v False 10 0 0 0) cs \<and>
              atoi (cs @ rest) = (ucast v, rest)"
proof -
  have "unat v mod 10 ^ 32 = unat v" by (simp add: less_trans [OF unat_lt64])
  then have "value_of 10 (rev (ntoa_digits 32 v 10 0 [])) = unat v"
    using value_of_ntoa_digits [where base = 10 and room = 32 and v = v and flags = 0] by simp
  moreover have "atoi (rev (ntoa_digits 32 v 10 0 []) @ rest) =
      (of_nat (value_of 10 (rev (ntoa_digits 32 v 10 0 []))), rest)"
    using atoi_loop_digits [of "rev (ntoa_digits 32 v 10 0 [])" rest 0] assms
    by (auto simp: atoi_def value_of_def dest: ntoa_digits_decimal)
  moreover have "of_nat (unat v) = (ucast v :: u32)" by simp
  ultimately show ?thesis
    by (intro exI [of _ "int_text v False 10 0 0 0"]) (simp add: emits_def ntoa_long_emit int_text_plain)
qed

theorem atoi_ntoa_long_witness:
  "\<exists>cs. emits (\<lambda>out b n. ntoa_long (out :: unit out_fct) b n 2026 False 10 0 0 0) cs \<and>
        atoi (cs @ str ''px'') = (2026, str ''px'')"
  using atoi_ntoa_long [where rest = "str ''px''" and v = 2026] by (simp add: cur_def is_digit_def)

end
