(* ===== verification/Printf_Ftoa.thy ===== *)
theory Printf_Ftoa
  imports Printf_Num
begin

text \<open>
  The floating point conversion \<open>_ftoa\<close> of \<open>software/sdk/src/printf.c\<close>. A \<open>double\<close> argument is
  decoded from its 64 bits into an exact dyadic rational. Of the floating point operations of the
  code only the multiplication by the power of ten rounds (to nearest, ties to even): the
  subtraction of the integer part, the differences that are compared with 0.5 and the
  conversions are exact for the values that pass the range check.
\<close>

section \<open>Doubles\<close>

text \<open>\<open>Fin m k\<close> is the number \<open>m / 2 ^ k\<close>.\<close>

datatype dbl = NaN | Inf bool | Fin int nat

definition decode_double :: "u64 \<Rightarrow> dbl" where
  "decode_double v =
     (let e = unat (drop_bit 52 v AND 0x7FF);
          f = uint (v AND 0xFFFFFFFFFFFFF);
          sign = bit v 63
      in if e = 0x7FF then (if f = 0 then Inf sign else NaN)
         else
           let m = (if e = 0 then f else f + 2 ^ 52);
               m = (if e > 1075 then m * 2 ^ (e - 1075) else m);
               k = (if e = 0 then 1074 else 1075 - e)
           in Fin (if sign then - m else m) k)"

text \<open>Rounding to 53 significant bits, to nearest, ties to even.\<close>

function shift53 :: "nat \<Rightarrow> nat" where
  "shift53 n = (if n < 2 ^ 53 then 0 else Suc (shift53 (n div 2)))"
  by pat_completeness auto
termination by (relation "measure id") auto

declare shift53.simps [simp del]

definition round53 :: "nat \<Rightarrow> nat" where
  "round53 n =
     (let s = shift53 n; q = n div 2 ^ s; r = n mod 2 ^ s
      in (if 2 * r > 2 ^ s \<or> 2 * r = 2 ^ s \<and> odd q then q + 1 else q) * 2 ^ s)"

section \<open>\<open>_ftoa\<close>\<close>

text \<open>The precision loop: \<open>while (len < 32 && prec > 9) { buf[len++] = '0'; prec--; }\<close>.\<close>

fun prec_zeros :: "nat \<Rightarrow> u32 \<Rightarrow> byte list \<Rightarrow> u32 \<times> byte list" where
  "prec_zeros 0 prec buf = (prec, buf)"
| "prec_zeros (Suc room) prec buf =
     (if prec > 9 then prec_zeros room (prec - 1) (buf @ [ch CHR ''0'']) else (prec, buf))"

text \<open>\<open>whole\<close> and \<open>frac\<close> for the value \<open>m / 2 ^ k\<close>, rounded as the code does.\<close>

definition ftoa_scale :: "nat \<Rightarrow> nat \<Rightarrow> nat \<Rightarrow> nat \<times> nat" where
  "ftoa_scale m k prec =
     (let whole = m div 2 ^ k;
          tmp = round53 ((m mod 2 ^ k) * 10 ^ prec);
          frac = tmp div 2 ^ k;
          diff = tmp mod 2 ^ k
      in if 2 * diff > 2 ^ k then
           (if frac + 1 \<ge> 10 ^ prec then (whole + 1, 0) else (whole, frac + 1))
         else if 2 * diff < 2 ^ k then (whole, frac)
         else if frac = 0 \<or> odd frac then (whole, frac + 1)
         else (whole, frac))"

text \<open>With precision 0 the value is rounded half to even.\<close>

definition ftoa_whole :: "nat \<Rightarrow> nat \<Rightarrow> nat \<Rightarrow> nat" where
  "ftoa_whole m k whole =
     (if \<not> 2 * m < (2 * whole + 1) * 2 ^ k \<and> odd whole then whole + 1 else whole)"

text \<open>The digits of the fraction, least significant first; \<open>count\<close> wraps as an \<open>unsigned int\<close>.\<close>

fun frac_digits :: "nat \<Rightarrow> u32 \<Rightarrow> nat \<Rightarrow> byte list \<Rightarrow> u32 \<times> byte list" where
  "frac_digits 0 count frac buf = (count, buf)"
| "frac_digits (Suc room) count frac buf =
     (let count = count - 1; buf = buf @ [of_nat (48 + frac mod 10)]; frac = frac div 10
      in if frac = 0 then (count, buf) else frac_digits room count frac buf)"

fun frac_zeros :: "nat \<Rightarrow> u32 \<Rightarrow> byte list \<Rightarrow> byte list" where
  "frac_zeros 0 count buf = buf"
| "frac_zeros (Suc room) count buf =
     (if count > 0 then frac_zeros room (count - 1) (buf @ [ch CHR ''0'']) else buf)"

definition ftoa_frac :: "u32 \<Rightarrow> nat \<Rightarrow> byte list \<Rightarrow> byte list" where
  "ftoa_frac prec frac buf =
     (let (count, buf) = frac_digits (NTOA_BUFFER_SIZE - length buf) prec frac buf;
          buf = frac_zeros (NTOA_BUFFER_SIZE - length buf) count buf
      in if has_room buf then buf @ [ch CHR ''.''] else buf)"

fun whole_digits :: "nat \<Rightarrow> nat \<Rightarrow> byte list \<Rightarrow> byte list" where
  "whole_digits 0 n buf = buf"
| "whole_digits (Suc room) n buf =
     (let buf = buf @ [of_nat (48 + n mod 10)]; n = n div 10
      in if n = 0 then buf else whole_digits room n buf)"

definition ftoa_pad :: "bool \<Rightarrow> u32 \<Rightarrow> u32 \<Rightarrow> byte list \<Rightarrow> u32 \<times> byte list" where
  "ftoa_pad negative width flags buf =
     (if \<not> flag_set flags FLAGS_LEFT \<and> flag_set flags FLAGS_ZEROPAD then
        let width = sign_width negative width flags
        in (width, pad_zeros (NTOA_BUFFER_SIZE - length buf) (unat width) buf)
      else (width, buf))"

text \<open>The buffer and the width with which the field is sent, for \<open>|value| = m / 2 ^ k\<close>.\<close>

definition ftoa_buf :: "nat \<Rightarrow> nat \<Rightarrow> bool \<Rightarrow> u32 \<Rightarrow> byte list \<Rightarrow> u32 \<Rightarrow> u32 \<Rightarrow> u32 \<times> byte list" where
  "ftoa_buf m k negative prec buf width flags =
     (let (whole, frac) = ftoa_scale m k (unat prec);
          (whole, buf) = (if prec = 0 then (ftoa_whole m k whole, buf)
                          else (whole, ftoa_frac prec frac buf));
          buf = whole_digits (NTOA_BUFFER_SIZE - length buf) whole buf;
          (width, buf) = ftoa_pad negative width flags buf
      in (width, ntoa_sign negative flags buf))"

text \<open>The value is out of range above \<open>0x7FFFFFFF\<close>: the code then returns 0 in place of the index
  (the conversions it made before the test are dropped).\<close>

definition ftoa_too_large :: "nat \<Rightarrow> nat \<Rightarrow> bool" where
  "ftoa_too_large m k \<longleftrightarrow> m > 0x7FFFFFFF * 2 ^ k"

definition ftoa :: "'s out_fct \<Rightarrow> addr \<Rightarrow> u64 \<Rightarrow> u64 \<Rightarrow> u32 \<Rightarrow> u32 \<Rightarrow> u32 \<Rightarrow> u64 \<times> 's \<Rightarrow>
    pf_error + (u64 \<times> 's)" where
  "ftoa out buffer maxlen v prec width flags = (\<lambda>(idx, s).
     (case decode_double v of
        NaN \<Rightarrow> Inr (emit out buffer maxlen (str ''nan'') (idx, s))
      | d \<Rightarrow>
        let prec = (if flag_set flags FLAGS_PRECISION then prec else 6);
            (prec, buf) = prec_zeros NTOA_BUFFER_SIZE prec []
        in if prec > 9 then Inl Pow10_out_of_range
           else (case d of
               Fin m k \<Rightarrow>
                 if ftoa_too_large (nat \<bar>m\<bar>) k then Inr (0, s)
                 else (let (width, buf) = ftoa_buf (nat \<bar>m\<bar>) k (m < 0) prec buf width flags
                       in Inr (out_field out buffer maxlen buf width flags (idx, s)))
             | _ \<Rightarrow> Inr (0, s))))"

section \<open>Bounds of the buffer\<close>

lemma prec_zeros_length:
  "length (snd (prec_zeros room prec buf)) \<le> length buf + room"
  by (induction room prec buf rule: prec_zeros.induct) auto

lemma frac_digits_length:
  "length (snd (frac_digits room count frac buf)) \<le> length buf + room"
  by (induction room count frac buf rule: frac_digits.induct) (auto simp: Let_def)

lemma frac_zeros_length:
  "length (frac_zeros room count buf) \<le> length buf + room"
  by (induction room count buf rule: frac_zeros.induct) auto

lemma whole_digits_length:
  "length (whole_digits room n buf) \<le> length buf + room"
  by (induction room n buf rule: whole_digits.induct) (auto simp: Let_def)

lemma within_room: "length xs \<le> length (buf :: byte list) + (32 - length buf) \<Longrightarrow> length buf \<le> 32 \<Longrightarrow> length xs \<le> 32"
  by simp

lemma ftoa_frac_length: "length buf \<le> 32 \<Longrightarrow> length (ftoa_frac prec frac buf) \<le> 32"
proof -
  assume le: "length buf \<le> 32"
  obtain c b1 where d: "frac_digits (32 - length buf) prec frac buf = (c, b1)" by fastforce
  have b1: "length b1 \<le> 32"
    using frac_digits_length [of "32 - length buf" prec frac buf] le by (simp add: d)
  have "length (frac_zeros (32 - length b1) c b1) \<le> 32"
    using frac_zeros_length [of "32 - length b1" c b1] b1 by simp
  then show ?thesis by (simp add: ftoa_frac_def NTOA_BUFFER_SIZE_def d Let_def)
qed

lemma ftoa_buf_length:
  assumes "length buf \<le> 32" and "ftoa_buf m k negative prec buf width flags = (w, buf')"
  shows "length buf' \<le> 32"
proof -
  have sign: "length (ntoa_sign negative flags b) \<le> 32" if "length b \<le> 32" for b
    using that by (rule ntoa_sign_length)
  have pad: "length (snd (ftoa_pad negative width flags b)) \<le> 32" if "length b \<le> 32" for b
    using pad_zeros_fit [OF that] that by (simp add: ftoa_pad_def Let_def NTOA_BUFFER_SIZE_def)
  have whole: "length (whole_digits (32 - length b) n b) \<le> 32" if "length b \<le> 32" for b n
    using whole_digits_length [of "32 - length b" n b] that by simp
  show ?thesis
    using assms(2) sign pad whole ftoa_frac_length [OF assms(1)] assms(1)
    by (auto simp: ftoa_buf_def Let_def NTOA_BUFFER_SIZE_def split: prod.splits if_splits)
      (metis snd_conv)+
qed

section \<open>What \<open>_ftoa\<close> does, independently of the output function\<close>

definition ftoa_acts :: "u64 \<Rightarrow> u32 \<Rightarrow> u32 \<Rightarrow> u32 \<Rightarrow> pf_error + action list" where
  "ftoa_acts v prec width flags =
     (case decode_double v of
        NaN \<Rightarrow> Inr (map Put (str ''nan''))
      | d \<Rightarrow>
        let prec = (if flag_set flags FLAGS_PRECISION then prec else 6);
            (prec, buf) = prec_zeros NTOA_BUFFER_SIZE prec []
        in if prec > 9 then Inl Pow10_out_of_range
           else (case d of
               Fin m k \<Rightarrow>
                 if ftoa_too_large (nat \<bar>m\<bar>) k then Inr [Rewind]
                 else (let (width, buf) = ftoa_buf (nat \<bar>m\<bar>) k (m < 0) prec buf width flags
                       in Inr (map Put (field_text buf width flags)))
             | _ \<Rightarrow> Inr [Rewind]))"

lemma ftoa_play:
  "ftoa out b n v prec width flags st = map_sum id (\<lambda>as. play out b n as st) (ftoa_acts v prec width flags)"
proof -
  obtain idx s where st: "st = (idx, s)" by fastforce
  have len: "length b' \<le> 32"
    if "prec_zeros 32 p [] = (p', b)" and "ftoa_buf m k neg p' b width flags = (w, b')" for m k neg p p' b w b'
  proof (rule ftoa_buf_length [OF _ that(2)])
    show "length b \<le> 32" using prec_zeros_length [of 32 p "[]"] that(1) by simp
  qed
  show ?thesis
    by (auto simp: ftoa_def ftoa_acts_def st Let_def NTOA_BUFFER_SIZE_def out_field_emit [OF len]
        split: dbl.splits prod.splits)
qed


section \<open>Rounding\<close>

lemma shift53_bounds: "n < 2 ^ (53 + shift53 n) \<and> (0 < shift53 n \<longrightarrow> 2 ^ (52 + shift53 n) \<le> n)"
proof (induction n rule: shift53.induct)
  case (1 n)
  show ?case
  proof (cases "n < 2 ^ 53")
    case False
    have s: "shift53 n = Suc (shift53 (n div 2))" using False by (subst shift53.simps) simp
    have "n div 2 < 2 ^ (53 + shift53 (n div 2))" using 1 False by blast
    moreover have "2 ^ (52 + shift53 (n div 2)) \<le> n div 2"
    proof (cases "shift53 (n div 2) = 0")
      case True
      then show ?thesis using False by simp
    qed (use 1 False in blast)
    moreover have "(2 :: nat) ^ (53 + shift53 n) = 2 * 2 ^ (53 + shift53 (n div 2))"
      "(2 :: nat) ^ (52 + shift53 n) = 2 * 2 ^ (52 + shift53 (n div 2))"
      unfolding s by (simp_all only: add_Suc_right power_Suc)
    ultimately show ?thesis by linarith
  qed (simp add: shift53.simps)
qed

lemma round53_error:
  fixes n :: nat
  defines "s \<equiv> shift53 n"
  shows "2 * \<bar>int (round53 n) - int n\<bar> \<le> 2 ^ s"
proof -
  define q r where "q = n div 2 ^ s" and "r = n mod 2 ^ s"
  have n: "n = q * 2 ^ s + r" unfolding q_def r_def by (rule div_mult_mod_eq [symmetric])
  obtain S where S: "S = (2 :: nat) ^ s" by simp
  have r: "r < S" by (simp add: r_def S)
  have rd: "round53 n = (if 2 * r > S \<or> 2 * r = S \<and> odd q then q * S + S else q * S)"
    by (simp add: round53_def Let_def q_def r_def s_def S)
  have "2 * \<bar>int (if b then q * S + S else q * S) - int (q * S + r)\<bar> \<le> int S"
    if "b \<longrightarrow> S \<le> 2 * r" "\<not> b \<longrightarrow> 2 * r \<le> S" for b
    using that r by (cases b) auto
  from this [of "2 * r > S \<or> 2 * r = S \<and> odd q"]
  have "2 * \<bar>int (round53 n) - int n\<bar> \<le> int S" unfolding rd using n S by auto
  then show ?thesis by (simp add: S)
qed

lemma round53_le:
  assumes "n \<le> a * 2 ^ k" and "a < 2 ^ 53"
  shows "round53 n \<le> a * 2 ^ k"
proof -
  define s where "s = shift53 n"
  define q r where "q = n div 2 ^ s" and "r = n mod 2 ^ s"
  have n: "n = q * 2 ^ s + r" unfolding q_def r_def by (rule div_mult_mod_eq [symmetric])
  have rd: "round53 n \<le> (if r = 0 then q else q + 1) * 2 ^ s"
    by (auto simp: round53_def Let_def q_def r_def s_def)
  have sk: "s \<le> k"
  proof (rule ccontr)
    assume "\<not> s \<le> k"
    then have "2 ^ (52 + s) \<le> n" "(2 :: nat) ^ (53 + k) \<le> 2 ^ (52 + s)"
      using shift53_bounds [of n] unfolding s_def by (auto intro!: power_increasing)
    moreover have "a * 2 ^ k < 2 ^ (53 + k)" using assms(2) by (simp add: power_add)
    ultimately show False using assms(1) by linarith
  qed
  then obtain c where c: "a * 2 ^ k = c * 2 ^ s"
    by (metis (no_types, lifting) le_add_diff_inverse2 mult.assoc power_add)
  show ?thesis
  proof (cases "r = 0")
    case True
    then show ?thesis using rd n assms(1) by simp
  next
    case False
    then have "q * 2 ^ s < c * 2 ^ s" using n assms(1) c by linarith
    then have "(q + 1) * 2 ^ s \<le> c * 2 ^ s" by (intro mult_le_mono1) simp
    then show ?thesis using rd False c by simp
  qed
qed

text \<open>The error of the rounded decimal is half a unit of its last place, and a 23rd binary place
  of it for the rounding of the product.\<close>

lemma ftoa_scale_error:
  assumes "p \<le> 9" and "ftoa_scale m k p = (W, F)"
  shows "2 ^ 23 * \<bar>int ((W * 10 ^ p + F) * 2 ^ k) - int (m * 10 ^ p)\<bar> \<le> (2 ^ 22 + 1) * 2 ^ k"
proof -
  define n where "n = (m mod 2 ^ k) * 10 ^ p"
  define T where "T = round53 n"
  define F0 d where "F0 = T div 2 ^ k" and "d = T mod 2 ^ k"
  have p: "(10 :: nat) ^ p \<le> 10 ^ 9" using assms(1) by (intro power_increasing) simp_all
  have n_le: "n \<le> 10 ^ p * 2 ^ k" unfolding n_def by (simp add: mult.commute less_imp_le)
  have T_le: "T \<le> 10 ^ p * 2 ^ k" unfolding T_def by (rule round53_le [OF n_le]) (use p in simp)
  have T: "T = F0 * 2 ^ k + d" unfolding F0_def d_def by (rule div_mult_mod_eq [symmetric])
  have d: "d < 2 ^ k" by (simp add: d_def)
  have F0: "F0 < 10 ^ p" if "0 < d"
  proof -
    have "F0 * 2 ^ k < 10 ^ p * 2 ^ k" using T T_le that by linarith
    then show ?thesis by simp
  qed
  obtain \<delta> where \<delta>: "\<delta> = 0 \<or> \<delta> = 1" "W * 10 ^ p + F = (m div 2 ^ k) * 10 ^ p + F0 + \<delta>"
    "2 * \<bar>int \<delta> * 2 ^ k - int d\<bar> \<le> 2 ^ k"
  proof -
    obtain K where K: "K = (2 :: nat) ^ k" by simp
    have scale: "(W, F) = (if 2 * d > K then (if F0 + 1 \<ge> 10 ^ p then (m div K + 1, 0) else (m div K, F0 + 1))
      else if 2 * d < K then (m div K, F0)
      else if F0 = 0 \<or> odd F0 then (m div K, F0 + 1) else (m div K, F0))"
      by (simp only: assms(2) [symmetric] ftoa_scale_def Let_def n_def T_def F0_def d_def K)
    have "\<exists>\<delta>. (\<delta> = 0 \<or> \<delta> = 1) \<and> W * 10 ^ p + F = (m div K) * 10 ^ p + F0 + \<delta> \<and>
        2 * \<bar>int \<delta> * int K - int d\<bar> \<le> int K"
    proof (cases "2 * d > K")
      case True
      then have "W * 10 ^ p + F = (m div K) * 10 ^ p + F0 + 1" using scale F0
        by (auto simp: algebra_simps split: if_splits)
      moreover have "d < K" using d K by simp
      ultimately show ?thesis using True by (intro exI [of _ 1]) auto
    next
      case False
      then have "W = m div K" "F = F0 \<or> F = F0 + 1 \<and> 2 * d = K"
        using scale by (auto split: if_splits)
      then show ?thesis using False by (auto intro: exI [of _ 0] exI [of _ 1])
    qed
    then show thesis using that by (auto simp: K)
  qed
  have err: "2 ^ 23 * \<bar>int T - int n\<bar> \<le> 2 ^ k"
  proof (cases "shift53 n = 0")
    case True
    then have "round53 n = n" by (simp add: round53_def Let_def)
    then show ?thesis by (simp add: T_def)
  next
    case False
    then have "2 ^ (52 + shift53 n) \<le> n" using shift53_bounds [of n] by blast
    moreover have "10 ^ p * 2 ^ k \<le> (10 :: nat) ^ 9 * 2 ^ k" using p by (rule mult_le_mono1)
    ultimately have "2 ^ 52 * 2 ^ shift53 n \<le> (10 :: nat) ^ 9 * 2 ^ k"
      using n_le unfolding power_add by linarith
    then have "2 ^ 22 * (2 :: nat) ^ shift53 n \<le> 2 ^ k" by simp
    then have "int (2 ^ 22 * 2 ^ shift53 n) \<le> int (2 ^ k)" by (simp only: of_nat_le_iff)
    then show ?thesis using round53_error [of n] unfolding T_def by simp
  qed
  have m: "int (m * 10 ^ p) = int ((m div 2 ^ k) * 10 ^ p) * 2 ^ k + int n"
  proof -
    have "m * 10 ^ p = ((m div 2 ^ k) * 2 ^ k + m mod 2 ^ k) * 10 ^ p"
      by (simp only: div_mult_mod_eq)
    then have "m * 10 ^ p = (m div 2 ^ k) * 10 ^ p * 2 ^ k + n"
      by (simp only: n_def algebra_simps)
    then show ?thesis by (metis of_nat_add of_nat_mult of_nat_numeral of_nat_power)
  qed
  have "int ((W * 10 ^ p + F) * 2 ^ k) - int (m * 10 ^ p) = (int T - int n) + (int \<delta> * 2 ^ k - int d)"
    unfolding \<delta>(2) m by (simp add: T algebra_simps)
  then have tri: "\<bar>int ((W * 10 ^ p + F) * 2 ^ k) - int (m * 10 ^ p)\<bar> \<le>
     \<bar>int T - int n\<bar> + \<bar>int \<delta> * 2 ^ k - int d\<bar>" by (metis abs_triangle_ineq)
  have "2 ^ 23 * S \<le> (2 ^ 22 + 1) * K"
    if "S \<le> A + B" "2 ^ 23 * A \<le> K" "2 * B \<le> K" for S A B K :: int
    using that by simp
  from this [OF tri err \<delta>(3)] show ?thesis .
qed

section \<open>Digits\<close>

lemma decimal_digit: "is_digit (of_nat (48 + n mod 10))" "digit_value (of_nat (48 + n mod 10)) = n mod 10"
proof -
  have "unat (of_nat (48 + n mod 10) :: byte) = 48 + n mod 10"
    using mod_less_divisor [of 10 n] by (simp add: unat_of_nat take_bit_nat_eq_self del: of_nat_add)
  moreover have "n mod 10 < 10" by simp
  ultimately show d: "is_digit (of_nat (48 + n mod 10))"
    by (simp add: is_digit_def word_le_nat_alt del: of_nat_add)
  have "of_nat (48 + n mod 10) - ch CHR ''0'' = (of_nat (n mod 10) :: byte)" by simp
  moreover have "unat (of_nat (n mod 10) :: byte) = n mod 10"
    using mod_less_divisor [of 10 n] by (simp add: unat_of_nat take_bit_nat_eq_self)
  ultimately show "digit_value (of_nat (48 + n mod 10)) = n mod 10"
    using d by (simp add: digit_value_def del: of_nat_add)
qed

text \<open>A little-endian list of decimal digits of value \<open>n\<close>.\<close>

definition dec_digits :: "nat \<Rightarrow> byte list \<Rightarrow> bool" where
  "dec_digits n cs \<longleftrightarrow> (\<forall>c \<in> set cs. is_digit c) \<and> value_of 10 (rev cs) = n"

lemma dec_digits_Cons:
  "dec_digits (n div 10) cs \<Longrightarrow> dec_digits n (of_nat (48 + n mod 10) # cs)"
  by (simp add: dec_digits_def decimal_digit del: of_nat_add)

lemma value_of_zeros: "value_of 10 (replicate z 48 @ cs) = value_of 10 cs"
proof -
  have "digit_value 48 = 0" by (simp add: digit_value_def is_digit_def)
  then show ?thesis by (induction z) (simp_all add: value_of_def)
qed

lemma dec_digits_zeros: "dec_digits n cs \<Longrightarrow> dec_digits n (cs @ replicate z (ch CHR ''0''))"
  by (auto simp: dec_digits_def value_of_zeros is_digit_def)

lemma whole_digits_dec:
  "n < 10 ^ r \<Longrightarrow> 0 < r \<Longrightarrow> r \<le> room \<Longrightarrow>
   \<exists>ds. whole_digits room n buf = buf @ ds \<and> dec_digits n ds \<and> ds \<noteq> [] \<and> length ds \<le> r"
proof (induction room n buf arbitrary: r rule: whole_digits.induct)
  case (2 room n buf)
  let ?c = "of_nat (48 + n mod 10) :: byte"
  show ?case
  proof (cases "n div 10 = 0")
    case True
    have "dec_digits n [?c]" using dec_digits_Cons [of n "[]"] True by (simp add: dec_digits_def)
    then show ?thesis using True 2 by (intro exI [of _ "[?c]"]) (simp add: Let_def del: of_nat_add)
  next
    case False
    then have "n \<ge> 10" by simp
    then obtain q where q: "r = Suc q" "0 < q" using 2(2,3) by (cases r; cases "r - 1") auto
    then have "n div 10 < 10 ^ q" using 2(2) by (simp add: less_mult_imp_div_less mult.commute)
    then obtain ds where "whole_digits room (n div 10) (buf @ [?c]) = (buf @ [?c]) @ ds"
        "dec_digits (n div 10) ds" "length ds \<le> q"
      using 2(1) [OF refl refl False, of q] 2(4) q by auto
    then show ?thesis using False q dec_digits_Cons [of n ds]
      by (intro exI [of _ "?c # ds"]) (simp add: Let_def del: of_nat_add)
  qed
qed simp

lemma frac_digits_dec:
  "n < 10 ^ c \<Longrightarrow> 0 < c \<Longrightarrow> c \<le> room \<Longrightarrow> c < 2 ^ 32 \<Longrightarrow>
   \<exists>ds. frac_digits room (of_nat c) n buf = (of_nat (c - length ds), buf @ ds) \<and> dec_digits n ds \<and>
        ds \<noteq> [] \<and> length ds \<le> c"
proof (induction room "of_nat c :: u32" n buf arbitrary: c rule: frac_digits.induct)
  case (2 room n buf)
  let ?c = "of_nat (48 + n mod 10) :: byte"
  have dec: "(of_nat c :: u32) - 1 = of_nat (c - 1)" using 2(3) by (simp add: of_nat_diff)
  show ?case
  proof (cases "n div 10 = 0")
    case True
    have "dec_digits n [?c]" using dec_digits_Cons [of n "[]"] True by (simp add: dec_digits_def)
    then show ?thesis using True 2(3) dec
      by (intro exI [of _ "[?c]"]) (simp add: Let_def del: of_nat_add)
  next
    case False
    then have "n \<ge> 10" by simp
    then obtain q where q: "c = Suc q" "0 < q" using 2(2,3) by (cases c; cases "c - 1") auto
    then have "n div 10 < 10 ^ q" using 2(2) by (simp add: less_mult_imp_div_less mult.commute)
    moreover have dec': "of_nat q = (of_nat c :: u32) - 1" using dec q by simp
    moreover have "q \<le> room" "q < 2 ^ 32" using 2(4,5) q by auto
    ultimately obtain ds where "frac_digits room (of_nat q) (n div 10) (buf @ [?c]) =
        (of_nat (q - length ds), (buf @ [?c]) @ ds)"
        "dec_digits (n div 10) ds" "length ds \<le> q"
      using 2(1) [OF dec' refl refl False _ q(2)] by blast
    then show ?thesis using False q(1) dec'[symmetric] dec_digits_Cons [of n ds]
      by (intro exI [of _ "?c # ds"]) (simp add: Let_def del: of_nat_add of_nat_Suc of_nat_diff)
  qed
qed simp

lemma frac_zeros_eq:
  "z < 2 ^ 32 \<Longrightarrow> frac_zeros room (of_nat z) buf = buf @ replicate (min room z) (ch CHR ''0'')"
proof (induction room "of_nat z :: u32" buf arbitrary: z rule: frac_zeros.induct)
  case (2 room buf)
  show ?case
  proof (cases z)
    case (Suc y)
    moreover have "(of_nat z :: u32) > 0"
      using Suc 2(2) by (simp add: word_gt_0 word_unat_eq_iff unat_of_nat take_bit_nat_eq_self del: of_nat_Suc)
    ultimately show ?thesis using 2(1) [of y] 2(2) by simp
  qed simp
qed simp

text \<open>The fraction takes exactly \<open>p\<close> digits when it fits them.\<close>

lemma ftoa_frac_dec:
  assumes "n < 10 ^ p" and "0 < p" and "p + 1 \<le> 32 - length buf"
  shows "\<exists>ds. ftoa_frac (of_nat p) n buf = buf @ ds @ [ch CHR ''.''] \<and> dec_digits n ds \<and> length ds = p"
proof -
  obtain ds where ds: "frac_digits (32 - length buf) (of_nat p) n buf = (of_nat (p - length ds), buf @ ds)"
      "dec_digits n ds" "length ds \<le> p"
    using frac_digits_dec [OF assms(1,2), of "32 - length buf" buf] assms(3) by fastforce
  have "frac_zeros (32 - length (buf @ ds)) (of_nat (p - length ds)) (buf @ ds) =
      (buf @ ds) @ replicate (p - length ds) 48"
    by (subst frac_zeros_eq) (use assms(3) ds(3) in auto)
  then have "ftoa_frac (of_nat p) n buf = buf @ (ds @ replicate (p - length ds) 48) @ [ch CHR ''.'']"
    using assms ds(3)
    by (simp add: ftoa_frac_def NTOA_BUFFER_SIZE_def ds(1) Let_def del: of_nat_diff length_append)
      (simp add: min_def)
  then show ?thesis using dec_digits_zeros [OF ds(2)] ds(3)
    by (intro exI [of _ "ds @ replicate (p - length ds) 48"]) simp
qed


lemma prec_zeros_fst:
  "unat (fst (prec_zeros room prec buf)) = (if unat prec \<le> 9 + room then min 9 (unat prec) else unat prec - room)"
proof (induction room prec buf rule: prec_zeros.induct)
  case (2 room prec buf)
  show ?case
  proof (cases "9 < prec")
    case True
    then have "9 < unat prec" by (simp add: word_less_nat_alt)
    moreover have "unat (prec - 1) = unat prec - 1" using True by (intro unat_minus_one) auto
    ultimately show ?thesis using 2 True by auto
  next
    case False
    then have "unat prec \<le> 9" by (simp add: word_less_nat_alt)
    then show ?thesis using False by simp
  qed
qed (simp add: min_def)

lemma prec_zeros_id: "prec \<le> 9 \<Longrightarrow> prec_zeros room prec buf = (prec, buf)"
  by (cases room) auto

lemma frac_digits_numeral:
  "frac_digits (numeral r) count frac buf =
     (let count = count - 1; buf = buf @ [of_nat (48 + frac mod 10)]; frac = frac div 10
      in if frac = 0 then (count, buf) else frac_digits (pred_numeral r) count frac buf)"
  unfolding numeral_eq_Suc [of r] by (rule frac_digits.simps(2))

lemma replicate_30:
  "replicate 30 x = [x, x, x, x, x, x, x, x, x, x, x, x, x, x, x, x, x, x, x, x, x, x, x, x, x, x, x, x, x, x]"
  by (simp add: numeral_eq_Suc)

text \<open>The sign, the integer part, the point and the fraction.\<close>

lemma ftoa_text:
  assumes "\<not> ftoa_too_large m k" and "1 \<le> p" and "p \<le> 9" and "ftoa_scale m k p = (W, F)" and "F < 10 ^ p"
  shows "\<exists>ws fs. ftoa_buf m k neg (of_nat p) [] 0 FLAGS_PRECISION =
      (0, rev ((if neg then str ''-'' else []) @ ws @ str ''.'' @ fs)) \<and>
      dec_digits W (rev ws) \<and> dec_digits F (rev fs) \<and> length fs = p \<and> length ws \<le> 10"
proof -
  have p0: "(of_nat p :: u32) \<noteq> 0" and pu: "unat (of_nat p :: u32) = p"
    using assms(2,3) by (auto simp: unat_of_nat take_bit_nat_eq_self word_unat_eq_iff)
  obtain fs where fs: "ftoa_frac (of_nat p) F [] = fs @ str ''.''" "dec_digits F fs" "length fs = p"
    using ftoa_frac_dec [of F p "[]"] assms by auto
  have "m div 2 ^ k \<le> 0x7FFFFFFF"
    using assms(1) div_le_mono [of m "0x7FFFFFFF * 2 ^ k" "2 ^ k"] by (simp add: ftoa_too_large_def)
  moreover have "W \<le> m div 2 ^ k + 1" using assms(4) by (auto simp: ftoa_scale_def Let_def split: if_splits)
  ultimately have "W < 10 ^ 10" by simp
  moreover have "10 \<le> 32 - length (fs @ str ''.'')" using fs(3) assms(3) by simp
  ultimately obtain ws where ws: "whole_digits (32 - length (fs @ str ''.'')) W (fs @ str ''.'') = (fs @ str ''.'') @ ws"
      "dec_digits W ws" "length ws \<le> 10"
    using whole_digits_dec [of W 10 "32 - length (fs @ str ''.'')" "fs @ str ''.''"] by auto
  have pf: "flag_set FLAGS_PRECISION FLAGS_PRECISION" "FLAGS_PRECISION AND FLAGS_ZEROPAD = 0"
    "FLAGS_PRECISION AND FLAGS_PLUS = 0" "FLAGS_PRECISION AND FLAGS_SPACE = 0" by (simp_all add: c_const)
  have room: "length ((fs @ str ''.'') @ ws) < 32" using fs(3) ws(3) assms(3) by simp
  have wd: "whole_digits (31 - p) W (fs @ [46]) = fs @ 46 # ws" using ws(1) fs(3) by simp
  have "ftoa_buf m k neg (of_nat p) [] 0 FLAGS_PRECISION =
      (0, rev ((if neg then str ''-'' else []) @ rev ws @ str ''.'' @ rev fs))"
    using fs(3) room
    by (simp add: ftoa_buf_def pu assms(4) p0 fs(1) wd Let_def NTOA_BUFFER_SIZE_def ftoa_pad_def pf ntoa_sign_def)
  then show ?thesis using fs(2,3) ws(2,3) by (metis length_rev rev_rev_ident)
qed

section \<open>Properties\<close>



text \<open>When the scaled fraction is exactly halfway and consists of nines only, the carry is
  not propagated: \<open>0.95\<close> with one decimal comes out as a 32 digit integer without a point.\<close>

theorem ftoa_halfway_carry:
  "ftoa out b n 0x3FEE666666666666 1 0 FLAGS_PRECISION st =
     Inr (emit out b n (str ''00000000000000000000000000000010'') st)"
proof -
  have dec: "decode_double 0x3FEE666666666666 = Fin 8556839292003942 53"
    by (simp add: decode_double_def Let_def)
  have "shift53 85568392920039420 = 4" by (simp add: shift53.simps)
  then have scale: "ftoa_scale 8556839292003942 53 1 = (0, 10)"
    by (simp add: ftoa_scale_def round53_def Let_def)
  have digits: "frac_digits 32 1 10 [] = (0xFFFFFFFF, [48, 49])" by (simp add: frac_digits_numeral Let_def)
  have zeros: "frac_zeros 30 0xFFFFFFFF buf = buf @ replicate 30 48" for buf
    using frac_zeros_eq [where z = "0xFFFFFFFF" and room = 30 and buf = buf] by simp
  have buf: "ftoa_buf 8556839292003942 53 False 1 [] 0 FLAGS_PRECISION = (0, [48, 49] @ replicate 30 48)"
    by (simp add: ftoa_buf_def scale [simplified] ftoa_frac_def digits zeros Let_def ftoa_pad_def ntoa_sign_def c_const)
  have field: "field_text ([48, 49] @ replicate 30 48) 0 FLAGS_PRECISION = str ''00000000000000000000000000000010''"
    by (simp add: field_text_def c_const replicate_30)
  have "ftoa_acts 0x3FEE666666666666 1 0 FLAGS_PRECISION =
      Inr (map Put (str ''00000000000000000000000000000010''))"
    unfolding field [symmetric]
    by (simp add: ftoa_acts_def dec prec_zeros_id c_const Let_def ftoa_too_large_def buf [unfolded c_const])
  then show ?thesis by (simp only: ftoa_play map_sum.simps play_Put)
qed

text \<open>\<open>_ftoa\<close> reads beyond its table of powers of ten exactly for the explicit precisions
  above 41: the loop that limits the precision stops when the 32-byte buffer is full.\<close>

theorem ftoa_pow10_bound:
  "(ftoa out b n v prec width flags st = Inl Pow10_out_of_range) \<longleftrightarrow>
     decode_double v \<noteq> NaN \<and> flags AND FLAGS_PRECISION \<noteq> 0 \<and> 41 < prec"
proof -
  have big: "9 < fst (prec_zeros 32 q []) \<longleftrightarrow> 41 < q" for q
    using prec_zeros_fst [of 32 q "[]"] by (auto simp: word_less_nat_alt split: if_splits)
  have six: "\<not> 41 < (6 :: u32)" by simp
  show ?thesis
    by (auto simp: ftoa_play ftoa_acts_def Let_def NTOA_BUFFER_SIZE_def split: dbl.splits prod.splits)
      (use big in \<open>metis fst_conv six\<close>)+
qed

end
