(* ===== verification/Printf.thy ===== *)
theory Printf
  imports Printf_Ftoa
begin

text \<open>
  \<open>_vsnprintf\<close> of \<open>software/sdk/src/printf.c\<close> and its entry points. The format is the list of its
  characters before the NUL; the variable arguments are the 64-bit slots in which the RV64
  calling convention passes them (\<open>int\<close> in the low half, \<open>double\<close> as its bits); strings are read
  from a memory that the output does not change (the C standard leaves overlap undefined).
  Reading beyond the format or the arguments is an error value, as is a scan that never ends.
\<close>

section \<open>Parsing a conversion specification\<close>

fun flags_loop :: "byte list \<Rightarrow> u32 \<Rightarrow> u32 \<times> byte list" where
  "flags_loop [] flags = (flags, [])"
| "flags_loop (c # f) flags =
     (if c = ch CHR ''0'' then flags_loop f (flags OR FLAGS_ZEROPAD)
      else if c = ch CHR ''-'' then flags_loop f (flags OR FLAGS_LEFT)
      else if c = ch CHR ''+'' then flags_loop f (flags OR FLAGS_PLUS)
      else if c = ch CHR '' '' then flags_loop f (flags OR FLAGS_SPACE)
      else if c = ch CHR ''#'' then flags_loop f (flags OR FLAGS_HASH)
      else (flags, c # f))"

text \<open>The width, with the flags it may change (a negative \<open>*\<close> argument sets \<open>FLAGS_LEFT\<close>).\<close>

definition parse_width :: "u32 \<Rightarrow> byte list \<Rightarrow> u64 list \<Rightarrow>
    pf_error + (u32 \<times> u32 \<times> byte list \<times> u64 list)" where
  "parse_width flags f va =
     (if is_digit (cur f) then (let (w, f) = atoi f in Inr (w, flags, f, va))
      else if cur f = ch CHR ''*'' then
        (case va of [] \<Rightarrow> Inl Missing_argument
         | a # va \<Rightarrow>
           let w = (ucast a :: u32)
           in if w <s 0 then Inr (- w, flags OR FLAGS_LEFT, tl f, va) else Inr (w, flags, tl f, va))
      else Inr (0, flags, f, va))"

definition parse_precision :: "u32 \<Rightarrow> byte list \<Rightarrow> u64 list \<Rightarrow>
    pf_error + (u32 \<times> u32 \<times> byte list \<times> u64 list)" where
  "parse_precision flags f va =
     (if cur f = ch CHR ''.'' then
        let flags = flags OR FLAGS_PRECISION; f = tl f
        in if is_digit (cur f) then (let (p, f) = atoi f in Inr (p, flags, f, va))
           else if cur f = ch CHR ''*'' then
             (case va of [] \<Rightarrow> Inl Missing_argument
              | a # va \<Rightarrow>
                let p = (ucast a :: u32) in Inr (if 0 <s p then p else 0, flags, tl f, va))
           else Inr (0, flags, f, va)
      else Inr (0, flags, f, va))"

text \<open>\<open>ptrdiff_t\<close>, \<open>intmax_t\<close> and \<open>size_t\<close> have the size of \<open>long\<close> on RV64.\<close>

definition parse_length :: "u32 \<Rightarrow> byte list \<Rightarrow> u32 \<times> byte list" where
  "parse_length flags f =
     (if cur f = ch CHR ''l'' then
        (if cur (tl f) = ch CHR ''l'' then (flags OR FLAGS_LONG OR FLAGS_LONG_LONG, tl (tl f))
         else (flags OR FLAGS_LONG, tl f))
      else if cur f = ch CHR ''h'' then
        (if cur (tl f) = ch CHR ''h'' then (flags OR FLAGS_SHORT OR FLAGS_CHAR, tl (tl f))
         else (flags OR FLAGS_SHORT, tl f))
      else if cur f = ch CHR ''t'' \<or> cur f = ch CHR ''j'' \<or> cur f = ch CHR ''z'' then
        (flags OR FLAGS_LONG, tl f)
      else (flags, f))"

text \<open>The whole specification up to the specifier character: flags, width, precision.\<close>

definition parse_spec :: "byte list \<Rightarrow> u64 list \<Rightarrow>
    pf_error + (u32 \<times> u32 \<times> u32 \<times> byte list \<times> u64 list)" where
  "parse_spec f va =
     (let (flags, f) = flags_loop f 0
      in case parse_width flags f va of Inl e \<Rightarrow> Inl e
         | Inr (width, flags, f, va) \<Rightarrow>
           (case parse_precision flags f va of Inl e \<Rightarrow> Inl e
            | Inr (precision, flags, f, va) \<Rightarrow>
              (let (flags, f) = parse_length flags f in Inr (flags, width, precision, f, va))))"

section \<open>The specifiers\<close>

definition int_specs :: "byte list" where
  "int_specs = str ''diuxXob''"

definition spec_base :: "byte \<Rightarrow> u64" where
  "spec_base c =
     (if c = ch CHR ''x'' \<or> c = ch CHR ''X'' then 16
      else if c = ch CHR ''o'' then 8
      else if c = ch CHR ''b'' then 2 else 10)"

definition is_signed :: "byte \<Rightarrow> bool" where
  "is_signed c \<longleftrightarrow> c = ch CHR ''i'' \<or> c = ch CHR ''d''"

definition int_flags :: "byte \<Rightarrow> u32 \<Rightarrow> u32" where
  "int_flags c flags =
     (let flags = (if spec_base c = 10 then flags AND NOT FLAGS_HASH else flags);
          flags = (if c = ch CHR ''X'' then flags OR FLAGS_UPPERCASE else flags);
          flags = (if \<not> is_signed c then flags AND NOT (FLAGS_PLUS OR FLAGS_SPACE) else flags)
      in if flag_set flags FLAGS_PRECISION then flags AND NOT FLAGS_ZEROPAD else flags)"

text \<open>Magnitude and sign of an argument; \<open>(char)\<close> is unsigned in the RISC-V ABI, \<open>(short)\<close>
  sign-extends.\<close>

definition int_arg :: "byte \<Rightarrow> u32 \<Rightarrow> u64 \<Rightarrow> u64 \<times> bool" where
  "int_arg c flags a =
     (if is_signed c then
        (if flag_set flags FLAGS_LONG_LONG \<or> flag_set flags FLAGS_LONG
         then (if 0 <s a then a else 0 - a, a <s 0)
         else
           let v = (if flag_set flags FLAGS_CHAR then ucast (ucast a :: byte)
                    else if flag_set flags FLAGS_SHORT then scast (ucast a :: u16)
                    else ucast a) :: u32
           in (ucast (if 0 <s v then v else 0 - v), v <s 0))
      else
        (if flag_set flags FLAGS_LONG_LONG \<or> flag_set flags FLAGS_LONG then (a, False)
         else (ucast ((if flag_set flags FLAGS_CHAR then ucast (ucast a :: byte)
                       else if flag_set flags FLAGS_SHORT then ucast (ucast a :: u16)
                       else ucast a) :: u32), False)))"

definition conv_int :: "'s out_fct \<Rightarrow> addr \<Rightarrow> u64 \<Rightarrow> byte \<Rightarrow> u32 \<Rightarrow> u32 \<Rightarrow> u32 \<Rightarrow> u64 \<Rightarrow>
    u64 \<times> 's \<Rightarrow> u64 \<times> 's" where
  "conv_int out buffer maxlen c flags width precision a st =
     (let flags = int_flags c flags; (v, negative) = int_arg c flags a
      in if flag_set flags FLAGS_LONG_LONG
         then ntoa_long_long out buffer maxlen v negative (spec_base c) precision width flags st
         else ntoa_long out buffer maxlen v negative (spec_base c) precision width flags st)"

text \<open>\<open>while (l++ < width) out(' ', buffer, idx++, maxlen)\<close>.\<close>

function pad_to :: "'s out_fct \<Rightarrow> addr \<Rightarrow> u64 \<Rightarrow> u32 \<Rightarrow> u32 \<Rightarrow> u64 \<times> 's \<Rightarrow> u64 \<times> 's" where
  "pad_to out buffer maxlen l width (idx, s) =
     (if l < width
      then pad_to out buffer maxlen (l + 1) width (idx + 1, out (ch CHR '' '') buffer idx maxlen s)
      else (idx, s))"
  by pat_completeness auto
termination
proof (relation "measure (\<lambda>(out, b, n, l, width, st). unat width - unat l)")
  fix out :: "'s out_fct" and b n idx :: u64 and l width :: u32 and s
  assume "l < width"
  then have "unat width - unat (l + 1) < unat width - unat l" by unat_arith
  then show "((out, b, n, l + 1, width, idx + 1, out (ch CHR '' '') b idx n s), out, b, n, l, width, idx, s)
      \<in> measure (\<lambda>(out, b, n, l, width, st). unat width - unat l)" by simp
qed simp

declare pad_to.simps [simp del]

definition conv_char :: "'s out_fct \<Rightarrow> addr \<Rightarrow> u64 \<Rightarrow> u32 \<Rightarrow> u32 \<Rightarrow> u64 \<Rightarrow> u64 \<times> 's \<Rightarrow> u64 \<times> 's" where
  "conv_char out buffer maxlen flags width a st =
     (let (idx, s) = (if \<not> flag_set flags FLAGS_LEFT then pad_to out buffer maxlen 1 width st else st);
          st = (idx + 1, out (ucast a) buffer idx maxlen s)
      in if flag_set flags FLAGS_LEFT then pad_to out buffer maxlen 1 width st else st)"

text \<open>\<open>while ((*p != 0) && (!(flags & FLAGS_PRECISION) || precision--)) out(*(p++), ...)\<close>.\<close>

partial_function (option) str_out ::
    "'s out_fct \<Rightarrow> addr \<Rightarrow> u64 \<Rightarrow> mem \<Rightarrow> u32 \<Rightarrow> addr \<Rightarrow> u32 \<Rightarrow> u64 \<times> 's \<Rightarrow> (u64 \<times> 's) option" where
  "str_out out buffer maxlen m flags p precision st =
     (if m p \<noteq> 0 \<and> (\<not> flag_set flags FLAGS_PRECISION \<or> precision \<noteq> 0)
      then str_out out buffer maxlen m flags (p + 1)
             (if flag_set flags FLAGS_PRECISION then precision - 1 else precision)
             (fst st + 1, out (m p) buffer (fst st) maxlen (snd st))
      else Some st)"

text \<open>The length used for padding.\<close>

definition str_width :: "mem \<Rightarrow> u32 \<Rightarrow> addr \<Rightarrow> u32 \<Rightarrow> u32" where
  "str_width m flags p precision =
     (let l = strnlen_s m p (if precision \<noteq> 0 then ucast precision else - 1)
      in if flag_set flags FLAGS_PRECISION then (if l < precision then l else precision) else l)"

definition conv_str :: "'s out_fct \<Rightarrow> addr \<Rightarrow> u64 \<Rightarrow> mem \<Rightarrow> u32 \<Rightarrow> u32 \<Rightarrow> u32 \<Rightarrow> addr \<Rightarrow>
    u64 \<times> 's \<Rightarrow> pf_error + (u64 \<times> 's)" where
  "conv_str out buffer maxlen m flags width precision p st =
     (let l = str_width m flags p precision;
          st = (if \<not> flag_set flags FLAGS_LEFT then pad_to out buffer maxlen l width st else st)
      in case str_out out buffer maxlen m flags p precision st of None \<Rightarrow> Inl Endless_string
         | Some st \<Rightarrow>
           Inr (if flag_set flags FLAGS_LEFT then pad_to out buffer maxlen l width st else st))"

definition conv_ptr :: "'s out_fct \<Rightarrow> addr \<Rightarrow> u64 \<Rightarrow> u32 \<Rightarrow> u32 \<Rightarrow> u64 \<Rightarrow> u64 \<times> 's \<Rightarrow> u64 \<times> 's" where
  "conv_ptr out buffer maxlen flags precision a st =
     ntoa_long_long out buffer maxlen a False 16 precision 16
       (flags OR FLAGS_ZEROPAD OR FLAGS_UPPERCASE) st"

text \<open>The \<open>switch\<close> on the specifier \<open>c\<close> (NUL at the end of the format).\<close>

definition conv :: "'s out_fct \<Rightarrow> addr \<Rightarrow> u64 \<Rightarrow> mem \<Rightarrow> byte \<Rightarrow> u32 \<Rightarrow> u32 \<Rightarrow> u32 \<Rightarrow> u64 list \<Rightarrow>
    u64 \<times> 's \<Rightarrow> pf_error + (u64 \<times> 's) \<times> u64 list" where
  "conv out buffer maxlen m c flags width precision va st =
     (if c \<in> set int_specs then
        (case va of [] \<Rightarrow> Inl Missing_argument
         | a # va \<Rightarrow> Inr (conv_int out buffer maxlen c flags width precision a st, va))
      else if c = ch CHR ''f'' \<or> c = ch CHR ''F'' then
        (case va of [] \<Rightarrow> Inl Missing_argument
         | a # va \<Rightarrow>
           (case ftoa out buffer maxlen a precision width flags st of Inl e \<Rightarrow> Inl e
            | Inr st \<Rightarrow> Inr (st, va)))
      else if c = ch CHR ''c'' then
        (case va of [] \<Rightarrow> Inl Missing_argument
         | a # va \<Rightarrow> Inr (conv_char out buffer maxlen flags width a st, va))
      else if c = ch CHR ''s'' then
        (case va of [] \<Rightarrow> Inl Missing_argument
         | a # va \<Rightarrow>
           (case conv_str out buffer maxlen m flags width precision a st of Inl e \<Rightarrow> Inl e
            | Inr st \<Rightarrow> Inr (st, va)))
      else if c = ch CHR ''p'' then
        (case va of [] \<Rightarrow> Inl Missing_argument
         | a # va \<Rightarrow> Inr (conv_ptr out buffer maxlen flags precision a st, va))
      else Inr ((fst st + 1, out c buffer (fst st) maxlen (snd st)), va))"

section \<open>The format loop\<close>

lemma length_atoi: "length (snd (atoi_loop f i)) \<le> length f"
  by (induction f i rule: atoi_loop.induct) auto

lemma length_flags_loop: "length (snd (flags_loop f flags)) \<le> length f"
  by (induction f flags rule: flags_loop.induct) auto

lemma length_tl_le: "length (tl f) \<le> length f"
  by simp

lemma length_parse_spec:
  assumes "parse_spec f va = Inr (flags, width, precision, f', va')"
  shows "length f' \<le> length f"
proof -
  obtain fl1 f1 where 1: "flags_loop f 0 = (fl1, f1)" by fastforce
  obtain w fl2 f2 va2 where 2: "parse_width fl1 f1 va = Inr (w, fl2, f2, va2)"
    using assms by (auto simp: parse_spec_def 1 split: sum.splits)
  obtain p fl3 f3 va3 where 3: "parse_precision fl2 f2 va2 = Inr (p, fl3, f3, va3)"
    using assms by (auto simp: parse_spec_def 1 2 split: sum.splits)
  have "length f1 \<le> length f" using length_flags_loop [of f 0] by (simp add: 1)
  moreover have "length f2 \<le> length f1"
    using 2 length_atoi [of f1 0] length_tl_le [of f1]
    by (auto simp: parse_width_def atoi_def Let_def split: if_splits list.splits prod.splits simp del: length_tl)
  moreover have "length f3 \<le> length f2"
    using 3 length_atoi [of "tl f2" 0] length_tl_le [of f2] length_tl_le [of "tl f2"]
    by (auto simp: parse_precision_def atoi_def Let_def split: if_splits list.splits prod.splits simp del: length_tl)
  moreover have "length f' \<le> length f3"
    using assms length_tl_le [of f3] length_tl_le [of "tl f3"]
    by (auto simp: parse_spec_def 1 2 3 parse_length_def Let_def split: if_splits simp del: length_tl)
  ultimately show ?thesis by linarith
qed

function vsn_loop :: "'s out_fct \<Rightarrow> addr \<Rightarrow> u64 \<Rightarrow> mem \<Rightarrow> byte list \<Rightarrow> u64 list \<Rightarrow> u64 \<times> 's \<Rightarrow>
    pf_error + (u64 \<times> 's)" where
  "vsn_loop out buffer maxlen m [] va st = Inr st"
| "vsn_loop out buffer maxlen m (c # f) va st =
     (if c \<noteq> ch CHR ''%'' then
        vsn_loop out buffer maxlen m f va (fst st + 1, out c buffer (fst st) maxlen (snd st))
      else case parse_spec f va of Inl e \<Rightarrow> Inl e
        | Inr (flags, width, precision, f', va') \<Rightarrow>
          (case conv out buffer maxlen m (cur f') flags width precision va' st of Inl e \<Rightarrow> Inl e
           | Inr (st', va'') \<Rightarrow>
             (case f' of [] \<Rightarrow> Inl Format_overrun
              | _ # f'' \<Rightarrow> vsn_loop out buffer maxlen m f'' va'' st')))"
  by pat_completeness auto
termination
  by (relation "measure (\<lambda>(out, b, n, m, f, va, st). length f)")
     (auto dest!: length_parse_spec)

text \<open>The terminating NUL goes to the end of the text or to the last byte of the buffer; the
  result is the index truncated to \<open>int\<close>.\<close>

definition vsnprintf_gen :: "'s out_fct \<Rightarrow> addr \<Rightarrow> u64 \<Rightarrow> mem \<Rightarrow> byte list \<Rightarrow> u64 list \<Rightarrow> 's \<Rightarrow>
    pf_error + (u32 \<times> 's)" where
  "vsnprintf_gen out buffer maxlen m format va s =
     (let out = (if buffer = 0 then out_null else out)
      in case vsn_loop out buffer maxlen m format va (0, s) of Inl e \<Rightarrow> Inl e
         | Inr (idx, s) \<Rightarrow>
           Inr (ucast idx, out 0 buffer (if idx < maxlen then idx else maxlen - 1) maxlen s))"

text \<open>\<open>printf_\<close> passes a one-byte local array, here the address \<open>local\<close>, as the buffer.\<close>

definition printf :: "addr \<Rightarrow> (byte \<Rightarrow> 's \<Rightarrow> 's) \<Rightarrow> mem \<Rightarrow> byte list \<Rightarrow> u64 list \<Rightarrow> 's \<Rightarrow>
    pf_error + (u32 \<times> 's)" where
  "printf local putc m format va s = vsnprintf_gen (out_char putc) local (- 1) m format va s"

definition sprintf :: "addr \<Rightarrow> mem \<Rightarrow> byte list \<Rightarrow> u64 list \<Rightarrow> mem \<Rightarrow> pf_error + (u32 \<times> mem)" where
  "sprintf buffer m format va s = vsnprintf_gen out_buffer buffer (- 1) m format va s"

definition snprintf :: "addr \<Rightarrow> u64 \<Rightarrow> mem \<Rightarrow> byte list \<Rightarrow> u64 list \<Rightarrow> mem \<Rightarrow> pf_error + (u32 \<times> mem)" where
  "snprintf buffer count m format va s = vsnprintf_gen out_buffer buffer count m format va s"

definition fctprintf :: "addr \<Rightarrow> (addr \<Rightarrow> 's out_fct_wrap) \<Rightarrow> mem \<Rightarrow> byte list \<Rightarrow> u64 list \<Rightarrow> 's \<Rightarrow>
    pf_error + (u32 \<times> 's)" where
  "fctprintf wrap deref m format va s = vsnprintf_gen (out_wrap deref) wrap (- 1) m format va s"

end
