(* ===== verification/Printf_Spec.thy ===== *)
theory Printf_Spec
  imports Printf
begin

text \<open>
  What \<open>_vsnprintf\<close> produces, independently of the output function: \<open>vsn_acts\<close> maps a format
  and its arguments to the sequence of characters and index resets, and \<open>vsn_loop\<close> is shown to
  play exactly that sequence on every output function (\<open>vsn_loop_play\<close>). The properties of
  \<open>snprintf\<close> and \<open>printf\<close> follow from it and from what the output functions keep.
\<close>

section \<open>The specification\<close>

definition pad_text :: "u32 \<Rightarrow> u32 \<Rightarrow> byte list" where
  "pad_text l width = replicate (unat width - unat l) (ch CHR '' '')"

partial_function (option) str_chars :: "mem \<Rightarrow> u32 \<Rightarrow> addr \<Rightarrow> u32 \<Rightarrow> byte list option" where
  "str_chars m flags p precision =
     (if m p \<noteq> 0 \<and> (\<not> flag_set flags FLAGS_PRECISION \<or> precision \<noteq> 0)
      then Option.bind
             (str_chars m flags (p + 1)
                (if flag_set flags FLAGS_PRECISION then precision - 1 else precision))
             (\<lambda>cs. Some (m p # cs))
      else Some [])"

definition str_text :: "mem \<Rightarrow> u32 \<Rightarrow> u32 \<Rightarrow> u32 \<Rightarrow> addr \<Rightarrow> byte list option" where
  "str_text m flags width precision p =
     (case str_chars m flags p precision of None \<Rightarrow> None
      | Some cs \<Rightarrow>
        (let pad = pad_text (str_width m flags p precision) width
         in Some (if flag_set flags FLAGS_LEFT then cs @ pad else pad @ cs)))"

definition conv_int_text :: "byte \<Rightarrow> u32 \<Rightarrow> u32 \<Rightarrow> u32 \<Rightarrow> u64 \<Rightarrow> byte list" where
  "conv_int_text c flags width precision a =
     (let flags = int_flags c flags; (v, negative) = int_arg c flags a
      in int_text v negative (spec_base c) precision width flags)"

definition char_text :: "u32 \<Rightarrow> u32 \<Rightarrow> u64 \<Rightarrow> byte list" where
  "char_text flags width a =
     (if flag_set flags FLAGS_LEFT then ucast a # pad_text 1 width else pad_text 1 width @ [ucast a])"

definition conv_acts :: "mem \<Rightarrow> byte \<Rightarrow> u32 \<Rightarrow> u32 \<Rightarrow> u32 \<Rightarrow> u64 list \<Rightarrow>
    pf_error + action list \<times> u64 list" where
  "conv_acts m c flags width precision va =
     (if c \<in> set int_specs then
        (case va of [] \<Rightarrow> Inl Missing_argument
         | a # va \<Rightarrow> Inr (map Put (conv_int_text c flags width precision a), va))
      else if c = ch CHR ''f'' \<or> c = ch CHR ''F'' then
        (case va of [] \<Rightarrow> Inl Missing_argument
         | a # va \<Rightarrow> (case ftoa_acts a precision width flags of Inl e \<Rightarrow> Inl e | Inr as \<Rightarrow> Inr (as, va)))
      else if c = ch CHR ''c'' then
        (case va of [] \<Rightarrow> Inl Missing_argument
         | a # va \<Rightarrow> Inr (map Put (char_text flags width a), va))
      else if c = ch CHR ''s'' then
        (case va of [] \<Rightarrow> Inl Missing_argument
         | a # va \<Rightarrow> (case str_text m flags width precision a of None \<Rightarrow> Inl Endless_string
                     | Some cs \<Rightarrow> Inr (map Put cs, va)))
      else if c = ch CHR ''p'' then
        (case va of [] \<Rightarrow> Inl Missing_argument
         | a # va \<Rightarrow>
           Inr (map Put (int_text a False 16 precision 16 (flags OR FLAGS_ZEROPAD OR FLAGS_UPPERCASE)), va))
      else Inr ([Put c], va))"

function vsn_acts :: "mem \<Rightarrow> byte list \<Rightarrow> u64 list \<Rightarrow> pf_error + action list" where
  "vsn_acts m [] va = Inr []"
| "vsn_acts m (c # f) va =
     (if c \<noteq> ch CHR ''%'' then map_sum id (Cons (Put c)) (vsn_acts m f va)
      else case parse_spec f va of Inl e \<Rightarrow> Inl e
        | Inr (flags, width, precision, f', va') \<Rightarrow>
          (case conv_acts m (cur f') flags width precision va' of Inl e \<Rightarrow> Inl e
           | Inr (as, va'') \<Rightarrow>
             (case f' of [] \<Rightarrow> Inl Format_overrun
              | _ # f'' \<Rightarrow> map_sum id (append as) (vsn_acts m f'' va''))))"
  by pat_completeness auto
termination
  by (relation "measure (\<lambda>(m, f, va). length f)") (auto dest!: length_parse_spec)

section \<open>The code plays the specification\<close>

lemma pad_to_emit: "pad_to out b n l width st = emit out b n (pad_text l width) st"
proof (induction out b n l width st rule: pad_to.induct)
  case (1 out b n l width idx s)
  show ?case
  proof (cases "l < width")
    case True
    then have "unat width - unat l = Suc (unat width - unat (l + 1))" by unat_arith
    then show ?thesis using True 1 by (subst pad_to.simps) (simp add: pad_text_def)
  qed (subst pad_to.simps, simp add: pad_text_def word_less_nat_alt)
qed

lemma str_out_of_chars:
  assumes "str_chars m flags p precision = Some cs"
  shows "str_out out b n m flags p precision st = Some (emit out b n cs st)"
proof -
  have "\<forall>st. str_out out b n m flags p precision st = Some (emit out b n cs st)"
  proof (rule str_chars.raw_induct [where P = "\<lambda>m flags p precision cs.
      \<forall>st. str_out out b n m flags p precision st = Some (emit out b n cs st)", OF _ assms])
    fix rec m flags p precision cs
    assume IH: "\<And>m flags p precision cs. rec m flags p precision = Some cs \<Longrightarrow>
        \<forall>st. str_out out b n m flags p precision st = Some (emit out b n cs st)"
      and eq: "(if m p \<noteq> 0 \<and> (\<not> flag_set flags FLAGS_PRECISION \<or> precision \<noteq> 0)
        then Option.bind (rec m flags (p + 1) (if flag_set flags FLAGS_PRECISION then precision - 1 else precision))
               (\<lambda>cs. Some (m p # cs)) else Some []) = Some cs"
    show "\<forall>st. str_out out b n m flags p precision st = Some (emit out b n cs st)"
    proof
      fix st :: "u64 \<times> 'a"
      obtain idx s where "st = (idx, s)" by fastforce
      then show "str_out out b n m flags p precision st = Some (emit out b n cs st)"
        using eq by (subst str_out.simps) (auto split: if_splits bind_splits dest: IH)
    qed
  qed
  then show ?thesis by blast
qed

lemma str_chars_of_out:
  assumes "str_out out b n m flags p precision st = Some st'"
  shows "str_chars m flags p precision \<noteq> None"
proof (rule str_out.raw_induct [where P = "\<lambda>out b n m flags p precision st st'.
    str_chars m flags p precision \<noteq> None", OF _ assms])
  fix rec and out :: "'a out_fct" and b n m flags p precision st st'
  assume IH: "\<And>out b n m flags p precision st st'. rec out b n m flags p precision st = Some st' \<Longrightarrow>
      str_chars m flags p precision \<noteq> None"
    and eq: "(if m p \<noteq> 0 \<and> (\<not> flag_set flags FLAGS_PRECISION \<or> precision \<noteq> 0)
      then rec out b n m flags (p + 1) (if flag_set flags FLAGS_PRECISION then precision - 1 else precision)
             (fst st + 1, out (m p) b (fst st) n (snd st)) else Some st) = Some st'"
  show "str_chars m flags p precision \<noteq> None"
    using eq by (subst str_chars.simps) (auto split: if_splits dest: IH)
qed

lemma str_out_emit:
  "str_out out b n m flags p precision st =
     map_option (\<lambda>cs. emit out b n cs st) (str_chars m flags p precision)"
  by (cases "str_chars m flags p precision")
     (auto simp: str_out_of_chars dest: str_chars_of_out intro: ccontr)

lemma emit_Put1: "(fst st + 1, out c b (fst st) n (snd st)) = emit out b n [c] st"
  by (cases st) simp

lemma play_Put1 [simp]: "play out b n [Put c] st = emit out b n [c] st"
  by (cases st) simp

lemma conv_str_emit:
  "conv_str out b n m flags width precision p st =
     (case str_text m flags width precision p of None \<Rightarrow> Inl Endless_string
      | Some cs \<Rightarrow> Inr (emit out b n cs st))"
  by (simp add: conv_str_def str_text_def str_out_emit pad_to_emit Let_def split: option.splits)

lemma conv_char_emit: "conv_char out b n flags width a st = emit out b n (char_text flags width a) st"
  by (cases st) (auto simp: conv_char_def char_text_def pad_to_emit Let_def split_beta emit_Put1)

lemma conv_int_emit:
  "conv_int out b n c flags width precision a st = emit out b n (conv_int_text c flags width precision a) st"
  by (simp add: conv_int_def conv_int_text_def ntoa_long_emit ntoa_long_long_emit Let_def split_beta)

lemma conv_play:
  "conv out b n m c flags width precision va st =
     map_sum id (\<lambda>(as, va). (play out b n as st, va)) (conv_acts m c flags width precision va)"
  by (auto simp: conv_def conv_acts_def conv_int_emit conv_char_emit conv_str_emit conv_ptr_def
      ntoa_long_long_emit ftoa_play emit_Put1 split: list.splits sum.splits option.splits)

lemma vsn_loop_play:
  "vsn_loop out b n m f va st = map_sum id (\<lambda>as. play out b n as st) (vsn_acts m f va)"
proof (induction m f va arbitrary: st rule: vsn_acts.induct)
  case (2 m c f va)
  show ?case
  proof (cases "c = ch CHR ''%''")
    case False
    then show ?thesis using 2(1) by (cases st) (simp add: sum.map_comp comp_def)
  next
    case True
    then show ?thesis using 2(2)
      by (auto simp: conv_play sum.map_comp comp_def split: sum.splits prod.splits list.splits)
  qed
qed simp

section \<open>The entry points\<close>

lemma vsnprintf_gen_play:
  "buffer \<noteq> 0 \<Longrightarrow> vsnprintf_gen out buffer n m f va s =
     map_sum id (\<lambda>as. let (idx, s) = play out buffer n as (0, s)
                       in (ucast idx, out 0 buffer (if idx < n then idx else n - 1) n s)) (vsn_acts m f va)"
  by (cases "vsn_acts m f va") (auto simp: vsnprintf_gen_def vsn_loop_play split: prod.splits)

text \<open>The index after a sequence of actions does not depend on the sink.\<close>

fun play_idx :: "action list \<Rightarrow> u64 \<Rightarrow> u64" where
  "play_idx [] idx = idx"
| "play_idx (Put c # as) idx = play_idx as (idx + 1)"
| "play_idx (Rewind # as) idx = play_idx as 0"

lemma fst_play: "fst (play out b n as (idx, s)) = play_idx as idx"
  by (induction as idx arbitrary: s rule: play_idx.induct) simp_all

text \<open>Whatever a sink keeps, a call of \<open>_vsnprintf\<close> keeps.\<close>

context sink
begin

lemma keeps_vsnprintf:
  assumes "buffer \<noteq> 0" and "vsnprintf_gen out buffer n m f va s = Inr (r, s')"
  shows "keeps buffer n s s'"
proof -
  obtain as where "vsn_acts m f va = Inr as"
    using assms by (cases "vsn_acts m f va") (auto simp: vsnprintf_gen_play)
  moreover obtain idx t where "play out buffer n as (0, s) = (idx, t)" by fastforce
  moreover have "keeps buffer n s (snd (play out buffer n as (0, s)))" by (rule keeps_play)
  ultimately show ?thesis using assms keeps_trans [OF _ keeps_out]
    by (auto simp: vsnprintf_gen_play)
qed

end

text \<open>A buffer of \<open>n\<close> bytes after a text without resets.\<close>

lemma word_pred_less: "(0 :: u64) < n \<Longrightarrow> n - 1 < n \<and> unat (n - 1) = unat n - 1"
proof -
  assume "0 < n"
  then have "Suc (unat (n - 1)) = unat n" by (intro unat_Suc_minus_one) (simp add: word_gt_0)
  then show ?thesis unfolding word_less_nat_alt by linarith
qed

lemma snprintf_text:
  assumes acts: "vsn_acts m f va = Inr (map Put cs)" and "buffer \<noteq> 0" and "0 < n" and "length cs < 2 ^ 64"
  defines "k \<equiv> min (length cs) (unat n - 1)"
  obtains mem' where "snprintf buffer n m f va mem = Inr (of_nat (length cs), mem')"
    and "bytes_at mem' buffer k = take k cs" and "mem' (buffer + of_nat k) = 0"
    and "\<And>x. k < unat (x - buffer) \<Longrightarrow> mem' x = mem x"
proof -
  let ?idx = "of_nat (length cs) :: u64"
  let ?at = "if ?idx < n then ?idx else n - 1"
  have pred: "n - 1 < n" "unat (n - 1) = unat n - 1" using word_pred_less [OF assms(3)] by auto
  have ui: "unat ?idx = length cs" using assms(4) by (simp add: unat_of_nat64)
  have at: "?at < n" "unat ?at = k" using pred ui unfolding k_def by (auto simp: word_less_nat_alt)
  have atk: "?at = of_nat k" by (rule eq_of_nat_unat [OF at(2)])
  obtain E where em: "emit out_buffer buffer n cs (0, mem) = (?idx, E)"
    using emit_eq_pair [of out_buffer buffer n cs 0 mem] by (simp only: add_0)
  have e: "E = (\<lambda>x. if x - buffer < n \<and> unat (x - buffer) < length cs then cs ! unat (x - buffer) else mem x)"
  proof -
    have "unat (0 :: u64) + length cs < 2 ^ 64" using assms(4) by (simp only: unsigned_0 add_0)
    from emit_buffer [OF this, of buffer n mem] show ?thesis
      by (simp only: em snd_conv unsigned_0 add_0 minus_nat.diff_0 word_coorder.extremum simp_thms)
  qed
  have n0: "unat n \<noteq> 0" using assms(3) by (simp add: unat_eq_0 word_gt_0)
  have kn: "k < unat n" using n0 unfolding k_def by simp
  then have kk: "unat (of_nat k :: u64) = k" by (intro unat_of_nat_below [of _ n])
  show ?thesis
  proof
    show "snprintf buffer n m f va mem = Inr (of_nat (length cs), E(buffer + ?at := 0))"
      using at(1) by (simp add: snprintf_def vsnprintf_gen_play [OF assms(2)] acts out_buffer_def em)
    show "(E(buffer + ?at := 0)) (buffer + of_nat k) = 0" by (simp add: atk)
    show "bytes_at (E(buffer + ?at := 0)) buffer k = take k cs"
    proof (rule nth_equalityI)
      fix i assume "i < length (bytes_at (E(buffer + ?at := 0)) buffer k)"
      then have i: "i < k" by simp
      then have ii: "unat (of_nat i :: u64) = i" using kn by (intro unat_of_nat_below [of _ n]) simp
      have "(of_nat i :: u64) \<noteq> of_nat k" using ii kk i by (metis less_irrefl)
      moreover have "(of_nat i :: u64) < n" using ii i kn by (simp add: word_less_nat_alt)
      ultimately show "bytes_at (E(buffer + ?at := 0)) buffer k ! i = take k cs ! i"
        using i ii unfolding atk e k_def by simp
    qed (simp add: k_def)
    fix x assume "k < unat (x - buffer)"
    moreover from this have "x \<noteq> buffer + of_nat k" using kn by auto
    ultimately show "(E(buffer + ?at := 0)) x = mem x"
      unfolding atk e k_def by (auto simp: word_less_nat_alt)
  qed
qed


section \<open>Some conversions\<close>

lemma vsn_acts_plain: "ch CHR ''%'' \<notin> set cs \<Longrightarrow> vsn_acts m (cs @ f) va = map_sum id (append (map Put cs)) (vsn_acts m f va)"
  by (induction cs; cases "vsn_acts m f va") auto

text \<open>\<open>%d\<close>: the sign and the decimal digits of the low 32 bits of the argument.\<close>

lemma vsn_acts_d:
  "vsn_acts m (str ''%d'') [a] =
     Inr (map Put (int_text (ucast (if 0 <s v then v else - v)) (v <s 0) 10 0 0 0))"
  if "v = (ucast a :: u32)" for v
  using that
  by (simp add: parse_spec_def parse_width_def parse_precision_def parse_length_def cur_def is_digit_def
      conv_acts_def int_specs_def conv_int_text_def int_flags_def int_arg_def is_signed_def spec_base_def Let_def)

lemma int_text_signed:
  "int_text v neg base 0 0 0 = (if neg \<and> length (ntoa_digits 32 v base 0 []) < 32 then str ''-'' else []) @ rev (ntoa_digits 32 v base 0 [])"
  by (simp add: int_text_def ntoa_text_def field_text_def ntoa_pad_def ntoa_hash_def ntoa_sign_def sign_width_def
      Let_def NTOA_BUFFER_SIZE_def pad_zeros_eq)

lemma ntoa_digits_short:
  "unat v < 10 ^ Suc r \<Longrightarrow> length (ntoa_digits room v 10 flags []) \<le> Suc r"
proof (induction r arbitrary: room v)
  case 0
  then have "v div 10 = 0" by (simp add: unat_eq_0 [symmetric] unat_div del: unat_eq_0)
  then show ?case by (cases room) (simp_all add: ntoa_digits_Suc)
next
  case (Suc r)
  then have "unat (v div 10) < 10 ^ Suc r" by (simp add: unat_div less_mult_imp_div_less)
  then show ?case using Suc.IH [of "v div 10"] by (cases room) (simp_all add: ntoa_digits_Suc)
qed

lemma sint32_bounds: "- (2 ^ 31) \<le> sint (v :: 32 word)" "sint v < 2 ^ 31"
  using sint_ge [of v] sint_lt [of v] by simp_all

lemma unat_abs32:
  "int (unat (if 0 <s v then v else - v)) = \<bar>sint (v :: u32)\<bar>"
proof -
  have v: "v = word_of_int (sint v)" by simp
  have m: "- v = word_of_int (- sint v)" by (metis v wi_hom_neg)
  have tb: "take_bit 32 k = k" if "0 \<le> k" "k < 2 ^ 32" for k :: int
    using that by (simp add: take_bit_int_eq_self)
  show ?thesis
  proof (cases "0 <s v")
    case True
    then have "0 < sint v" by (simp add: word_sless_alt)
    moreover have "take_bit 32 (sint v) = sint v" using \<open>0 < sint v\<close> sint32_bounds [of v] by (intro tb) simp_all
    then have "uint v = sint v" using uint_sint [of v] by simp
    ultimately show ?thesis using True by simp
  next
    case False
    then have le: "sint v \<le> 0" by (simp add: word_sless_alt)
    have "uint (- v) = take_bit 32 (- sint v)" by (subst m) (simp only: uint_word_of_int_eq, simp)
    also have "\<dots> = - sint v" using le sint32_bounds [of v] by (intro tb) simp_all
    finally show ?thesis using False le by simp
  qed
qed

lemma str_chars_cstr:
  "cstr_at m p s \<Longrightarrow>
   str_chars m flags p prec = Some (if flag_set flags FLAGS_PRECISION then take (unat prec) s else s)"
proof (induction s arbitrary: p prec)
  case Nil
  then show ?case by (simp add: str_chars.simps)
next
  case (Cons c s)
  show ?case
  proof (cases "flag_set flags FLAGS_PRECISION \<and> prec = 0")
    case True
    then show ?thesis by (simp add: str_chars.simps)
  next
    case False
    have "take (unat prec) (c # s) = c # take (unat (prec - 1)) s" if "prec \<noteq> 0"
      using unat_Suc_minus_one [OF that] by (metis take_Suc_Cons)
    then show ?thesis using False Cons by (subst str_chars.simps) auto
  qed
qed

section \<open>Properties\<close>

text \<open>C1. \<open>_vsnprintf\<close> produces one sequence of characters (and index resets) for a format and
  its arguments, or one error, whatever the output function, the buffer and its size are; the
  result is the final index as an \<open>int\<close>, and the NUL goes to that index or to the last byte.\<close>

theorem vsnprintf_plays:
  assumes "buffer \<noteq> 0"
  shows "vsnprintf_gen out buffer n m f va s =
    (case vsn_acts m f va of Inl e \<Rightarrow> Inl e
     | Inr as \<Rightarrow> (case play out buffer n as (0, s) of (idx, s') \<Rightarrow>
         Inr (ucast idx, out 0 buffer (if idx < n then idx else n - 1) n s')))"
  using assms by (cases "vsn_acts m f va") (auto simp: vsnprintf_gen_play split: prod.splits)

theorem vsnprintf_plays_witness:
  "vsnprintf_gen (out_char (\<lambda>c s. s @ [c])) 8 (- 1) (\<lambda>_. 0) (str ''%c%%'') [65] [] = Inr (2, [65, 37])"
proof -
  have "vsn_acts (\<lambda>_. 0) (str ''%c%%'') [65] = Inr [Put 65, Put 37]"
    by (simp add: parse_spec_def parse_width_def parse_precision_def parse_length_def cur_def is_digit_def
      conv_acts_def int_specs_def char_text_def pad_text_def Let_def)
  then show ?thesis
    using vsnprintf_plays [of 8 "out_char (\<lambda>c s. s @ [c])" "- 1" "\<lambda>_. 0" "str ''%c%%''" "[65]" "[]"]
    by (simp add: out_char_def)
qed

text \<open>C2. \<open>snprintf\<close> into a buffer of \<open>n > 0\<close> bytes stores the longest prefix of the text that
  leaves room for the terminator, then a NUL, changes no other byte of the memory, and returns
  the length of the whole text, so a result of \<open>n\<close> or more means truncation.\<close>

theorem snprintf_correct:
  assumes "vsn_acts m f va = Inr (map Put cs)" and "buffer \<noteq> 0" and "0 < n" and "length cs < 2 ^ 64"
  shows "\<exists>mem'. snprintf buffer n m f va mem = Inr (of_nat (length cs), mem') \<and>
    (let k = min (length cs) (unat n - 1) in
       bytes_at mem' buffer k = take k cs \<and> mem' (buffer + of_nat k) = 0 \<and>
       (\<forall>x. k < unat (x - buffer) \<longrightarrow> mem' x = mem x))"
  by (rule snprintf_text [OF assms, of mem]) (auto simp: Let_def)

theorem snprintf_correct_witness:
  "\<exists>mem'. snprintf 16 4 (\<lambda>_. 0) (str ''hello'') [] (\<lambda>_. 255) = Inr (5, mem') \<and>
     bytes_at mem' 16 3 = str ''hel'' \<and> mem' 19 = 0"
proof -
  have "vsn_acts (\<lambda>_. 0) (str ''hello'') [] = Inr (map Put (str ''hello''))" by simp
  from snprintf_correct [OF this, of 16 4 "\<lambda>_. 255"] show ?thesis
    by (auto simp: Let_def numeral_3_eq_3)
qed

text \<open>C3. Whatever the format and the arguments are, and also when a conversion resets the
  index, \<open>snprintf\<close> writes no byte outside the \<open>n\<close> bytes of its buffer (none at all for \<open>n = 0\<close>).\<close>

theorem snprintf_within:
  assumes "buffer \<noteq> 0" and "snprintf buffer n m f va mem = Inr (r, mem')"
  shows "\<forall>x. n \<le> x - buffer \<longrightarrow> mem' x = mem x"
  using buffer_sink.keeps_vsnprintf [OF assms(1), of n m f va mem r mem'] assms(2)
  by (simp add: snprintf_def writes_within_def)

theorem snprintf_within_witness: "\<exists>r mem'. snprintf 16 0 (\<lambda>_. 0) (str ''x'') [] (\<lambda>_. 7) = Inr (r, mem') \<and> mem' 16 = 7"
proof -
  obtain r mem' where r: "snprintf 16 0 (\<lambda>_. 0) (str ''x'') [] (\<lambda>_. 7) = Inr (r, mem')"
    by (simp add: snprintf_def vsnprintf_gen_play)
  with snprintf_within [OF _ r] show ?thesis by auto
qed

text \<open>C27. With a null buffer nothing is written and the result is the one that any buffer and
  any output function give, so a text can be measured before it is formatted.\<close>

theorem snprintf_measures:
  assumes "buffer \<noteq> 0"
  shows "snprintf 0 n m f va mem = map_sum id (\<lambda>(r, _). (r, mem)) (vsnprintf_gen out buffer n' m f va s)"
proof (cases "vsn_acts m f va")
  case (Inr as)
  obtain idx s' where p: "play out buffer n' as (0, s) = (idx, s')" by fastforce
  then have "idx = play_idx as 0" using fst_play [of out buffer n' as 0 s] by simp
  moreover have "play out_null 0 n as (0, mem) = (play_idx as 0, mem)"
    using fst_play [of out_null 0 n as 0 mem] null_sink.keeps_play [of mem 0 n as 0]
    by (cases "play out_null 0 n as (0, mem)") simp
  ultimately show ?thesis
    by (simp add: snprintf_def vsnprintf_gen_play [OF assms] Inr p)
       (simp add: vsnprintf_gen_def vsn_loop_play Inr out_null_def)
qed (simp add: snprintf_def vsnprintf_gen_def vsn_loop_play Let_def)

theorem snprintf_measures_witness:
  "snprintf 0 0 (\<lambda>_. 0) (str ''ab'') [] (\<lambda>_. 7) = Inr (2, \<lambda>_. 7)"
  using snprintf_measures [of 8 0 "\<lambda>_. 0" "str ''ab''" "[]" "\<lambda>_. 7" "out_null" 0 "()"]
  by (simp add: vsnprintf_gen_play)



text \<open>A format that ends in an unfinished conversion makes the code read beyond its NUL: the
  NUL is taken for the specifier and skipped.\<close>

theorem trailing_percent:
  assumes "ch CHR ''%'' \<notin> set cs"
  shows "vsnprintf_gen out buffer n m (cs @ str ''%'') va s = Inl Format_overrun"
proof -
  have "vsn_acts m (str ''%'') va = Inl Format_overrun"
    by (simp add: parse_spec_def parse_width_def parse_precision_def parse_length_def cur_def is_digit_def
      conv_acts_def int_specs_def Let_def)
  then show ?thesis using assms by (simp add: vsnprintf_gen_def vsn_loop_play vsn_acts_plain Let_def)
qed

theorem trailing_percent_witness:
  "snprintf 16 4 (\<lambda>_. 0) (str ''50%'') [] (\<lambda>_. 0) = Inl Format_overrun"
  using trailing_percent [of "str ''50''" out_buffer 16 4 "\<lambda>_. 0" "[]" "\<lambda>_. 0"]
  by (simp add: snprintf_def)

text \<open>\<open>%s\<close> prints a NUL-terminated string, and \<open>%.*s\<close> with a positive precision at most
  that many of its characters.\<close>

theorem printf_s:
  assumes "cstr_at m p s" and "0 <s (n :: u32)"
  shows "vsn_acts m (str ''%s'') [p] = Inr (map Put s) \<and>
         vsn_acts m (str ''%.*s'') [ucast n, p] = Inr (map Put (take (unat n) s))"
  using assms
  by (simp add: parse_spec_def parse_width_def parse_precision_def parse_length_def cur_def is_digit_def
      conv_acts_def int_specs_def str_text_def str_chars_cstr pad_text_def Let_def c_const)

theorem printf_s_witness:
  "vsn_acts ((\<lambda>_. 0)(8 := 104, 9 := 105)) (str ''%.*s'') [1, 8] = Inr [Put 104]"
  using printf_s [of "(\<lambda>_. 0)(8 := 104, 9 := 105)" 8 "[104, 105]" 1]
  by (simp add: word_sless_alt del: vsn_acts.simps str_Cons)

end
