(* ===== verification/Minlibc.thy ===== *)
theory Minlibc
  imports Cmem "HOL-Library.List_Lexorder"
begin

text \<open>
  The memory and string functions of \<open>software/sdk/src/minlibc.c\<close>, the C library the BSP
  links. A counting loop \<open>while (n--)\<close> is structural recursion on the count; a loop that
  runs to a NUL is a \<open>partial_function\<close>, so that a missing terminator shows as \<open>None\<close>
  (the C code would scan the address space for ever). \<open>char\<close> is unsigned.
\<close>

section \<open>memset, memcpy, memmove\<close>

fun memset_loop :: "nat \<Rightarrow> addr \<Rightarrow> byte \<Rightarrow> mem \<Rightarrow> mem" where
  "memset_loop 0 p c m = m"
| "memset_loop (Suc n) p c m = memset_loop n (p + 1) c (m(p := c))"

definition memset :: "addr \<Rightarrow> u32 \<Rightarrow> u64 \<Rightarrow> mem \<Rightarrow> addr \<times> mem" where
  "memset s c n m = (s, memset_loop (unat n) s (ucast c) m)"

fun copy_up :: "nat \<Rightarrow> addr \<Rightarrow> addr \<Rightarrow> mem \<Rightarrow> mem" where
  "copy_up 0 d s m = m"
| "copy_up (Suc n) d s m = copy_up n (d + 1) (s + 1) (m(d := m s))"

definition memcpy :: "addr \<Rightarrow> addr \<Rightarrow> u64 \<Rightarrow> mem \<Rightarrow> addr \<times> mem" where
  "memcpy dest src n m = (dest, copy_up (unat n) dest src m)"

fun copy_down :: "nat \<Rightarrow> addr \<Rightarrow> addr \<Rightarrow> mem \<Rightarrow> mem" where
  "copy_down 0 d s m = m"
| "copy_down (Suc n) d s m = copy_down n (d - 1) (s - 1) (m(d - 1 := m (s - 1)))"

definition memmove :: "addr \<Rightarrow> addr \<Rightarrow> u64 \<Rightarrow> mem \<Rightarrow> addr \<times> mem" where
  "memmove dest src n m =
     (dest, if dest < src then copy_up (unat n) dest src m
            else copy_down (unat n) (dest + n) (src + n) m)"

section \<open>strlen, strcmp, strncpy, strncmp, strchr\<close>

partial_function (option) strlen_from :: "mem \<Rightarrow> addr \<Rightarrow> u64 \<Rightarrow> u64 option" where
  "strlen_from m s len = (if m (s + len) \<noteq> 0 then strlen_from m s (len + 1) else Some len)"

definition strlen :: "mem \<Rightarrow> addr \<Rightarrow> u64 option" where
  "strlen m s = strlen_from m s 0"

partial_function (option) strcmp :: "mem \<Rightarrow> addr \<Rightarrow> addr \<Rightarrow> int option" where
  "strcmp m s1 s2 =
     (if m s1 \<noteq> 0 \<and> m s1 = m s2 then strcmp m (s1 + 1) (s2 + 1)
      else Some (uint (m s1) - uint (m s2)))"

text \<open>The first loop of \<open>strncpy\<close> copies while \<open>i < n && *s\<close> and gives what is left of the
  count; the second pads with NUL.\<close>

fun strncpy_copy :: "nat \<Rightarrow> addr \<Rightarrow> addr \<Rightarrow> mem \<Rightarrow> nat \<times> addr \<times> mem" where
  "strncpy_copy 0 d s m = (0, d, m)"
| "strncpy_copy (Suc k) d s m =
     (if m s \<noteq> 0 then strncpy_copy k (d + 1) (s + 1) (m(d := m s)) else (Suc k, d, m))"

definition strncpy :: "addr \<Rightarrow> addr \<Rightarrow> u64 \<Rightarrow> mem \<Rightarrow> addr \<times> mem" where
  "strncpy dest src n m =
     (let (k, d, m') = strncpy_copy (unat n) dest src m in (dest, memset_loop k d 0 m'))"

text \<open>One round of the loop: \<open>n--\<close>, the two comparisons, then the early \<open>return 0\<close> once the
  decremented count is 0.\<close>

fun strncmp_loop :: "mem \<Rightarrow> nat \<Rightarrow> addr \<Rightarrow> addr \<Rightarrow> int" where
  "strncmp_loop m 0 s1 s2 = uint (m s1) - uint (m s2)"
| "strncmp_loop m (Suc n) s1 s2 =
     (if m s1 \<noteq> 0 \<and> m s1 = m s2 then
        (if n = 0 then 0 else strncmp_loop m n (s1 + 1) (s2 + 1))
      else uint (m s1) - uint (m s2))"

definition strncmp :: "mem \<Rightarrow> addr \<Rightarrow> addr \<Rightarrow> u64 \<Rightarrow> int" where
  "strncmp m s1 s2 n = (if n = 0 then 0 else strncmp_loop m (unat n) s1 s2)"

text \<open>\<open>NULL\<close> is address 0; \<open>c\<close> is the \<open>int\<close> the C code compares with the promoted character.\<close>

partial_function (option) strchr :: "mem \<Rightarrow> addr \<Rightarrow> int \<Rightarrow> addr option" where
  "strchr m s c =
     (if m s \<noteq> 0 then (if uint (m s) = c then Some s else strchr m (s + 1) c)
      else Some 0)"

section \<open>The block functions\<close>

lemma unat_less_Suc_bound: "n < 2 ^ 64 \<Longrightarrow> Suc k \<le> n \<Longrightarrow> Suc k < (2 :: nat) ^ 64"
  by simp

lemma memset_loop_put: "n < 2 ^ 64 \<Longrightarrow> memset_loop n p c m = mem_put m p n (\<lambda>_. c)"
proof (induction n arbitrary: p m)
  case (Suc n)
  then have "memset_loop (Suc n) p c m = mem_put (m(p := c)) (p + 1) n (\<lambda>_. c)" by simp
  also have "\<dots> = mem_put m p (Suc n) (\<lambda>_. c)"
    by (subst mem_put_Suc [OF Suc.prems]) (rule mem_put_cong, auto)
  finally show ?case .
qed simp

text \<open>Copying upwards is right unless the destination starts inside the source block.\<close>

lemma copy_up_put:
  "n < 2 ^ 64 \<Longrightarrow> d = s \<or> n \<le> unat (d - s) \<Longrightarrow>
   copy_up n d s m = mem_put m d n (\<lambda>o'. m (s + o'))"
proof (induction n arbitrary: d s m)
  case (Suc n)
  let ?m = "m(d := m s)"
  have diff: "(d + 1) - (s + 1) = d - s" by simp
  have IH: "copy_up n (d + 1) (s + 1) ?m = mem_put ?m (d + 1) n (\<lambda>o'. ?m (s + 1 + o'))"
    by (rule Suc.IH) (use Suc.prems diff in auto)
  have src: "?m (s + o') = m (s + o')" if "unat o' < Suc n" for o' :: addr
  proof (cases "d = s")
    case False
    have "o' \<noteq> d - s" using that Suc.prems(2) False by auto
    then show ?thesis by (auto simp: algebra_simps)
  qed auto
  have "copy_up (Suc n) d s m = mem_put m d (Suc n) (\<lambda>o'. if o' = 0 then m s else ?m (s + 1 + (o' - 1)))"
    by (simp only: copy_up.simps IH mem_put_Suc [OF Suc.prems(1)])
  also have "\<dots> = mem_put m d (Suc n) (\<lambda>o'. m (s + o'))"
    by (rule mem_put_cong) (auto simp: add.assoc dest: src)
  finally show ?case .
qed simp

text \<open>Copying downwards, from the ends \<open>d\<close> and \<open>s\<close> of the blocks, is right unless the source
  starts inside the destination block.\<close>

lemma mem_put_snoc:
  assumes "Suc n < 2 ^ 64"
  shows "mem_put (m(d + of_nat n := v)) d n g =
         mem_put m d (Suc n) (\<lambda>o'. if unat o' < n then g o' else v)"
proof
  fix x
  have n: "unat (of_nat n :: addr) = n" using assms by simp
  have "unat (x - d) = n \<longleftrightarrow> x = d + of_nat n"
  proof
    assume "unat (x - d) = n"
    then have "x - d = of_nat n" by (rule eq_of_nat_unat)
    then have "x - d + d = of_nat n + d" by simp
    then show "x = d + of_nat n" by (simp add: add.commute)
  qed (use n in simp)
  then show "mem_put (m(d + of_nat n := v)) d n g x =
      mem_put m d (Suc n) (\<lambda>o'. if unat o' < n then g o' else v) x"
    by (auto simp: mem_put_def)
qed

lemma copy_down_put:
  "n < 2 ^ 64 \<Longrightarrow> d = s \<or> n \<le> unat (s - d) \<Longrightarrow>
   copy_down n (d + of_nat n) (s + of_nat n) m = mem_put m d n (\<lambda>o'. m (s + o'))"
proof (induction n arbitrary: m)
  case (Suc n)
  let ?m = "m(d + of_nat n := m (s + of_nat n))"
  have IH: "copy_down n (d + of_nat n) (s + of_nat n) ?m = mem_put ?m d n (\<lambda>o'. ?m (s + o'))"
    by (rule Suc.IH) (use Suc.prems in auto)
  have src: "?m (s + o') = m (s + o')" if "unat o' < n" for o' :: addr
  proof (cases "d = s")
    case False
    then have le: "Suc n \<le> unat (s - d)" using Suc.prems by simp
    have "s + o' \<noteq> d + of_nat n"
    proof
      assume "s + o' = d + of_nat n"
      then have eq: "(s - d) + o' = of_nat n" by (simp add: algebra_simps)
      have "unat (s - d) \<le> unat ((s - d) + o') \<or> unat ((s - d) + o') < unat o'"
        by unat_arith
      then show False using eq le that Suc.prems(1) by auto
    qed
    then show ?thesis by simp
  qed auto
  have "copy_down (Suc n) (d + of_nat (Suc n)) (s + of_nat (Suc n)) m
      = mem_put m d (Suc n) (\<lambda>o'. if unat o' < n then ?m (s + o') else m (s + of_nat n))"
  proof -
    have pred: "x + of_nat (Suc n) - 1 = x + of_nat n" for x :: addr by simp
    show ?thesis
      by (simp only: copy_down.simps pred IH mem_put_snoc [OF Suc.prems(1)])
  qed
  also have "\<dots> = mem_put m d (Suc n) (\<lambda>o'. m (s + o'))"
  proof (rule mem_put_cong)
    fix o' :: addr assume "unat o' < Suc n"
    then consider "unat o' < n" | "unat o' = n" by linarith
    then show "(if unat o' < n then ?m (s + o') else m (s + of_nat n)) = m (s + o')"
    proof cases
      case 2
      then have "o' = of_nat n" by (rule eq_of_nat_unat)
      then show ?thesis using 2 by simp
    qed (simp only: src if_True)
  qed simp_all
  finally show ?case .
qed simp

text \<open>\<open>memmove\<close> picks the direction for which one of the two lemmas applies, as long as the
  blocks do not wrap around the end of the address space.\<close>

lemma memmove_put:
  assumes "unat dest + unat n \<le> 2 ^ 64" and "unat src + unat n \<le> 2 ^ 64"
  shows "memmove dest src n m = (dest, mem_put m dest (unat n) (\<lambda>o'. m (src + o')))"
proof (cases "dest < src")
  case True
  have ne: "dest - src \<noteq> 0" using True by auto
  have "unat (dest - src) = 2 ^ 64 - (unat src - unat dest)"
    using True by (simp add: unat_sub_if_size word_size word_less_nat_alt)
  then have "unat n \<le> unat (dest - src)" using assms True by (simp add: word_less_nat_alt)
  then show ?thesis using True by (simp add: memmove_def copy_up_put)
next
  case False
  have "dest = src \<or> unat n \<le> unat (src - dest)"
  proof (cases "dest = src")
    case ne: False
    then have "src < dest" using False by simp
    then have "unat (src - dest) = 2 ^ 64 - (unat dest - unat src)"
      by (simp add: unat_sub_if_size word_size word_less_nat_alt)
    moreover have "unat dest < 2 ^ 64" by simp
    ultimately show ?thesis using assms \<open>src < dest\<close> unfolding word_less_nat_alt by linarith
  qed simp
  then have "copy_down (unat n) (dest + of_nat (unat n)) (src + of_nat (unat n)) m =
      mem_put m dest (unat n) (\<lambda>o'. m (src + o'))"
    by (intro copy_down_put) auto
  then show ?thesis using False by (simp add: memmove_def)
qed

section \<open>The string functions on strings\<close>

text \<open>The difference of the first characters at which two strings differ, with the terminator
  counted as a character: what the comparison functions compute.\<close>

fun str_diff :: "byte list \<Rightarrow> byte list \<Rightarrow> int" where
  "str_diff [] [] = 0"
| "str_diff (a # s) [] = uint a"
| "str_diff [] (b # t) = - uint b"
| "str_diff (a # s) (b # t) = (if a = b then str_diff s t else uint a - uint b)"

lemma uint8_bounds [simp]: "0 \<le> uint (b :: byte)" "uint (b :: byte) < 256"
  using unsigned_less [of b, where ?'a = int] by simp_all

lemma str_diff_sign:
  "0 \<notin> set s \<Longrightarrow> 0 \<notin> set t \<Longrightarrow>
   (str_diff s t = 0 \<longleftrightarrow> s = t) \<and> (str_diff s t < 0 \<longleftrightarrow> s < t) \<and> \<bar>str_diff s t\<bar> < 256"
proof (induction s t rule: str_diff.induct)
  case (2 a s)
  then have "uint a \<noteq> uint (0 :: byte)" by (auto simp del: uint_0_eq simp: word_uint_eq_iff)
  then show ?case using uint8_bounds [of a] by simp
next
  case (3 b t)
  then have "uint b \<noteq> uint (0 :: byte)" by (auto simp del: uint_0_eq simp: word_uint_eq_iff)
  then show ?case using uint8_bounds [of b] by (simp add: order_less_le)
next
  case (4 a s b t)
  have "\<bar>uint a - uint b\<bar> < 256"
    using uint8_bounds [of a] uint8_bounds [of b] by linarith
  with 4 show ?case
    by (auto simp: word_less_def word_uint_eq_iff)
qed simp

lemma strlen_from_cstr:
  "cstr_at m (s + len) xs \<Longrightarrow> strlen_from m s len = Some (len + of_nat (length xs))"
proof (induction xs arbitrary: len)
  case Nil
  then show ?case by (simp add: strlen_from.simps)
next
  case (Cons c xs)
  then have "strlen_from m s (len + 1) = Some (len + 1 + of_nat (length xs))"
    by (intro Cons.IH) (simp add: add.assoc)
  then show ?case using Cons.prems by (subst strlen_from.simps) (auto simp: add.assoc)
qed

lemma strlen_from_nul: "strlen_from m s len = Some r \<Longrightarrow> m (s + r) = 0"
  by (rule strlen_from.raw_induct [where P = "\<lambda>m s len r. m (s + r) = 0"])
     (auto split: if_splits)

lemma cstr_at_of_first_nul:
  "m (s + r) = 0 \<Longrightarrow> (\<And>i. i < r \<Longrightarrow> m (s + i) \<noteq> 0) \<Longrightarrow> cstr_at m s (bytes_at m s (unat r))"
proof (induction "unat r" arbitrary: s r)
  case 0
  then show ?case by (simp add: unat_eq_0)
next
  case (Suc k)
  have r0: "r \<noteq> 0" using Suc.hyps(2) by auto
  then have k: "k = unat (r - 1)" using Suc.hyps(2) unat_Suc_minus_one [of r] by simp
  have "cstr_at m (s + 1) (bytes_at m (s + 1) (unat (r - 1)))"
  proof (rule Suc.hyps(1) [OF k])
    show "m (s + 1 + (r - 1)) = 0" using Suc.prems(1) by simp
    fix i :: addr assume "i < r - 1"
    then have "1 + i < r" using r0 by unat_arith
    then show "m (s + 1 + i) \<noteq> 0" using Suc.prems(2) [of "1 + i"] by (simp add: add.assoc)
  qed
  moreover have "m s \<noteq> 0" using Suc.prems(2) [of 0] r0 by (simp add: word_gt_0)
  ultimately show ?case by (simp add: Suc.hyps(2) [symmetric] k bytes_at_Suc)
qed

lemma strcmp_cstr:
  "cstr_at m a s \<Longrightarrow> cstr_at m b t \<Longrightarrow> strcmp m a b = Some (str_diff s t)"
proof (induction s t arbitrary: a b rule: str_diff.induct)
  case (3 b' t)
  then show ?case by (subst strcmp.simps) auto
next
  case (4 a' s b' t)
  then show ?case by (subst strcmp.simps) auto
qed (subst strcmp.simps; auto)+

lemma strncmp_loop_cstr:
  "cstr_at m a s \<Longrightarrow> cstr_at m b t \<Longrightarrow> 0 < n \<Longrightarrow>
   strncmp_loop m n a b = str_diff (take n s) (take n t)"
proof (induction s t arbitrary: a b n rule: str_diff.induct)
  case (4 a' s b' t)
  show ?case
  proof (cases n)
    case (Suc k)
    then show ?thesis using 4 by (cases "k = 0") auto
  qed (use 4 in simp)
next
  case 1
  then show ?case by (cases n) auto
next
  case (2 a' s)
  then show ?case by (cases n) auto
next
  case (3 b' t)
  then show ?case by (cases n) auto
qed

lemma strchr_cstr:
  "cstr_at m a s \<Longrightarrow>
   strchr m a (uint c) =
     Some (if c \<in> set s then a + of_nat (length (takeWhile (\<lambda>x. x \<noteq> c) s)) else 0)"
proof (induction s arbitrary: a)
  case Nil
  then show ?case by (simp add: strchr.simps)
next
  case (Cons x s)
  then show ?case by (subst strchr.simps) (auto simp: add.assoc word_uint_eq_iff)
qed

text \<open>\<open>strncpy\<close>: the copy loop stops at the NUL or at the count, the padding does the rest.\<close>

definition str_within :: "mem \<Rightarrow> addr \<Rightarrow> nat \<Rightarrow> byte list" where
  "str_within m s n = takeWhile (\<lambda>c. c \<noteq> 0) (bytes_at m s n)"

lemma length_str_within: "length (str_within m s n) \<le> n"
  unfolding str_within_def using length_takeWhile_le [of _ "bytes_at m s n"] by simp

lemma str_within_Suc:
  "str_within m s (Suc n) = (if m s = 0 then [] else m s # str_within m (s + 1) n)"
  by (simp add: str_within_def bytes_at_Suc)

lemma str_within_nth:
  assumes "i < length (str_within m s n)" shows "str_within m s n ! i = m (s + of_nat i)"
proof -
  have "i < n" using assms length_str_within [of m s n] by simp
  then show ?thesis using assms unfolding str_within_def by (simp add: takeWhile_nth)
qed

lemma replicate_2: "replicate 2 x = [x, x]"
  by (simp add: numeral_2_eq_2)

lemma strncpy_copy_put:
  "n < 2 ^ 64 \<Longrightarrow> d = s \<or> n \<le> unat (d - s) \<Longrightarrow> L = length (str_within m s n) \<Longrightarrow>
   strncpy_copy n d s m = (n - L, d + of_nat L, mem_put m d L (\<lambda>o'. m (s + o')))"
proof (induction n arbitrary: d s m L)
  case (Suc n)
  show ?case
  proof (cases "m s = 0")
    case False
    let ?m = "m(d := m s)"
    have ov: "d + 1 = s + 1 \<or> n \<le> unat ((d + 1) - (s + 1))" using Suc.prems by auto
    have src: "?m (s + o') = m (s + o')" if "unat o' < Suc n" for o' :: addr
    proof (cases "d = s")
      case False
      have "o' \<noteq> d - s" using that Suc.prems(2) False by auto
      then show ?thesis by (auto simp: algebra_simps)
    qed auto
    have "?m (s + 1 + of_nat i) = m (s + 1 + of_nat i)" if "i < n" for i
    proof -
      have "unat (of_nat (Suc i) :: addr) = Suc i" using that Suc.prems(1) by (intro unat_of_nat64) simp
      then show ?thesis using src [of "of_nat (Suc i)"] that by (simp add: add.assoc del: fun_upd_apply)
    qed
    then have same: "str_within ?m (s + 1) n = str_within m (s + 1) n"
      unfolding str_within_def by (intro arg_cong [where f = "takeWhile _"] bytes_at_cong)
    define k where "k = length (str_within m (s + 1) n)"
    have kn: "k \<le> n" unfolding k_def by (rule length_str_within)
    have L: "L = Suc k" using Suc.prems(3) False by (simp add: str_within_Suc k_def)
    have "strncpy_copy n (d + 1) (s + 1) ?m =
        (n - k, d + 1 + of_nat k, mem_put ?m (d + 1) k (\<lambda>o'. ?m (s + 1 + o')))"
      by (rule Suc.IH [OF _ ov]) (use Suc.prems in simp, simp only: same k_def)
    moreover have "mem_put ?m (d + 1) k (\<lambda>o'. ?m (s + 1 + o')) = mem_put m d L (\<lambda>o'. m (s + o'))"
    proof -
      have "mem_put ?m (d + 1) k (\<lambda>o'. ?m (s + 1 + o')) =
          mem_put m d L (\<lambda>o'. if o' = 0 then m s else ?m (s + 1 + (o' - 1)))"
        unfolding L by (rule mem_put_Suc) (use kn Suc.prems in simp)
      also have "\<dots> = mem_put m d L (\<lambda>o'. m (s + o'))"
      proof (rule mem_put_cong)
        fix o' :: addr assume "unat o' < L"
        moreover have "s + 1 + (o' - 1) = s + o'" by simp
        ultimately show "(if o' = 0 then m s else ?m (s + 1 + (o' - 1))) = m (s + o')"
          using src [of o'] kn L by (simp del: fun_upd_apply)
      qed simp_all
      finally show ?thesis .
    qed
    ultimately show ?thesis using False L by (simp add: add.assoc)
  qed (use Suc.prems in \<open>simp add: str_within_Suc\<close>)
qed (simp add: str_within_def)

lemma strncpy_put:
  assumes "dest = src \<or> unat n \<le> unat (dest - src)"
  shows "snd (strncpy dest src n m) = mem_put m dest (unat n)
    (\<lambda>o'. if unat o' < length (str_within m src (unat n)) then m (src + o') else 0)"
proof -
  let ?L = "length (str_within m src (unat n))"
  have L: "?L \<le> unat n" by (rule length_str_within)
  have cp: "strncpy_copy (unat n) dest src m =
      (unat n - ?L, dest + of_nat ?L, mem_put m dest ?L (\<lambda>o'. m (src + o')))"
    by (rule strncpy_copy_put) (use assms in auto)
  have lt: "unat n < 2 ^ 64" by simp
  have "snd (strncpy dest src n m) = mem_put (mem_put m dest ?L (\<lambda>o'. m (src + o')))
      (dest + of_nat ?L) (unat n - ?L) (\<lambda>_. 0)"
    unfolding strncpy_def cp using le_less_trans [OF diff_le_self lt, of ?L]
    by (simp add: memset_loop_put)
  also have "\<dots> = mem_put m dest (?L + (unat n - ?L)) (\<lambda>o'. if unat o' < ?L then m (src + o') else 0)"
    by (rule mem_put_append) (use L lt in simp)
  finally show ?thesis using L by simp
qed

lemma strlen_first_nul:
  "m (s + r) = 0 \<Longrightarrow> (\<And>i. i < r \<Longrightarrow> m (s + i) \<noteq> 0) \<Longrightarrow> strlen m s = Some r"
  using strlen_from_cstr [of m s 0 "bytes_at m s (unat r)"] cstr_at_of_first_nul [of m s r]
  by (simp add: strlen_def)

section \<open>Properties\<close>

text \<open>C33. \<open>memmove\<close> gives the destination block the bytes that the source block held before
  the call, however the two blocks overlap, and writes nowhere else, as long as neither block
  wraps around the end of the address space.\<close>

theorem memmove_correct:
  assumes "unat dest + unat n \<le> 2 ^ 64" and "unat src + unat n \<le> 2 ^ 64"
  shows "fst (memmove dest src n m) = dest \<and>
         bytes_at (snd (memmove dest src n m)) dest (unat n) = bytes_at m src (unat n) \<and>
         (\<forall>x. unat n \<le> unat (x - dest) \<longrightarrow> snd (memmove dest src n m) x = m x)"
  using assms by (simp add: memmove_put bytes_at_copy mem_put_outside)

theorem memmove_correct_witness:
  "bytes_at (snd (memmove 2 1 3 (\<lambda>x. ucast x))) 2 3 = [1, 2, 3]"
  using memmove_correct [of 2 3 1 "\<lambda>x. ucast x"] by (simp add: bytes_at_def upt_rec)

text \<open>\<open>strcmp\<close> on two NUL-terminated strings returns; the result is 0 exactly for equal
  strings, negative exactly when the first is lexicographically smaller (as unsigned
  characters), and fits in nine bits, so the \<open>int\<close> never overflows.\<close>

theorem strcmp_order:
  assumes "cstr_at m a s" and "cstr_at m b t"
  shows "\<exists>r. strcmp m a b = Some r \<and> (r = 0 \<longleftrightarrow> s = t) \<and> (r < 0 \<longleftrightarrow> s < t) \<and> \<bar>r\<bar> < 256"
proof -
  have "0 \<notin> set s" "0 \<notin> set t" using assms by (simp_all add: cstr_at_def)
  then show ?thesis using str_diff_sign [of s t] strcmp_cstr [OF assms] by blast
qed

theorem strcmp_order_witness:
  "\<exists>r. strcmp ((\<lambda>_. 0)(8 := 97, 9 := 98, 16 := 97)) 8 16 = Some r \<and> r > 0"
  using strcmp_order [of "(\<lambda>_. 0)(8 := 97, 9 := 98, 16 := 97)" 8 "[97, 98]" 16 "[97]"]
  by auto

text \<open>C34. \<open>strlen\<close> returns \<open>r\<close> exactly when byte \<open>r\<close> of the string is its first NUL: it is
  right when it returns, and it returns whenever there is a NUL.\<close>

theorem strlen_iff:
  "strlen m s = Some r \<longleftrightarrow> m (s + r) = 0 \<and> (\<forall>i < r. m (s + i) \<noteq> 0)"
proof
  assume ret: "strlen m s = Some r"
  then have "m (s + r) = 0" unfolding strlen_def by (rule strlen_from_nul)
  then obtain q where q: "m (s + q) = 0" "\<And>i. m (s + i) = 0 \<Longrightarrow> unat q \<le> unat i"
    using ex_has_least_nat [of "\<lambda>i. m (s + i) = 0" r unat] by blast
  then have first: "\<And>i. i < q \<Longrightarrow> m (s + i) \<noteq> 0" by (meson linorder_not_le word_less_nat_alt)
  then have "strlen m s = Some q" using q(1) strlen_first_nul by blast
  then have "r = q" using ret by simp
  then show "m (s + r) = 0 \<and> (\<forall>i < r. m (s + i) \<noteq> 0)" using q(1) first by simp
qed (simp add: strlen_first_nul)

theorem strlen_iff_witness: "strlen ((\<lambda>_. 65)(16 := 0)) 13 = Some 3"
proof -
  have "i = 0 \<or> i = 1 \<or> i = 2" if "i < 3" for i :: addr
    using that by unat_arith
  then show ?thesis using strlen_iff [of "(\<lambda>_. 65)(16 := 0)" 13 3] by auto
qed

text \<open>\<open>strncpy\<close> writes exactly \<open>n\<close> bytes: the source string cut at \<open>n\<close> characters, then
  NULs up to the count (none when the string is longer, so the result is then not terminated).\<close>

theorem strncpy_correct:
  assumes "dest = src \<or> unat n \<le> unat (dest - src)"
  shows "bytes_at (snd (strncpy dest src n m)) dest (unat n) =
           (let s = str_within m src (unat n) in s @ replicate (unat n - length s) 0) \<and>
         (\<forall>x. unat n \<le> unat (x - dest) \<longrightarrow> snd (strncpy dest src n m) x = m x)"
proof -
  let ?s = "str_within m src (unat n)"
  have len: "length ?s \<le> unat n" by (rule length_str_within)
  have nth: "(if i < length ?s then m (src + of_nat i) else 0) =
      (?s @ replicate (unat n - length ?s) 0) ! i" if "i < unat n" for i
    using that len by (auto simp: nth_append str_within_nth)
  show ?thesis using len
    by (auto intro!: nth_equalityI simp: Let_def strncpy_put [OF assms] bytes_at_put mem_put_outside nth
        simp del: strncpy_def cong: if_cong)
qed

theorem strncpy_correct_witness:
  "bytes_at (snd (strncpy 32 8 4 ((\<lambda>_. 0)(8 := 104, 9 := 105)))) 32 4 = [104, 105, 0, 0]"
proof -
  have "str_within ((\<lambda>_. 0)(8 := 104, 9 := 105)) 8 4 = [104, 105]"
    by (simp add: str_within_def bytes_at_def upt_rec)
  then show ?thesis using strncpy_correct [of 32 8 4 "(\<lambda>_. 0)(8 := 104, 9 := 105)"]
    by (simp add: replicate_2)
qed

end
