(* ===== verification/Cstring.thy ===== *)
theory Cstring
  imports Minlibc
begin

text \<open>
  The second set of memory and string functions, \<open>software/sdk/src/string.c\<close>: copies and fills by
  64-bit words when everything is aligned, a comparison with an aligned fast path, \<open>strcpy\<close> and
  \<open>atol\<close>. The loops compare addresses, so they are partial functions; they are shown equal to the
  byte-wise functions of \<open>minlibc.c\<close> or to a byte-wise reference.
\<close>

section \<open>The functions\<close>

text \<open>\<open>(a & (sizeof(uintptr_t) - 1)) == 0\<close>.\<close>

definition aligned8 :: "u64 \<Rightarrow> bool" where
  "aligned8 a \<longleftrightarrow> a AND (8 - 1) = 0"

partial_function (option) copy_words :: "addr \<Rightarrow> addr \<Rightarrow> addr \<Rightarrow> mem \<Rightarrow> mem option" where
  "copy_words e d s m =
     (if d < e then copy_words e (d + 8) (s + 8) (store64 m d (load64 m s)) else Some m)"

partial_function (option) copy_bytes :: "addr \<Rightarrow> addr \<Rightarrow> addr \<Rightarrow> mem \<Rightarrow> mem option" where
  "copy_bytes e d s m = (if d < e then copy_bytes e (d + 1) (s + 1) (m(d := m s)) else Some m)"

definition string_memcpy :: "addr \<Rightarrow> addr \<Rightarrow> u64 \<Rightarrow> mem \<Rightarrow> (addr \<times> mem) option" where
  "string_memcpy dest src len m =
     map_option (Pair dest)
       (if aligned8 (dest OR src OR len) then copy_words (dest + len) dest src m
        else copy_bytes (dest + len) dest src m)"

definition fill_word :: "u32 \<Rightarrow> u64" where
  "fill_word c =
     (let word = scast c AND 0xFF;
          word = word OR push_bit 8 word;
          word = word OR push_bit 16 word
      in word OR push_bit 16 (push_bit 16 word))"

partial_function (option) fill_words :: "addr \<Rightarrow> addr \<Rightarrow> u64 \<Rightarrow> mem \<Rightarrow> mem option" where
  "fill_words e d w m = (if d < e then fill_words e (d + 8) w (store64 m d w) else Some m)"

partial_function (option) fill_bytes :: "addr \<Rightarrow> addr \<Rightarrow> byte \<Rightarrow> mem \<Rightarrow> mem option" where
  "fill_bytes e d c m = (if d < e then fill_bytes e (d + 1) c (m(d := c)) else Some m)"

definition string_memset :: "addr \<Rightarrow> u32 \<Rightarrow> u64 \<Rightarrow> mem \<Rightarrow> (addr \<times> mem) option" where
  "string_memset dest c len m =
     map_option (Pair dest)
       (if aligned8 (dest OR len) then fill_words (dest + len) dest (fill_word c) m
        else fill_bytes (dest + len) dest (ucast c) m)"

partial_function (option) string_strlen_from :: "mem \<Rightarrow> addr \<Rightarrow> addr \<Rightarrow> u64 option" where
  "string_strlen_from m s p = (if m p \<noteq> 0 then string_strlen_from m s (p + 1) else Some (p - s))"

definition string_strlen :: "mem \<Rightarrow> addr \<Rightarrow> u64 option" where
  "string_strlen m s = string_strlen_from m s s"

text \<open>\<open>do \<dots> while (c1 != 0 && c1 == c2)\<close>.\<close>

partial_function (option) string_strcmp :: "mem \<Rightarrow> addr \<Rightarrow> addr \<Rightarrow> int option" where
  "string_strcmp m s1 s2 =
     (let c1 = m s1; c2 = m s2
      in if c1 \<noteq> 0 \<and> c1 = c2 then string_strcmp m (s1 + 1) (s2 + 1) else Some (uint c1 - uint c2))"

partial_function (option) skip_words :: "mem \<Rightarrow> addr \<Rightarrow> addr \<Rightarrow> addr \<Rightarrow> (addr \<times> addr) option" where
  "skip_words m e u1 u2 =
     (if u1 < e then (if load64 m u1 \<noteq> load64 m u2 then Some (u1, u2) else skip_words m e (u1 + 8) (u2 + 8))
      else Some (u1, u2))"

fun cmp_bytes :: "mem \<Rightarrow> nat \<Rightarrow> addr \<Rightarrow> addr \<Rightarrow> int" where
  "cmp_bytes m 0 s1 s2 = 0"
| "cmp_bytes m (Suc n) s1 s2 =
     (let c1 = m s1; c2 = m s2 in if c1 \<noteq> c2 then uint c1 - uint c2 else cmp_bytes m n (s1 + 1) (s2 + 1))"

definition memcmp :: "mem \<Rightarrow> addr \<Rightarrow> addr \<Rightarrow> u64 \<Rightarrow> int option" where
  "memcmp m s1 s2 n =
     (if aligned8 (s1 OR s2)
      then Option.bind (skip_words m (s1 + 8 * (n div 8)) s1 s2)
             (\<lambda>(u1, u2). Some (cmp_bytes m (unat (n - (u1 - s1))) u1 u2))
      else Some (cmp_bytes m (unat n) s1 s2))"

partial_function (option) strcpy_loop :: "addr \<Rightarrow> addr \<Rightarrow> mem \<Rightarrow> mem option" where
  "strcpy_loop d s m =
     (let c = m s; m = m(d := c) in if c \<noteq> 0 then strcpy_loop (d + 1) (s + 1) m else Some m)"

definition strcpy :: "addr \<Rightarrow> addr \<Rightarrow> mem \<Rightarrow> (addr \<times> mem) option" where
  "strcpy dest src m = map_option (Pair dest) (strcpy_loop dest src m)"

text \<open>\<open>long\<close> arithmetic as two's complement words.\<close>

partial_function (option) skip_spaces :: "mem \<Rightarrow> addr \<Rightarrow> addr option" where
  "skip_spaces m s = (if m s = ch CHR '' '' then skip_spaces m (s + 1) else Some s)"

partial_function (option) atol_loop :: "mem \<Rightarrow> addr \<Rightarrow> u64 \<Rightarrow> u64 option" where
  "atol_loop m s res = (if m s \<noteq> 0 then atol_loop m (s + 1) (res * 10 + (ucast (m s) - 48)) else Some res)"

definition atol :: "mem \<Rightarrow> addr \<Rightarrow> u64 option" where
  "atol m s =
     Option.bind (skip_spaces m s) (\<lambda>s.
       let signed = (m s = ch CHR ''-'' \<or> m s = ch CHR ''+'');
           sign = (signed \<and> m s = ch CHR ''-'');
           s = (if signed then s + 1 else s)
       in map_option (\<lambda>res. if sign then - res else res) (atol_loop m s 0))"

section \<open>Copies and fills by words\<close>

lemma aligned8_mask: "aligned8 a \<longleftrightarrow> 8 dvd unat a"
proof -
  have "(8 - 1 :: u64) = mask 3" by (simp add: mask_eq_exp_minus_1)
  then have "a AND (8 - 1) = take_bit 3 a" by (simp only: take_bit_eq_mask)
  moreover have "take_bit 3 a = 0 \<longleftrightarrow> unat (take_bit 3 a) = 0" by (simp add: unat_eq_0)
  ultimately show ?thesis unfolding aligned8_def
    by (simp only: unsigned_take_bit_eq take_bit_eq_mod [of 3 "unat a"] dvd_eq_mod_eq_0) simp
qed

lemma aligned8_or: "aligned8 (a OR b) \<longleftrightarrow> aligned8 a \<and> aligned8 b"
  by (simp add: aligned8_def bit.conj_disj_distrib2 or_eq_0_iff)

lemma less_end: "unat (d :: addr) + n < 2 ^ 64 \<Longrightarrow> d < d + of_nat n \<longleftrightarrow> 0 < n"
proof -
  assume h: "unat d + n < 2 ^ 64"
  then have "unat (of_nat n :: addr) = n" by (intro unat_of_nat64) simp
  then have "unat (d + of_nat n) = unat d + n" using h by (simp add: unat_word_ariths)
  then show ?thesis by (simp add: word_less_nat_alt)
qed

lemma copy_words_put:
  "unat d + 8 * k < 2 ^ 64 \<Longrightarrow> d = s \<or> 8 * k \<le> unat (d - s) \<Longrightarrow>
   copy_words (d + of_nat (8 * k)) d s m = Some (mem_put m d (8 * k) (\<lambda>o'. m (s + o')))"
proof (induction k arbitrary: d s m)
  case 0
  then show ?case by (simp add: copy_words.simps)
next
  case (Suc k)
  let ?m = "store64 m d (load64 m s)"
  have m: "?m = mem_put m d 8 (\<lambda>o'. m (s + o'))" by (rule store64_load64)
  have lt: "d < d + of_nat (8 * Suc k)" using less_end [OF Suc.prems(1)] by simp
  have e: "d + of_nat (8 * Suc k) = (d + 8) + of_nat (8 * k)" by simp
  have d8: "unat (d + 8) = unat d + 8" using Suc.prems(1) by (simp add: unat_word_ariths)
  have "copy_words (d + of_nat (8 * Suc k)) d s m = copy_words ((d + 8) + of_nat (8 * k)) (d + 8) (s + 8) ?m"
    using lt unfolding e by (subst copy_words.simps) simp
  also have "\<dots> = Some (mem_put ?m (d + 8) (8 * k) (\<lambda>o'. ?m (s + 8 + o')))"
    by (rule Suc.IH) (use Suc.prems d8 in auto)
  also have "mem_put ?m (d + 8) (8 * k) (\<lambda>o'. ?m (s + 8 + o')) = mem_put ?m (d + 8) (8 * k) (\<lambda>o'. m (s + 8 + o'))"
  proof (rule mem_put_cong)
    fix o' :: addr assume o: "unat o' < 8 * k"
    show "?m (s + 8 + o') = m (s + 8 + o')"
    proof (cases "d = s")
      case True
      then show ?thesis unfolding m by (simp add: mem_put_def add.assoc)
    next
      case False
      then have D: "8 * Suc k \<le> unat (d - s)" using Suc.prems(2) by simp
      have u: "unat (8 + o') = 8 + unat o'" using o Suc.prems(1) by (simp add: unat_word_ariths)
      have "s + 8 + o' - d = (8 + o') - (d - s)" by simp
      also have "unat \<dots> = 2 ^ 64 + (8 + unat o') - unat (d - s)"
        using u D o by (subst unat_sub_if') (simp add: u word_le_nat_alt)
      finally have eq: "unat (s + 8 + o' - d) = 2 ^ 64 + (8 + unat o') - unat (d - s)" .
      have below: "unat (d - s) < 2 ^ 64" by simp
      have "8 \<le> unat (s + 8 + o' - d)" using eq below by linarith
      then show ?thesis by (simp add: m mem_put_def)
    qed
  qed simp_all
  also have "\<dots> = mem_put m d (8 * Suc k) (\<lambda>o'. m (s + o'))"
  proof -
    have "mem_put (mem_put m d 8 (\<lambda>o'. m (s + o'))) (d + of_nat 8) (8 * k) (\<lambda>o'. m (s + 8 + o')) =
        mem_put m d (8 + 8 * k) (\<lambda>o'. if unat o' < 8 then m (s + o') else m (s + 8 + (o' - of_nat 8)))"
      by (rule mem_put_append) (use Suc.prems(1) in simp)
    also have "\<dots> = mem_put m d (8 * Suc k) (\<lambda>o'. m (s + o'))" by (rule mem_put_cong) simp_all
    finally show ?thesis by (simp add: m)
  qed
  finally show ?case .
qed

lemma copy_bytes_up:
  "unat d + n < 2 ^ 64 \<Longrightarrow> copy_bytes (d + of_nat n) d s m = Some (copy_up n d s m)"
proof (induction n arbitrary: d s m)
  case 0
  then show ?case by (simp add: copy_bytes.simps)
next
  case (Suc n)
  have e: "d + of_nat (Suc n) = (d + 1) + of_nat n" by simp
  have "unat (d + 1) = unat d + 1" using Suc.prems by (simp add: unat_word_ariths)
  then have "copy_bytes (d + 1 + of_nat n) (d + 1) (s + 1) (m(d := m s)) = Some (copy_up n (d + 1) (s + 1) (m(d := m s)))"
    by (intro Suc.IH) (use Suc.prems in simp)
  moreover have "copy_bytes (d + of_nat (Suc n)) d s m = copy_bytes (d + 1 + of_nat n) (d + 1) (s + 1) (m(d := m s))"
    using less_end [OF Suc.prems] unfolding e by (subst copy_bytes.simps) simp
  ultimately show ?case by (simp only: copy_up.simps)
qed

lemma fill_bytes_loop:
  "unat d + n < 2 ^ 64 \<Longrightarrow> fill_bytes (d + of_nat n) d c m = Some (memset_loop n d c m)"
proof (induction n arbitrary: d m)
  case 0
  then show ?case by (simp add: fill_bytes.simps)
next
  case (Suc n)
  have e: "d + of_nat (Suc n) = (d + 1) + of_nat n" by simp
  have "unat (d + 1) = unat d + 1" using Suc.prems by (simp add: unat_word_ariths)
  then have "fill_bytes (d + 1 + of_nat n) (d + 1) c (m(d := c)) = Some (memset_loop n (d + 1) c (m(d := c)))"
    by (intro Suc.IH) (use Suc.prems in simp)
  moreover have "fill_bytes (d + of_nat (Suc n)) d c m = fill_bytes (d + 1 + of_nat n) (d + 1) c (m(d := c))"
    using less_end [OF Suc.prems] unfolding e by (subst fill_bytes.simps) simp
  ultimately show ?case by (simp only: memset_loop.simps)
qed

lemma fill_words_put:
  assumes "\<And>i. i < 8 \<Longrightarrow> byte_of w i = c"
  shows "unat d + 8 * k < 2 ^ 64 \<Longrightarrow> fill_words (d + of_nat (8 * k)) d w m = Some (mem_put m d (8 * k) (\<lambda>_. c))"
proof (induction k arbitrary: d m)
  case 0
  then show ?case by (simp add: fill_words.simps)
next
  case (Suc k)
  have m: "store64 m d w = mem_put m d 8 (\<lambda>_. c)"
    unfolding store64_def by (rule mem_put_cong) (simp_all add: assms)
  have e: "d + of_nat (8 * Suc k) = (d + 8) + of_nat (8 * k)" by simp
  have d8: "unat (d + 8) = unat d + 8" using Suc.prems by (simp add: unat_word_ariths)
  have "fill_words (d + of_nat (8 * Suc k)) d w m = fill_words ((d + 8) + of_nat (8 * k)) (d + 8) w (store64 m d w)"
    using less_end [OF Suc.prems] unfolding e by (subst fill_words.simps) simp
  also have "\<dots> = Some (mem_put (store64 m d w) (d + 8) (8 * k) (\<lambda>_. c))"
    by (rule Suc.IH) (use Suc.prems d8 in simp)
  also have "mem_put (store64 m d w) (d + 8) (8 * k) (\<lambda>_. c) = mem_put m d (8 * Suc k) (\<lambda>_. c)"
    using mem_put_append [of 8 "8 * k" m d "\<lambda>_. c" "\<lambda>_. c"] Suc.prems by (simp add: m)
  finally show ?case .
qed

lemma fill_word_bytes: "i < 8 \<Longrightarrow> byte_of (fill_word c) i = ucast c"
  by (drule nat_lt8_cases) (elim insertE emptyE; rule bit_word_eqI;
    auto simp: byte_of_def fill_word_def Let_def bit_simps bit_255 dest: bit_imp_le_length)

lemma aligned_multiple:
  assumes "aligned8 n" obtains k where "n = of_nat (8 * k)" "unat n = 8 * k"
proof -
  obtain k where "unat n = 8 * k" using assms by (auto simp: aligned8_mask elim: dvdE)
  then show ?thesis using that eq_of_nat_unat by blast
qed

section \<open>Equivalence with the byte-wise functions\<close>

text \<open>\<open>memcpy\<close> and \<open>memset\<close> do what the functions of \<open>minlibc.c\<close> do when the block does not wrap
  around the address space and, for \<open>memcpy\<close>, the destination does not start inside the source.\<close>

lemma string_memcpy_equiv:
  assumes "unat dest + unat len < 2 ^ 64" and "dest = src \<or> unat len \<le> unat (dest - src)"
  shows "string_memcpy dest src len m = Some (memcpy dest src len m)"
proof (cases "aligned8 (dest OR src OR len)")
  case True
  then have "aligned8 len" by (simp add: aligned8_or)
  then obtain k where k: "len = of_nat (8 * k)" "unat len = 8 * k" by (rule aligned_multiple)
  have "copy_words (dest + len) dest src m = Some (mem_put m dest (8 * k) (\<lambda>o'. m (src + o')))"
    unfolding k(1) by (rule copy_words_put) (use assms k(2) in auto)
  moreover have "copy_up (8 * k) dest src m = mem_put m dest (8 * k) (\<lambda>o'. m (src + o'))"
    by (rule copy_up_put) (use assms k(2) in auto)
  ultimately show ?thesis using True by (simp add: string_memcpy_def memcpy_def k(2))
next
  case False
  then show ?thesis using copy_bytes_up [of dest "unat len" src m] assms(1)
    by (simp add: string_memcpy_def memcpy_def)
qed

lemma string_memset_equiv:
  assumes "unat dest + unat len < 2 ^ 64"
  shows "string_memset dest c len m = Some (memset dest c len m)"
proof (cases "aligned8 (dest OR len)")
  case True
  then have "aligned8 len" by (simp add: aligned8_or)
  then obtain k where k: "len = of_nat (8 * k)" "unat len = 8 * k" by (rule aligned_multiple)
  have "fill_words (dest + len) dest (fill_word c) m = Some (mem_put m dest (8 * k) (\<lambda>_. ucast c))"
    unfolding k(1) by (rule fill_words_put) (use assms k(2) fill_word_bytes in auto)
  moreover have "memset_loop (8 * k) dest (ucast c) m = mem_put m dest (8 * k) (\<lambda>_. ucast c)"
    by (rule memset_loop_put) (use assms k(2) in auto)
  ultimately show ?thesis using True by (simp add: string_memset_def memset_def k(2))
next
  case False
  then show ?thesis using fill_bytes_loop [of dest "unat len" "ucast c" m] assms
    by (simp add: string_memset_def memset_def)
qed

text \<open>The fast path of \<open>memcmp\<close> stops at the first word that differs, or at the last whole word.\<close>

lemma load64_eq_bytes: "load64 m a = load64 m b \<Longrightarrow> i < 8 \<Longrightarrow> m (a + of_nat i) = m (b + of_nat i)"
  using byte_of_load64 [of i m a] byte_of_load64 [of i m b] by simp

lemma cmp_bytes_skip:
  "(\<And>i. i < k \<Longrightarrow> m (s1 + of_nat i) = m (s2 + of_nat i)) \<Longrightarrow>
   cmp_bytes m (k + n) s1 s2 = cmp_bytes m n (s1 + of_nat k) (s2 + of_nat k)"
proof (induction k arbitrary: s1 s2)
  case (Suc k)
  have "m s1 = m s2" using Suc.prems [of 0] by simp
  moreover have "cmp_bytes m (k + n) (s1 + 1) (s2 + 1) = cmp_bytes m n (s1 + 1 + of_nat k) (s2 + 1 + of_nat k)"
    by (rule Suc.IH) (use Suc.prems [of "Suc _"] in \<open>simp add: add.assoc\<close>)
  ultimately show ?case by (simp add: add.assoc)
qed simp

lemma skip_words_result:
  "unat s1 + 8 * k < 2 ^ 64 \<Longrightarrow>
   \<exists>j \<le> k. skip_words m (s1 + of_nat (8 * k)) s1 s2 = Some (s1 + of_nat (8 * j), s2 + of_nat (8 * j)) \<and>
     (\<forall>i < 8 * j. m (s1 + of_nat i) = m (s2 + of_nat i))"
proof (induction k arbitrary: s1 s2)
  case 0
  then show ?case by (simp add: skip_words.simps)
next
  case (Suc k)
  have e: "s1 + of_nat (8 * Suc k) = (s1 + 8) + of_nat (8 * k)" by simp
  have lt: "s1 < (s1 + 8) + of_nat (8 * k)" using less_end [OF Suc.prems] unfolding e by simp
  show ?case
  proof (cases "load64 m s1 = load64 m s2")
    case False
    then show ?thesis using lt unfolding e by (subst skip_words.simps) auto
  next
    case True
    have "unat (s1 + 8) = unat s1 + 8" using Suc.prems by (simp add: unat_word_ariths)
    then obtain j where j: "j \<le> k" "skip_words m ((s1 + 8) + of_nat (8 * k)) (s1 + 8) (s2 + 8) =
        Some (s1 + 8 + of_nat (8 * j), s2 + 8 + of_nat (8 * j))"
      "\<And>i. i < 8 * j \<Longrightarrow> m (s1 + 8 + of_nat i) = m (s2 + 8 + of_nat i)"
      using Suc.IH [of "s1 + 8" "s2 + 8"] Suc.prems by auto
    have "skip_words m (s1 + of_nat (8 * Suc k)) s1 s2 = Some (s1 + of_nat (8 * Suc j), s2 + of_nat (8 * Suc j))"
      unfolding e using lt True j(2) by (subst skip_words.simps) (simp add: add.assoc)
    moreover have "m (s1 + of_nat i) = m (s2 + of_nat i)" if "i < 8 * Suc j" for i
    proof (cases "i < 8")
      case True
      then show ?thesis using load64_eq_bytes \<open>load64 m s1 = load64 m s2\<close> by blast
    next
      case False
      have i: "i = 8 + (i - 8)" using False by simp
      have "m (s1 + 8 + of_nat (i - 8)) = m (s2 + 8 + of_nat (i - 8))" by (rule j(3)) (use that False in simp)
      then show ?thesis by (subst (1 2) i) (simp add: add.assoc del: of_nat_diff)
    qed
    ultimately show ?thesis using j(1) by (intro exI [of _ "Suc j"]) simp
  qed
qed

text \<open>C32. \<open>memcmp\<close> with its word-wise fast path computes exactly the byte-wise comparison, the
  difference at the first byte where the blocks differ and 0 when there is none; the bound is
  that the first block does not wrap around the address space.\<close>

theorem memcmp_equiv:
  assumes "unat s1 + unat n < 2 ^ 64"
  shows "memcmp m s1 s2 n = Some (cmp_bytes m (unat n) s1 s2)"
proof (cases "aligned8 (s1 OR s2)")
  case True
  let ?k = "unat n div 8"
  have k8: "8 * ?k \<le> unat n" by simp
  have lt: "unat s1 + 8 * ?k < 2 ^ 64" using assms k8 by linarith
  have nk: "8 * (n div 8) = of_nat (8 * ?k)"
    by (rule eq_of_nat_unat) (use le_less_trans [OF k8 unat_lt64] in \<open>simp add: unat_word_ariths unat_div\<close>)
  obtain j where j: "j \<le> ?k" "skip_words m (s1 + of_nat (8 * ?k)) s1 s2 = Some (s1 + of_nat (8 * j), s2 + of_nat (8 * j))"
    "\<And>i. i < 8 * j \<Longrightarrow> m (s1 + of_nat i) = m (s2 + of_nat i)"
    using skip_words_result [of s1 ?k m s2, OF lt] by blast
  have le: "8 * j \<le> unat n" using j(1) by simp
  then have u: "unat (of_nat (8 * j) :: u64) = 8 * j" by (intro unat_of_nat64 le_less_trans [OF le]) simp
  then have "unat (n - of_nat (8 * j)) = unat n - 8 * j" using le by (simp add: unat_sub word_le_nat_alt)
  moreover have "cmp_bytes m (unat n) s1 s2 = cmp_bytes m (unat n - 8 * j) (s1 + of_nat (8 * j)) (s2 + of_nat (8 * j))"
    using cmp_bytes_skip [of "8 * j" m s1 s2 "unat n - 8 * j"] j(3) le by simp
  ultimately show ?thesis using True j(2) by (simp add: memcmp_def nk del: of_nat_mult)
next
  case False
  then show ?thesis by (simp add: memcmp_def)
qed

lemma memcmp_equiv_witness:
  "memcmp ((\<lambda>_. 7)(0x105 := 9)) 0x100 0x200 7 = Some 2"
proof -
  have "cmp_bytes ((\<lambda>_. 7)(0x105 := 9)) 7 0x100 0x200 = 2" by code_simp
  then show ?thesis using memcmp_equiv [where ?s1.0 = "0x100" and n = 7 and m = "(\<lambda>_. 7)(0x105 := 9)" and ?s2.0 = "0x200"]
    by simp
qed

section \<open>Strings\<close>

lemma cstr_at_update:
  assumes "cstr_at m s cs" and "Suc (length cs) \<le> unat (d - s)" and "length cs < 2 ^ 32"
  shows "cstr_at (m(d := c)) s cs"
proof -
  have "d \<noteq> s + of_nat i" if "i < Suc (length cs)" for i
  proof
    assume "d = s + of_nat i"
    then have "unat (d - s) = unat (of_nat i :: addr)" by simp
    also have "\<dots> = i" by (rule unat_of_nat64) (use that assms(3) in simp)
    finally show False using that assms(2) by simp
  qed
  then have "bytes_at (m(d := c)) s (Suc (length cs)) = bytes_at m s (Suc (length cs))"
    by (intro bytes_at_cong) auto
  then show ?thesis using assms(1) by (simp only: cstr_at_def simp_thms)
qed

lemma strcpy_loop_up:
  "cstr_at m s cs \<Longrightarrow> Suc (length cs) \<le> unat (d - s) \<Longrightarrow> length cs < 2 ^ 32 \<Longrightarrow>
   strcpy_loop d s m = Some (copy_up (Suc (length cs)) d s m)"
proof (induction cs arbitrary: d s m)
  case Nil
  then show ?case by (subst strcpy_loop.simps) simp
next
  case (Cons c cs)
  have d: "(d + 1) - (s + 1) = d - s" by simp
  have c: "m s = c" "c \<noteq> 0" "cstr_at m (s + 1) cs" using Cons.prems(1) by simp_all
  have "d - s \<noteq> 0" using Cons.prems(2) by auto
  then have "Suc (unat (d - s - 1)) = unat (d - s)" by (rule unat_Suc_minus_one)
  then have "Suc (length cs) \<le> unat (d - (s + 1))" using Cons.prems(2) by (simp add: diff_diff_eq)
  then have "cstr_at (m(d := c)) (s + 1) cs" using Cons.prems(3) by (intro cstr_at_update [OF c(3)]) auto
  then have "strcpy_loop (d + 1) (s + 1) (m(d := c)) = Some (copy_up (Suc (length cs)) (d + 1) (s + 1) (m(d := c)))"
    by (rule Cons.IH) (use Cons.prems d in auto)
  moreover have "strcpy_loop d s m = strcpy_loop (d + 1) (s + 1) (m(d := c))"
    by (subst strcpy_loop.simps) (simp add: c)
  ultimately show ?case by (simp only: copy_up.simps list.size c(1)) simp
qed

text \<open>\<open>strcpy\<close> copies the string with its NUL when the destination does not start inside it.\<close>

lemma strcpy_correct:
  assumes "cstr_at m src cs" and "Suc (length cs) \<le> unat (dest - src)" and "length cs < 2 ^ 32"
  shows "\<exists>m'. strcpy dest src m = Some (dest, m') \<and> cstr_at m' dest cs \<and>
    (\<forall>x. Suc (length cs) \<le> unat (x - dest) \<longrightarrow> m' x = m x)"
proof -
  let ?n = "Suc (length cs)" and ?m = "copy_up (Suc (length cs)) dest src m"
  have n: "?n < 2 ^ 64" using assms(3) by simp
  have p: "?m = mem_put m dest ?n (\<lambda>o'. m (src + o'))" by (rule copy_up_put [OF n]) (use assms(2) in simp)
  have "bytes_at ?m dest ?n = bytes_at m src ?n" unfolding p by (rule bytes_at_copy [OF n])
  then have "cstr_at ?m dest cs" using assms(1) by (simp only: cstr_at_def simp_thms)
  moreover have "strcpy dest src m = Some (dest, ?m)"
    using strcpy_loop_up [OF assms] by (simp add: strcpy_def del: copy_up.simps)
  ultimately show ?thesis using p by (auto simp: mem_put_outside simp del: copy_up.simps)
qed

lemma string_strlen_cstr: "cstr_at m s cs \<Longrightarrow> string_strlen m s = Some (of_nat (length cs))"
proof -
  have "cstr_at m p cs \<Longrightarrow> string_strlen_from m s p = Some (p - s + of_nat (length cs))" for p
  proof (induction cs arbitrary: p)
    case Nil
    then show ?case by (simp add: string_strlen_from.simps)
  next
    case (Cons c cs)
    then show ?case by (subst string_strlen_from.simps) (simp add: algebra_simps)
  qed
  then show "cstr_at m s cs \<Longrightarrow> string_strlen m s = Some (of_nat (length cs))" by (simp add: string_strlen_def)
qed

lemma string_strcmp_cstr: "cstr_at m s1 cs \<Longrightarrow> string_strcmp m s1 s2 = strcmp m s1 s2"
proof (induction cs arbitrary: s1 s2)
  case Nil
  then show ?case by (simp add: string_strcmp.simps strcmp.simps)
next
  case (Cons c cs)
  then show ?case by (subst string_strcmp.simps, subst strcmp.simps) (simp add: Let_def)
qed

section \<open>Numbers\<close>

text \<open>The value of the digits, as \<open>atol\<close> accumulates it; a character that is not a digit is taken
  as one.\<close>

definition atol_value :: "byte list \<Rightarrow> u64" where
  "atol_value cs = foldl (\<lambda>r c. r * 10 + (ucast c - 48)) 0 cs"

lemma atol_loop_cstr:
  "cstr_at m s cs \<Longrightarrow> atol_loop m s r = Some (foldl (\<lambda>r c. r * 10 + (ucast c - 48)) r cs)"
proof (induction cs arbitrary: s r)
  case Nil
  then show ?case by (simp add: atol_loop.simps)
next
  case (Cons c cs)
  then show ?case by (subst atol_loop.simps) simp
qed

lemma skip_spaces_cstr:
  "cstr_at m s (replicate n 32 @ cs) \<Longrightarrow> cs = [] \<or> hd cs \<noteq> 32 \<Longrightarrow>
   skip_spaces m s = Some (s + of_nat n) \<and> cstr_at m (s + of_nat n) cs"
proof (induction n arbitrary: s)
  case 0
  then show ?case by (cases cs) (subst skip_spaces.simps, simp)+
next
  case (Suc n)
  then show ?case using Suc.IH [of "s + 1"] by (subst skip_spaces.simps) (simp add: add.assoc)
qed

lemma atol_digits:
  assumes "cstr_at m s (replicate n 32 @ sg @ cs)" and "sg \<in> {[], str ''-'', str ''+''}"
    and "cs = [] \<or> hd cs \<notin> {32, 43, 45}"
  shows "atol m s = Some (if sg = str ''-'' then - atol_value cs else atol_value cs)"
proof -
  have sk: "skip_spaces m s = Some (s + of_nat n)" "cstr_at m (s + of_nat n) (sg @ cs)"
    using skip_spaces_cstr [OF assms(1)] assms(2,3) by (auto simp: hd_append)
  show ?thesis
  proof (cases "sg = []")
    case True
    then have "m (s + of_nat n) \<notin> {43, 45}" using sk(2) assms(3) by (cases cs) auto
    then show ?thesis using sk True by (simp add: atol_def Let_def atol_loop_cstr atol_value_def)
  next
    case False
    then obtain c where c: "sg = [c]" "c = 45 \<or> c = 43" using assms(2) by auto
    then have "cstr_at m (s + of_nat n + 1) cs" "m (s + of_nat n) = c" using sk(2) by auto
    then show ?thesis using sk(1) c by (auto simp: atol_def Let_def atol_loop_cstr atol_value_def)
  qed
qed

text \<open>A line end is not the end of the number: \<open>"5\<newline>"\<close> gives 12.\<close>

lemma atol_newline: "cstr_at m s [53, 10] \<Longrightarrow> atol m s = Some 12"
  using atol_digits [of m s 0 "[]" "[53, 10]"] by (simp add: atol_value_def)

end
