(* ===== verification/Mmio.thy ===== *)
theory Mmio
  imports Prelude
begin

text \<open>
  Memory-mapped devices as the drivers see them. A bus over a device state \<open>'d\<close> answers reads
  and writes of a size in bytes at a physical address; a read may change the state, because
  the device moves on between accesses and because some registers act on being read. A
  \<open>volatile\<close> access of the C code is one call of the bus, in the order of the program.

  \<open>poll\<close> is the busy-waiting loop of the drivers; it is a partial function, and the locale
  \<open>polling\<close> states what a device has to promise for the loop to end.
\<close>

record 'd bus =
  bus_rd :: "nat \<Rightarrow> addr \<Rightarrow> 'd \<Rightarrow> u64 \<times> 'd"
  bus_wr :: "nat \<Rightarrow> addr \<Rightarrow> u64 \<Rightarrow> 'd \<Rightarrow> 'd"
  bus_idle :: "nat \<Rightarrow> 'd \<Rightarrow> 'd"

definition rd32 :: "'d bus \<Rightarrow> addr \<Rightarrow> 'd \<Rightarrow> u32 \<times> 'd" where
  "rd32 B a d = (let (v, d) = bus_rd B 4 a d in (ucast v, d))"

definition wr32 :: "'d bus \<Rightarrow> addr \<Rightarrow> u32 \<Rightarrow> 'd \<Rightarrow> 'd" where
  "wr32 B a v d = bus_wr B 4 a (ucast v) d"

definition rd64 :: "'d bus \<Rightarrow> addr \<Rightarrow> 'd \<Rightarrow> u64 \<times> 'd" where
  "rd64 B a d = bus_rd B 8 a d"

definition wr64 :: "'d bus \<Rightarrow> addr \<Rightarrow> u64 \<Rightarrow> 'd \<Rightarrow> 'd" where
  "wr64 B a v d = bus_wr B 8 a v d"

section \<open>Busy waiting\<close>

text \<open>\<open>while (step()) ;\<close>: the state after the first step that answers false.\<close>

partial_function (option) poll :: "('d \<Rightarrow> bool \<times> 'd) \<Rightarrow> 'd \<Rightarrow> 'd option" where
  "poll step d = (let (again, d') = step d in if again then poll step d' else Some d')"

lemma poll_stop: "step d = (False, d') \<Longrightarrow> poll step d = Some d'"
  by (subst poll.simps) simp

lemma poll_again: "step d = (True, d') \<Longrightarrow> poll step d = poll step d'"
  by (subst poll.simps) simp

text \<open>A loop whose condition never becomes false does not return.\<close>

lemma poll_spins:
  assumes "\<And>d. ok d \<Longrightarrow> fst (step d) \<and> ok (snd (step d))" and "ok d"
  shows "poll step d = None"
proof (rule ccontr)
  assume "poll step d \<noteq> None"
  then obtain d' where "poll step d = Some d'" by blast
  then have "\<not> ok d"
    by (rule poll.raw_induct [where P = "\<lambda>step' d d'. step' = step \<longrightarrow> \<not> ok d", rule_format, rotated])
       (use assms(1) in \<open>force split: if_splits prod.splits\<close>)+
  then show False using assms(2) by blast
qed

locale polling =
  fixes step :: "'d \<Rightarrow> bool \<times> 'd" and ok :: "'d \<Rightarrow> bool" and left :: "'d \<Rightarrow> nat"
  assumes ok_step: "ok d \<Longrightarrow> ok (snd (step d))"
    and progress: "ok d \<Longrightarrow> fst (step d) \<Longrightarrow> left (snd (step d)) < left d"
begin

text \<open>The loop returns, in a state of the invariant reached by a step that answered false.\<close>

lemma poll_returns:
  assumes "ok d"
  obtains d0 d' where "poll step d = Some d'" and "ok d0" and "step d0 = (False, d')" and "ok d'"
proof -
  have "\<exists>d0 d'. poll step d = Some d' \<and> ok d0 \<and> step d0 = (False, d') \<and> ok d'"
    using assms
  proof (induction "left d" arbitrary: d rule: less_induct)
    case less
    obtain again d1 where s: "step d = (again, d1)" by fastforce
    have i1: "ok d1" using ok_step [OF less.prems] by (simp add: s)
    show ?case
    proof (cases again)
      case True
      then have "left d1 < left d" using progress [OF less.prems] by (simp add: s)
      then show ?thesis using less.hyps [OF _ i1] poll_again [of step d d1] s True by simp
    next
      case False
      then have "step d = (False, d1)" using s by simp
      then show ?thesis using poll_stop [of step d d1] less.prems i1 by blast
    qed
  qed
  then show ?thesis using that by blast
qed

end

end
