(* ===== verification/Soc.thy ===== *)
theory Soc
  imports Mmio
begin

text \<open>
  The address map and the platform constants of \<open>software/soc/include/soc.h\<close>.
\<close>

definition UART_BASE :: addr where [c_const]: "UART_BASE = 0x10000000"
definition PLIC_BASE :: addr where [c_const]: "PLIC_BASE = 0x0C000000"
definition CLINT_BASE :: addr where [c_const]: "CLINT_BASE = 0x02000000"
definition DEFAULT_SLAVE_BASE :: addr where [c_const]: "DEFAULT_SLAVE_BASE = 0x50000000"
definition DEFAULT_SLAVE_IRQ_SET_OFF :: addr where [c_const]: "DEFAULT_SLAVE_IRQ_SET_OFF = 0x00"
definition DEFAULT_SLAVE_IRQ_ACK_OFF :: addr where [c_const]: "DEFAULT_SLAVE_IRQ_ACK_OFF = 0x10"
definition DMA_BASE :: addr where [c_const]: "DMA_BASE = 0x60000000"
definition ASIC_ACCEL_BASE :: addr where [c_const]: "ASIC_ACCEL_BASE = 0x70000000"
definition VMMA_ACCEL_BASE :: addr where [c_const]: "VMMA_ACCEL_BASE = 0x70000000"
definition SOC_CTRL_BASE :: addr where [c_const]: "SOC_CTRL_BASE = 0xD0000000"

text \<open>Interrupt numbers as the software sees them.\<close>

definition IRQn_NONE :: u32 where [c_const]: "IRQn_NONE = 0"
definition IRQn_UART :: u32 where [c_const]: "IRQn_UART = 1"
definition IRQn_DEFAULT_SLAVE :: u32 where [c_const]: "IRQn_DEFAULT_SLAVE = 2"
definition IRQn_DMA :: u32 where [c_const]: "IRQn_DMA = 3"
definition IRQn_ASIC_ACCEL :: u32 where [c_const]: "IRQn_ASIC_ACCEL = 8"
definition IRQn_MAX :: u32 where [c_const]: "IRQn_MAX = 31"
definition IRQn_VVMA_ACCEL :: u32 where [c_const]: "IRQn_VVMA_ACCEL = 8"

text \<open>Clock and baud rate, for the FPGA target and for the RTL simulation.\<close>

datatype target = Fpga | Rtl_sim

fun SYS_CLK_HZ :: "target \<Rightarrow> u32" where
  "SYS_CLK_HZ Fpga = 40000000"
| "SYS_CLK_HZ Rtl_sim = 500000000"

fun BAUD_RATE :: "target \<Rightarrow> u32" where
  "BAUD_RATE Fpga = 115200"
| "BAUD_RATE Rtl_sim = 6250000"

end
