(* ===== verification/Uart.thy ===== *)
theory Uart
  imports Soc Cmem
begin

text \<open>
  The console driver \<open>software/soc/src/serial.c\<close> and the UART it drives. The driver object keeps
  the register base, the clock and the baud rate; a call through its function pointers faults
  (\<open>None\<close>) before \<open>uart_bind\<close> has filled them. The device is the register file and the transmit
  side of \<open>hardware/ip/apb_uart/src/apb_uart.sv\<close> with a transmitter whose speed is a parameter:
  \<open>lat n\<close> is the number of bus accesses that pass before it takes the \<open>n\<close>th character.
\<close>

section \<open>Registers\<close>

text \<open>\<open>struct uart_regs\<close>: eight consecutive 32-bit registers.\<close>

definition RBR_THR_DLL :: addr where [c_const]: "RBR_THR_DLL = 0x00"
definition IER_DLM :: addr where [c_const]: "IER_DLM = 0x04"
definition FCR_IIR :: addr where [c_const]: "FCR_IIR = 0x08"
definition LCR :: addr where [c_const]: "LCR = 0x0C"
definition MCR :: addr where [c_const]: "MCR = 0x10"
definition LSR :: addr where [c_const]: "LSR = 0x14"
definition MSR :: addr where [c_const]: "MSR = 0x18"
definition SCR :: addr where [c_const]: "SCR = 0x1C"

definition LCR_8N1 :: u32 where [c_const]: "LCR_8N1 = 0x03"
definition LCR_DLAB :: u32 where [c_const]: "LCR_DLAB = 0x80"
definition FCR_FIFO_EN :: u32 where [c_const]: "FCR_FIFO_EN = 0x01"
definition FCR_RX_RST :: u32 where [c_const]: "FCR_RX_RST = 0x02"
definition FCR_TX_RST :: u32 where [c_const]: "FCR_TX_RST = 0x04"
definition LSR_DR :: u32 where [c_const]: "LSR_DR = 0x01"
definition LSR_THRE :: u32 where [c_const]: "LSR_THRE = 0x20"
definition LSR_TEMT :: u32 where [c_const]: "LSR_TEMT = 0x40"

section \<open>The driver\<close>

record uart =
  u_regs :: addr
  u_clk_hz :: u32
  u_baud :: u32
  u_bound :: bool

text \<open>A global object starts zeroed.\<close>

definition uart_zero :: uart where
  "uart_zero = \<lparr>u_regs = 0, u_clk_hz = 0, u_baud = 0, u_bound = False\<rparr>"

definition uart_bind :: "uart \<Rightarrow> uart" where
  "uart_bind u = u\<lparr>u_bound := True\<rparr>"

definition uart_set_divisor :: "'d bus \<Rightarrow> addr \<Rightarrow> u16 \<Rightarrow> 'd \<Rightarrow> 'd" where
  "uart_set_divisor B r divisor d =
     (let d = wr32 B (r + LCR) (LCR_8N1 OR LCR_DLAB) d;
          d = wr32 B (r + RBR_THR_DLL) (ucast divisor AND 0xFF) d;
          d = wr32 B (r + IER_DLM) (ucast (drop_bit 8 divisor)) d
      in wr32 B (r + LCR) LCR_8N1 d)"

definition uart_divisor :: "u32 \<Rightarrow> u32 \<Rightarrow> u16" where
  "uart_divisor clk_hz baud = ucast ((clk_hz + 8 * baud) div (16 * baud))"

definition uart_op_init :: "'d bus \<Rightarrow> addr \<Rightarrow> u32 \<Rightarrow> u32 \<Rightarrow> uart \<Rightarrow> 'd \<Rightarrow> uart \<times> 'd" where
  "uart_op_init B regs clk_hz baud u d =
     (let u = u\<lparr>u_regs := regs, u_clk_hz := clk_hz, u_baud := baud\<rparr>;
          divisor = uart_divisor clk_hz baud;
          d = wr32 B (regs + IER_DLM) 0 d;
          d = uart_set_divisor B regs divisor d
      in (u, wr32 B (regs + FCR_IIR) (FCR_RX_RST OR FCR_TX_RST) d))"

text \<open>\<open>while ((r->lsr & LSR_THRE) == 0)\<close>.\<close>

definition thre_step :: "'d bus \<Rightarrow> addr \<Rightarrow> 'd \<Rightarrow> bool \<times> 'd" where
  "thre_step B r d = (let (lsr, d) = rd32 B (r + LSR) d in (lsr AND LSR_THRE = 0, d))"

definition uart_op_putc :: "'d bus \<Rightarrow> uart \<Rightarrow> byte \<Rightarrow> 'd \<Rightarrow> 'd option" where
  "uart_op_putc B u c d =
     map_option (wr32 B (u_regs u + RBR_THR_DLL) (ucast c)) (poll (thre_step B (u_regs u)) d)"

text \<open>A call \<open>u->putc(u, c)\<close>.\<close>

definition uart_putc :: "'d bus \<Rightarrow> uart \<Rightarrow> byte \<Rightarrow> 'd \<Rightarrow> 'd option" where
  "uart_putc B u c d = (if u_bound u then uart_op_putc B u c d else None)"

partial_function (option) uart_op_puts :: "'d bus \<Rightarrow> uart \<Rightarrow> mem \<Rightarrow> addr \<Rightarrow> 'd \<Rightarrow> 'd option" where
  "uart_op_puts B u m s d =
     (if m s \<noteq> 0 then Option.bind (uart_putc B u (m s) d) (uart_op_puts B u m (s + 1)) else Some d)"

definition uart_puts :: "'d bus \<Rightarrow> uart \<Rightarrow> mem \<Rightarrow> addr \<Rightarrow> 'd \<Rightarrow> 'd option" where
  "uart_puts B u m s d = (if u_bound u then uart_op_puts B u m s d else None)"

text \<open>\<open>uart_delay_cycles\<close>: \<open>cycles\<close> iterations of a loop without a bus access.\<close>

definition uart_delay_cycles :: "'d bus \<Rightarrow> u32 \<Rightarrow> 'd \<Rightarrow> 'd" where
  "uart_delay_cycles B cycles d = bus_idle B (unat cycles) d"

definition cycles_per_bit :: "uart \<Rightarrow> u32" where
  "cycles_per_bit u = (u_clk_hz u + u_baud u - 1) div u_baud u"

definition uart_op_flush :: "'d bus \<Rightarrow> uart \<Rightarrow> 'd \<Rightarrow> 'd option" where
  "uart_op_flush B u d =
     map_option (uart_delay_cycles B (cycles_per_bit u * 12)) (poll (thre_step B (u_regs u)) d)"

text \<open>\<open>_putchar\<close>, \<open>puts\<close> and \<open>putchar\<close> on the console object \<open>uart0\<close> (\<open>minlibc.c\<close>).\<close>

definition put_char :: "'d bus \<Rightarrow> uart \<Rightarrow> byte \<Rightarrow> 'd \<Rightarrow> 'd option" where
  "put_char B uart0 c d = uart_putc B uart0 c d"

definition puts :: "'d bus \<Rightarrow> uart \<Rightarrow> mem \<Rightarrow> addr \<Rightarrow> 'd \<Rightarrow> (int \<times> 'd) option" where
  "puts B uart0 m s d =
     Option.bind (uart_puts B uart0 m s d)
       (\<lambda>d. map_option (Pair 1) (uart_putc B uart0 10 d))"

definition putchar :: "'d bus \<Rightarrow> uart \<Rightarrow> u32 \<Rightarrow> 'd \<Rightarrow> (u32 \<times> 'd) option" where
  "putchar B uart0 c d = map_option (Pair c) (uart_putc B uart0 (ucast c) d)"

section \<open>The device\<close>

record uart_dev =
  dll :: byte
  dlm :: byte
  ier :: byte
  lcr :: byte
  mcr :: byte
  scr :: byte
  fifo_en :: bool
  tx_fifo :: "byte list"
  tx_wait :: nat
  tx_out :: "byte list"

definition uart_reset :: uart_dev where
  "uart_reset = \<lparr>dll = 1, dlm = 0, ier = 0, lcr = 0, mcr = 0, scr = 0, fifo_en = False,
     tx_fifo = [], tx_wait = 0, tx_out = []\<rparr>"

text \<open>The transmitter between two accesses: it is busy, idle, or takes the next character.\<close>

definition uart_tick :: "(nat \<Rightarrow> nat) \<Rightarrow> uart_dev \<Rightarrow> uart_dev" where
  "uart_tick lat d =
     (if tx_wait d > 0 then d\<lparr>tx_wait := tx_wait d - 1\<rparr>
      else case tx_fifo d of [] \<Rightarrow> d
        | c # cs \<Rightarrow> d\<lparr>tx_fifo := cs, tx_wait := lat (length (tx_out d)), tx_out := tx_out d @ [c]\<rparr>)"

definition dlab :: "uart_dev \<Rightarrow> bool" where
  "dlab d = bit (lcr d) 7"

text \<open>\<open>PADDR\<close> is bits 4 to 2 of the address.\<close>

definition reg_index :: "addr \<Rightarrow> nat" where
  "reg_index a = unat (drop_bit 2 a AND 7)"

definition lsr_of :: "uart_dev \<Rightarrow> byte" where
  "lsr_of d = (if tx_fifo d = [] then 0x20 else 0) OR
              (if tx_fifo d = [] \<and> tx_wait d = 0 then 0x40 else 0)"

definition uart_reg_read :: "nat \<Rightarrow> uart_dev \<Rightarrow> byte" where
  "uart_reg_read i d =
     (if i = 0 then (if dlab d then dll d else 0)
      else if i = 1 then (if dlab d then dlm d else ier d)
      else if i = 2 then 0x01
      else if i = 3 then lcr d
      else if i = 4 then mcr d
      else if i = 5 then lsr_of d
      else if i = 6 then 0
      else scr d)"

definition uart_reg_write :: "nat \<Rightarrow> byte \<Rightarrow> uart_dev \<Rightarrow> uart_dev" where
  "uart_reg_write i v d =
     (if i = 0 then
        (if dlab d then d\<lparr>dll := v\<rparr>
         else if (if fifo_en d then length (tx_fifo d) < 16 else tx_fifo d = [])
         then d\<lparr>tx_fifo := tx_fifo d @ [v]\<rparr> else d)
      else if i = 1 then (if dlab d then d\<lparr>dlm := v\<rparr> else d\<lparr>ier := v AND 0x0F\<rparr>)
      else if i = 2 then
        (let d' = d\<lparr>fifo_en := bit v 0\<rparr>
         in if bit v 2 \<or> fifo_en d \<noteq> bit v 0 then d'\<lparr>tx_fifo := []\<rparr> else d')
      else if i = 3 then d\<lparr>lcr := v\<rparr>
      else if i = 4 then d\<lparr>mcr := v\<rparr>
      else if i = 7 then d\<lparr>scr := v\<rparr>
      else d)"

definition uart_bus :: "(nat \<Rightarrow> nat) \<Rightarrow> uart_dev bus" where
  "uart_bus lat =
     \<lparr>bus_rd = (\<lambda>n a d. (ucast (uart_reg_read (reg_index a) d), uart_tick lat d)),
      bus_wr = (\<lambda>n a v d. uart_tick lat (uart_reg_write (reg_index a) (ucast v) d)),
      bus_idle = (\<lambda>n d. ((uart_tick lat) ^^ n) d)\<rparr>"


section \<open>Register decoding\<close>

lemma reg_index_uart [dev_simps]:
  "reg_index (UART_BASE + RBR_THR_DLL) = 0" "reg_index (UART_BASE + IER_DLM) = 1"
  "reg_index (UART_BASE + FCR_IIR) = 2" "reg_index (UART_BASE + LCR) = 3"
  "reg_index (UART_BASE + LSR) = 5"
  by (simp_all add: reg_index_def c_const)

lemma uart_bus_rd32 [dev_simps]:
  "rd32 (uart_bus lat) a d = (ucast (uart_reg_read (reg_index a) d), uart_tick lat d)"
proof -
  have "ucast (ucast (b :: byte) :: u64) = (ucast b :: u32)" for b
    by (rule bit_word_eqI) (auto simp: bit_simps dest: bit_imp_le_length)
  then show ?thesis by (simp add: rd32_def uart_bus_def)
qed

lemma uart_bus_wr32 [dev_simps]:
  "wr32 (uart_bus lat) a v d = uart_tick lat (uart_reg_write (reg_index a) (ucast v) d)"
proof -
  have "ucast (ucast (v :: u32) :: u64) = (ucast v :: byte)"
    by (rule bit_word_eqI) (auto simp: bit_simps dest: bit_imp_le_length)
  then show ?thesis by (simp add: wr32_def uart_bus_def)
qed

section \<open>The transmit side\<close>

text \<open>The characters given to the device: those sent and those still in it.\<close>

definition wire :: "uart_dev \<Rightarrow> byte list" where
  "wire d = tx_out d @ tx_fifo d"

text \<open>The state in which the driver leaves the device.\<close>

definition tx_ready :: "uart_dev \<Rightarrow> bool" where
  "tx_ready d \<longleftrightarrow> \<not> fifo_en d \<and> \<not> dlab d \<and> length (tx_fifo d) \<le> 1"

lemma wire_tick [simp]: "wire (uart_tick lat d) = wire d"
  by (simp add: wire_def uart_tick_def split: list.split)

lemma tx_ready_tick: "tx_ready d \<Longrightarrow> tx_ready (uart_tick lat d)"
  by (auto simp: tx_ready_def uart_tick_def dlab_def split: list.split)

lemma tick_config [simp]:
  "dll (uart_tick lat d) = dll d" "dlm (uart_tick lat d) = dlm d" "ier (uart_tick lat d) = ier d"
  "lcr (uart_tick lat d) = lcr d" "fifo_en (uart_tick lat d) = fifo_en d" "dlab (uart_tick lat d) = dlab d"
  by (simp_all add: uart_tick_def dlab_def split: list.split)

lemma tick_empty: "tx_fifo d = [] \<Longrightarrow> tx_fifo (uart_tick lat d) = []"
  by (simp add: uart_tick_def)

lemma thre_step_uart [dev_simps]:
  "thre_step (uart_bus lat) UART_BASE d = (tx_fifo d \<noteq> [], uart_tick lat d)"
  by (simp add: thre_step_def dev_simps uart_reg_read_def lsr_of_def LSR_THRE_def)

text \<open>The promise to the polling loop: the device empties its transmit register.\<close>

definition uart_left :: "uart_dev \<Rightarrow> nat" where
  "uart_left d = (if tx_fifo d = [] then 0 else Suc (tx_wait d))"

interpretation uart_poll: polling "thre_step (uart_bus lat) UART_BASE"
    "\<lambda>d. tx_ready d \<and> wire d = w" uart_left for lat w
proof unfold_locales
  fix d assume "tx_ready d \<and> wire d = w" and "fst (thre_step (uart_bus lat) UART_BASE d)"
  then show "uart_left (snd (thre_step (uart_bus lat) UART_BASE d)) < uart_left d"
    by (auto simp: dev_simps uart_left_def uart_tick_def tx_ready_def length_Suc_conv le_Suc_eq
        split: list.split)
qed (simp add: dev_simps tx_ready_tick)

lemma wait_thre:
  assumes "tx_ready d"
  obtains d' where "poll (thre_step (uart_bus lat) UART_BASE) d = Some d'"
    and "tx_ready d'" and "wire d' = wire d" and "tx_fifo d' = []"
proof (rule uart_poll.poll_returns [of d "wire d" lat])
  show "tx_ready d \<and> wire d = wire d" using assms by simp
  fix d0 d'
  assume "poll (thre_step (uart_bus lat) UART_BASE) d = Some d'"
    and "thre_step (uart_bus lat) UART_BASE d0 = (False, d')" and "tx_ready d' \<and> wire d' = wire d"
  then show thesis by (intro that [of d']) (auto simp: dev_simps tick_empty)
qed

lemma uart_op_putc_wire:
  assumes "tx_ready d" and "u_regs u = UART_BASE"
  obtains d' where "uart_op_putc (uart_bus lat) u c d = Some d'" and "tx_ready d'" and "wire d' = wire d @ [c]"
proof -
  obtain d1 where d1: "poll (thre_step (uart_bus lat) UART_BASE) d = Some d1" "tx_ready d1"
      "wire d1 = wire d" "tx_fifo d1 = []" using wait_thre [OF assms(1)] .
  let ?d = "wr32 (uart_bus lat) (UART_BASE + RBR_THR_DLL) (ucast c) d1"
  have "ucast (ucast c :: u32) = c" by (rule bit_word_eqI) (simp add: bit_simps)
  then have eq: "?d = uart_tick lat (d1\<lparr>tx_fifo := [c]\<rparr>)"
    using d1(2,4) by (simp add: dev_simps uart_reg_write_def tx_ready_def)
  show ?thesis
  proof
    show "uart_op_putc (uart_bus lat) u c d = Some ?d" using d1(1) assms(2) by (simp add: uart_op_putc_def)
    show "tx_ready ?d" unfolding eq
      by (rule tx_ready_tick) (use d1(2) in \<open>simp add: tx_ready_def dlab_def\<close>)
    show "wire ?d = wire d @ [c]" unfolding eq wire_tick using d1(3,4) by (simp add: wire_def)
  qed
qed

lemma uart_op_puts_wire:
  assumes "u_bound u" and "u_regs u = UART_BASE"
  shows "tx_ready d \<Longrightarrow> cstr_at m s cs \<Longrightarrow>
    \<exists>d'. uart_op_puts (uart_bus lat) u m s d = Some d' \<and> tx_ready d' \<and> wire d' = wire d @ cs"
proof (induction cs arbitrary: s d)
  case Nil
  then show ?case by (simp add: uart_op_puts.simps)
next
  case (Cons c cs)
  obtain d1 where d1: "uart_op_putc (uart_bus lat) u c d = Some d1" "tx_ready d1" "wire d1 = wire d @ [c]"
    using uart_op_putc_wire [OF Cons.prems(1) assms(2)] .
  then show ?case using Cons.IH [of d1 "s + 1"] Cons.prems(2) assms(1)
    by (subst uart_op_puts.simps) (auto simp: uart_putc_def)
qed

section \<open>Properties\<close>

text \<open>C5. After \<open>uart_bind\<close> and \<open>init\<close>, \<open>puts\<close> returns and every character of the string goes to
  the wire, in order, none lost or repeated, however slow the transmitter is.\<close>

theorem uart_puts_wire:
  assumes "tx_ready d" and "cstr_at m s cs" and "u_bound u" and "u_regs u = UART_BASE"
  shows "\<exists>d'. uart_puts (uart_bus lat) u m s d = Some d' \<and> tx_ready d' \<and>
              tx_out d' @ tx_fifo d' = tx_out d @ tx_fifo d @ cs"
  using uart_op_puts_wire [OF assms(3,4,1,2), of lat] assms(3) by (auto simp: uart_puts_def wire_def)

theorem uart_puts_wire_witness:
  "\<exists>d'. uart_puts (uart_bus (\<lambda>n. n)) (uart_bind (uart_zero\<lparr>u_regs := UART_BASE\<rparr>)) ((\<lambda>_. 0)(8 := 72, 9 := 105)) 8
      uart_reset = Some d' \<and> tx_out d' @ tx_fifo d' = str ''Hi''"
  using uart_puts_wire [of uart_reset "(\<lambda>_. 0)(8 := 72, 9 := 105)" 8 "str ''Hi''"
      "uart_bind (uart_zero\<lparr>u_regs := UART_BASE\<rparr>)" "\<lambda>n. n"]
  by (auto simp: uart_reset_def tx_ready_def dlab_def uart_bind_def uart_zero_def)

text \<open>\<open>init\<close> programs the divisor into the two latches and leaves the line in 8N1 with the
  latches locked and the FIFOs off and empty, from any state of the device; its interrupts are
  disabled if the divisor latches were not already open when it was called (its first write
  goes to a divisor latch otherwise).\<close>

theorem uart_init_device:
  "\<exists>u' d'. uart_op_init (uart_bus lat) UART_BASE clk baud u d = (u', d') \<and>
     word_cat (dlm d') (dll d') = uart_divisor clk baud \<and> lcr d' = 0x03 \<and> tx_ready d' \<and>
     (\<not> dlab d \<longrightarrow> ier d' = 0) \<and> tx_fifo d' = [] \<and>
     u_regs u' = UART_BASE \<and> u_clk_hz u' = clk \<and> u_baud u' = baud"
proof -
  let ?v = "uart_divisor clk baud"
  have cat: "word_cat (ucast (ucast (drop_bit 8 ?v) :: u32) :: byte) (ucast (ucast ?v AND 0xFF :: u32) :: byte) = ?v"
    by (rule bit_word_eqI) (auto simp: bit_simps bit_word_cat_iff bit_255)
  have mode: "(ucast (LCR_8N1 OR LCR_DLAB) :: byte) = 0x83" "(ucast LCR_8N1 :: byte) = 3"
    "(ucast (FCR_RX_RST OR FCR_TX_RST) :: byte) = 6" by (simp_all add: c_const)
  obtain u' d' where i: "uart_op_init (uart_bus lat) UART_BASE clk baud u d = (u', d')" by fastforce
  then have "u_regs u' = UART_BASE \<and> u_clk_hz u' = clk \<and> u_baud u' = baud"
    by (auto simp: uart_op_init_def Let_def)
  moreover have "dlm d' = ucast (ucast (drop_bit 8 ?v) :: u32) \<and> dll d' = ucast (ucast ?v AND 0xFF :: u32) \<and>
      lcr d' = 3 \<and> (\<not> dlab d \<longrightarrow> ier d' = 0) \<and> \<not> fifo_en d' \<and> tx_fifo d' = []"
    using i [symmetric]
    by (simp add: uart_op_init_def uart_set_divisor_def dev_simps uart_reg_write_def mode dlab_def Let_def tick_empty)
  ultimately show ?thesis using i cat by (simp add: tx_ready_def dlab_def)
qed


theorem uart_init_device_witness:
  "\<exists>u' d'. uart_op_init (uart_bus (\<lambda>_. 9)) UART_BASE 500000000 6250000 uart_zero uart_reset = (u', d') \<and>
     word_cat (dlm d') (dll d') = (5 :: u16) \<and> ier d' = 0"
  using uart_init_device [of "\<lambda>_. 9" 500000000 6250000 uart_zero uart_reset]
  by (auto simp: uart_reset_def dlab_def uart_divisor_def)

text \<open>The divisor is the rounded quotient of the clock by 16 times the baud rate: when the
  32-bit arithmetic does not overflow and the result fits the 16-bit latches, the rate it gives
  is off by at most half a divisor step.\<close>

theorem uart_divisor_rounds:
  assumes "0 < baud" and "16 * unat baud < 2 ^ 32" and "unat clk + 8 * unat baud < 2 ^ 32"
    and "unat clk < 16 * unat baud * (2 ^ 16 - 1)"
  shows "2 * \<bar>int (unat clk) - 16 * int (unat baud) * int (unat (uart_divisor clk baud))\<bar> \<le> 16 * int (unat baud)"
proof -
  define b c q where "b = unat baud" and "c = unat clk" and "q = (c + 8 * b) div (16 * b)"
  have b: "0 < b" using assms(1) by (simp add: b_def word_less_nat_alt)
  have m: "unat (16 * baud) = 16 * b" "unat (clk + 8 * baud) = c + 8 * b"
    using assms(2,3) by (simp_all add: b_def c_def unat_word_ariths)
  have q16: "q < 2 ^ 16"
  proof -
    have "c + 8 * b < 16 * b * 2 ^ 16" using assms(4) b unfolding b_def [symmetric] c_def [symmetric] by simp
    then show ?thesis unfolding q_def by (metis less_mult_imp_div_less mult.commute)
  qed
  have q: "unat (uart_divisor clk baud) = q"
    using q16 by (simp add: uart_divisor_def unsigned_ucast_eq unat_div m q_def take_bit_nat_eq_self)
  have lo: "q * (16 * b) \<le> c + 8 * b" unfolding q_def by simp
  have hi: "c + 8 * b < q * (16 * b) + 16 * b"
    using b unfolding q_def by (metis add.commute dividend_less_div_times mult_pos_pos zero_less_numeral)
  obtain X where X: "X = q * b" by simp
  have "16 * X \<le> c + 8 * b" "c + 8 * b < 16 * X + 16 * b" using lo hi by (simp_all add: X algebra_simps)
  then have "2 * \<bar>int c - 16 * int X\<bar> \<le> 16 * int b" by (simp add: abs_if)
  then show ?thesis unfolding q b_def [symmetric] c_def [symmetric] X by (simp add: algebra_simps)
qed

theorem uart_divisor_rounds_witness:
  "2 * \<bar>int 40000000 - 16 * int 115200 * int (unat (uart_divisor 40000000 115200))\<bar> \<le> 16 * int 115200"
  using uart_divisor_rounds [of 115200 40000000] by simp

text \<open>\<open>flush\<close> waits long enough in both configurations of the platform: the \<open>12\<close> bit times
  it idles after the transmit register is empty cover the ten bits (start, eight data, stop) of
  16 divisor ticks each that may still be in the shift register.\<close>

theorem flush_covers_frame:
  assumes "u_clk_hz u = SYS_CLK_HZ t" and "u_baud u = BAUD_RATE t"
  shows "10 * 16 * unat (uart_divisor (u_clk_hz u) (u_baud u)) \<le> unat (cycles_per_bit u * 12)"
  using assms by (cases t) (simp_all add: cycles_per_bit_def uart_divisor_def)

theorem flush_covers_frame_witness:
  "10 * 16 * unat (uart_divisor 40000000 115200) \<le>
     unat (cycles_per_bit (uart_zero\<lparr>u_clk_hz := 40000000, u_baud := 115200\<rparr>) * 12)"
  using flush_covers_frame [of "uart_zero\<lparr>u_clk_hz := 40000000, u_baud := 115200\<rparr>" Fpga] by simp


end
