(* ===== verification/Plic.thy ===== *)
theory Plic
  imports Soc
begin

text \<open>
  The interrupt controller driver \<open>software/soc/src/plic.c\<close>, and the controller itself: the register
  map \<open>plic_regmap.sv\<close>, the gateways \<open>rv_plic_gateway.sv\<close> and the target arbitration
  \<open>rv_plic_target.sv\<close> of \<open>hardware/ip/rv_plic\<close> for level-triggered sources 1 to 30. Handlers are
  values of a type \<open>'h\<close> that a function given to the dispatcher runs.
\<close>

section \<open>Layout of \<open>struct plic_regs\<close>\<close>

definition PLIC_NUM_TARGETS :: nat where [c_const]: "PLIC_NUM_TARGETS = 2"
definition PLIC_NUM_SOURCES :: nat where [c_const]: "PLIC_NUM_SOURCES = 32"
definition PLIC_CTX_M0 :: u32 where [c_const]: "PLIC_CTX_M0 = 0"
definition PLIC_CTX_S0 :: u32 where [c_const]: "PLIC_CTX_S0 = 1"

text \<open>The offsets follow from the sizes of the fields: two arrays of 1024 words, the enable words
  of the targets, padding, and one 4 KiB block per target.\<close>

definition PRIORITY_OFF :: nat where [c_const]: "PRIORITY_OFF = 0"
definition PENDING_OFF :: nat where [c_const]: "PENDING_OFF = PRIORITY_OFF + 4 * 1024"
definition ENABLE_OFF :: nat where [c_const]: "ENABLE_OFF = PENDING_OFF + 4 * 1024"
definition ENABLE_STRIDE :: nat where [c_const]: "ENABLE_STRIDE = 4 * 32"
definition PAD_WORDS :: nat where [c_const]: "PAD_WORDS = (0x200000 - 0x002100) div 4"
definition TARGET_OFF :: nat where [c_const]:
  "TARGET_OFF = ENABLE_OFF + PLIC_NUM_TARGETS * ENABLE_STRIDE + 4 * PAD_WORDS"
definition TARGET_STRIDE :: nat where [c_const]: "TARGET_STRIDE = 4 + 4 + 4 * ((0x1000 - 8) div 4)"

definition priority_reg :: "addr \<Rightarrow> nat \<Rightarrow> addr" where
  "priority_reg r i = r + of_nat (PRIORITY_OFF + 4 * i)"

definition enable_reg :: "addr \<Rightarrow> nat \<Rightarrow> nat \<Rightarrow> addr" where
  "enable_reg r t w = r + of_nat (ENABLE_OFF + ENABLE_STRIDE * t + 4 * w)"

definition threshold_reg :: "addr \<Rightarrow> nat \<Rightarrow> addr" where
  "threshold_reg r t = r + of_nat (TARGET_OFF + TARGET_STRIDE * t)"

definition claim_reg :: "addr \<Rightarrow> nat \<Rightarrow> addr" where
  "claim_reg r t = r + of_nat (TARGET_OFF + TARGET_STRIDE * t + 4)"

section \<open>The driver\<close>

text \<open>\<open>plic_default_isr\<close> or a registered handler; the entries of a zeroed object are null.\<close>

datatype 'h isr = Null_isr | Default_isr | Isr 'h

record 'h plic =
  p_regs :: addr
  p_table :: "nat \<Rightarrow> 'h isr \<times> addr"
  p_bound :: bool

definition plic_zero :: "'h plic" where
  "plic_zero = \<lparr>p_regs = 0, p_table = (\<lambda>_. (Null_isr, 0)), p_bound = False\<rparr>"

definition plic_bind :: "'h plic \<Rightarrow> 'h plic" where
  "plic_bind p = p\<lparr>p_bound := True\<rparr>"

text \<open>The loops of \<open>init\<close> write a register for each index in ascending order.\<close>

definition plic_init_target :: "'d bus \<Rightarrow> addr \<Rightarrow> nat \<Rightarrow> 'd \<Rightarrow> 'd" where
  "plic_init_target B r t d =
     wr32 B (threshold_reg r t) 0 (fold (\<lambda>w. wr32 B (enable_reg r t w) 0) [0..<32] d)"

definition plic_op_init :: "'d bus \<Rightarrow> addr \<Rightarrow> 'h plic \<Rightarrow> 'd \<Rightarrow> 'h plic \<times> 'd" where
  "plic_op_init B r p d =
     (let p = p\<lparr>p_regs := r\<rparr>;
          d = fold (\<lambda>i. wr32 B (priority_reg r i) 0) [0..<PLIC_NUM_SOURCES] d;
          d = fold (plic_init_target B r) [0..<PLIC_NUM_TARGETS] d
      in (p\<lparr>p_table := (\<lambda>i. if i < PLIC_NUM_SOURCES then (Default_isr, 0) else p_table p i)\<rparr>, d))"

definition plic_op_set_priority :: "'d bus \<Rightarrow> 'h plic \<Rightarrow> u32 \<Rightarrow> u32 \<Rightarrow> 'd \<Rightarrow> 'd" where
  "plic_op_set_priority B p irq prio d =
     (if PLIC_NUM_SOURCES \<le> unat irq then d
      else wr32 B (priority_reg (p_regs p) (unat irq)) (prio AND 7) d)"

text \<open>The read-modify-write of \<open>enable[ctx][irq / 32]\<close>.\<close>

definition plic_op_enable :: "'d bus \<Rightarrow> 'h plic \<Rightarrow> u32 \<Rightarrow> u32 \<Rightarrow> 'd \<Rightarrow> 'd" where
  "plic_op_enable B p ctx irq d =
     (if PLIC_NUM_TARGETS \<le> unat ctx \<or> PLIC_NUM_SOURCES \<le> unat irq then d
      else
        let a = enable_reg (p_regs p) (unat ctx) (unat irq div 32);
            (v, d) = rd32 B a d
        in wr32 B a (v OR push_bit (unat (irq AND 31)) 1) d)"

definition plic_op_disable :: "'d bus \<Rightarrow> 'h plic \<Rightarrow> u32 \<Rightarrow> u32 \<Rightarrow> 'd \<Rightarrow> 'd" where
  "plic_op_disable B p ctx irq d =
     (if PLIC_NUM_TARGETS \<le> unat ctx \<or> PLIC_NUM_SOURCES \<le> unat irq then d
      else
        let a = enable_reg (p_regs p) (unat ctx) (unat irq div 32);
            (v, d) = rd32 B a d
        in wr32 B a (v AND NOT (push_bit (unat (irq AND 31)) 1)) d)"

definition plic_op_set_threshold :: "'d bus \<Rightarrow> 'h plic \<Rightarrow> u32 \<Rightarrow> u32 \<Rightarrow> 'd \<Rightarrow> 'd" where
  "plic_op_set_threshold B p ctx thr d =
     (if PLIC_NUM_TARGETS \<le> unat ctx then d
      else wr32 B (threshold_reg (p_regs p) (unat ctx)) (thr AND 7) d)"

definition plic_op_register_handler :: "'h plic \<Rightarrow> u32 \<Rightarrow> 'h option \<Rightarrow> addr \<Rightarrow> 'h plic" where
  "plic_op_register_handler p irq fn arg =
     (if PLIC_NUM_SOURCES \<le> unat irq then p
      else p\<lparr>p_table := (p_table p)(unat irq :=
             (case fn of Some h \<Rightarrow> Isr h | None \<Rightarrow> Default_isr, arg))\<rparr>)"

definition plic_op_claim :: "'d bus \<Rightarrow> 'h plic \<Rightarrow> u32 \<Rightarrow> 'd \<Rightarrow> u32 \<times> 'd" where
  "plic_op_claim B p ctx d = rd32 B (claim_reg (p_regs p) (unat ctx)) d"

definition plic_op_complete :: "'d bus \<Rightarrow> 'h plic \<Rightarrow> u32 \<Rightarrow> u32 \<Rightarrow> 'd \<Rightarrow> 'd" where
  "plic_op_complete B p ctx irq d = wr32 B (claim_reg (p_regs p) (unat ctx)) irq d"

text \<open>A call through the table: \<open>run\<close> runs a registered handler, \<open>spurious\<close> prints the message of
  the default one; a null entry faults. Any of them may also not return.\<close>

fun call_isr :: "('h \<Rightarrow> u32 \<Rightarrow> addr \<Rightarrow> 'd \<Rightarrow> 'd option) \<Rightarrow> ('d \<Rightarrow> 'd option) \<Rightarrow> 'h isr \<times> addr \<Rightarrow> u32 \<Rightarrow>
    'd \<Rightarrow> 'd option" where
  "call_isr run spurious (Null_isr, arg) irq d = None"
| "call_isr run spurious (Default_isr, arg) irq d = spurious d"
| "call_isr run spurious (Isr h, arg) irq d = run h irq arg d"

definition plic_op_handle_m_ext :: "'d bus \<Rightarrow> ('h \<Rightarrow> u32 \<Rightarrow> addr \<Rightarrow> 'd \<Rightarrow> 'd option) \<Rightarrow>
    ('d \<Rightarrow> 'd option) \<Rightarrow> 'h plic \<Rightarrow> 'd \<Rightarrow> 'd option" where
  "plic_op_handle_m_ext B run spurious p d =
     (let (i, d) = plic_op_claim B p PLIC_CTX_M0 d
      in if i = 0 \<or> PLIC_NUM_SOURCES \<le> unat i then Some d
         else map_option (plic_op_complete B p PLIC_CTX_M0 i)
                (call_isr run spurious (p_table p (unat i)) i d))"

text \<open>The entry from \<open>handlers.S\<close>, through the operations table of \<open>plic0\<close>.\<close>

definition plic_handle_m_ext_irq :: "'d bus \<Rightarrow> ('h \<Rightarrow> u32 \<Rightarrow> addr \<Rightarrow> 'd \<Rightarrow> 'd option) \<Rightarrow>
    ('d \<Rightarrow> 'd option) \<Rightarrow> 'h plic \<Rightarrow> 'd \<Rightarrow> 'd option" where
  "plic_handle_m_ext_irq B run spurious plic0 d =
     (if p_bound plic0 then plic_op_handle_m_ext B run spurious plic0 d else None)"

section \<open>The controller\<close>

text \<open>Priorities, thresholds and enables as registers; \<open>ip\<close> and \<open>ia\<close> are the pending and active
  bits of the gateways, bit \<open>i\<close> for the software id \<open>i\<close>, and \<open>src\<close> the interrupt lines. \<open>err\<close>
  counts the accesses that the register map answers with an error.\<close>

record plic_dev =
  pd_prio :: "nat \<Rightarrow> 3 word"
  pd_thr :: "nat \<Rightarrow> 3 word"
  pd_ie :: "nat \<Rightarrow> u32"
  pd_ip :: u32
  pd_ia :: u32
  pd_src :: u32
  pd_err :: nat

definition N_SOURCE :: nat where [c_const]: "N_SOURCE = 30"

text \<open>The arbitration: sources from the last to the first, each taking over when its priority is
  not below the maximum so far, which starts at the threshold plus one (in 3 bits).\<close>

definition plic_pick :: "plic_dev \<Rightarrow> nat \<Rightarrow> nat \<Rightarrow> 3 word \<times> nat \<Rightarrow> 3 word \<times> nat" where
  "plic_pick d t i = (\<lambda>(best, sel).
     if bit (pd_ip d AND pd_ie d t) i \<and> best \<le> pd_prio d i then (pd_prio d i, i) else (best, sel))"

definition plic_irq_id :: "'e plic_dev_scheme \<Rightarrow> nat \<Rightarrow> nat" where
  "plic_irq_id d t = snd (fold (plic_pick (plic_dev.truncate d) t) (rev [1..<Suc N_SOURCE]) (pd_thr d t + 1, 0))"

text \<open>The gateways sample the lines.\<close>

definition plic_sample :: "'e plic_dev_scheme \<Rightarrow> 'e plic_dev_scheme" where
  "plic_sample d = d\<lparr>pd_ip := pd_ip d OR (pd_src d AND NOT (pd_ia d) AND NOT (pd_ip d)),
                     pd_ia := pd_ia d OR (pd_src d AND NOT (pd_ia d))\<rparr>"

definition irq_bit :: "nat \<Rightarrow> u32" where
  "irq_bit i = (if i = 0 then 0 else push_bit i 1)"

definition plic_reg_rd :: "addr \<Rightarrow> 'e plic_dev_scheme \<Rightarrow> u32 \<times> 'e plic_dev_scheme" where
  "plic_reg_rd a d =
     (let o' = unat (a - PLIC_BASE)
      in if o' mod 4 = 0 \<and> o' div 4 \<le> N_SOURCE then (ucast (if o' = 0 then 0 else pd_prio d (o' div 4)), d)
         else if o' = 0x1000 then (pd_ip d AND NOT 1, d)
         else if o' = 0x2000 then (pd_ie d 0, d)
         else if o' = 0x2080 then (pd_ie d 1, d)
         else if o' = 0x200000 then (ucast (pd_thr d 0), d)
         else if o' = 0x201000 then (ucast (pd_thr d 1), d)
         else if o' = 0x200004 \<or> o' = 0x201004 then
           (let i = plic_irq_id d (if o' = 0x200004 then 0 else 1)
            in (of_nat i, d\<lparr>pd_ip := pd_ip d AND NOT (irq_bit i)\<rparr>))
         else (0, d\<lparr>pd_err := Suc (pd_err d)\<rparr>))"

definition plic_reg_wr :: "addr \<Rightarrow> u32 \<Rightarrow> 'e plic_dev_scheme \<Rightarrow> 'e plic_dev_scheme" where
  "plic_reg_wr a v d =
     (let o' = unat (a - PLIC_BASE)
      in if o' mod 4 = 0 \<and> o' div 4 \<le> N_SOURCE
         then (if o' = 0 then d else d\<lparr>pd_prio := (pd_prio d)(o' div 4 := ucast v)\<rparr>)
         else if o' = 0x2000 then d\<lparr>pd_ie := (pd_ie d)(0 := v AND 0x7FFFFFFE)\<rparr>
         else if o' = 0x2080 then d\<lparr>pd_ie := (pd_ie d)(1 := v AND 0x7FFFFFFE)\<rparr>
         else if o' = 0x200000 then d\<lparr>pd_thr := (pd_thr d)(0 := ucast v)\<rparr>
         else if o' = 0x201000 then d\<lparr>pd_thr := (pd_thr d)(1 := ucast v)\<rparr>
         else if o' = 0x200004 \<or> o' = 0x201004
         then d\<lparr>pd_ia := pd_ia d AND NOT (irq_bit (unat (v AND 31)))\<rparr>
         else d\<lparr>pd_err := Suc (pd_err d)\<rparr>)"

definition plic_bus :: "'e plic_dev_scheme bus" where
  "plic_bus =
     \<lparr>bus_rd = (\<lambda>n a d. let (v, d) = plic_reg_rd a d in (ucast v, d)),
      bus_wr = (\<lambda>n a v d. plic_reg_wr a (ucast v) d),
      bus_idle = (\<lambda>n d. d)\<rparr>"

section \<open>Arbitration\<close>

definition eligible :: "'e plic_dev_scheme \<Rightarrow> nat \<Rightarrow> nat \<Rightarrow> bool" where
  "eligible d t i \<longleftrightarrow> bit (pd_ip d AND pd_ie d t) i"

lemma plic_pick_fold:
  fixes d :: plic_dev
  assumes "sorted_wrt (>) xs" and "fold (plic_pick d t) xs (b, s) = (b', s')"
  shows "b \<le> b' \<and> (\<forall>i \<in> set xs. eligible d t i \<longrightarrow> b \<le> pd_prio d i \<longrightarrow> pd_prio d i \<le> b') \<and>
    (b' = b \<and> s' = s \<and> (\<forall>i \<in> set xs. eligible d t i \<longrightarrow> pd_prio d i < b) \<or>
     s' \<in> set xs \<and> eligible d t s' \<and> pd_prio d s' = b' \<and>
     (\<forall>i \<in> set xs. eligible d t i \<longrightarrow> pd_prio d i = b' \<longrightarrow> s' \<le> i))"
  using assms
proof (induction xs arbitrary: b' s' rule: rev_induct)
  case (snoc x xs)
  obtain b1 s1 where f: "fold (plic_pick d t) xs (b, s) = (b1, s1)" by fastforce
  have sorted: "sorted_wrt (>) xs" "\<forall>i \<in> set xs. x < i" using snoc.prems(1) by (auto simp: sorted_wrt_append)
  note IH = snoc.IH [OF sorted(1) f]
  have step: "(b', s') = (if eligible d t x \<and> b1 \<le> pd_prio d x then (pd_prio d x, x) else (b1, s1))"
    using snoc.prems(2) by (simp add: f) (auto simp: plic_pick_def eligible_def split: if_splits)
  show ?case
  proof (cases "eligible d t x \<and> b1 \<le> pd_prio d x")
    case True
    then have s: "b' = pd_prio d x" "s' = x" using step by simp_all
    have "\<forall>i \<in> set xs. eligible d t i \<longrightarrow> b \<le> pd_prio d i \<longrightarrow> pd_prio d i \<le> pd_prio d x"
      using IH True by (meson order_trans)
    moreover have "b \<le> pd_prio d x" using IH True by (meson order_trans)
    ultimately show ?thesis using True sorted(2) unfolding s by (auto intro: less_imp_le)
  next
    case False
    then have s: "b' = b1" "s' = s1" using step by auto
    have x: "eligible d t x \<longrightarrow> pd_prio d x < b1" using False by auto
    show ?thesis using IH x unfolding s by auto
  qed
qed simp

lemma eligible_truncate [simp]: "eligible (plic_dev.truncate d) t i = eligible d t i"
  by (simp add: eligible_def plic_dev.truncate_def)

lemma prio_truncate [simp]: "pd_prio (plic_dev.truncate d) = pd_prio d" "pd_thr (plic_dev.truncate d) = pd_thr d"
  by (simp_all add: plic_dev.truncate_def)

lemma plic_irq_id_spec:
  fixes d :: "'e plic_dev_scheme" and t :: nat
  defines "b \<equiv> pd_thr d t + 1" and "n \<equiv> plic_irq_id d t"
  shows "n = 0 \<longleftrightarrow> (\<forall>i \<in> {1..N_SOURCE}. eligible d t i \<longrightarrow> pd_prio d i < b)"
    and "n \<noteq> 0 \<Longrightarrow> n \<in> {1..N_SOURCE} \<and> eligible d t n \<and> b \<le> pd_prio d n \<and>
       (\<forall>i \<in> {1..N_SOURCE}. eligible d t i \<longrightarrow> pd_prio d i \<le> pd_prio d n \<and> (pd_prio d i = pd_prio d n \<longrightarrow> n \<le> i))"
proof -
  let ?d = "plic_dev.truncate d"
  obtain b' where f: "fold (plic_pick ?d t) (rev [1..<Suc N_SOURCE]) (b, 0) = (b', n)"
    unfolding n_def b_def plic_irq_id_def by (metis prod.collapse)
  have "sorted_wrt (>) (rev [1..<Suc N_SOURCE])" by (simp add: sorted_wrt_rev del: upt_Suc)
  from plic_pick_fold [OF this f]
  have F: "b \<le> b' \<and> (\<forall>i \<in> {1..N_SOURCE}. eligible d t i \<longrightarrow> b \<le> pd_prio d i \<longrightarrow> pd_prio d i \<le> b') \<and>
    (b' = b \<and> n = 0 \<and> (\<forall>i \<in> {1..N_SOURCE}. eligible d t i \<longrightarrow> pd_prio d i < b) \<or>
     n \<in> {1..N_SOURCE} \<and> eligible d t n \<and> pd_prio d n = b' \<and>
     (\<forall>i \<in> {1..N_SOURCE}. eligible d t i \<longrightarrow> pd_prio d i = b' \<longrightarrow> n \<le> i))"
    by (simp add: atLeastLessThanSuc_atLeastAtMost del: upt_Suc)
  show "n = 0 \<longleftrightarrow> (\<forall>i \<in> {1..N_SOURCE}. eligible d t i \<longrightarrow> pd_prio d i < b)"
    using F by (metis atLeastAtMost_iff leD not_one_le_zero)
  assume "n \<noteq> 0"
  then show "n \<in> {1..N_SOURCE} \<and> eligible d t n \<and> b \<le> pd_prio d n \<and>
       (\<forall>i \<in> {1..N_SOURCE}. eligible d t i \<longrightarrow> pd_prio d i \<le> pd_prio d n \<and> (pd_prio d i = pd_prio d n \<longrightarrow> n \<le> i))"
    using F by (metis le_cases order_trans)
qed

section \<open>Claiming and completing\<close>

text \<open>What the dispatcher relies on: a claim answers 0 and changes nothing, or an id below 32 that
  is in service from then on and was not before; completing it takes it out of service.\<close>

locale irq_controller =
  fixes claim :: "'d \<Rightarrow> u32 \<times> 'd" and complete :: "u32 \<Rightarrow> 'd \<Rightarrow> 'd"
    and serving :: "'d \<Rightarrow> nat set" and ok :: "'d \<Rightarrow> bool"
  assumes claim_none: "claim d = (0, d') \<Longrightarrow> d' = d"
    and claim_some: "ok d \<Longrightarrow> claim d = (i, d') \<Longrightarrow> i \<noteq> 0 \<Longrightarrow>
      unat i < 32 \<and> unat i \<notin> serving d \<and> serving d' = insert (unat i) (serving d) \<and> ok d'"
    and complete_done: "ok d \<Longrightarrow> unat i \<in> serving d \<Longrightarrow>
      serving (complete i d) = serving d - {unat i} \<and> ok (complete i d)"
begin

definition dispatch :: "(u32 \<Rightarrow> 'd \<Rightarrow> 'd option) \<Rightarrow> 'd \<Rightarrow> 'd option" where
  "dispatch call d =
     (let (i, d) = claim d in if i = 0 \<or> 32 \<le> unat i then Some d else map_option (complete i) (call i d))"

text \<open>Every interrupt that is claimed is completed.\<close>

lemma dispatch_balanced:
  assumes "ok d" and "dispatch call d = Some d'"
    and "\<And>i d1 d2. call i d1 = Some d2 \<Longrightarrow> ok d1 \<Longrightarrow> ok d2 \<and> serving d2 = serving d1"
  shows "serving d' = serving d \<and> ok d'"
proof -
  obtain i d1 where c: "claim d = (i, d1)" by fastforce
  show ?thesis
  proof (cases "i = 0")
    case True
    then show ?thesis using assms(1,2) claim_none [of d d1] c by (simp add: dispatch_def)
  next
    case False
    note s = claim_some [OF assms(1) c False]
    then obtain d2 where d2: "call i d1 = Some d2" "d' = complete i d2"
      using assms(2) c False by (auto simp: dispatch_def)
    have "ok d2 \<and> serving d2 = serving d1" using assms(3) [OF d2(1)] s by blast
    then show ?thesis using complete_done [of d2 i] s by (auto simp: d2(2))
  qed
qed

end

text \<open>The gateways: a pending source is active, and the sources in service are active and no
  longer pending.\<close>

definition gateway_ok :: "'e plic_dev_scheme \<Rightarrow> bool" where
  "gateway_ok d \<longleftrightarrow> pd_ip d AND NOT (pd_ia d) = 0"

definition in_service :: "'e plic_dev_scheme \<Rightarrow> nat set" where
  "in_service d = {i. 0 < i \<and> i < 32 \<and> bit (pd_ia d) i \<and> \<not> bit (pd_ip d) i}"

lemma bit32: "bit (v :: u32) i \<Longrightarrow> i < 32"
  using bit_imp_le_length [of v i] by simp

lemma gateway_ok_bit: "gateway_ok d \<longleftrightarrow> (\<forall>i. bit (pd_ip d) i \<longrightarrow> bit (pd_ia d) i)"
  unfolding gateway_ok_def bit_eq_iff by (auto simp: bit_simps dest: bit32)

lemma gateway_ok_sample: "gateway_ok d \<Longrightarrow> gateway_ok (plic_sample d)"
  by (auto simp: gateway_ok_bit plic_sample_def bit_simps)

lemma bit_irq_bit: "bit (irq_bit i) n \<longleftrightarrow> n = i \<and> 0 < i \<and> i < 32"
  by (auto simp: irq_bit_def bit_simps bit_1_iff)

lemma plic_bus_claim [dev_simps]:
  "rd32 plic_bus (claim_reg PLIC_BASE 0) d =
     (of_nat (plic_irq_id d 0), d\<lparr>pd_ip := pd_ip d AND NOT (irq_bit (plic_irq_id d 0))\<rparr>)"
  by (simp add: rd32_def plic_bus_def plic_reg_rd_def claim_reg_def c_const Let_def)

lemma plic_bus_complete [dev_simps]:
  "wr32 plic_bus (claim_reg PLIC_BASE 0) v d = d\<lparr>pd_ia := pd_ia d AND NOT (irq_bit (unat (v AND 31)))\<rparr>"
  by (simp add: wr32_def plic_bus_def plic_reg_wr_def claim_reg_def c_const Let_def)

lemma plic_irq_id_le: "plic_irq_id d t \<le> 30"
  using plic_irq_id_spec(2) [of d t] by (cases "plic_irq_id d t = 0") (auto simp: N_SOURCE_def)

lemma unat_irq_id: "unat (of_nat (plic_irq_id d t) :: u32) = plic_irq_id d t"
  using plic_irq_id_le [of d t] by (simp add: unat_of_nat take_bit_nat_eq_self)

lemma unat_and_31: "unat (v :: u32) < 32 \<Longrightarrow> v AND 31 = v"
proof -
  assume "unat v < 32"
  have "(31 :: u32) = mask 5" by (simp add: mask_eq_exp_minus_1)
  then have "v AND 31 = take_bit 5 v" by (simp only: take_bit_eq_mask)
  also have "\<dots> = v" using \<open>unat v < 32\<close> by (simp add: word_unat_eq_iff unsigned_take_bit_eq take_bit_nat_eq_self)
  finally show ?thesis .
qed

lemma plic_op_complete_M0:
  "p_regs p = PLIC_BASE \<Longrightarrow> plic_op_complete B p PLIC_CTX_M0 i = wr32 B (claim_reg PLIC_BASE 0) i"
  by (simp add: fun_eq_iff plic_op_complete_def PLIC_CTX_M0_def)

lemma plic_op_claim_M0:
  "p_regs p = PLIC_BASE \<Longrightarrow> plic_op_claim B p PLIC_CTX_M0 d = rd32 B (claim_reg PLIC_BASE 0) d"
  by (simp add: plic_op_claim_def PLIC_CTX_M0_def)

lemma claimed_id:
  assumes "rd32 plic_bus (claim_reg PLIC_BASE 0) d = (i, d')"
  shows "unat i = plic_irq_id d 0" "i = 0 \<longleftrightarrow> plic_irq_id d 0 = 0"
  using assms unat_irq_id [of d 0] by (auto simp: dev_simps)

interpretation plic_port: irq_controller
    "\<lambda>d. rd32 plic_bus (claim_reg PLIC_BASE 0) d" "\<lambda>i. wr32 plic_bus (claim_reg PLIC_BASE 0) i"
    in_service gateway_ok
proof unfold_locales
  fix d d' :: "'a plic_dev_scheme"
  assume "rd32 plic_bus (claim_reg PLIC_BASE 0) d = (0, d')"
  then show "d' = d" using unat_irq_id [of d 0] by (auto simp: dev_simps irq_bit_def)
next
  fix d d' :: "'a plic_dev_scheme" and i
  assume ok: "gateway_ok d" and c: "rd32 plic_bus (claim_reg PLIC_BASE 0) d = (i, d')" and "i \<noteq> 0"
  then have n: "plic_irq_id d 0 \<noteq> 0" "unat i = plic_irq_id d 0" using claimed_id [OF c] by auto
  have "bit (pd_ip d) (plic_irq_id d 0)" using plic_irq_id_spec(2) [OF n(1)] by (simp add: eligible_def bit_simps)
  then show "unat i < 32 \<and> unat i \<notin> in_service d \<and> in_service d' = insert (unat i) (in_service d) \<and> gateway_ok d'"
    using ok c n plic_irq_id_le [of d 0] unat_irq_id [of d 0]
    by (auto simp: dev_simps in_service_def gateway_ok_bit bit_simps bit_irq_bit)
next
  fix d :: "'a plic_dev_scheme" and i :: u32
  assume "gateway_ok d" and "unat i \<in> in_service d"
  then show "in_service (wr32 plic_bus (claim_reg PLIC_BASE 0) i d) = in_service d - {unat i} \<and>
      gateway_ok (wr32 plic_bus (claim_reg PLIC_BASE 0) i d)"
    by (auto simp: dev_simps in_service_def gateway_ok_bit bit_simps bit_irq_bit unat_and_31 dest: bit32)
qed

section \<open>Properties\<close>

text \<open>The controller reports, for a threshold below 7, an enabled pending source whose
  priority is above the threshold and maximal, the lowest number among equals, and 0 exactly
  when there is none.\<close>

theorem plic_arbitration:
  assumes "pd_thr d t \<noteq> 7"
  shows "(plic_irq_id d t = 0 \<longleftrightarrow> (\<forall>i \<in> {1..30}. eligible d t i \<longrightarrow> pd_prio d i \<le> pd_thr d t)) \<and>
    (plic_irq_id d t \<noteq> 0 \<longrightarrow> plic_irq_id d t \<in> {1..30} \<and> eligible d t (plic_irq_id d t) \<and>
       pd_thr d t < pd_prio d (plic_irq_id d t) \<and>
       (\<forall>i \<in> {1..30}. eligible d t i \<longrightarrow> pd_prio d i \<le> pd_prio d (plic_irq_id d t) \<and>
          (pd_prio d i = pd_prio d (plic_irq_id d t) \<longrightarrow> plic_irq_id d t \<le> i)))"
proof -
  have "pd_thr d t + 1 \<noteq> 0" proof
    assume "pd_thr d t + 1 = 0"
    then have "pd_thr d t = - 1" by (simp only: eq_neg_iff_add_eq_0)
    then show False using assms by simp
  qed
  then have le: "x < pd_thr d t + 1 \<longleftrightarrow> x \<le> pd_thr d t" for x by unat_arith
  show ?thesis using plic_irq_id_spec [of d t] unfolding le N_SOURCE_def
    by (meson le not_le)
qed

text \<open>With threshold 7, which should mask everything, the comparison wraps around and every
  enabled pending source is delivered, even one of priority 0.\<close>

theorem plic_threshold_7:
  assumes "pd_thr d t = 7"
  shows "plic_irq_id d t = 0 \<longleftrightarrow> (\<forall>i \<in> {1..30}. \<not> eligible d t i)"
proof -
  have "(7 :: 3 word) + 1 = 0" by simp
  then show ?thesis using plic_irq_id_spec(1) [of d t] by (simp only: assms N_SOURCE_def) simp
qed

text \<open>C7. The dispatcher on the controller: without a deliverable source nothing happens;
  otherwise the handler registered for it runs once, with its number and argument, and
  afterwards the source is no longer active, so its line can interrupt again.\<close>

theorem plic_dispatch:
  assumes "p_regs p = PLIC_BASE"
  shows "plic_op_handle_m_ext plic_bus run spurious p d =
    (let i = plic_irq_id d 0; d1 = d\<lparr>pd_ip := pd_ip d AND NOT (irq_bit i)\<rparr>
     in if i = 0 then Some d
        else map_option (\<lambda>d2. d2\<lparr>pd_ia := pd_ia d2 AND NOT (irq_bit i)\<rparr>)
               (call_isr run spurious (p_table p i) (of_nat i) d1))"
proof (cases "plic_irq_id d 0 = 0")
  case True
  then show ?thesis
    by (simp add: plic_op_handle_m_ext_def plic_op_claim_def assms PLIC_CTX_M0_def dev_simps irq_bit_def)
next
  case False
  let ?i = "of_nat (plic_irq_id d 0) :: u32"
  have u: "unat ?i = plic_irq_id d 0" by (rule unat_irq_id)
  then have "?i \<noteq> 0" "\<not> PLIC_NUM_SOURCES \<le> plic_irq_id d 0" "unat (?i AND 31) = plic_irq_id d 0"
    using False plic_irq_id_le [of d 0] by (auto simp: PLIC_NUM_SOURCES_def unat_and_31)
  then show ?thesis using False u
    unfolding plic_op_handle_m_ext_def plic_op_claim_M0 [OF assms] plic_op_complete_M0 [OF assms] plic_bus_claim
    by (simp add: Let_def map_option_case plic_bus_complete split: option.split)
qed

text \<open>C9. Handling an external interrupt leaves the set of sources in service as it was: whatever
  was claimed has been completed, for every handler that does not touch the controller.\<close>

theorem plic_balanced:
  assumes "p_regs p = PLIC_BASE" and "gateway_ok d"
    and "plic_op_handle_m_ext plic_bus run spurious p d = Some d'"
    and "\<And>e i d1 d2. call_isr run spurious e i d1 = Some d2 \<Longrightarrow> pd_ip d2 = pd_ip d1 \<and> pd_ia d2 = pd_ia d1"
  shows "in_service d' = in_service d \<and> gateway_ok d'"
proof (rule plic_port.dispatch_balanced [OF assms(2)])
  show "plic_port.dispatch (\<lambda>i. call_isr run spurious (p_table p (unat i)) i) d = Some d'"
    using assms(3)
    unfolding plic_port.dispatch_def plic_op_handle_m_ext_def plic_op_claim_M0 [OF assms(1)]
      plic_op_complete_M0 [OF assms(1)] PLIC_NUM_SOURCES_def .
  fix i d1 d2
  assume "call_isr run spurious (p_table p (unat i)) i d1 = Some d2" and "gateway_ok d1"
  then show "gateway_ok d2 \<and> in_service d2 = in_service d1"
    using assms(4) by (auto simp: gateway_ok_def in_service_def)
qed

section \<open>Initialisation against the register map\<close>

lemma plic_off: "k < 0x400000 \<Longrightarrow> unat (PLIC_BASE + of_nat k - PLIC_BASE) = k"
  by (simp add: unat_of_nat take_bit_nat_eq_self)

lemma wr32_plic: "wr32 plic_bus a v d = plic_reg_wr a v d"
  by (simp add: wr32_def plic_bus_def)

lemma plic_reg_wr_at:
  assumes "unat (a - PLIC_BASE) = k"
  shows "plic_reg_wr a v d =
     (if k mod 4 = 0 \<and> k div 4 \<le> 30 then (if k = 0 then d else d\<lparr>pd_prio := (pd_prio d)(k div 4 := ucast v)\<rparr>)
      else if k = 0x2000 then d\<lparr>pd_ie := (pd_ie d)(0 := v AND 0x7FFFFFFE)\<rparr>
      else if k = 0x2080 then d\<lparr>pd_ie := (pd_ie d)(1 := v AND 0x7FFFFFFE)\<rparr>
      else if k = 0x200000 then d\<lparr>pd_thr := (pd_thr d)(0 := ucast v)\<rparr>
      else if k = 0x201000 then d\<lparr>pd_thr := (pd_thr d)(1 := ucast v)\<rparr>
      else if k = 0x200004 \<or> k = 0x201004 then d\<lparr>pd_ia := pd_ia d AND NOT (irq_bit (unat (v AND 31)))\<rparr>
      else d\<lparr>pd_err := Suc (pd_err d)\<rparr>)"
  unfolding plic_reg_wr_def Let_def N_SOURCE_def assms ..

lemma wr_priority [dev_simps]:
  assumes "i < 1024"
  shows "wr32 plic_bus (priority_reg PLIC_BASE i) v d =
     (if i = 0 then d else if i \<le> 30 then d\<lparr>pd_prio := (pd_prio d)(i := ucast v)\<rparr>
      else d\<lparr>pd_err := Suc (pd_err d)\<rparr>)"
proof -
  have "unat (priority_reg PLIC_BASE i - PLIC_BASE) = 4 * i"
    unfolding priority_reg_def PRIORITY_OFF_def using plic_off [of "0 + 4 * i"] assms by simp
  note at = plic_reg_wr_at [OF this]
  show ?thesis unfolding wr32_plic at using assms by auto
qed

lemma wr_enable [dev_simps]:
  assumes "t < 2" and "w < 32"
  shows "wr32 plic_bus (enable_reg PLIC_BASE t w) v d =
     (if w = 0 then d\<lparr>pd_ie := (pd_ie d)(t := v AND 0x7FFFFFFE)\<rparr> else d\<lparr>pd_err := Suc (pd_err d)\<rparr>)"
proof -
  have "unat (enable_reg PLIC_BASE t w - PLIC_BASE) = 8192 + 128 * t + 4 * w"
    unfolding enable_reg_def c_const using plic_off [of "8192 + 128 * t + 4 * w"] assms by (simp add: add.assoc)
  note at = plic_reg_wr_at [OF this]
  consider "t = 0" | "t = 1" using assms(1) by linarith
  then show ?thesis unfolding wr32_plic at using assms(2) by cases auto
qed

lemma wr_threshold [dev_simps]:
  assumes "t < 2"
  shows "wr32 plic_bus (threshold_reg PLIC_BASE t) v d = d\<lparr>pd_thr := (pd_thr d)(t := ucast v)\<rparr>"
proof -
  have "unat (threshold_reg PLIC_BASE t - PLIC_BASE) = 2097152 + 4096 * t"
    unfolding threshold_reg_def c_const using plic_off [of "2097152 + 4096 * t"] assms by simp
  note at = plic_reg_wr_at [OF this]
  consider "t = 0" | "t = 1" using assms by linarith
  then show ?thesis unfolding wr32_plic at by cases auto
qed

lemma init_priorities:
  "n \<le> 31 \<Longrightarrow> fold (\<lambda>i. wr32 plic_bus (priority_reg PLIC_BASE i) 0) [0..<n] d =
     d\<lparr>pd_prio := (\<lambda>i. if 0 < i \<and> i < n then 0 else pd_prio d i)\<rparr>"
proof (induction n)
  case 0
  show ?case by simp
next
  case (Suc n)
  have "(\<lambda>i. if 0 < i \<and> i = 0 then 0 else pd_prio d i) = pd_prio d" by auto
  with Suc show ?case by (cases "n = 0") (auto simp: dev_simps fun_upd_def less_Suc_eq intro!: arg_cong [where f = "\<lambda>f. d\<lparr>pd_prio := f\<rparr>"])
qed

lemma init_enables:
  "t < 2 \<Longrightarrow> 1 \<le> n \<Longrightarrow> n \<le> 32 \<Longrightarrow> fold (\<lambda>w. wr32 plic_bus (enable_reg PLIC_BASE t w) 0) [0..<n] d =
     d\<lparr>pd_ie := (pd_ie d)(t := 0), pd_err := pd_err d + (n - 1)\<rparr>"
proof (induction n)
  case (Suc n)
  then show ?case by (cases "n = 0") (simp_all add: dev_simps fun_upd_def)
qed simp

definition plic_ready :: "'e plic_dev_scheme \<Rightarrow> 'e plic_dev_scheme" where
  "plic_ready d = d\<lparr>pd_prio := (\<lambda>i. if 0 < i \<and> i \<le> 30 then 0 else pd_prio d i),
     pd_ie := (pd_ie d)(0 := 0, 1 := 0), pd_thr := (pd_thr d)(0 := 0, 1 := 0), pd_err := pd_err d + 63\<rparr>"

text \<open>Initialisation leaves every source of the controller at priority 0 and disabled for both
  targets, both thresholds at 0 and the default handler in every table entry, and 63 of its
  writes (source 31, and 31 of the 32 enable words of each target) hit addresses the register
  map does not decode.\<close>

theorem plic_init_device:
  "plic_op_init plic_bus PLIC_BASE p d =
     (p\<lparr>p_regs := PLIC_BASE, p_table := (\<lambda>i. if i < 32 then (Default_isr, 0) else p_table p i)\<rparr>,
      plic_ready d)"
proof -
  have u: "[0..<PLIC_NUM_TARGETS] = [0, 1]" "[0..<PLIC_NUM_SOURCES] = [0..<31] @ [31]"
    by (simp_all add: c_const upt_rec)
  have le31: "i \<le> 30 \<longleftrightarrow> i < 31" for i :: nat by linarith
  show ?thesis
    unfolding plic_op_init_def u fold_append
    by (simp add: init_priorities init_enables plic_init_target_def dev_simps plic_ready_def Let_def
        le31 PLIC_NUM_SOURCES_def del: upt_Suc cong: if_cong)
qed

section \<open>Instances\<close>

definition demo_plic :: plic_dev where
  "demo_plic = \<lparr>pd_prio = (\<lambda>i. if i = 2 then 1 else 3), pd_thr = (\<lambda>_. 0), pd_ie = (\<lambda>_. 0x7FFFFFFE),
     pd_ip = 0x2C, pd_ia = 0x2C, pd_src = 0, pd_err = 0\<rparr>"

definition demo_driver :: "nat plic" where
  "demo_driver = \<lparr>p_regs = PLIC_BASE, p_table = (\<lambda>i. (Isr i, 0)), p_bound = True\<rparr>"

lemma demo_id: "plic_irq_id demo_plic 0 = 3" "plic_irq_id (demo_plic\<lparr>pd_thr := (\<lambda>_. 7)\<rparr>) 0 = 3"
  by code_simp+

text \<open>Sources 2, 3 and 5 are pending; 3 and 5 share the higher priority.\<close>

lemma plic_arbitration_witness:
  "pd_thr demo_plic 0 \<noteq> 7 \<and> plic_irq_id demo_plic 0 = 3 \<and> eligible demo_plic 0 3 \<and>
   (\<forall>i \<in> {1..30}. eligible demo_plic 0 i \<longrightarrow> pd_prio demo_plic i \<le> pd_prio demo_plic 3 \<and>
      (pd_prio demo_plic i = pd_prio demo_plic 3 \<longrightarrow> 3 \<le> i))"
proof -
  have t: "pd_thr demo_plic 0 \<noteq> 7" by (simp add: demo_plic_def)
  show ?thesis using plic_arbitration [OF t] t unfolding demo_id by simp
qed

lemma plic_threshold_7_witness:
  "pd_thr (demo_plic\<lparr>pd_thr := (\<lambda>_. 7)\<rparr>) 0 = 7 \<and>
   \<not> (\<forall>i \<in> {1..30}. \<not> eligible (demo_plic\<lparr>pd_thr := (\<lambda>_. 7)\<rparr>) 0 i)"
  using plic_threshold_7 [of "demo_plic\<lparr>pd_thr := (\<lambda>_. 7)\<rparr>" 0] by (simp add: demo_id)

lemma plic_dispatch_witness:
  "p_regs demo_driver = PLIC_BASE \<and>
   plic_op_handle_m_ext plic_bus (\<lambda>h i a d. if h = 3 \<and> i = 3 then Some d else None) Some demo_driver demo_plic
     = Some (demo_plic\<lparr>pd_ip := 0x24, pd_ia := 0x24\<rparr>)"
proof -
  have p: "p_regs demo_driver = PLIC_BASE" "p_table demo_driver 3 = (Isr 3, 0)" by (simp_all add: demo_driver_def)
  show ?thesis
    unfolding plic_dispatch [OF p(1)] demo_id by (simp add: p Let_def) (simp add: demo_plic_def irq_bit_def)
qed

lemma demo_gateways: "gateway_ok demo_plic"
  by (simp add: gateway_ok_def demo_plic_def)

lemma plic_balanced_witness:
  "gateway_ok demo_plic \<and>
   (\<exists>d'. plic_op_handle_m_ext plic_bus (\<lambda>h i a d. Some d) Some demo_driver demo_plic = Some d' \<and>
     in_service d' = in_service demo_plic)"
proof -
  have p: "p_regs demo_driver = PLIC_BASE" "p_table demo_driver i = (Isr i, 0)" for i by (simp_all add: demo_driver_def)
  have "\<exists>d'. plic_op_handle_m_ext plic_bus (\<lambda>h i a d. Some d) Some demo_driver demo_plic = Some d'"
    by (simp add: plic_op_handle_m_ext_def p split: prod.split)
  then obtain d' where h: "plic_op_handle_m_ext plic_bus (\<lambda>h i a d. Some d) Some demo_driver demo_plic = Some d'" by blast
  have "pd_ip d2 = pd_ip d1 \<and> pd_ia d2 = pd_ia d1"
    if "call_isr (\<lambda>h i a d. Some d) Some e i d1 = Some d2" for e :: "nat isr \<times> addr" and i and d1 d2 :: plic_dev
    using that by (cases e rule: prod.exhaust, cases "fst e") auto
  then show ?thesis using plic_balanced [OF p(1) demo_gateways h] h demo_gateways by blast
qed

end
