(* ===== verification/Clint.thy ===== *)
theory Clint
  imports Soc
begin

text \<open>
  The timer and software interrupt driver \<open>software/soc/src/clint.c\<close>, its callers in
  \<open>clint_handle_m_timer_irq\<close> and \<open>clint_handle_m_sw_irq\<close>, and the register file of
  \<open>hardware/soc/common/clint.sv\<close> for one core. \<open>rtc d\<close> is the number of edges of the real-time
  clock that fall before an access made in state \<open>d\<close>; it is a parameter.
\<close>

section \<open>Layout of \<open>struct clint_regs\<close>\<close>

definition CLINT_NUM_HARTS :: nat where [c_const]: "CLINT_NUM_HARTS = 1"
definition PAD0_BYTES :: nat where [c_const]: "PAD0_BYTES = 0x4000 - CLINT_NUM_HARTS * 4"
definition PAD1_BYTES :: nat where [c_const]: "PAD1_BYTES = 0xBFF8 - 0x4000 - CLINT_NUM_HARTS * 8"
definition MTIMECMP_OFF :: nat where [c_const]: "MTIMECMP_OFF = 4 * CLINT_NUM_HARTS + PAD0_BYTES"
definition MTIME_OFF :: nat where [c_const]: "MTIME_OFF = MTIMECMP_OFF + 8 * CLINT_NUM_HARTS + PAD1_BYTES"

definition msip_reg :: "addr \<Rightarrow> nat \<Rightarrow> addr" where
  "msip_reg r h = r + of_nat (4 * h)"

definition mtimecmp_reg :: "addr \<Rightarrow> nat \<Rightarrow> addr" where
  "mtimecmp_reg r h = r + of_nat (MTIMECMP_OFF + 8 * h)"

definition mtime_reg :: "addr \<Rightarrow> addr" where
  "mtime_reg r = r + of_nat MTIME_OFF"

section \<open>The driver\<close>

text \<open>\<open>clint_default_cb\<close> or a registered callback; a zeroed object has null pointers.\<close>

datatype 'h cb = Null_cb | Default_cb | Cb 'h

record 'h clint =
  c_regs :: addr
  c_timer :: "'h cb \<times> addr"
  c_ipi :: "'h cb \<times> addr"
  c_bound :: bool

definition clint_zero :: "'h clint" where
  "clint_zero = \<lparr>c_regs = 0, c_timer = (Null_cb, 0), c_ipi = (Null_cb, 0), c_bound = False\<rparr>"

definition clint_bind :: "'h clint \<Rightarrow> 'h clint" where
  "clint_bind c = c\<lparr>c_bound := True\<rparr>"

definition clint_op_init :: "'d bus \<Rightarrow> addr \<Rightarrow> 'h clint \<Rightarrow> 'd \<Rightarrow> 'h clint \<times> 'd" where
  "clint_op_init B regs c d =
     (c\<lparr>c_regs := regs, c_timer := (Default_cb, 0), c_ipi := (Default_cb, 0)\<rparr>,
      fold (\<lambda>h. wr32 B (msip_reg regs h) 0) [0..<CLINT_NUM_HARTS] d)"

definition clint_op_get_mtime :: "'d bus \<Rightarrow> 'h clint \<Rightarrow> 'd \<Rightarrow> u64 \<times> 'd" where
  "clint_op_get_mtime B c d = rd64 B (mtime_reg (c_regs c)) d"

definition clint_op_set_mtimecmp :: "'d bus \<Rightarrow> 'h clint \<Rightarrow> u32 \<Rightarrow> u64 \<Rightarrow> 'd \<Rightarrow> 'd" where
  "clint_op_set_mtimecmp B c hart t d =
     (if CLINT_NUM_HARTS \<le> unat hart then d else wr64 B (mtimecmp_reg (c_regs c) (unat hart)) t d)"

definition clint_op_schedule_after :: "'d bus \<Rightarrow> 'h clint \<Rightarrow> u32 \<Rightarrow> u64 \<Rightarrow> 'd \<Rightarrow> 'd" where
  "clint_op_schedule_after B c hart cycles d =
     (if CLINT_NUM_HARTS \<le> unat hart then d
      else let (now, d) = rd64 B (mtime_reg (c_regs c)) d
           in wr64 B (mtimecmp_reg (c_regs c) (unat hart)) (now + cycles) d)"

definition clint_op_register_timer_cb :: "'h clint \<Rightarrow> 'h option \<Rightarrow> addr \<Rightarrow> 'h clint" where
  "clint_op_register_timer_cb c fn arg =
     c\<lparr>c_timer := (case fn of Some h \<Rightarrow> Cb h | None \<Rightarrow> Default_cb, arg)\<rparr>"

definition clint_op_send_ipi :: "'d bus \<Rightarrow> 'h clint \<Rightarrow> u32 \<Rightarrow> 'd \<Rightarrow> 'd" where
  "clint_op_send_ipi B c hart d =
     (if CLINT_NUM_HARTS \<le> unat hart then d else wr32 B (msip_reg (c_regs c) (unat hart)) 1 d)"

definition clint_op_clear_ipi :: "'d bus \<Rightarrow> 'h clint \<Rightarrow> u32 \<Rightarrow> 'd \<Rightarrow> 'd" where
  "clint_op_clear_ipi B c hart d =
     (if CLINT_NUM_HARTS \<le> unat hart then d else wr32 B (msip_reg (c_regs c) (unat hart)) 0 d)"

definition clint_op_register_ipi_cb :: "'h clint \<Rightarrow> 'h option \<Rightarrow> addr \<Rightarrow> 'h clint" where
  "clint_op_register_ipi_cb c fn arg =
     c\<lparr>c_ipi := (case fn of Some h \<Rightarrow> Cb h | None \<Rightarrow> Default_cb, arg)\<rparr>"

text \<open>A call through a callback pointer: \<open>run\<close> runs a registered callback, \<open>unhandled\<close> the default
  one; a null pointer faults.\<close>

fun call_cb :: "('h \<Rightarrow> addr \<Rightarrow> 'd \<Rightarrow> 'd option) \<Rightarrow> ('d \<Rightarrow> 'd option) \<Rightarrow> 'h cb \<times> addr \<Rightarrow> 'd \<Rightarrow> 'd option" where
  "call_cb run unhandled (Null_cb, arg) d = None"
| "call_cb run unhandled (Default_cb, arg) d = unhandled d"
| "call_cb run unhandled (Cb h, arg) d = run h arg d"

definition clint_handle_m_timer_irq :: "('h \<Rightarrow> addr \<Rightarrow> 'd \<Rightarrow> 'd option) \<Rightarrow> ('d \<Rightarrow> 'd option) \<Rightarrow>
    'h clint \<Rightarrow> 'd \<Rightarrow> 'd option" where
  "clint_handle_m_timer_irq run unhandled clint0 d = call_cb run unhandled (c_timer clint0) d"

definition clint_handle_m_sw_irq :: "'d bus \<Rightarrow> ('h \<Rightarrow> addr \<Rightarrow> 'd \<Rightarrow> 'd option) \<Rightarrow> ('d \<Rightarrow> 'd option) \<Rightarrow>
    'h clint \<Rightarrow> 'd \<Rightarrow> 'd option" where
  "clint_handle_m_sw_irq B run unhandled clint0 d =
     call_cb run unhandled (c_ipi clint0) (wr32 B (msip_reg (c_regs clint0) 0) 0 d)"

section \<open>The device\<close>

record clint_dev =
  cd_mtime :: u64
  cd_mtimecmp :: u64
  cd_msip :: bool

definition clint_reset :: clint_dev where
  "clint_reset = \<lparr>cd_mtime = 0, cd_mtimecmp = 0, cd_msip = False\<rparr>"

definition clint_tick :: "nat \<Rightarrow> 'e clint_dev_scheme \<Rightarrow> 'e clint_dev_scheme" where
  "clint_tick n d = d\<lparr>cd_mtime := cd_mtime d + of_nat n\<rparr>"

definition timer_irq :: "'e clint_dev_scheme \<Rightarrow> bool" where
  "timer_irq d \<longleftrightarrow> cd_mtimecmp d \<le> cd_mtime d"

definition clint_reg_rd :: "addr \<Rightarrow> 'e clint_dev_scheme \<Rightarrow> u64" where
  "clint_reg_rd a d =
     (let r = unat (take_bit 16 a)
      in if r \<le> 0x0000 + 4 * 1 then (if bit a 2 then 0 else of_bool (cd_msip d))
         else if 0x4000 \<le> r \<and> r \<le> 0x4000 + 8 * 1 then (if bit a 3 then 0 else cd_mtimecmp d)
         else if 0xBFF8 \<le> r \<and> r \<le> 0xBFF8 + 4 then cd_mtime d
         else 0)"

definition clint_reg_wr :: "addr \<Rightarrow> u64 \<Rightarrow> 'e clint_dev_scheme \<Rightarrow> 'e clint_dev_scheme" where
  "clint_reg_wr a v d =
     (let r = unat (take_bit 16 a)
      in if r \<le> 0x0000 + 4 * 1 then (if bit a 2 then d else d\<lparr>cd_msip := bit v 0\<rparr>)
         else if 0x4000 \<le> r \<and> r \<le> 0x4000 + 8 * 1 then (if bit a 3 then d else d\<lparr>cd_mtimecmp := v\<rparr>)
         else if 0xBFF8 \<le> r \<and> r \<le> 0xBFF8 + 4 then d\<lparr>cd_mtime := v\<rparr>
         else d)"

definition clint_bus :: "('e clint_dev_scheme \<Rightarrow> nat) \<Rightarrow> 'e clint_dev_scheme bus" where
  "clint_bus rtc =
     \<lparr>bus_rd = (\<lambda>n a d. let d = clint_tick (rtc d) d in (clint_reg_rd a d, d)),
      bus_wr = (\<lambda>n a v d. clint_reg_wr a v (clint_tick (rtc d) d)),
      bus_idle = (\<lambda>n d. clint_tick (rtc d) d)\<rparr>"

section \<open>Register decoding\<close>

lemma clint_decode [dev_simps]:
  "take_bit 16 (msip_reg CLINT_BASE 0) = 0" "take_bit 16 (mtimecmp_reg CLINT_BASE 0) = 0x4000"
  "take_bit 16 (mtime_reg CLINT_BASE) = 0xBFF8"
  "\<not> bit (msip_reg CLINT_BASE 0) 2" "\<not> bit (mtimecmp_reg CLINT_BASE 0) 3"
  by (simp_all add: msip_reg_def mtimecmp_reg_def mtime_reg_def c_const)

lemma clint_rd_mtime [dev_simps]:
  "rd64 (clint_bus rtc) (mtime_reg CLINT_BASE) d =
     (cd_mtime d + of_nat (rtc d), clint_tick (rtc d) d)"
  by (simp add: rd64_def clint_bus_def clint_reg_rd_def clint_decode clint_tick_def Let_def)

lemma clint_wr_mtimecmp [dev_simps]:
  "wr64 (clint_bus rtc) (mtimecmp_reg CLINT_BASE 0) v d = (clint_tick (rtc d) d)\<lparr>cd_mtimecmp := v\<rparr>"
  by (simp add: wr64_def clint_bus_def clint_reg_wr_def clint_decode Let_def)

lemma clint_wr_msip [dev_simps]:
  "wr32 (clint_bus rtc) (msip_reg CLINT_BASE 0) v d = (clint_tick (rtc d) d)\<lparr>cd_msip := bit v 0\<rparr>"
  by (simp add: wr32_def clint_bus_def clint_reg_wr_def clint_decode Let_def bit_simps)

section \<open>Properties\<close>

text \<open>C12. A timer scheduled after \<open>cycles\<close> fires neither early nor late: the interrupt is pending
  exactly once \<open>cycles\<close> ticks have passed since the driver read the time, and the write also
  drops the line of an earlier timer; the bound is that the time does not wrap around.\<close>

theorem schedule_after_fires:
  fixes n :: nat
  assumes "c_regs c = CLINT_BASE" and "d1 = clint_tick (rtc d) d"
    and "d' = clint_tick n (clint_op_schedule_after (clint_bus rtc) c 0 cycles d)"
    and "unat (cd_mtime d1) + unat cycles < 2 ^ 64"
    and "unat (cd_mtime d1) + rtc d1 + n < 2 ^ 64"
  shows "timer_irq d' \<longleftrightarrow> unat cycles \<le> rtc d1 + n"
proof -
  have "d' = (clint_tick n (clint_tick (rtc d1) d1))\<lparr>cd_mtimecmp := cd_mtime d1 + cycles\<rparr>"
    unfolding assms(3)
    by (simp add: clint_op_schedule_after_def CLINT_NUM_HARTS_def assms(1,2) dev_simps) (simp add: clint_tick_def)
  then have "timer_irq d' \<longleftrightarrow> cd_mtime d1 + cycles \<le> cd_mtime d1 + of_nat (rtc d1) + of_nat n"
    by (simp add: timer_irq_def clint_tick_def)
  moreover have "unat (cd_mtime d1 + cycles) = unat (cd_mtime d1) + unat cycles"
    using assms(4) by (simp add: unat_word_ariths)
  moreover have "unat (cd_mtime d1 + of_nat (rtc d1) + of_nat n) = unat (cd_mtime d1) + rtc d1 + n"
    using assms(5) by (simp add: unat_word_ariths unat_of_nat take_bit_eq_mod)
  ultimately show ?thesis by (simp add: word_le_nat_alt)
qed

theorem schedule_after_fires_witness:
  "timer_irq (clint_tick 997 (clint_op_schedule_after (clint_bus (\<lambda>_. 3)) (clint_zero\<lparr>c_regs := CLINT_BASE\<rparr>) 0 1000 clint_reset))
   \<and> \<not> timer_irq (clint_tick 996 (clint_op_schedule_after (clint_bus (\<lambda>_. 3)) (clint_zero\<lparr>c_regs := CLINT_BASE\<rparr>) 0 1000 clint_reset))"
  using schedule_after_fires [of "clint_zero\<lparr>c_regs := CLINT_BASE\<rparr>" "clint_tick 3 clint_reset" "\<lambda>_. 3" clint_reset _ 997 1000]
    schedule_after_fires [of "clint_zero\<lparr>c_regs := CLINT_BASE\<rparr>" "clint_tick 3 clint_reset" "\<lambda>_. 3" clint_reset _ 996 1000]
  by (simp add: clint_tick_def clint_reset_def clint_zero_def)

text \<open>The software interrupt: the line is up after \<open>send_ipi\<close>, down before the callback runs, and
  \<open>init\<close> does not touch the timer, whose line is up after reset.\<close>

lemma ipi_line:
  assumes "c_regs c = CLINT_BASE"
  shows "cd_msip (clint_op_send_ipi (clint_bus rtc) c 0 d)"
    and "\<not> cd_msip (clint_op_clear_ipi (clint_bus rtc) c 0 d)"
    and "\<exists>d1. \<not> cd_msip d1 \<and> clint_handle_m_sw_irq (clint_bus rtc) run unhandled c d = call_cb run unhandled (c_ipi c) d1"
proof -
  show "cd_msip (clint_op_send_ipi (clint_bus rtc) c 0 d)" "\<not> cd_msip (clint_op_clear_ipi (clint_bus rtc) c 0 d)"
    using assms by (simp_all add: clint_op_send_ipi_def clint_op_clear_ipi_def CLINT_NUM_HARTS_def dev_simps)
  let ?d1 = "(clint_tick (rtc d) d)\<lparr>cd_msip := False\<rparr>"
  have "clint_handle_m_sw_irq (clint_bus rtc) run unhandled c d = call_cb run unhandled (c_ipi c) ?d1"
    using assms by (simp add: clint_handle_m_sw_irq_def dev_simps)
  then show "\<exists>d1. \<not> cd_msip d1 \<and> clint_handle_m_sw_irq (clint_bus rtc) run unhandled c d = call_cb run unhandled (c_ipi c) d1"
    by (intro exI [of _ ?d1]) simp
qed

lemma clint_init_line:
  "cd_mtimecmp (snd (clint_op_init (clint_bus rtc) CLINT_BASE c d)) = cd_mtimecmp d"
  by (simp add: clint_op_init_def CLINT_NUM_HARTS_def dev_simps clint_tick_def)

lemma reset_timer_pending: "timer_irq clint_reset"
  by (simp add: timer_irq_def clint_reset_def)

end
