(* ===== verification/Soc_Ctrl.thy ===== *)
theory Soc_Ctrl
  imports Soc
begin

text \<open>
  The platform control driver \<open>software/soc/src/soc_ctrl.c\<close>, the register file
  \<open>hardware/soc/common/ctrl_registers.sv\<close>, and the way the end of a program is reported: the
  top-level \<open>exit_o\<close> of \<open>ariane_soc_top.sv\<close> and the check of the testbench \<open>ariane_soc_tb.sv\<close>.
  \<open>exit\<close> does not return: the value of its model is the state in which the hart waits forever.
\<close>

section \<open>The driver\<close>

text \<open>\<open>struct soc_ctrl_regs\<close>: five consecutive 64-bit registers.\<close>

definition EXIT_OFF :: addr where [c_const]: "EXIT_OFF = 0x00"
definition DRAM_BASE_OFF :: addr where [c_const]: "DRAM_BASE_OFF = 0x08"
definition DRAM_END_OFF :: addr where [c_const]: "DRAM_END_OFF = 0x10"
definition EVENT_TRIGGER_OFF :: addr where [c_const]: "EVENT_TRIGGER_OFF = 0x18"
definition HW_CNT_EN_OFF :: addr where [c_const]: "HW_CNT_EN_OFF = 0x20"

record soc_ctrl =
  sc_regs :: addr
  sc_bound :: bool

definition soc_ctrl_zero :: soc_ctrl where
  "soc_ctrl_zero = \<lparr>sc_regs = 0, sc_bound = False\<rparr>"

definition soc_ctrl_bind :: "soc_ctrl \<Rightarrow> soc_ctrl" where
  "soc_ctrl_bind c = c\<lparr>sc_bound := True\<rparr>"

definition soc_ctrl_op_init :: "'d bus \<Rightarrow> addr \<Rightarrow> soc_ctrl \<Rightarrow> 'd \<Rightarrow> soc_ctrl \<times> 'd" where
  "soc_ctrl_op_init B regs c d =
     (let d = wr64 B (regs + EVENT_TRIGGER_OFF) 0 d
      in (c\<lparr>sc_regs := regs\<rparr>, wr64 B (regs + HW_CNT_EN_OFF) 0 d))"

definition soc_ctrl_op_exit :: "'d bus \<Rightarrow> soc_ctrl \<Rightarrow> u32 \<Rightarrow> 'd \<Rightarrow> 'd" where
  "soc_ctrl_op_exit B c status d =
     wr64 B (sc_regs c + EXIT_OFF) (push_bit 1 (ucast status) OR 1) d"

definition soc_ctrl_op_dram_base :: "'d bus \<Rightarrow> soc_ctrl \<Rightarrow> 'd \<Rightarrow> u64 \<times> 'd" where
  "soc_ctrl_op_dram_base B c d = rd64 B (sc_regs c + DRAM_BASE_OFF) d"

definition soc_ctrl_op_dram_end :: "'d bus \<Rightarrow> soc_ctrl \<Rightarrow> 'd \<Rightarrow> u64 \<times> 'd" where
  "soc_ctrl_op_dram_end B c d = rd64 B (sc_regs c + DRAM_END_OFF) d"

definition soc_ctrl_op_set_event :: "'d bus \<Rightarrow> soc_ctrl \<Rightarrow> u64 \<Rightarrow> 'd \<Rightarrow> 'd" where
  "soc_ctrl_op_set_event B c v d = wr64 B (sc_regs c + EVENT_TRIGGER_OFF) v d"

definition soc_ctrl_op_get_event :: "'d bus \<Rightarrow> soc_ctrl \<Rightarrow> 'd \<Rightarrow> u64 \<times> 'd" where
  "soc_ctrl_op_get_event B c d = rd64 B (sc_regs c + EVENT_TRIGGER_OFF) d"

definition soc_ctrl_op_hw_cnt_enable :: "'d bus \<Rightarrow> soc_ctrl \<Rightarrow> 'd \<Rightarrow> 'd" where
  "soc_ctrl_op_hw_cnt_enable B c d = wr64 B (sc_regs c + HW_CNT_EN_OFF) 1 d"

definition soc_ctrl_op_hw_cnt_disable :: "'d bus \<Rightarrow> soc_ctrl \<Rightarrow> 'd \<Rightarrow> 'd" where
  "soc_ctrl_op_hw_cnt_disable B c d = wr64 B (sc_regs c + HW_CNT_EN_OFF) 0 d"

definition soc_ctrl_op_hw_cnt_get :: "'d bus \<Rightarrow> soc_ctrl \<Rightarrow> 'd \<Rightarrow> u64 \<times> 'd" where
  "soc_ctrl_op_hw_cnt_get B c d = rd64 B (sc_regs c + HW_CNT_EN_OFF) d"

text \<open>\<open>soc_exit\<close> calls \<open>soc_ctrl0.exit\<close>, a fault before \<open>soc_ctrl_bind\<close>.\<close>

definition soc_exit :: "'d bus \<Rightarrow> soc_ctrl \<Rightarrow> u32 \<Rightarrow> 'd \<Rightarrow> 'd option" where
  "soc_exit B soc_ctrl0 status d =
     (if sc_bound soc_ctrl0 then Some (soc_ctrl_op_exit B soc_ctrl0 status d) else None)"

section \<open>The register file\<close>

text \<open>\<open>wr_active\<close> is high in the cycle after a write to the bytes of the exit register; here, until
  the next access.\<close>

record ctrl_dev =
  ct_exit :: u64
  ct_dram_base :: u64
  ct_dram_end :: u64
  ct_event :: u64
  ct_hw_cnt :: u64
  ct_wr_active :: bool

definition ctrl_reg_rd :: "addr \<Rightarrow> 'e ctrl_dev_scheme \<Rightarrow> u64" where
  "ctrl_reg_rd a d =
     (let i = unat (take_bit 6 a) div 8
      in if i = 0 then ct_exit d else if i = 1 then ct_dram_base d else if i = 2 then ct_dram_end d
         else if i = 3 then ct_event d else if i = 4 then ct_hw_cnt d else 0)"

definition ctrl_reg_wr :: "addr \<Rightarrow> u64 \<Rightarrow> 'e ctrl_dev_scheme \<Rightarrow> 'e ctrl_dev_scheme" where
  "ctrl_reg_wr a v d =
     (let i = unat (take_bit 6 a) div 8; d = d\<lparr>ct_wr_active := (i = 0)\<rparr>
      in if i = 0 then d\<lparr>ct_exit := v\<rparr> else if i = 3 then d\<lparr>ct_event := v\<rparr>
         else if i = 4 then d\<lparr>ct_hw_cnt := v\<rparr> else d)"

definition ctrl_bus :: "'e ctrl_dev_scheme bus" where
  "ctrl_bus =
     \<lparr>bus_rd = (\<lambda>n a d. (ctrl_reg_rd a d, d\<lparr>ct_wr_active := False\<rparr>)),
      bus_wr = (\<lambda>n a v d. ctrl_reg_wr a v d),
      bus_idle = (\<lambda>n d. d\<lparr>ct_wr_active := False\<rparr>)\<rparr>"

text \<open>\<open>exit_o\<close> of the register file is 65 bits cut to 64; the top level keeps its lowest bit, and
  the testbench ends when that is set, with the bits above it as the result.\<close>

definition ctrl_exit_o :: "'e ctrl_dev_scheme \<Rightarrow> u64" where
  "ctrl_exit_o d = push_bit 1 (ct_exit d) OR of_bool (ct_wr_active d)"

definition top_exit_o :: "'e ctrl_dev_scheme \<Rightarrow> u32" where
  "top_exit_o d = of_bool (bit (ctrl_exit_o d) 0)"

definition tb_finish :: "u32 \<Rightarrow> u32 option" where
  "tb_finish e = (if bit e 0 then Some (drop_bit 1 e) else None)"

lemma ctrl_decode [dev_simps]:
  "take_bit 6 (SOC_CTRL_BASE + EXIT_OFF) = 0" "take_bit 6 (SOC_CTRL_BASE + DRAM_BASE_OFF) = 8"
  "take_bit 6 (SOC_CTRL_BASE + DRAM_END_OFF) = 16" "take_bit 6 (SOC_CTRL_BASE + EVENT_TRIGGER_OFF) = 24"
  "take_bit 6 (SOC_CTRL_BASE + HW_CNT_EN_OFF) = 32"
  by (simp_all add: c_const)

lemma ctrl_wr64 [dev_simps]: "wr64 ctrl_bus a v d = ctrl_reg_wr a v d"
  by (simp add: wr64_def ctrl_bus_def)

lemma ctrl_rd64 [dev_simps]: "rd64 ctrl_bus a d = (ctrl_reg_rd a d, d\<lparr>ct_wr_active := False\<rparr>)"
  by (simp add: rd64_def ctrl_bus_def)

lemma status_bits:
  assumes "k = Suc 0" shows "drop_bit k (push_bit k (ucast (s :: u32)) OR 1) = (ucast s :: u64)"
proof (rule bit_word_eqI)
  fix n assume "n < LENGTH(64)"
  have "bit (drop_bit k (push_bit k (ucast s) OR 1) :: u64) n \<longleftrightarrow> bit s n \<and> k + n < 64"
    using assms by (simp only: bit_drop_bit_eq comp_def bit_or_iff bit_push_bit_iff bit_1_iff bit_unsigned_iff) auto
  then show "bit (drop_bit k (push_bit k (ucast s) OR 1) :: u64) n \<longleftrightarrow> bit (ucast s :: u64) n"
    using assms bit_imp_le_length [of s n] by (auto simp: bit_simps)
qed

section \<open>Properties\<close>

text \<open>C14. \<open>exit\<close> stores the status above the end-of-computation bit of the register, as the
  driver's header says, but the testbench always ends with result 0, a success, whatever the
  status was: the top level drops everything above the write strobe.\<close>

theorem exit_status_lost:
  assumes "sc_regs c = SOC_CTRL_BASE" and "sc_bound c"
  shows "\<exists>d'. soc_exit ctrl_bus c status d = Some d' \<and> bit (ct_exit d') 0 \<and>
    drop_bit 1 (ct_exit d') = ucast status \<and> tb_finish (top_exit_o d') = Some 0"
proof -
  let ?d = "soc_ctrl_op_exit ctrl_bus c status d"
  have e: "ct_exit ?d = push_bit 1 (ucast status) OR 1" "ct_wr_active ?d"
    using assms(1) by (simp_all add: soc_ctrl_op_exit_def dev_simps ctrl_reg_wr_def)
  have "bit (ct_exit ?d) 0" by (simp add: e bit_simps)
  moreover have "drop_bit 1 (ct_exit ?d) = ucast status"
    unfolding e by (rule status_bits) simp
  moreover have "top_exit_o ?d = 1" using e(2) by (simp add: top_exit_o_def ctrl_exit_o_def bit_simps)
  then have "tb_finish (top_exit_o ?d) = Some 0" by (simp add: tb_finish_def)
  ultimately show ?thesis using assms(2) by (simp add: soc_exit_def)
qed

theorem exit_status_lost_witness:
  "\<exists>d'. soc_exit ctrl_bus \<lparr>sc_regs = SOC_CTRL_BASE, sc_bound = True\<rparr> 7
       \<lparr>ct_exit = 0, ct_dram_base = 0, ct_dram_end = 0, ct_event = 0, ct_hw_cnt = 0, ct_wr_active = False\<rparr> = Some d' \<and>
     drop_bit 1 (ct_exit d') = 7 \<and> tb_finish (top_exit_o d') = Some 0"
  using exit_status_lost [of "\<lparr>sc_regs = SOC_CTRL_BASE, sc_bound = True\<rparr>" 7
      "\<lparr>ct_exit = 0, ct_dram_base = 0, ct_dram_end = 0, ct_event = 0, ct_hw_cnt = 0, ct_wr_active = False\<rparr>"] by auto

text \<open>What the scratch registers give back, and what the read-only ones keep.\<close>

lemma ctrl_event_roundtrip:
  assumes "sc_regs c = SOC_CTRL_BASE"
  shows "fst (soc_ctrl_op_get_event ctrl_bus c (soc_ctrl_op_set_event ctrl_bus c v d)) = v"
    and "fst (soc_ctrl_op_hw_cnt_get ctrl_bus c (soc_ctrl_op_hw_cnt_enable ctrl_bus c d)) = 1"
    and "fst (soc_ctrl_op_hw_cnt_get ctrl_bus c (soc_ctrl_op_hw_cnt_disable ctrl_bus c d)) = 0"
    and "fst (soc_ctrl_op_dram_base ctrl_bus c (soc_ctrl_op_set_event ctrl_bus c v d)) = ct_dram_base d"
    and "fst (soc_ctrl_op_dram_end ctrl_bus c (soc_ctrl_op_set_event ctrl_bus c v d)) = ct_dram_end d"
  using assms
  by (simp_all add: soc_ctrl_op_get_event_def soc_ctrl_op_set_event_def soc_ctrl_op_hw_cnt_get_def
      soc_ctrl_op_hw_cnt_enable_def soc_ctrl_op_hw_cnt_disable_def soc_ctrl_op_dram_base_def
      soc_ctrl_op_dram_end_def dev_simps ctrl_reg_rd_def ctrl_reg_wr_def)

text \<open>\<open>init\<close> clears the two control registers and nothing else that is visible.\<close>

lemma ctrl_init_clears:
  assumes "soc_ctrl_op_init ctrl_bus SOC_CTRL_BASE c d = (c', d')"
  shows "d' = d\<lparr>ct_event := 0, ct_hw_cnt := 0, ct_wr_active := False\<rparr> \<and> sc_regs c' = SOC_CTRL_BASE"
  using assms by (auto simp: soc_ctrl_op_init_def dev_simps ctrl_reg_wr_def)

end
