(* ===== verification/Context.thy ===== *)
theory Context
  imports Cmem
begin

text \<open>
  The trap frame of \<open>software/sdk/include/context.h\<close>: register numbers, offsets, and the fields of a
  \<open>trap_context_t\<close> at an address; with the frame lemmas on 64-bit stores at different offsets that
  its users need.
\<close>

definition REG_RA :: nat where [c_const]: "REG_RA = 1"
definition REG_SP :: nat where [c_const]: "REG_SP = 2"
definition REG_GP :: nat where [c_const]: "REG_GP = 3"
definition REG_TP :: nat where [c_const]: "REG_TP = 4"
definition REG_T0 :: nat where [c_const]: "REG_T0 = 5"
definition REG_T1 :: nat where [c_const]: "REG_T1 = 6"
definition REG_T2 :: nat where [c_const]: "REG_T2 = 7"
definition REG_S0 :: nat where [c_const]: "REG_S0 = 8"
definition REG_S1 :: nat where [c_const]: "REG_S1 = 9"
definition REG_A0 :: nat where [c_const]: "REG_A0 = 10"
definition REG_A1 :: nat where [c_const]: "REG_A1 = 11"
definition REG_A2 :: nat where [c_const]: "REG_A2 = 12"
definition REG_A3 :: nat where [c_const]: "REG_A3 = 13"
definition REG_A4 :: nat where [c_const]: "REG_A4 = 14"
definition REG_A5 :: nat where [c_const]: "REG_A5 = 15"
definition REG_A6 :: nat where [c_const]: "REG_A6 = 16"
definition REG_A7 :: nat where [c_const]: "REG_A7 = 17"

definition CTX_GPR_OFF :: "nat \<Rightarrow> nat" where [c_const]: "CTX_GPR_OFF i = i * 8"
definition CTX_MCAUSE_OFF :: nat where [c_const]: "CTX_MCAUSE_OFF = 32 * 8 + 0"
definition CTX_MSTATUS_OFF :: nat where [c_const]: "CTX_MSTATUS_OFF = 32 * 8 + 8"
definition CTX_MEPC_OFF :: nat where [c_const]: "CTX_MEPC_OFF = 32 * 8 + 16"
definition CTX_SIZE :: nat where [c_const]: "CTX_SIZE = 32 * 8 + 32"

text \<open>The fields \<open>gpr[i]\<close> and \<open>mepc\<close> of the object at \<open>ctx\<close>: the array of 32 words, then \<open>mcause\<close>,
  \<open>mstatus\<close>, \<open>mepc\<close> and a padding word.\<close>

definition ctx_gpr :: "addr \<Rightarrow> nat \<Rightarrow> addr" where
  "ctx_gpr ctx i = ctx + of_nat (8 * i)"

definition ctx_mepc :: "addr \<Rightarrow> addr" where
  "ctx_mepc ctx = ctx + of_nat (8 * 32 + 8 + 8)"

definition sizeof_trap_context :: nat where
  "sizeof_trap_context = 8 * 32 + 8 + 8 + 8 + 8"

text \<open>The static assertion of the header.\<close>

lemma trap_context_layout:
  "sizeof_trap_context = CTX_SIZE" "ctx_mepc ctx = ctx + of_nat CTX_MEPC_OFF" "ctx_gpr ctx i = ctx + of_nat (CTX_GPR_OFF i)"
  by (simp_all add: sizeof_trap_context_def ctx_mepc_def ctx_gpr_def c_const mult.commute)

section \<open>Stores at different offsets\<close>

definition apart :: "addr \<Rightarrow> nat \<Rightarrow> addr \<Rightarrow> nat \<Rightarrow> bool" where
  "apart p n q k \<longleftrightarrow> (\<forall>i < n. k \<le> unat (p + of_nat i - q))"

lemma bytes_at_apart: "apart p n q k \<Longrightarrow> bytes_at (mem_put m q k f) p n = bytes_at m p n"
  by (intro nth_equalityI) (auto simp: apart_def mem_put_outside)

lemma load64_apart: "apart p 8 q k \<Longrightarrow> load64 (mem_put m q k f) p = load64 m p"
  by (rule load64_cong) (auto simp: apart_def mem_put_outside)

lemma apart_offsets:
  assumes "j + n \<le> k \<or> k + l \<le> j" and "j < 2 ^ 32" "k < 2 ^ 32" "n < 2 ^ 32" "l < 2 ^ 32"
  shows "apart (a + of_nat j) n (a + of_nat k) l"
  unfolding apart_def
proof (intro allI impI)
  fix i assume i: "i < n"
  have eq: "a + of_nat j + of_nat i - (a + of_nat k) = of_nat (j + i) - (of_nat k :: addr)" by simp
  have u: "unat (of_nat (j + i) :: addr) = j + i" "unat (of_nat k :: addr) = k"
    by (rule unat_of_nat64, use assms i in simp)+
  show "l \<le> unat (a + of_nat j + of_nat i - (a + of_nat k))"
    unfolding eq unat_sub_if' u using assms i by (auto simp: word_le_nat_alt u)
qed

text \<open>A sequence of 64-bit stores at offsets of an address, and what can be read back.\<close>

definition stores :: "mem \<Rightarrow> addr \<Rightarrow> (nat \<times> u64) list \<Rightarrow> mem" where
  "stores m a ovs = fold (\<lambda>(k, v) m. store64 m (a + of_nat k) v) ovs m"

definition spaced :: "(nat \<times> u64) list \<Rightarrow> bool" where
  "spaced ovs \<longleftrightarrow> distinct (map fst ovs) \<and> (\<forall>k \<in> fst ` set ovs. k mod 8 = 0 \<and> k < 2 ^ 20)"

lemma load64_store64_offset:
  assumes "j mod 8 = 0" "k mod 8 = 0" "j \<noteq> k" "j < 2 ^ 20" "k < 2 ^ 20"
  shows "load64 (store64 m (a + of_nat k) v) (a + of_nat j) = load64 m (a + of_nat j)"
proof -
  have "j + 8 \<le> k \<or> k + 8 \<le> j" using assms(1-3) by presburger
  then have "apart (a + of_nat j) 8 (a + of_nat k) 8" using assms(4,5) by (intro apart_offsets) auto
  then show ?thesis unfolding store64_def by (rule load64_apart)
qed

lemma stores_other:
  assumes "\<forall>k \<in> fst ` set ovs. k mod 8 = 0 \<and> k < 2 ^ 20" and "j mod 8 = 0" "j < 2 ^ 20" "j \<notin> fst ` set ovs"
  shows "load64 (stores m a ovs) (a + of_nat j) = load64 m (a + of_nat j)"
  using assms
proof (induction ovs arbitrary: m)
  case (Cons kv ovs)
  obtain k v where kv: "kv = (k, v)" by fastforce
  have "load64 (stores m a (kv # ovs)) (a + of_nat j) = load64 (store64 m (a + of_nat k) v) (a + of_nat j)"
    using Cons.IH [of "store64 m (a + of_nat k) v"] Cons.prems by (simp add: stores_def kv)
  also have "\<dots> = load64 m (a + of_nat j)"
    using Cons.prems by (intro load64_store64_offset) (auto simp: kv)
  finally show ?case .
qed (simp add: stores_def)

lemma load64_stores:
  assumes "spaced ovs" and "(j, v) \<in> set ovs"
  shows "load64 (stores m a ovs) (a + of_nat j) = v"
  using assms
proof (induction ovs arbitrary: m)
  case (Cons kv ovs)
  obtain k w where kv: "kv = (k, w)" by fastforce
  have sp: "spaced ovs" using Cons.prems(1) by (simp add: spaced_def)
  show ?case
  proof (cases "(j, v) \<in> set ovs")
    case True
    then show ?thesis using Cons.IH [OF sp] by (simp add: stores_def kv)
  next
    case False
    then have jk: "k = j" "w = v" "j \<notin> fst ` set ovs" using Cons.prems by (auto simp: spaced_def kv)
    have "load64 (stores (store64 m (a + of_nat j) v) a ovs) (a + of_nat j) = load64 (store64 m (a + of_nat j) v) (a + of_nat j)"
      by (rule stores_other) (use Cons.prems jk in \<open>auto simp: spaced_def kv\<close>)
    then show ?thesis by (simp add: stores_def kv jk)
  qed
qed simp

lemma stores_outside:
  assumes "\<forall>k \<in> fst ` set ovs. k + 8 \<le> n" and "n < 2 ^ 20" and "n \<le> unat (y - a)"
  shows "stores m a ovs y = m y"
  using assms(1)
proof (induction ovs arbitrary: m)
  case (Cons kv ovs)
  obtain k v where kv: "kv = (k, v)" by fastforce
  have k: "k + 8 \<le> n" using Cons.prems by (simp add: kv)
  have u: "unat (of_nat k :: addr) = k" by (rule unat_of_nat64) (use k assms(2) in simp)
  have "of_nat k \<le> y - a" using k assms(3) u by (simp add: word_le_nat_alt)
  then have "unat (y - a - of_nat k) = unat (y - a) - k" using u by (simp add: unat_sub)
  moreover have "y - (a + of_nat k) = y - a - of_nat k" by simp
  ultimately have "unat (y - (a + of_nat k)) = unat (y - a) - k" by (simp only:)
  then have "8 \<le> unat (y - (a + of_nat k))" using k assms(3) by linarith
  then show ?case using Cons.IH [of "store64 m (a + of_nat k) v"] Cons.prems
    by (simp add: stores_def kv store64_outside)
qed (simp add: stores_def)

end
