(* ===== verification/Dma.thy ===== *)
theory Dma
  imports Soc Context
begin

text \<open>
  The two DMA drivers \<open>software/soc/src/dma_desc64.c\<close> and \<open>dma_reg64_1d.c\<close>, and what they rely on
  of the engines of \<open>hardware/ip/iDMA\<close>: the descriptor front end (\<open>idma_desc64_top.sv\<close>: the input
  FIFO, the chain of descriptors, the completion mark written over a finished descriptor, the
  status bits) and the register front end (\<open>idma_reg64_1d_top.sv\<close>, \<open>idma_transfer_id_gen.sv\<close>: the
  launch by a read, the transfer ids). The data movers are abstracted to one step per transfer
  on the shared memory; \<open>lat n\<close> is the number of accesses that pass before the \<open>n\<close>th transfer.
  Lengths are cut to 32 bits (\<open>TFLenWidth\<close>).
\<close>

definition dma_copy :: "mem \<Rightarrow> addr \<Rightarrow> addr \<Rightarrow> u64 \<Rightarrow> mem" where
  "dma_copy m src dst len = mem_put m dst (unat (take_bit 32 len)) (\<lambda>o'. m (src + o'))"

section \<open>The descriptor driver\<close>

definition DESC_ADDR_OFF :: addr where [c_const]: "DESC_ADDR_OFF = 0x00"
definition STATUS_OFF :: addr where [c_const]: "STATUS_OFF = 0x08"
definition STATUS_BUSY :: u32 where [c_const]: "STATUS_BUSY = push_bit 0 1"
definition STATUS_FIFO_FULL :: u32 where [c_const]: "STATUS_FIFO_FULL = push_bit 1 1"
definition FLAG_IRQ :: u32 where [c_const]: "FLAG_IRQ = push_bit 0 1"
definition FLAG_SRC_INCR :: u32 where [c_const]: "FLAG_SRC_INCR = push_bit 1 1"
definition FLAG_DST_INCR :: u32 where [c_const]: "FLAG_DST_INCR = push_bit 3 1"
definition FLAG_DECOUPLE_RW :: u32 where [c_const]: "FLAG_DECOUPLE_RW = push_bit 5 1"
definition FLAG_SERIALIZE :: u32 where [c_const]: "FLAG_SERIALIZE = push_bit 6 1"
definition FLAG_DEBURST :: u32 where [c_const]: "FLAG_DEBURST = push_bit 7 1"
definition END_OF_CHAIN :: u64 where [c_const]: "END_OF_CHAIN = 0xFFFFFFFFFFFFFFFF"

record descriptor =
  flags_and_length :: u64
  next_desc :: u64
  src_addr :: u64
  dst_addr :: u64

definition dma_desc64_pack :: "u32 \<Rightarrow> u32 \<Rightarrow> u64" where
  "dma_desc64_pack len flags = push_bit 32 (ucast flags) OR ucast len"

text \<open>The object in memory: four words in the order of the fields.\<close>

definition store_desc :: "mem \<Rightarrow> addr \<Rightarrow> descriptor \<Rightarrow> mem" where
  "store_desc m a s = store64 (store64 (store64 (store64 m a (flags_and_length s)) (a + 8) (next_desc s))
                        (a + 16) (src_addr s)) (a + 24) (dst_addr s)"

definition load_desc :: "mem \<Rightarrow> addr \<Rightarrow> descriptor" where
  "load_desc m a = \<lparr>flags_and_length = load64 m a, next_desc = load64 m (a + 8),
                    src_addr = load64 m (a + 16), dst_addr = load64 m (a + 24)\<rparr>"

record dma_desc64 =
  d6_regs :: addr
  d6_bound :: bool

definition dma_desc64_bind :: "dma_desc64 \<Rightarrow> dma_desc64" where
  "dma_desc64_bind d = d\<lparr>d6_bound := True\<rparr>"

definition dma_desc64_op_init :: "addr \<Rightarrow> dma_desc64 \<Rightarrow> dma_desc64" where
  "dma_desc64_op_init regs d = d\<lparr>d6_regs := regs\<rparr>"

text \<open>\<open>while (status & mask) nop\<close>.\<close>

definition status_step :: "'d bus \<Rightarrow> addr \<Rightarrow> u32 \<Rightarrow> 'd \<Rightarrow> bool \<times> 'd" where
  "status_step B r msk d = (let (v, d) = rd64 B (r + STATUS_OFF) d in (v AND ucast msk \<noteq> 0, d))"

definition dma_desc64_op_submit :: "'d bus \<Rightarrow> dma_desc64 \<Rightarrow> addr \<Rightarrow> 'd \<Rightarrow> 'd option" where
  "dma_desc64_op_submit B c desc d =
     map_option (wr64 B (d6_regs c + DESC_ADDR_OFF) desc)
       (poll (status_step B (d6_regs c) STATUS_FIFO_FULL) d)"

definition dma_desc64_op_busy :: "'d bus \<Rightarrow> dma_desc64 \<Rightarrow> 'd \<Rightarrow> bool \<times> 'd" where
  "dma_desc64_op_busy B c d =
     (let (v, d) = rd64 B (d6_regs c + STATUS_OFF) d in (v AND ucast STATUS_BUSY \<noteq> 0, d))"

definition dma_desc64_op_wait :: "'d bus \<Rightarrow> dma_desc64 \<Rightarrow> 'd \<Rightarrow> 'd option" where
  "dma_desc64_op_wait B c d = poll (status_step B (d6_regs c) STATUS_BUSY) d"

section \<open>The descriptor engine\<close>

record desc_dev =
  de_mem :: mem
  de_fifo :: "addr list"
  de_next :: addr
  de_wait :: nat
  de_done :: nat
  de_irqs :: nat

text \<open>One descriptor: the transfer, the completion mark on its first word, the interrupt if bit 0
  of the flags asks for it, and the link to the next.\<close>

definition desc_exec :: "mem \<Rightarrow> addr \<Rightarrow> mem" where
  "desc_exec m a =
     (let s = load_desc m a
      in store64 (dma_copy m (src_addr s) (dst_addr s) (flags_and_length s)) a (- 1))"

definition desc_step :: "(nat \<Rightarrow> nat) \<Rightarrow> addr \<Rightarrow> 'e desc_dev_scheme \<Rightarrow> 'e desc_dev_scheme" where
  "desc_step lat a d =
     (let s = load_desc (de_mem d) a
      in d\<lparr>de_mem := desc_exec (de_mem d) a, de_next := next_desc s,
           de_irqs := de_irqs d + of_bool (bit (flags_and_length s) 32),
           de_done := Suc (de_done d), de_wait := lat (Suc (de_done d))\<rparr>)"

text \<open>Between two accesses: nothing, the next descriptor of the chain, or the next of the FIFO.\<close>

definition desc_tick :: "(nat \<Rightarrow> nat) \<Rightarrow> 'e desc_dev_scheme \<Rightarrow> 'e desc_dev_scheme" where
  "desc_tick lat d =
     (if de_wait d > 0 then d\<lparr>de_wait := de_wait d - 1\<rparr>
      else if de_next d \<noteq> END_OF_CHAIN then desc_step lat (de_next d) d
      else case de_fifo d of [] \<Rightarrow> d | a # as \<Rightarrow> desc_step lat a (d\<lparr>de_fifo := as\<rparr>))"

definition INPUT_FIFO_DEPTH :: nat where [c_const]: "INPUT_FIFO_DEPTH = 8"

definition desc_busy :: "'e desc_dev_scheme \<Rightarrow> bool" where
  "desc_busy d \<longleftrightarrow> de_fifo d \<noteq> [] \<or> de_next d \<noteq> END_OF_CHAIN"

definition desc_status :: "'e desc_dev_scheme \<Rightarrow> u64" where
  "desc_status d = of_bool (desc_busy d) OR push_bit 1 (of_bool (INPUT_FIFO_DEPTH \<le> length (de_fifo d)))"

definition desc_bus :: "(nat \<Rightarrow> nat) \<Rightarrow> 'e desc_dev_scheme bus" where
  "desc_bus lat =
     \<lparr>bus_rd = (\<lambda>n a d. (if take_bit 4 a = 8 then desc_status d else 0, desc_tick lat d)),
      bus_wr = (\<lambda>n a v d. desc_tick lat
        (if take_bit 4 a = 0 \<and> length (de_fifo d) < INPUT_FIFO_DEPTH then d\<lparr>de_fifo := de_fifo d @ [v]\<rparr> else d)),
      bus_idle = (\<lambda>n d. (desc_tick lat ^^ n) d)\<rparr>"

section \<open>The register driver\<close>

text \<open>\<open>struct dma_reg64_1d_regs\<close>: the offsets follow from the sizes of the fields.\<close>

definition NUM_STREAMS :: nat where [c_const]: "NUM_STREAMS = 16"
definition R_CONF :: nat where [c_const]: "R_CONF = 0"
definition R_STATUS :: nat where [c_const]: "R_STATUS = R_CONF + 4"
definition R_NEXT_ID :: nat where [c_const]: "R_NEXT_ID = R_STATUS + 4 * NUM_STREAMS"
definition R_DONE_ID :: nat where [c_const]: "R_DONE_ID = R_NEXT_ID + 4 * NUM_STREAMS"
definition R_DST_LOW :: nat where [c_const]: "R_DST_LOW = R_DONE_ID + 4 * NUM_STREAMS + 4 * ((0xD0 - 0xC4) div 4)"
definition R_DST_HIGH :: nat where [c_const]: "R_DST_HIGH = R_DST_LOW + 4"
definition R_SRC_LOW :: nat where [c_const]: "R_SRC_LOW = R_DST_HIGH + 4"
definition R_SRC_HIGH :: nat where [c_const]: "R_SRC_HIGH = R_SRC_LOW + 4"
definition R_LEN_LOW :: nat where [c_const]: "R_LEN_LOW = R_SRC_HIGH + 4"
definition R_LEN_HIGH :: nat where [c_const]: "R_LEN_HIGH = R_LEN_LOW + 4"
definition CONF_DEFAULT :: u32 where [c_const]: "CONF_DEFAULT = 0"
definition STATUS_BUSY_MASK :: u32 where [c_const]: "STATUS_BUSY_MASK = 0x3FF"

record dma_reg64_1d =
  r6_regs :: addr
  r6_bound :: bool

definition dma_reg64_1d_bind :: "dma_reg64_1d \<Rightarrow> dma_reg64_1d" where
  "dma_reg64_1d_bind d = d\<lparr>r6_bound := True\<rparr>"

definition dma_reg64_1d_op_init :: "'d bus \<Rightarrow> addr \<Rightarrow> dma_reg64_1d \<Rightarrow> 'd \<Rightarrow> dma_reg64_1d \<times> 'd" where
  "dma_reg64_1d_op_init B regs c d = (c\<lparr>r6_regs := regs\<rparr>, wr32 B (regs + of_nat R_CONF) CONF_DEFAULT d)"

definition dma_reg64_1d_op_submit :: "'d bus \<Rightarrow> dma_reg64_1d \<Rightarrow> u64 \<Rightarrow> u64 \<Rightarrow> u64 \<Rightarrow> 'd \<Rightarrow> u32 \<times> 'd" where
  "dma_reg64_1d_op_submit B c dst src len d =
     (let r = r6_regs c;
          d = wr32 B (r + of_nat R_SRC_LOW) (ucast src) d;
          d = wr32 B (r + of_nat R_SRC_HIGH) (ucast (drop_bit 32 src)) d;
          d = wr32 B (r + of_nat R_DST_LOW) (ucast dst) d;
          d = wr32 B (r + of_nat R_DST_HIGH) (ucast (drop_bit 32 dst)) d;
          d = wr32 B (r + of_nat R_LEN_LOW) (ucast len) d;
          d = wr32 B (r + of_nat R_LEN_HIGH) (ucast (drop_bit 32 len)) d
      in rd32 B (r + of_nat R_NEXT_ID) d)"

definition dma_reg64_1d_op_busy :: "'d bus \<Rightarrow> dma_reg64_1d \<Rightarrow> 'd \<Rightarrow> bool \<times> 'd" where
  "dma_reg64_1d_op_busy B c d =
     (let (v, d) = rd32 B (r6_regs c + of_nat R_STATUS) d in (v AND STATUS_BUSY_MASK \<noteq> 0, d))"

definition dma_reg64_1d_op_done_id :: "'d bus \<Rightarrow> dma_reg64_1d \<Rightarrow> 'd \<Rightarrow> u32 \<times> 'd" where
  "dma_reg64_1d_op_done_id B c d = rd32 B (r6_regs c + of_nat R_DONE_ID) d"

text \<open>\<open>while ((int32_t)(done_id[0] - id) < 0)\<close>.\<close>

definition done_step :: "'d bus \<Rightarrow> addr \<Rightarrow> u32 \<Rightarrow> 'd \<Rightarrow> bool \<times> 'd" where
  "done_step B r xid d = (let (v, d) = rd32 B (r + of_nat R_DONE_ID) d in (sint (v - xid) < 0, d))"

definition dma_reg64_1d_op_wait :: "'d bus \<Rightarrow> dma_reg64_1d \<Rightarrow> u32 \<Rightarrow> 'd \<Rightarrow> 'd option" where
  "dma_reg64_1d_op_wait B c xid d = poll (done_step B (r6_regs c) xid) d"

section \<open>The register engine\<close>

record reg_dev =
  re_mem :: mem
  re_conf :: u32
  re_src :: u64
  re_dst :: u64
  re_len :: u64
  re_next :: u32
  re_done :: u32
  re_queue :: "(addr \<times> addr \<times> u64) list"
  re_wait :: nat
  re_count :: nat

text \<open>The id counters: 1 follows the all-ones value, in the next cycle even without an event.\<close>

definition id_rest :: "u32 \<Rightarrow> u32" where
  "id_rest x = (if x = - 1 then 1 else x)"

definition id_event :: "u32 \<Rightarrow> u32" where
  "id_event x = (if x = - 1 then 2 else 1 + x)"

definition re_reset :: "mem \<Rightarrow> reg_dev" where
  "re_reset m = \<lparr>re_mem = m, re_conf = 0, re_src = 0, re_dst = 0, re_len = 0, re_next = 2, re_done = 1,
     re_queue = [], re_wait = 0, re_count = 0\<rparr>"

definition reg_tick :: "(nat \<Rightarrow> nat) \<Rightarrow> 'e reg_dev_scheme \<Rightarrow> 'e reg_dev_scheme" where
  "reg_tick lat d =
     (let d = d\<lparr>re_next := id_rest (re_next d)\<rparr>
      in if re_wait d > 0 then d\<lparr>re_wait := re_wait d - 1, re_done := id_rest (re_done d)\<rparr>
         else case re_queue d of [] \<Rightarrow> d\<lparr>re_done := id_rest (re_done d)\<rparr>
           | (s, t, n) # q \<Rightarrow>
             d\<lparr>re_mem := dma_copy (re_mem d) s t n, re_queue := q, re_done := id_event (re_done d),
               re_count := Suc (re_count d), re_wait := lat (Suc (re_count d))\<rparr>)"

definition set_low :: "u64 \<Rightarrow> u32 \<Rightarrow> u64" where
  "set_low x v = push_bit 32 (drop_bit 32 x) OR ucast v"

definition set_high :: "u64 \<Rightarrow> u32 \<Rightarrow> u64" where
  "set_high x v = push_bit 32 (ucast v) OR take_bit 32 x"

text \<open>A read of \<open>next_id[0]\<close> launches the programmed transfer.\<close>

definition reg_rd :: "nat \<Rightarrow> 'e reg_dev_scheme \<Rightarrow> u32 \<times> 'e reg_dev_scheme" where
  "reg_rd i d =
     (if i = 0x00 then (re_conf d, d)
      else if i = 0x04 then (of_bool (re_queue d \<noteq> []), d)
      else if i = 0x44 then
        (re_next d, d\<lparr>re_queue := re_queue d @ [(re_src d, re_dst d, re_len d)], re_next := id_event (re_next d)\<rparr>)
      else if i = 0x84 then (re_done d, d)
      else (0, d))"

definition reg_wr :: "nat \<Rightarrow> u32 \<Rightarrow> 'e reg_dev_scheme \<Rightarrow> 'e reg_dev_scheme" where
  "reg_wr i v d =
     (if i = 0x00 then d\<lparr>re_conf := v\<rparr>
      else if i = 0xD0 then d\<lparr>re_dst := set_low (re_dst d) v\<rparr>
      else if i = 0xD4 then d\<lparr>re_dst := set_high (re_dst d) v\<rparr>
      else if i = 0xD8 then d\<lparr>re_src := set_low (re_src d) v\<rparr>
      else if i = 0xDC then d\<lparr>re_src := set_high (re_src d) v\<rparr>
      else if i = 0xE0 then d\<lparr>re_len := set_low (re_len d) v\<rparr>
      else if i = 0xE4 then d\<lparr>re_len := set_high (re_len d) v\<rparr>
      else d)"

definition reg_bus :: "(nat \<Rightarrow> nat) \<Rightarrow> 'e reg_dev_scheme bus" where
  "reg_bus lat =
     \<lparr>bus_rd = (\<lambda>n a d. let (v, d) = reg_rd (unat (take_bit 8 a)) d in (ucast v, reg_tick lat d)),
      bus_wr = (\<lambda>n a v d. reg_tick lat (reg_wr (unat (take_bit 8 a)) (ucast v) d)),
      bus_idle = (\<lambda>n d. (reg_tick lat ^^ n) d)\<rparr>"

section \<open>The engine without time\<close>

text \<open>All the work given to the descriptor engine, with the number of interrupts it raises; the
  fuel is the number of descriptors plus one.\<close>

fun drain :: "nat \<Rightarrow> mem \<Rightarrow> addr \<Rightarrow> addr list \<Rightarrow> (mem \<times> nat) option" where
  "drain 0 m nx q = None"
| "drain (Suc k) m nx q =
     (let run = (\<lambda>a q. map_option (\<lambda>(m', i). (m', of_bool (bit (flags_and_length (load_desc m a)) 32) + i))
                         (drain k (desc_exec m a) (next_desc (load_desc m a)) q))
      in if nx \<noteq> END_OF_CHAIN then run nx q
         else case q of [] \<Rightarrow> Some (m, 0) | a # as \<Rightarrow> run a as)"

lemma drain_chain:
  "nx \<noteq> END_OF_CHAIN \<Longrightarrow> drain (Suc k) m nx q =
     map_option (\<lambda>(m', i). (m', of_bool (bit (flags_and_length (load_desc m nx)) 32) + i))
       (drain k (desc_exec m nx) (next_desc (load_desc m nx)) q)"
  "drain (Suc k) m END_OF_CHAIN (a # as) =
     map_option (\<lambda>(m', i). (m', of_bool (bit (flags_and_length (load_desc m a)) 32) + i))
       (drain k (desc_exec m a) (next_desc (load_desc m a)) as)"
  "drain (Suc k) m END_OF_CHAIN [] = Some (m, 0)"
  by simp_all

lemma chain_cases:
  fixes nx :: addr and q :: "addr list"
  obtains "nx \<noteq> END_OF_CHAIN" | a as where "nx = END_OF_CHAIN" "q = a # as" | "nx = END_OF_CHAIN" "q = []"
  by (cases "nx = END_OF_CHAIN"; cases q) auto

lemma drain_Suc: "drain k m nx q = Some r \<Longrightarrow> drain (Suc k) m nx q = Some r"
proof (induction k arbitrary: m nx q r)
  case (Suc k)
  show ?case using Suc.prems
    by (cases rule: chain_cases [where nx = nx and q = q]) (auto simp only: drain_chain map_option_eq_Some simp_thms intro: Suc.IH)
qed simp

lemma drain_more: "drain k m nx q = Some r \<Longrightarrow> drain (k + n) m nx q = Some r"
  by (induction n) (auto intro: drain_Suc simp del: drain.simps)

lemma drain_append:
  "drain k m nx q = Some (m1, i1) \<Longrightarrow> drain n m1 END_OF_CHAIN [a] = Some (m2, i2) \<Longrightarrow>
   drain (k + n) m nx (q @ [a]) = Some (m2, i1 + i2)"
proof (induction k arbitrary: m nx q i1)
  case (Suc k)
  show ?case using Suc.prems
  proof (cases rule: chain_cases [where nx = nx and q = q])
    case 3
    then have "m1 = m" "i1 = 0" using Suc.prems(1) by auto
    then show ?thesis using 3 drain_more [OF Suc.prems(2), of "Suc k"] by (simp add: add.commute [of n] del: drain.simps)
  qed (auto simp: drain_chain Suc.IH simp del: drain.simps)
qed simp

abbreviation dev_drain :: "nat \<Rightarrow> 'e desc_dev_scheme \<Rightarrow> (mem \<times> nat) option" where
  "dev_drain k d \<equiv> drain k (de_mem d) (de_next d) (de_fifo d)"

text \<open>The final memory and interrupt count of the work that a device still has.\<close>

definition settles :: "mem \<Rightarrow> nat \<Rightarrow> 'e desc_dev_scheme \<Rightarrow> bool" where
  "settles m i d \<longleftrightarrow> (\<exists>k j. dev_drain k d = Some (m, j) \<and> i = de_irqs d + j)"

definition todo :: "'e desc_dev_scheme \<Rightarrow> nat" where
  "todo d = (LEAST k. dev_drain k d \<noteq> None)"

definition desc_left :: "(nat \<Rightarrow> nat) \<Rightarrow> 'e desc_dev_scheme \<Rightarrow> nat" where
  "desc_left lat d = de_wait d + (\<Sum>j < todo d. Suc (lat (Suc (de_done d + j))))"

lemma tick_drain:
  assumes "desc_busy d" and "de_wait d = 0"
  shows "\<exists>b. de_irqs (desc_tick lat d) = de_irqs d + b \<and>
     (\<forall>k. dev_drain (Suc k) d = map_option (\<lambda>(m, i). (m, b + i)) (dev_drain k (desc_tick lat d))) \<and>
     de_done (desc_tick lat d) = Suc (de_done d) \<and> de_wait (desc_tick lat d) = lat (Suc (de_done d))"
  using assms by (auto simp: desc_busy_def desc_tick_def desc_step_def Let_def split: list.split)

lemma tick_rest:
  "de_wait d > 0 \<or> \<not> desc_busy d \<Longrightarrow> de_mem (desc_tick lat d) = de_mem d \<and> de_next (desc_tick lat d) = de_next d \<and>
     de_fifo (desc_tick lat d) = de_fifo d \<and> de_irqs (desc_tick lat d) = de_irqs d \<and>
     de_done (desc_tick lat d) = de_done d \<and> de_wait (desc_tick lat d) = de_wait d - 1"
  by (auto simp: desc_busy_def desc_tick_def split: list.split)

lemma tick_fifo: "length (de_fifo (desc_tick lat d)) \<le> length (de_fifo d)"
  by (auto simp: desc_tick_def desc_step_def Let_def split: list.split)

lemma settles_tick: "settles m i d \<Longrightarrow> settles m i (desc_tick lat d)"
proof -
  assume s: "settles m i d"
  then obtain k j where k: "dev_drain k d = Some (m, j)" "i = de_irqs d + j" by (auto simp: settles_def)
  show ?thesis
  proof (cases "desc_busy d \<and> de_wait d = 0")
    case True
    then obtain b where b: "de_irqs (desc_tick lat d) = de_irqs d + b"
        "\<forall>k. dev_drain (Suc k) d = map_option (\<lambda>(m, i). (m, b + i)) (dev_drain k (desc_tick lat d))"
      using tick_drain [of d lat] by blast
    have "dev_drain (Suc k) d = Some (m, j)" using k(1) by (rule drain_Suc)
    then have "map_option (\<lambda>(m, i). (m, b + i)) (dev_drain k (desc_tick lat d)) = Some (m, j)" using b(2) by simp
    then obtain j' where "dev_drain k (desc_tick lat d) = Some (m, j')" "j = b + j'" by auto
    then show ?thesis using b(1) k(2) by (auto simp: settles_def)
  next
    case False
    then have "de_wait d > 0 \<or> \<not> desc_busy d" by auto
    then show ?thesis using k tick_rest [of d lat] unfolding settles_def by auto
  qed
qed

lemma todo_busy:
  assumes "settles m i d" and "desc_busy d" and "de_wait d = 0"
  shows "todo d = Suc (todo (desc_tick lat d))"
proof -
  obtain b where b: "\<forall>k. dev_drain (Suc k) d = map_option (\<lambda>(m, i). (m, b + i)) (dev_drain k (desc_tick lat d))"
    using tick_drain [OF assms(2,3), of lat] by blast
  obtain k where "dev_drain k d \<noteq> None" using assms(1) by (auto simp: settles_def)
  then have "todo d = Suc (LEAST k. dev_drain (Suc k) d \<noteq> None)"
    unfolding todo_def by (rule Least_Suc) simp
  then show ?thesis using b by (simp add: todo_def del: drain.simps)
qed

lemma desc_left_tick:
  assumes "settles m i d" and "desc_busy d"
  shows "desc_left lat (desc_tick lat d) < desc_left lat d"
proof (cases "de_wait d")
  case 0
  then show ?thesis using todo_busy [OF assms 0, of lat] tick_drain [OF assms(2) 0, of lat]
    by (auto simp: desc_left_def sum.lessThan_Suc_shift simp del: sum.lessThan_Suc)
next
  case (Suc n)
  then show ?thesis using tick_rest [of d lat] by (simp add: desc_left_def todo_def)
qed

lemma desc_status_bits:
  "desc_status d AND ucast STATUS_BUSY \<noteq> 0 \<longleftrightarrow> desc_busy d"
  "desc_status d AND ucast STATUS_FIFO_FULL \<noteq> 0 \<longleftrightarrow> 8 \<le> length (de_fifo d)"
  by (auto simp: desc_status_def c_const)

lemma desc_bus_status [dev_simps]:
  "rd64 (desc_bus lat) (DMA_BASE + STATUS_OFF) d = (desc_status d, desc_tick lat d)"
  by (simp add: rd64_def desc_bus_def c_const)

lemma status_step_busy: "status_step (desc_bus lat) DMA_BASE STATUS_BUSY d = (desc_busy d, desc_tick lat d)"
  by (simp add: status_step_def dev_simps desc_status_bits)

lemma status_step_full:
  "status_step (desc_bus lat) DMA_BASE STATUS_FIFO_FULL d = (8 \<le> length (de_fifo d), desc_tick lat d)"
  by (simp add: status_step_def dev_simps desc_status_bits)

interpretation desc_wait: polling "status_step (desc_bus lat) DMA_BASE STATUS_BUSY" "settles m i" "desc_left lat"
  by unfold_locales (auto simp: status_step_busy intro: settles_tick desc_left_tick)

interpretation desc_full: polling "status_step (desc_bus lat) DMA_BASE STATUS_FIFO_FULL" "settles m i" "desc_left lat"
proof unfold_locales
  fix d :: "'a desc_dev_scheme"
  assume s: "settles m i d"
  show "settles m i (snd (status_step (desc_bus lat) DMA_BASE STATUS_FIFO_FULL d))"
    by (simp add: status_step_full settles_tick s)
  assume "fst (status_step (desc_bus lat) DMA_BASE STATUS_FIFO_FULL d)"
  then have "desc_busy d" by (auto simp: status_step_full desc_busy_def)
  then show "desc_left lat (snd (status_step (desc_bus lat) DMA_BASE STATUS_FIFO_FULL d)) < desc_left lat d"
    by (simp add: status_step_full desc_left_tick [OF s])
qed

lemma settles_idle: "settles m i d \<Longrightarrow> \<not> desc_busy d \<Longrightarrow> de_mem d = m \<and> de_irqs d = i"
proof -
  assume "settles m i d" and idle: "\<not> desc_busy d"
  then obtain k j where k: "dev_drain k d = Some (m, j)" "i = de_irqs d + j" by (auto simp: settles_def)
  then show ?thesis using idle by (cases k) (auto simp: desc_busy_def)
qed

lemma desc_wait_settles:
  assumes "settles m i d" and "d6_regs c = DMA_BASE"
  obtains d' where "dma_desc64_op_wait (desc_bus lat) c d = Some d'" "\<not> desc_busy d'" "de_mem d' = m" "de_irqs d' = i"
proof -
  obtain d0 d' where p: "poll (status_step (desc_bus lat) DMA_BASE STATUS_BUSY) d = Some d'" "settles m i d0"
      "status_step (desc_bus lat) DMA_BASE STATUS_BUSY d0 = (False, d')"
    using desc_wait.poll_returns [OF assms(1)] .
  then have idle: "\<not> desc_busy d0" "d' = desc_tick lat d0" by (simp_all add: status_step_busy)
  then have "de_mem d' = m \<and> de_irqs d' = i \<and> \<not> desc_busy d'"
    using settles_idle [OF p(2)] tick_rest [of d0 lat] by (auto simp: desc_busy_def)
  then show ?thesis using that p(1) assms(2) by (simp add: dma_desc64_op_wait_def)
qed

lemma desc_bus_enqueue [dev_simps]:
  "wr64 (desc_bus lat) (DMA_BASE + DESC_ADDR_OFF) a d = desc_tick lat
     (if length (de_fifo d) < 8 then d\<lparr>de_fifo := de_fifo d @ [a]\<rparr> else d)"
  by (simp add: wr64_def desc_bus_def c_const)

lemma desc_submit_settles:
  assumes "settles m i d" and "drain n m END_OF_CHAIN [a] = Some (m', j)" and "d6_regs c = DMA_BASE"
  obtains d' where "dma_desc64_op_submit (desc_bus lat) c a d = Some d'" "settles m' (i + j) d'"
proof -
  obtain d0 d1 where p: "poll (status_step (desc_bus lat) DMA_BASE STATUS_FIFO_FULL) d = Some d1" "settles m i d0"
      "status_step (desc_bus lat) DMA_BASE STATUS_FIFO_FULL d0 = (False, d1)" "settles m i d1"
    using desc_full.poll_returns [OF assms(1)] .
  then have "length (de_fifo d1) < 8" using tick_fifo [of lat d0] by (auto simp: status_step_full)
  then have w: "wr64 (desc_bus lat) (DMA_BASE + DESC_ADDR_OFF) a d1 = desc_tick lat (d1\<lparr>de_fifo := de_fifo d1 @ [a]\<rparr>)"
    by (simp add: dev_simps)
  obtain k j' where k: "dev_drain k d1 = Some (m, j')" "i = de_irqs d1 + j'" using p(4) by (auto simp: settles_def)
  have "dev_drain (k + n) (d1\<lparr>de_fifo := de_fifo d1 @ [a]\<rparr>) = Some (m', j' + j)"
    using drain_append [OF k(1) assms(2)] by simp
  then have "settles m' (i + j) (d1\<lparr>de_fifo := de_fifo d1 @ [a]\<rparr>)"
    unfolding settles_def using k(2) by (intro exI [of _ "k + n"] exI [of _ "j' + j"]) simp
  from settles_tick [OF this, of lat] show ?thesis
    using that p(1) assms(3) w by (simp add: dma_desc64_op_submit_def)
qed

section \<open>Descriptors in memory\<close>

lemma load_store_desc: "load_desc (store_desc m a s) a = s"
proof -
  have ap: "apart (a + of_nat (8 * i)) 8 (a + of_nat (8 * j)) 8" if "i \<noteq> j" "i < 4" "j < 4" for i j
    by (rule apart_offsets) (use that in auto)
  have a: "load64 (store64 m' (a + 8) v) a = load64 m' a" "load64 (store64 m' (a + 16) v) a = load64 m' a"
     "load64 (store64 m' (a + 24) v) a = load64 m' a" "load64 (store64 m' (a + 16) v) (a + 8) = load64 m' (a + 8)"
     "load64 (store64 m' (a + 24) v) (a + 8) = load64 m' (a + 8)"
     "load64 (store64 m' (a + 24) v) (a + 16) = load64 m' (a + 16)" for m' v
    using ap [of 0 1] ap [of 0 2] ap [of 0 3] ap [of 1 2] ap [of 1 3] ap [of 2 3]
    unfolding store64_def by (simp_all add: load64_apart)
  show ?thesis by (simp add: load_desc_def store_desc_def a)
qed

lemma store_desc_apart:
  assumes "apart p n a 32" and "n < 2 ^ 32"
  shows "bytes_at (store_desc m a s) p n = bytes_at m p n"
proof -
  have ap: "apart p n (a + of_nat (8 * j)) 8" if "j < 4" for j
    unfolding apart_def
  proof (intro allI impI)
    fix i assume "i < n"
    then have h: "32 \<le> unat (p + of_nat i - a)" using assms(1) by (simp add: apart_def)
    have eq: "p + of_nat i - (a + of_nat (8 * j)) = (p + of_nat i - a) - of_nat (8 * j)" by simp
    have u: "unat (of_nat (8 * j) :: addr) = 8 * j" by (rule unat_of_nat64) (use that in simp)
    have "of_nat (8 * j) \<le> p + of_nat i - a" unfolding word_le_nat_alt u using h that by linarith
    then show "8 \<le> unat (p + of_nat i - (a + of_nat (8 * j)))"
      unfolding eq using unat_sub [of "of_nat (8 * j)" "p + of_nat i - a"] u h that by linarith
  qed
  show ?thesis using ap [of 0] ap [of 1] ap [of 2] ap [of 3]
    unfolding store_desc_def store64_def by (simp add: bytes_at_apart)
qed

lemma pack_fields:
  "unat (take_bit 32 (dma_desc64_pack len flags)) = unat len"
  "bit (dma_desc64_pack len flags) 32 = bit flags 0"
proof -
  have "take_bit 32 (dma_desc64_pack len flags) = ucast len"
    by (rule bit_word_eqI) (auto simp: dma_desc64_pack_def bit_simps dest: bit_imp_le_length)
  then show "unat (take_bit 32 (dma_desc64_pack len flags)) = unat len" by simp
  show "bit (dma_desc64_pack len flags) 32 = bit flags 0"
    using bit_imp_le_length [of len 32] by (auto simp: dma_desc64_pack_def bit_simps)
qed

section \<open>Properties of the descriptor driver\<close>

text \<open>C17. Whatever the engine still has to do and however long it takes, \<open>submit\<close> returns once the
  FIFO has space and \<open>wait\<close> once everything is done: the memory is then the one that all the
  queued descriptors, followed by the submitted one and the chain behind it, leave in this
  order, and one interrupt was raised for each descriptor that asks for it; the only assumption
  is that the chains end.\<close>

theorem desc64_runs_chain:
  assumes "d6_regs c = DMA_BASE"
    and "drain k (de_mem d) (de_next d) (de_fifo d) = Some (m1, i1)"
    and "drain n m1 END_OF_CHAIN [desc_a] = Some (m2, i2)"
  shows "\<exists>d1 d2. dma_desc64_op_submit (desc_bus lat) c desc_a d = Some d1 \<and>
    dma_desc64_op_wait (desc_bus lat) c d1 = Some d2 \<and>
    de_mem d2 = m2 \<and> de_irqs d2 = de_irqs d + i1 + i2 \<and> \<not> fst (dma_desc64_op_busy (desc_bus lat) c d2)"
proof -
  have s: "settles m1 (de_irqs d + i1) d" using assms(2) by (auto simp: settles_def)
  obtain d1 where d1: "dma_desc64_op_submit (desc_bus lat) c desc_a d = Some d1" "settles m2 (de_irqs d + i1 + i2) d1"
    using desc_submit_settles [OF s assms(3,1), of lat] .
  obtain d2 where d2: "dma_desc64_op_wait (desc_bus lat) c d1 = Some d2" "\<not> desc_busy d2" "de_mem d2 = m2"
      "de_irqs d2 = de_irqs d + i1 + i2"
    using desc_wait_settles [OF d1(2) assms(1), of lat] .
  have "\<not> fst (dma_desc64_op_busy (desc_bus lat) c d2)"
    using d2(2) assms(1) by (simp add: dma_desc64_op_busy_def dev_simps desc_status_bits)
  then show ?thesis using d1 d2 by blast
qed

text \<open>One descriptor, built as the header says: after \<open>submit\<close> and \<open>wait\<close> on an idle engine the
  destination holds the bytes the source had, and exactly one interrupt was raised if the flags
  have the interrupt bit.\<close>

theorem desc64_copies:
  assumes "d6_regs c = DMA_BASE" and "de_next d = END_OF_CHAIN" and "de_fifo d = []"
    and "de_mem d = store_desc m a \<lparr>flags_and_length = dma_desc64_pack len flags, next_desc = END_OF_CHAIN,
           src_addr = src, dst_addr = dst\<rparr>"
    and "apart src (unat len) a 32" and "apart dst (unat len) a 8"
  shows "\<exists>d1 d2. dma_desc64_op_submit (desc_bus lat) c a d = Some d1 \<and>
    dma_desc64_op_wait (desc_bus lat) c d1 = Some d2 \<and>
    bytes_at (de_mem d2) dst (unat len) = bytes_at m src (unat len) \<and>
    de_irqs d2 = de_irqs d + of_bool (bit flags 0)"
proof -
  let ?m = "de_mem d" and ?m2 = "desc_exec (de_mem d) a"
  have ld: "load_desc ?m a = \<lparr>flags_and_length = dma_desc64_pack len flags, next_desc = END_OF_CHAIN, src_addr = src, dst_addr = dst\<rparr>"
    unfolding assms(4) by (rule load_store_desc)
  have s: "settles ?m (de_irqs d) d"
    unfolding settles_def using assms(2,3) by (intro exI [of _ "Suc 0"] exI [of _ 0]) simp
  have "drain (Suc (Suc 0)) ?m END_OF_CHAIN [a] = Some (?m2, of_bool (bit flags 0))"
    by (simp only: drain_chain ld descriptor.simps pack_fields option.map prod.case add_0_right)
  from desc_submit_settles [OF s this assms(1)] obtain d1 where
    d1: "dma_desc64_op_submit (desc_bus lat) c a d = Some d1" "settles ?m2 (de_irqs d + of_bool (bit flags 0)) d1" .
  obtain d2 where d2: "dma_desc64_op_wait (desc_bus lat) c d1 = Some d2" "de_mem d2 = ?m2"
      "de_irqs d2 = de_irqs d + of_bool (bit flags 0)"
    using desc_wait_settles [OF d1(2) assms(1), of lat] .
  have "bytes_at ?m2 dst (unat len) = bytes_at ?m src (unat len)"
    unfolding desc_exec_def ld Let_def dma_copy_def store64_def descriptor.simps pack_fields
    using assms(6) by (simp add: bytes_at_apart bytes_at_copy less_trans [OF unat_lt32])
  also have "\<dots> = bytes_at m src (unat len)"
    unfolding assms(4) by (rule store_desc_apart) (use assms(5) in simp_all)
  finally show ?thesis using d1(1) d2 by auto
qed

definition demo_desc :: descriptor where
  "demo_desc = \<lparr>flags_and_length = dma_desc64_pack 1 FLAG_IRQ, next_desc = END_OF_CHAIN, src_addr = 0x1000, dst_addr = 0x3000\<rparr>"

definition demo_desc_dev :: desc_dev where
  "demo_desc_dev = \<lparr>de_mem = store_desc ((\<lambda>_. 0)(0x1000 := 7)) 0x2000 demo_desc, de_fifo = [], de_next = END_OF_CHAIN,
     de_wait = 3, de_done = 0, de_irqs = 0\<rparr>"

lemma demo_drain:
  "drain 1 (de_mem demo_desc_dev) (de_next demo_desc_dev) (de_fifo demo_desc_dev) = Some (de_mem demo_desc_dev, 0)"
  "drain 2 (de_mem demo_desc_dev) END_OF_CHAIN [0x2000] = Some (desc_exec (de_mem demo_desc_dev) 0x2000, 1)"
proof -
  have "load_desc (de_mem demo_desc_dev) 0x2000 = demo_desc" by (simp add: demo_desc_dev_def load_store_desc)
  then show "drain 2 (de_mem demo_desc_dev) END_OF_CHAIN [0x2000] = Some (desc_exec (de_mem demo_desc_dev) 0x2000, 1)"
    by (simp add: numeral_2_eq_2 demo_desc_def pack_fields FLAG_IRQ_def)
qed (simp add: demo_desc_dev_def)

lemma desc64_runs_chain_witness:
  "\<exists>d1 d2. dma_desc64_op_submit (desc_bus (\<lambda>_. 5)) \<lparr>d6_regs = DMA_BASE, d6_bound = True\<rparr> 0x2000 demo_desc_dev = Some d1 \<and>
     dma_desc64_op_wait (desc_bus (\<lambda>_. 5)) \<lparr>d6_regs = DMA_BASE, d6_bound = True\<rparr> d1 = Some d2 \<and>
     de_mem d2 = desc_exec (de_mem demo_desc_dev) 0x2000 \<and> de_irqs d2 = 1"
  using desc64_runs_chain [OF _ demo_drain(1) demo_drain(2), of "\<lparr>d6_regs = DMA_BASE, d6_bound = True\<rparr>" "\<lambda>_. 5"]
  by (auto simp: demo_desc_dev_def)

lemma desc64_copies_witness:
  "\<exists>d1 d2. dma_desc64_op_submit (desc_bus (\<lambda>n. n)) \<lparr>d6_regs = DMA_BASE, d6_bound = True\<rparr> 0x2000 demo_desc_dev = Some d1 \<and>
     dma_desc64_op_wait (desc_bus (\<lambda>n. n)) \<lparr>d6_regs = DMA_BASE, d6_bound = True\<rparr> d1 = Some d2 \<and>
     bytes_at (de_mem d2) 0x3000 1 = [7] \<and> de_irqs d2 = 1"
proof -
  have "apart 0x1000 (unat (1 :: u32)) 0x2000 32" "apart 0x3000 (unat (1 :: u32)) 0x2000 8"
    by (simp_all add: apart_def)
  from desc64_copies [OF _ _ _ _ this, of "\<lparr>d6_regs = DMA_BASE, d6_bound = True\<rparr>" demo_desc_dev "(\<lambda>_. 0)(0x1000 := 7)" FLAG_IRQ "\<lambda>n. n"]
  show ?thesis by (simp add: demo_desc_dev_def demo_desc_def FLAG_IRQ_def bytes_at_def)
qed

section \<open>Transfer ids\<close>

text \<open>The id of the \<open>c\<close>th event: the values 1 to \<open>2\<^sup>3\<^sup>2 - 2\<close> in turn, with the all-ones value for
  the cycle in which a counter passes to 1.\<close>

definition ID_PERIOD :: nat where "ID_PERIOD = 2 ^ 32 - 2"

definition id_pos :: "nat \<Rightarrow> u32 \<Rightarrow> bool" where
  "id_pos c x \<longleftrightarrow> (if x = - 1 then c mod ID_PERIOD = 0 else unat x = 1 + c mod ID_PERIOD)"

lemma unat_ones: "unat (- 1 :: u32) = 2 ^ 32 - 1"
  by (simp add: unsigned_minus_1_eq_mask mask_eq_exp_minus_1)

lemma id_pos_rest: "id_pos c x \<Longrightarrow> id_pos c (id_rest x) \<and> id_rest x \<noteq> - 1"
  by (auto simp: id_pos_def id_rest_def)

lemma id_pos_event:
  assumes "id_pos c x" shows "id_pos (Suc c) (id_event x)"
proof (cases "x = - 1")
  case True
  then have "c mod ID_PERIOD = 0" using assms by (simp add: id_pos_def)
  then have "Suc c mod ID_PERIOD = 1" by (simp add: mod_Suc ID_PERIOD_def)
  then show ?thesis using True by (simp add: id_pos_def id_event_def)
next
  case False
  then have x: "unat x = 1 + c mod ID_PERIOD" using assms by (simp add: id_pos_def)
  have lt: "c mod ID_PERIOD < ID_PERIOD" by (simp add: ID_PERIOD_def)
  have u: "unat (1 + x) = 2 + c mod ID_PERIOD"
    using x lt by (simp add: unat_word_ariths ID_PERIOD_def)
  show ?thesis
  proof (cases "Suc (c mod ID_PERIOD) = ID_PERIOD")
    case True
    then have "unat (1 + x) = unat (- 1 :: u32)" unfolding u unat_ones by (simp add: ID_PERIOD_def)
    then have "1 + x = - 1" by (simp only: word_unat_eq_iff)
    then show ?thesis using True False by (simp add: id_pos_def id_event_def mod_Suc)
  next
    case ne: False
    then have "1 + x \<noteq> - 1" using u lt unat_ones by (metis (no_types, lifting) ID_PERIOD_def
      Nat.add_diff_assoc2 Suc_1 add_2_eq_Suc diff_Suc_1' diff_Suc_eq_diff_pred less_Suc_eq not_less_eq numeral_2_eq_2)
    then show ?thesis using ne False u by (simp add: id_pos_def id_event_def mod_Suc)
  qed
qed

lemma sint_small: "- (2 ^ 31) \<le> z \<Longrightarrow> z < 2 ^ 31 \<Longrightarrow> sint (word_of_int z :: u32) = z"
  by (simp add: signed_of_int signed_take_bit_int_eq_self)

lemma word_diff_int: "(x :: u32) - y = word_of_int (int (unat x) - int (unat y))"
  by simp

lemma sint_diff:
  assumes "int (unat (x :: u32)) - int (unat y) = z + 2 ^ 32 * e" and "- (2 ^ 31) \<le> z" and "z < 2 ^ 31"
  shows "sint (x - y) = z"
proof -
  have "x - y = word_of_int (z + 2 ^ 32 * e)" unfolding word_diff_int assms(1) ..
  also have "\<dots> = word_of_int z" by (subst word_of_int_eq_iff) (simp add: take_bit_eq_mod)
  finally show ?thesis using sint_small [OF assms(2,3)] by simp
qed

text \<open>The signed difference of two ids tells their order, across the wrap-around too, when they are
  less than \<open>2\<^sup>3\<^sup>1 - 4\<close> events apart; the all-ones value counts as not yet there.\<close>

lemma id_order:
  assumes c: "id_pos c x" and k: "id_pos k y" "y \<noteq> - 1"
    and near: "c < k + (2 ^ 31 - 4)" "k < c + (2 ^ 31 - 4)"
  shows "(c < k \<longrightarrow> sint (x - y) < 0) \<and> (sint (x - y) < 0 \<longrightarrow> c < k \<or> x = - 1)"
proof -
  define a r b s where "a = int c div 4294967294" and "r = int (c mod ID_PERIOD)"
    and "b = int k div 4294967294" and "s = int (k mod ID_PERIOD)"
  have rs: "r = int c mod 4294967294" "s = int k mod 4294967294"
    by (simp_all add: r_def s_def ID_PERIOD_def zmod_int)
  have C: "int c = 4294967294 * a + r" "0 \<le> r" "r < 4294967294" by (simp_all add: a_def rs)
  have K: "int k = 4294967294 * b + s" "0 \<le> s" "s < 4294967294" by (simp_all add: b_def rs)
  have y: "int (unat y) = 1 + s" using k by (simp add: id_pos_def s_def)
  have N: "int c < int k + 2147483644" "int k < int c + 2147483644" using near by simp_all
  have "\<not> b + 2 \<le> a" "\<not> a + 2 \<le> b" using C K N by linarith+
  then have ab: "a = b \<or> a = b + 1 \<or> a = b - 1" by linarith
  show ?thesis
  proof (cases "x = - 1")
    case True
    then have r: "r = 0" and x: "int (unat x) = 4294967295"
      using c unat_ones by (simp_all add: id_pos_def r_def)
    show ?thesis
    proof (cases "c < k")
      case True
      then have "int c < int k" by simp
      then have "a = b" using C K N r ab by linarith
      then have "sint (x - y) = int c - int k - 2"
        by (intro sint_diff [where e = 1]) (use x y C K N r \<open>int c < int k\<close> in simp_all)
      then show ?thesis using True by auto
    qed (simp add: True)
  next
    case False
    then have x: "int (unat x) = 1 + r" using c by (simp add: id_pos_def r_def)
    have "sint (x - y) = int c - int k" if "a = b"
      by (rule sint_diff [where e = 0]) (use x y C K N that in simp_all)
    moreover have "sint (x - y) = int c - int k - 2 \<and> c < k" if "a = b - 1"
      by (intro conjI sint_diff [where e = 1]) (use x y C K N that in simp_all)
    moreover have "sint (x - y) = int c - int k + 2 \<and> k < c" if "a = b + 1"
      by (intro conjI sint_diff [where e = "-1"]) (use x y C K N that in simp_all)
    ultimately show ?thesis using ab by auto
  qed
qed

section \<open>The register engine\<close>

definition reg_inv :: "'e reg_dev_scheme \<Rightarrow> bool" where
  "reg_inv d \<longleftrightarrow> id_pos (re_count d) (re_done d) \<and> id_pos (Suc (re_count d + length (re_queue d))) (re_next d)"

text \<open>The memory that the queued transfers leave, in the order in which they were launched.\<close>

definition queued :: "'e reg_dev_scheme \<Rightarrow> mem" where
  "queued d = fold (\<lambda>(s, t, n) m. dma_copy m s t n) (re_queue d) (re_mem d)"

definition reg_left :: "(nat \<Rightarrow> nat) \<Rightarrow> 'e reg_dev_scheme \<Rightarrow> nat" where
  "reg_left lat d = re_wait d + of_bool (re_done d = - 1) +
     (\<Sum>j < length (re_queue d). Suc (Suc (lat (Suc (re_count d + j)))))"

lemma reg_inv_tick: "reg_inv d \<Longrightarrow> reg_inv (reg_tick lat d) \<and> re_next (reg_tick lat d) \<noteq> - 1"
proof -
  assume inv: "reg_inv d"
  note c = id_pos_rest [of "re_count d" "re_done d"] id_pos_event [of "re_count d" "re_done d"]
    id_pos_rest [of "Suc (re_count d + length (re_queue d))" "re_next d"]
  show ?thesis
  proof (cases "re_wait d > 0 \<or> re_queue d = []")
    case True
    then show ?thesis using inv c by (auto simp: reg_inv_def reg_tick_def Let_def)
  next
    case False
    then obtain s t n q where q: "re_queue d = (s, t, n) # q" by (cases "re_queue d") auto
    then show ?thesis using False inv c by (simp add: reg_inv_def reg_tick_def Let_def)
  qed
qed

lemma queued_tick [simp]: "queued (reg_tick lat d) = queued d"
  by (auto simp: queued_def reg_tick_def Let_def split: list.split)

lemma count_tick: "re_count (reg_tick lat d) + length (re_queue (reg_tick lat d)) = re_count d + length (re_queue d)"
  by (auto simp: reg_tick_def Let_def split: list.split)

lemma queue_tick: "length (re_queue (reg_tick lat d)) \<le> length (re_queue d)"
  by (auto simp: reg_tick_def Let_def split: list.split)

lemma program_tick [simp]:
  "re_src (reg_tick lat d) = re_src d" "re_dst (reg_tick lat d) = re_dst d" "re_len (reg_tick lat d) = re_len d"
  by (auto simp: reg_tick_def Let_def split: list.split)

lemma reg_left_tick:
  assumes "re_queue d \<noteq> [] \<or> re_done d = - 1"
  shows "reg_left lat (reg_tick lat d) < reg_left lat d"
proof -
  have rest: "id_rest x \<noteq> - 1" for x by (simp add: id_rest_def)
  show ?thesis
  proof (cases "re_wait d > 0 \<or> re_queue d = []")
    case True
    then show ?thesis using assms rest
      by (auto simp: reg_left_def reg_tick_def Let_def split: list.split)
  next
    case False
    then obtain s t n q where q: "re_queue d = (s, t, n) # q" by (cases "re_queue d") auto
    have "of_bool (id_event (re_done d) = - 1) \<le> (1 :: nat)" by simp
    then show ?thesis using False
      by (simp add: reg_left_def reg_tick_def q Let_def sum.lessThan_Suc_shift del: sum.lessThan_Suc)
  qed
qed

lemma reg_decode [dev_simps]:
  "unat (take_bit 8 (DMA_BASE + of_nat R_CONF)) = 0x00" "unat (take_bit 8 (DMA_BASE + of_nat R_STATUS)) = 0x04"
  "unat (take_bit 8 (DMA_BASE + of_nat R_NEXT_ID)) = 0x44" "unat (take_bit 8 (DMA_BASE + of_nat R_DONE_ID)) = 0x84"
  "unat (take_bit 8 (DMA_BASE + of_nat R_DST_LOW)) = 0xD0" "unat (take_bit 8 (DMA_BASE + of_nat R_DST_HIGH)) = 0xD4"
  "unat (take_bit 8 (DMA_BASE + of_nat R_SRC_LOW)) = 0xD8" "unat (take_bit 8 (DMA_BASE + of_nat R_SRC_HIGH)) = 0xDC"
  "unat (take_bit 8 (DMA_BASE + of_nat R_LEN_LOW)) = 0xE0" "unat (take_bit 8 (DMA_BASE + of_nat R_LEN_HIGH)) = 0xE4"
  by (simp_all add: c_const)

lemma reg_bus_rd32 [dev_simps]:
  "rd32 (reg_bus lat) a d = (let (v, d) = reg_rd (unat (take_bit 8 a)) d in (v, reg_tick lat d))"
  by (simp add: rd32_def reg_bus_def split: prod.split)

lemma reg_bus_wr32 [dev_simps]:
  "wr32 (reg_bus lat) a v d = reg_tick lat (reg_wr (unat (take_bit 8 a)) v d)"
  by (simp add: wr32_def reg_bus_def)

lemma set_halves: "set_high (set_low x (ucast v)) (ucast (drop_bit 32 v)) = v"
  by (rule bit_word_eqI) (auto simp: set_high_def set_low_def bit_simps)

text \<open>Programming a field leaves the queued work alone.\<close>

lemma reg_wr_program:
  assumes "i \<in> {0xD0, 0xD4, 0xD8, 0xDC, 0xE0, 0xE4}"
  shows "queued (reg_wr i v d) = queued d" "reg_inv (reg_wr i v d) = reg_inv d"
    "re_count (reg_wr i v d) = re_count d" "re_queue (reg_wr i v d) = re_queue d"
  using assms by (auto simp: reg_wr_def queued_def reg_inv_def)

lemma submit_launches:
  assumes "reg_inv d" and "r6_regs c = DMA_BASE"
    and "dma_reg64_1d_op_submit (reg_bus lat) c dst src len d = (i, d1)"
  shows "reg_inv d1 \<and> queued d1 = dma_copy (queued d) src dst len \<and>
    id_pos (re_count d1 + length (re_queue d1)) i \<and> i \<noteq> - 1 \<and> length (re_queue d1) \<le> Suc (length (re_queue d))"
proof -
  let ?w = "\<lambda>i v d. reg_tick lat (reg_wr i v d)"
  define d0 where "d0 = ?w 0xE4 (ucast (drop_bit 32 len)) (?w 0xE0 (ucast len) (?w 0xD4 (ucast (drop_bit 32 dst))
     (?w 0xD0 (ucast dst) (?w 0xDC (ucast (drop_bit 32 src)) (?w 0xD8 (ucast src) d)))))"
  have inv: "reg_inv d0 \<and> re_next d0 \<noteq> - 1"
    unfolding d0_def by (intro reg_inv_tick) (simp add: reg_wr_program reg_inv_tick assms(1))
  have len: "length (re_queue d0) \<le> length (re_queue d)"
    unfolding d0_def by (simp add: reg_wr_program order_trans [OF queue_tick])
  have q: "queued d0 = queued d" by (simp add: d0_def reg_wr_program)
  have "re_src d0 = set_high (set_low (re_src d) (ucast src)) (ucast (drop_bit 32 src))"
    "re_dst d0 = set_high (set_low (re_dst d) (ucast dst)) (ucast (drop_bit 32 dst))"
    "re_len d0 = set_high (set_low (re_len d) (ucast len)) (ucast (drop_bit 32 len))"
    by (simp_all add: d0_def reg_wr_def)
  then have f: "re_src d0 = src" "re_dst d0 = dst" "re_len d0 = len" by (simp_all add: set_halves)
  define d' where "d' = d0\<lparr>re_queue := re_queue d0 @ [(src, dst, len)], re_next := id_event (re_next d0)\<rparr>"
  have d1: "i = re_next d0" "d1 = reg_tick lat d'"
    using assms(3) [symmetric] by (simp_all add: dma_reg64_1d_op_submit_def assms(2) dev_simps Let_def reg_rd_def d0_def [symmetric] f d'_def)
  have "reg_inv d'" using inv id_pos_event [of "Suc (re_count d0 + length (re_queue d0))" "re_next d0"]
    by (simp add: reg_inv_def d'_def)
  moreover have "queued d' = dma_copy (queued d) src dst len" by (simp add: d'_def queued_def q [unfolded queued_def])
  moreover have "id_pos (re_count d' + length (re_queue d')) i"
    using inv unfolding reg_inv_def d'_def d1 by simp
  moreover have "length (re_queue d1) \<le> Suc (length (re_queue d))"
    unfolding d1(2) by (rule order_trans [OF queue_tick]) (simp add: d'_def len)
  ultimately show ?thesis using inv unfolding d1(2) count_tick by (simp add: reg_inv_tick d1(1))
qed

text \<open>What the polling of \<open>done_id\<close> for the id of the last launched transfer relies on.\<close>

definition awaits :: "mem \<Rightarrow> u32 \<Rightarrow> 'e reg_dev_scheme \<Rightarrow> bool" where
  "awaits m xid d \<longleftrightarrow> reg_inv d \<and> queued d = m \<and> xid \<noteq> - 1 \<and>
     id_pos (re_count d + length (re_queue d)) xid \<and> length (re_queue d) < 2 ^ 31 - 4"

lemma awaits_order:
  assumes "awaits m xid d"
  shows "(re_queue d \<noteq> [] \<longrightarrow> sint (re_done d - xid) < 0) \<and>
    (sint (re_done d - xid) < 0 \<longrightarrow> re_queue d \<noteq> [] \<or> re_done d = - 1)"
proof -
  have i: "id_pos (re_count d) (re_done d)" "id_pos (re_count d + length (re_queue d)) xid" "xid \<noteq> - 1"
    and l: "length (re_queue d) < 2 ^ 31 - 4" using assms by (simp_all add: awaits_def reg_inv_def)
  show ?thesis using id_order [OF i] l by auto
qed

lemma done_step_bus:
  "done_step (reg_bus lat) DMA_BASE xid d = (sint (re_done d - xid) < 0, reg_tick lat d)"
  by (simp add: done_step_def dev_simps reg_rd_def)

interpretation done_wait: polling "done_step (reg_bus lat) DMA_BASE xid" "awaits m xid" "reg_left lat"
proof unfold_locales
  fix d :: "'a reg_dev_scheme"
  assume a: "awaits m xid d"
  have "length (re_queue (reg_tick lat d)) \<le> length (re_queue d)" by (rule queue_tick)
  then show "awaits m xid (snd (done_step (reg_bus lat) DMA_BASE xid d))"
    using a by (simp add: awaits_def done_step_bus reg_inv_tick count_tick)
  assume "fst (done_step (reg_bus lat) DMA_BASE xid d)"
  then have "re_queue d \<noteq> [] \<or> re_done d = - 1" using awaits_order [OF a] by (simp add: done_step_bus)
  then show "reg_left lat (snd (done_step (reg_bus lat) DMA_BASE xid d)) < reg_left lat d"
    by (simp add: done_step_bus reg_left_tick)
qed

section \<open>Properties of the register driver\<close>

lemma reg64_transfer:
  assumes "r6_regs c = DMA_BASE" and "reg_inv d" and "length (re_queue d) < 2 ^ 31 - 5"
  shows "\<exists>i d1 d2. dma_reg64_1d_op_submit (reg_bus lat) c dst src len d = (i, d1) \<and>
    dma_reg64_1d_op_wait (reg_bus lat) c i d1 = Some d2 \<and>
    re_queue d2 = [] \<and> re_mem d2 = dma_copy (queued d) src dst len"
proof -
  obtain i d1 where s: "dma_reg64_1d_op_submit (reg_bus lat) c dst src len d = (i, d1)" by fastforce
  note L = submit_launches [OF assms(2,1) s]
  have "awaits (dma_copy (queued d) src dst len) i d1" using L assms(3) by (simp add: awaits_def)
  from done_wait.poll_returns [OF this, of lat] obtain d0 d2 where
    p: "poll (done_step (reg_bus lat) DMA_BASE i) d1 = Some d2" "awaits (dma_copy (queued d) src dst len) i d0"
      "done_step (reg_bus lat) DMA_BASE i d0 = (False, d2)" .
  then have q: "re_queue d0 = []" "d2 = reg_tick lat d0" using awaits_order [OF p(2)] by (auto simp: done_step_bus)
  then have "re_queue d2 = []" by (simp add: reg_tick_def Let_def)
  moreover have "queued d2 = dma_copy (queued d) src dst len" using p(2) q(2) by (simp add: awaits_def)
  ultimately show ?thesis using s p(1) assms(1) by (auto simp: dma_reg64_1d_op_wait_def queued_def)
qed

text \<open>C19. A transfer submitted to the register front end and waited for by its id: \<open>wait\<close> returns,
  whatever was queued before it, however slow the engine and also when the 32-bit ids wrap
  around in between, and then the transfer has been done after all those before it; the bounds
  are fewer than \<open>2\<^sup>3\<^sup>1\<close> transfers in the queue.\<close>

theorem reg64_submit_wait:
  assumes "r6_regs c = DMA_BASE" and "reg_inv d" and "length (re_queue d) < 2 ^ 31 - 5"
  shows "\<exists>i d1 d2. dma_reg64_1d_op_submit (reg_bus lat) c dst src len d = (i, d1) \<and>
    dma_reg64_1d_op_wait (reg_bus lat) c i d1 = Some d2 \<and>
    re_queue d2 = [] \<and> re_mem d2 = dma_copy (queued d) src dst len"
  using reg64_transfer [OF assms] by blast

lemma reg64_submit_wait_witness:
  "\<exists>i d1 d2. dma_reg64_1d_op_submit (reg_bus (\<lambda>_. 6)) \<lparr>r6_regs = DMA_BASE, r6_bound = True\<rparr> 0x3000 0x1000 1
       (re_reset ((\<lambda>_. 0)(0x1000 := 7))) = (i, d1) \<and>
     dma_reg64_1d_op_wait (reg_bus (\<lambda>_. 6)) \<lparr>r6_regs = DMA_BASE, r6_bound = True\<rparr> i d1 = Some d2 \<and> re_mem d2 0x3000 = 7"
proof -
  have "reg_inv (re_reset ((\<lambda>_. 0)(0x1000 := 7)))" by (simp add: reg_inv_def re_reset_def id_pos_def ID_PERIOD_def)
  from reg64_submit_wait [OF _ this, where c = "\<lparr>r6_regs = DMA_BASE, r6_bound = True\<rparr>" and lat = "\<lambda>_. 6"
      and dst = "0x3000" and src = "0x1000" and len = 1]
  obtain i d1 d2 where h: "dma_reg64_1d_op_submit (reg_bus (\<lambda>_. 6)) \<lparr>r6_regs = DMA_BASE, r6_bound = True\<rparr> 0x3000 0x1000 1
       (re_reset ((\<lambda>_. 0)(0x1000 := 7))) = (i, d1)"
    "dma_reg64_1d_op_wait (reg_bus (\<lambda>_. 6)) \<lparr>r6_regs = DMA_BASE, r6_bound = True\<rparr> i d1 = Some d2"
    "re_mem d2 = dma_copy (queued (re_reset ((\<lambda>_. 0)(0x1000 := 7)))) 0x1000 0x3000 1"
    by (auto simp: re_reset_def)
  moreover have "dma_copy (queued (re_reset ((\<lambda>_. 0)(0x1000 := 7)))) 0x1000 0x3000 1 0x3000 = 7"
    by (simp add: dma_copy_def queued_def re_reset_def mem_put_def)
  ultimately show ?thesis by auto
qed

end
