(* ===== verification/Syscalls.thy ===== *)
theory Syscalls
  imports Uart Soc_Ctrl Context
begin

text \<open>
  The system call layer \<open>software/sdk/src/syscalls.c\<close>. What it takes from newlib is a parameter:
  the values of the error numbers, the numbers of the system calls and the store that sets
  \<open>st_mode\<close> of a \<open>struct stat\<close>. The state is the \<open>errno\<close> and \<open>brk\<close> variables, the memory and the
  devices; \<open>None\<close> is a call that faults or does not return, \<open>Halted\<close> the end of the program.
\<close>

section \<open>What newlib provides\<close>

datatype ecode = ENOSYS | ENOMEM | EAGAIN | EINVAL | EMLINK | ENOENT | ECHILD

datatype sysno = SYS_exit | SYS_read | SYS_write | SYS_getpid | SYS_kill | SYS_open | SYS_openat
  | SYS_close | SYS_lseek | SYS_brk | SYS_link | SYS_unlink | SYS_chdir | SYS_getcwd | SYS_stat
  | SYS_fstat | SYS_lstat | SYS_fstatat | SYS_access | SYS_faccessat | SYS_gettimeofday | SYS_times

record newlib =
  n_errno :: "ecode \<Rightarrow> u32"
  n_sysno :: "u64 \<Rightarrow> sysno option"
  n_set_ifchr :: "addr \<Rightarrow> mem \<Rightarrow> mem"

section \<open>State\<close>

record 'd sys =
  s_errno :: u32
  s_brk :: addr
  s_mem :: mem
  s_dev :: 'd

datatype 'a outcome = Returned 'a | Halted 'a

definition STDOUT_FILENO :: u32 where [c_const]: "STDOUT_FILENO = 1"
definition STDERR_FILENO :: u32 where [c_const]: "STDERR_FILENO = 2"

text \<open>\<open>errno = e; return -1\<close>.\<close>

definition fail :: "newlib \<Rightarrow> ecode \<Rightarrow> 'd sys \<Rightarrow> u32 \<times> 'd sys" where
  "fail L e s = (- 1, s\<lparr>s_errno := n_errno L e\<rparr>)"

text \<open>\<open>long\<close> to \<open>int\<close> and back.\<close>

definition syscall_error :: "u64 \<Rightarrow> 'd sys \<Rightarrow> u64 \<times> 'd sys" where
  "syscall_error a0 s = (- 1, s\<lparr>s_errno := ucast (- a0)\<rparr>)"

section \<open>The calls\<close>

definition nanosleep :: "newlib \<Rightarrow> 'd sys \<Rightarrow> u32 \<times> 'd sys" where
  "nanosleep L s = fail L ENOSYS s"

definition sys_access :: "newlib \<Rightarrow> 'd sys \<Rightarrow> u32 \<times> 'd sys" where
  "sys_access L s = fail L ENOSYS s"

definition sys_chdir :: "newlib \<Rightarrow> 'd sys \<Rightarrow> u32 \<times> 'd sys" where
  "sys_chdir L s = fail L ENOSYS s"

definition sys_chmod :: "newlib \<Rightarrow> 'd sys \<Rightarrow> u32 \<times> 'd sys" where
  "sys_chmod L s = fail L ENOSYS s"

definition sys_chown :: "newlib \<Rightarrow> 'd sys \<Rightarrow> u32 \<times> 'd sys" where
  "sys_chown L s = fail L ENOSYS s"

definition sys_close :: "'d sys \<Rightarrow> u32 \<times> 'd sys" where
  "sys_close s = (- 1, s)"

definition sys_execve :: "newlib \<Rightarrow> 'd sys \<Rightarrow> u32 \<times> 'd sys" where
  "sys_execve L s = fail L ENOMEM s"

definition sys_exit :: "'d bus \<Rightarrow> soc_ctrl \<Rightarrow> u32 \<Rightarrow> 'd sys \<Rightarrow> 'd sys option" where
  "sys_exit BC soc_ctrl0 status s =
     map_option (\<lambda>d. s\<lparr>s_dev := d\<rparr>) (soc_exit BC soc_ctrl0 status (s_dev s))"

definition sys_faccessat :: "newlib \<Rightarrow> 'd sys \<Rightarrow> u32 \<times> 'd sys" where
  "sys_faccessat L s = fail L ENOSYS s"

definition sys_fork :: "newlib \<Rightarrow> 'd sys \<Rightarrow> u32 \<times> 'd sys" where
  "sys_fork L s = fail L EAGAIN s"

definition sys_fstat :: "newlib \<Rightarrow> addr \<Rightarrow> 'd sys \<Rightarrow> u32 \<times> 'd sys" where
  "sys_fstat L st s = (0, s\<lparr>s_mem := n_set_ifchr L st (s_mem s)\<rparr>)"

definition sys_fstatat :: "newlib \<Rightarrow> 'd sys \<Rightarrow> u32 \<times> 'd sys" where
  "sys_fstatat L s = fail L ENOSYS s"

definition sys_ftime :: "newlib \<Rightarrow> 'd sys \<Rightarrow> u32 \<times> 'd sys" where
  "sys_ftime L s = fail L ENOSYS s"

text \<open>These two store the negated error number.\<close>

definition sys_getcwd :: "newlib \<Rightarrow> 'd sys \<Rightarrow> addr \<times> 'd sys" where
  "sys_getcwd L s = (0, s\<lparr>s_errno := - n_errno L ENOSYS\<rparr>)"

definition sys_gettimeofday :: "newlib \<Rightarrow> 'd sys \<Rightarrow> u32 \<times> 'd sys" where
  "sys_gettimeofday L s = (- 1, s\<lparr>s_errno := - n_errno L ENOSYS\<rparr>)"

definition sys_getpid :: u32 where
  "sys_getpid = 1"

definition sys_isatty :: "u32 \<Rightarrow> u32" where
  "sys_isatty file = of_bool (file = STDOUT_FILENO \<or> file = STDERR_FILENO)"

definition sys_kill :: "newlib \<Rightarrow> 'd sys \<Rightarrow> u32 \<times> 'd sys" where
  "sys_kill L s = fail L EINVAL s"

definition sys_link :: "newlib \<Rightarrow> 'd sys \<Rightarrow> u32 \<times> 'd sys" where
  "sys_link L s = fail L EMLINK s"

definition sys_lseek :: "u64" where
  "sys_lseek = 0"

definition sys_lstat :: "newlib \<Rightarrow> 'd sys \<Rightarrow> u32 \<times> 'd sys" where
  "sys_lstat L s = fail L ENOSYS s"

definition sys_open :: "'d sys \<Rightarrow> u32 \<times> 'd sys" where
  "sys_open s = (- 1, s)"

definition sys_openat :: "newlib \<Rightarrow> 'd sys \<Rightarrow> u32 \<times> 'd sys" where
  "sys_openat L s = fail L ENOSYS s"

definition sys_read :: u64 where
  "sys_read = 0"

definition sys_stat :: "newlib \<Rightarrow> addr \<Rightarrow> 'd sys \<Rightarrow> u32 \<times> 'd sys" where
  "sys_stat L st s = (0, s\<lparr>s_mem := n_set_ifchr L st (s_mem s)\<rparr>)"

definition sys_sysconf :: u64 where
  "sys_sysconf = - 1"

definition sys_times :: u64 where
  "sys_times = - 1"

definition sys_unlink :: "newlib \<Rightarrow> 'd sys \<Rightarrow> u32 \<times> 'd sys" where
  "sys_unlink L s = fail L ENOENT s"

definition sys_utime :: "newlib \<Rightarrow> 'd sys \<Rightarrow> u32 \<times> 'd sys" where
  "sys_utime L s = fail L ENOSYS s"

definition sys_wait :: "newlib \<Rightarrow> 'd sys \<Rightarrow> u32 \<times> 'd sys" where
  "sys_wait L s = fail L ECHILD s"

text \<open>\<open>while (cptr != eptr) uart0.putc(&uart0, *cptr++)\<close>.\<close>

partial_function (option) write_loop :: "'d bus \<Rightarrow> uart \<Rightarrow> mem \<Rightarrow> addr \<Rightarrow> addr \<Rightarrow> 'd \<Rightarrow> 'd option" where
  "write_loop BU uart0 m cptr eptr d =
     (if cptr \<noteq> eptr
      then Option.bind (uart_putc BU uart0 (m cptr) d) (write_loop BU uart0 m (cptr + 1) eptr)
      else Some d)"

definition sys_write :: "newlib \<Rightarrow> 'd bus \<Rightarrow> uart \<Rightarrow> u32 \<Rightarrow> addr \<Rightarrow> u64 \<Rightarrow> 'd sys \<Rightarrow> (u64 \<times> 'd sys) option" where
  "sys_write L BU uart0 file ptr len s =
     (if file \<noteq> STDOUT_FILENO \<and> file \<noteq> STDERR_FILENO then Some (- 1, s\<lparr>s_errno := n_errno L ENOSYS\<rparr>)
      else map_option (\<lambda>d. (len, s\<lparr>s_dev := d\<rparr>))
             (write_loop BU uart0 (s_mem s) ptr (ptr + len) (s_dev s)))"

definition sys_brk :: "addr \<Rightarrow> 'd sys \<Rightarrow> u32 \<times> 'd sys" where
  "sys_brk a s = (0, s\<lparr>s_brk := a\<rparr>)"

text \<open>\<open>char *new_brk = brk += incr\<close> moves the break before the test.\<close>

definition sys_sbrk :: "newlib \<Rightarrow> addr \<Rightarrow> addr \<Rightarrow> u64 \<Rightarrow> 'd sys \<Rightarrow> addr \<times> 'd sys" where
  "sys_sbrk L heap_end sp incr s =
     (let old_brk = s_brk s; s = s\<lparr>s_brk := s_brk s + incr\<rparr>; new_brk = s_brk s
      in if new_brk < sp \<and> new_brk < heap_end then (old_brk, s\<lparr>s_brk := new_brk\<rparr>)
         else (- 1, s\<lparr>s_errno := n_errno L ENOMEM\<rparr>))"

section \<open>The dispatcher\<close>

text \<open>\<open>lit\<close> is where the linker put the string constants.\<close>

definition unimplemented_syscall :: "'d bus \<Rightarrow> uart \<Rightarrow> (string \<Rightarrow> addr) \<Rightarrow> 'd sys \<Rightarrow> 'd sys option" where
  "unimplemented_syscall BU uart0 lit s =
     map_option (\<lambda>d. s\<lparr>s_dev := d\<rparr>)
       (uart_puts BU uart0 (s_mem s) (lit ''BSP: Unimplemented system call called!\<newline>'') (s_dev s))"

text \<open>An \<open>int\<close> result widened to \<open>long\<close>.\<close>

definition widen :: "u32 \<times> 'd sys \<Rightarrow> u64 \<times> 'd sys" where
  "widen = (\<lambda>(r, s). (scast r, s))"

text \<open>The result of every call but \<open>exit\<close>; \<open>a0\<close> to \<open>a2\<close> are the argument registers.\<close>

fun syscall_result :: "newlib \<Rightarrow> 'd bus \<Rightarrow> uart \<Rightarrow> (string \<Rightarrow> addr) \<Rightarrow> sysno option \<Rightarrow> u64 \<Rightarrow> u64 \<Rightarrow> u64 \<Rightarrow>
    'd sys \<Rightarrow> (u64 \<times> 'd sys) option" where
  "syscall_result L BU uart0 lit (Some SYS_read) a0 a1 a2 s = Some (sys_read, s)"
| "syscall_result L BU uart0 lit (Some SYS_write) a0 a1 a2 s = sys_write L BU uart0 (ucast a0) a1 a2 s"
| "syscall_result L BU uart0 lit (Some SYS_getpid) a0 a1 a2 s = Some (widen (sys_getpid, s))"
| "syscall_result L BU uart0 lit (Some SYS_kill) a0 a1 a2 s = Some (widen (sys_kill L s))"
| "syscall_result L BU uart0 lit (Some SYS_open) a0 a1 a2 s = Some (widen (sys_open s))"
| "syscall_result L BU uart0 lit (Some SYS_openat) a0 a1 a2 s = Some (widen (sys_openat L s))"
| "syscall_result L BU uart0 lit (Some SYS_close) a0 a1 a2 s = Some (widen (sys_close s))"
| "syscall_result L BU uart0 lit (Some SYS_lseek) a0 a1 a2 s = Some (sys_lseek, s)"
| "syscall_result L BU uart0 lit (Some SYS_brk) a0 a1 a2 s = Some (widen (sys_brk a0 s))"
| "syscall_result L BU uart0 lit (Some SYS_link) a0 a1 a2 s = Some (widen (sys_link L s))"
| "syscall_result L BU uart0 lit (Some SYS_unlink) a0 a1 a2 s = Some (widen (sys_unlink L s))"
| "syscall_result L BU uart0 lit (Some SYS_chdir) a0 a1 a2 s = Some (widen (sys_chdir L s))"
| "syscall_result L BU uart0 lit (Some SYS_getcwd) a0 a1 a2 s = Some (sys_getcwd L s)"
| "syscall_result L BU uart0 lit (Some SYS_stat) a0 a1 a2 s = Some (widen (sys_stat L a1 s))"
| "syscall_result L BU uart0 lit (Some SYS_fstat) a0 a1 a2 s = Some (widen (sys_fstat L a1 s))"
| "syscall_result L BU uart0 lit (Some SYS_lstat) a0 a1 a2 s = Some (widen (sys_lstat L s))"
| "syscall_result L BU uart0 lit (Some SYS_fstatat) a0 a1 a2 s = Some (widen (sys_fstatat L s))"
| "syscall_result L BU uart0 lit (Some SYS_access) a0 a1 a2 s = Some (widen (sys_access L s))"
| "syscall_result L BU uart0 lit (Some SYS_faccessat) a0 a1 a2 s = Some (widen (sys_faccessat L s))"
| "syscall_result L BU uart0 lit (Some SYS_gettimeofday) a0 a1 a2 s = Some (widen (sys_gettimeofday L s))"
| "syscall_result L BU uart0 lit (Some SYS_times) a0 a1 a2 s = Some (sys_times, s)"
| "syscall_result L BU uart0 lit _ a0 a1 a2 s =
     map_option (Pair (- scast (n_errno L ENOSYS))) (unimplemented_syscall BU uart0 lit s)"

definition handle_syscall :: "newlib \<Rightarrow> 'd bus \<Rightarrow> 'd bus \<Rightarrow> uart \<Rightarrow> soc_ctrl \<Rightarrow> (string \<Rightarrow> addr) \<Rightarrow> addr \<Rightarrow>
    'd sys \<Rightarrow> 'd sys outcome option" where
  "handle_syscall L BU BC uart0 soc_ctrl0 lit ctx s =
     (let a0 = load64 (s_mem s) (ctx_gpr ctx REG_A0);
          a1 = load64 (s_mem s) (ctx_gpr ctx REG_A1);
          a2 = load64 (s_mem s) (ctx_gpr ctx REG_A2);
          syscall_id = load64 (s_mem s) (ctx_gpr ctx REG_A7);
          n = n_sysno L syscall_id
      in if n = Some SYS_exit then map_option Halted (sys_exit BC soc_ctrl0 (ucast a0) s)
         else map_option (\<lambda>(ret, s). Returned (s\<lparr>s_mem := store64 (s_mem s) (ctx_gpr ctx REG_A0) ret\<rparr>))
                (syscall_result L BU uart0 lit n a0 a1 a2 s))"

text \<open>The low half word of the instruction at \<open>mepc\<close> tells its length.\<close>

definition ctx_advance_mepc :: "addr \<Rightarrow> mem \<Rightarrow> mem" where
  "ctx_advance_mepc ctx m =
     (let pc = load64 m (ctx_mepc ctx)
      in store64 m (ctx_mepc ctx) (pc + (if m pc AND 3 = 3 then 4 else 2)))"

section \<open>Writing to the console\<close>

lemma write_loop_wire:
  assumes "u_bound u" and "u_regs u = UART_BASE"
  shows "n < 2 ^ 64 \<Longrightarrow> tx_ready d \<Longrightarrow>
    \<exists>d'. write_loop (uart_bus lat) u m p (p + of_nat n) d = Some d' \<and> tx_ready d' \<and> wire d' = wire d @ bytes_at m p n"
proof (induction n arbitrary: p d)
  case 0
  then show ?case by (simp add: write_loop.simps)
next
  case (Suc n)
  have ne: "p \<noteq> p + of_nat (Suc n)" using word64_of_nat_inj [of "Suc n" 0] Suc.prems(1) by (simp del: of_nat_Suc)
  obtain d1 where d1: "uart_op_putc (uart_bus lat) u (m p) d = Some d1" "tx_ready d1" "wire d1 = wire d @ [m p]"
    using uart_op_putc_wire [OF Suc.prems(2) assms(2)] .
  have e: "p + of_nat (Suc n) = p + 1 + of_nat n" by simp
  show ?case unfolding e using Suc.IH [of d1 "p + 1"] Suc.prems(1) d1 assms(1) ne [unfolded e]
    by (subst write_loop.simps) (auto simp: uart_putc_def bytes_at_Suc)
qed

lemma sys_write_wire:
  assumes "u_bound u" and "u_regs u = UART_BASE" and "tx_ready (s_dev s)" and "file = STDOUT_FILENO \<or> file = STDERR_FILENO"
  obtains d' where "sys_write L (uart_bus lat) u file p len s = Some (len, s\<lparr>s_dev := d'\<rparr>)" "tx_ready d'"
    "wire d' = wire (s_dev s) @ bytes_at (s_mem s) p (unat len)"
proof -
  have "\<exists>d'. write_loop (uart_bus lat) u (s_mem s) p (p + of_nat (unat len)) (s_dev s) = Some d' \<and> tx_ready d' \<and>
      wire d' = wire (s_dev s) @ bytes_at (s_mem s) p (unat len)"
    by (rule write_loop_wire [OF assms(1,2) _ assms(3)]) simp
  then show ?thesis using that assms(4) by (auto simp: sys_write_def)
qed

section \<open>The heap\<close>

text \<open>Below the limits \<open>sbrk\<close> hands out consecutive blocks.\<close>

lemma sbrk_ok:
  assumes "s_brk s + incr < sp" and "s_brk s + incr < heap_end"
  shows "sys_sbrk L heap_end sp incr s = (s_brk s, s\<lparr>s_brk := s_brk s + incr\<rparr>)"
  using assms by (simp add: sys_sbrk_def)

text \<open>A request that does not fit is answered with \<open>-1\<close> and \<open>ENOMEM\<close>, but the break has moved
  all the same: after it every further request, of any size that does not wrap the break
  around, even of 0 bytes, fails too, although the heap has the space it had before.\<close>

theorem sbrk_failure_sticks:
  assumes "heap_end \<le> s_brk s + incr" and "unat (s_brk s + incr) + unat incr' < 2 ^ 64"
  shows "\<exists>s1 s2. sys_sbrk L heap_end sp incr s = (- 1, s1) \<and> s_errno s1 = n_errno L ENOMEM \<and>
    s_brk s1 = s_brk s + incr \<and> sys_sbrk L heap_end sp incr' s1 = (- 1, s2)"
proof -
  let ?b = "s_brk s + incr"
  have "\<not> ?b < heap_end" using assms(1) by simp
  then have 1: "sys_sbrk L heap_end sp incr s = (- 1, s\<lparr>s_brk := ?b, s_errno := n_errno L ENOMEM\<rparr>)"
    by (simp add: sys_sbrk_def)
  have "unat (?b + incr') = unat ?b + unat incr'" using assms(2) by (simp add: unat_word_ariths)
  then have "\<not> ?b + incr' < heap_end" using assms(1) by (simp add: word_less_nat_alt word_le_nat_alt)
  then show ?thesis unfolding 1 by (simp add: sys_sbrk_def)
qed

definition demo_libc :: newlib where
  "demo_libc = \<lparr>n_errno = (\<lambda>e. if e = ENOMEM then 12 else 88), n_sysno = (\<lambda>n. if n = 64 then Some SYS_write else None),
     n_set_ifchr = (\<lambda>a m. m)\<rparr>"

lemma sbrk_failure_sticks_witness:
  "\<exists>s1 s2. sys_sbrk demo_libc 0x80100000 0x80200000 0x200000
       \<lparr>s_errno = 0, s_brk = 0x80000000, s_mem = (\<lambda>_. 0), s_dev = ()\<rparr> = (- 1, s1) \<and> s_errno s1 = 12 \<and>
     s_brk s1 = 0x80200000 \<and> sys_sbrk demo_libc 0x80100000 0x80200000 0 s1 = (- 1, s2)"
  using sbrk_failure_sticks [where heap_end = "0x80100000" and s = "\<lparr>s_errno = 0, s_brk = 0x80000000, s_mem = (\<lambda>_. 0), s_dev = ()\<rparr>"
      and incr = "0x200000" and incr' = 0 and L = demo_libc and sp = "0x80200000"]
  by (simp add: demo_libc_def)

end
