(* ===== verification/Trap.thy ===== *)
theory Trap
  imports Syscalls Plic Clint
begin

text \<open>
  The trap path \<open>software/sdk/src/handlers.S\<close> and \<open>vectors.S\<close>: the save and restore macros as
  instruction sequences on the registers of the hart and the memory, the dispatch of exceptions
  and the interrupt entries. A call into C code leaves the stack pointer as it was and the other
  registers arbitrary (\<open>junk\<close>), as the calling convention has it. Of \<open>mstatus\<close> only the interrupt
  enable bits MIE (3) and MPIE (7) take part in entry and return.
\<close>

section \<open>The hart\<close>

datatype csr = Mcause | Mstatus | Mepc

record hart =
  h_x :: "nat \<Rightarrow> u64"
  h_csr :: "csr \<Rightarrow> u64"
  h_pc :: addr

datatype insn = ADDI nat nat u64 | SD nat nat nat | LD nat nat nat | CSRR nat csr | CSRW csr nat

fun exec1 :: "insn \<Rightarrow> hart \<times> mem \<Rightarrow> hart \<times> mem" where
  "exec1 (ADDI rd rs imm) (h, m) = (h\<lparr>h_x := (h_x h)(rd := h_x h rs + imm)\<rparr>, m)"
| "exec1 (SD rs off base) (h, m) = (h, store64 m (h_x h base + of_nat off) (h_x h rs))"
| "exec1 (LD rd off base) (h, m) = (h\<lparr>h_x := (h_x h)(rd := load64 m (h_x h base + of_nat off))\<rparr>, m)"
| "exec1 (CSRR rd c) (h, m) = (h\<lparr>h_x := (h_x h)(rd := h_csr h c)\<rparr>, m)"
| "exec1 (CSRW c rs) (h, m) = (h\<lparr>h_csr := (h_csr h)(c := h_x h rs)\<rparr>, m)"

definition exec :: "insn list \<Rightarrow> hart \<times> mem \<Rightarrow> hart \<times> mem" where
  "exec is s = fold exec1 is s"

text \<open>The macros; \<open>t0\<close> is register 5.\<close>

definition SAVE_CTX :: "insn list" where
  "SAVE_CTX =
     [ADDI 2 2 (- of_nat CTX_SIZE), SD 1 (CTX_GPR_OFF 1) 2, ADDI 5 2 (of_nat CTX_SIZE), SD 5 (CTX_GPR_OFF 2) 2] @
     map (\<lambda>i. SD i (CTX_GPR_OFF i) 2) [3..<32] @
     [CSRR 5 Mcause, SD 5 CTX_MCAUSE_OFF 2, CSRR 5 Mstatus, SD 5 CTX_MSTATUS_OFF 2,
      CSRR 5 Mepc, SD 5 CTX_MEPC_OFF 2]"

definition RESTORE_CTX :: "insn list" where
  "RESTORE_CTX =
     [LD 5 CTX_MSTATUS_OFF 2, CSRW Mstatus 5, LD 5 CTX_MEPC_OFF 2, CSRW Mepc 5, LD 1 (CTX_GPR_OFF 1) 2] @
     map (\<lambda>i. LD i (CTX_GPR_OFF i) 2) [3..<32] @
     [ADDI 2 2 (of_nat CTX_SIZE)]"

text \<open>What the hardware does on a trap and on \<open>mret\<close>, and a call into C.\<close>

definition trap_enter :: "u64 \<Rightarrow> hart \<Rightarrow> hart" where
  "trap_enter cause h =
     (let ms = h_csr h Mstatus
      in h\<lparr>h_csr := (h_csr h)(Mcause := cause, Mepc := h_pc h,
             Mstatus := (if bit ms 3 then set_bit 7 else unset_bit 7) (unset_bit 3 ms))\<rparr>)"

definition mret :: "hart \<Rightarrow> hart" where
  "mret h =
     (let ms = h_csr h Mstatus
      in h\<lparr>h_pc := h_csr h Mepc,
           h_csr := (h_csr h)(Mstatus := set_bit 7 (if bit ms 7 then set_bit 3 ms else unset_bit 3 ms))\<rparr>)"

definition c_call :: "(nat \<Rightarrow> u64) \<Rightarrow> hart \<Rightarrow> hart" where
  "c_call junk h = h\<lparr>h_x := junk(2 := h_x h 2)\<rparr>"

section \<open>Vectors and entries\<close>

datatype entry = U_sw_irq | No_irq | M_software_irq | M_timer_irq | M_external_irq | M_fast_irq nat

definition vector_table :: "entry list" where
  "vector_table =
     [U_sw_irq, No_irq, No_irq, M_software_irq, No_irq, No_irq, No_irq, M_timer_irq,
      No_irq, No_irq, No_irq, M_external_irq, No_irq, No_irq, No_irq, No_irq] @ map M_fast_irq [0..<16]"

text \<open>Vectored mode: exceptions go to the base, interrupt \<open>c\<close> to entry \<open>c\<close>; the top bit of the
  cause tells them apart.\<close>

definition trap_vector :: "u64 \<Rightarrow> entry option" where
  "trap_vector cause =
     (if bit cause 63 then (let c = unat (unset_bit 63 cause) in if c < 32 then Some (vector_table ! c) else None)
      else Some (vector_table ! 0))"

text \<open>A bus of the devices as seen from the whole state, and the console's \<open>puts\<close> on it.\<close>

definition on_sys :: "'d bus \<Rightarrow> 'd sys bus" where
  "on_sys B =
     \<lparr>bus_rd = (\<lambda>n a s. let (v, d) = bus_rd B n a (s_dev s) in (v, s\<lparr>s_dev := d\<rparr>)),
      bus_wr = (\<lambda>n a v s. s\<lparr>s_dev := bus_wr B n a v (s_dev s)\<rparr>),
      bus_idle = (\<lambda>n s. s\<lparr>s_dev := bus_idle B n (s_dev s)\<rparr>)\<rparr>"

definition puts_sys :: "'d bus \<Rightarrow> uart \<Rightarrow> (string \<Rightarrow> addr) \<Rightarrow> string \<Rightarrow> 'd sys \<Rightarrow> 'd sys option" where
  "puts_sys BU uart0 lit msg s =
     map_option (\<lambda>(r, d). s\<lparr>s_dev := d\<rparr>) (puts BU uart0 (s_mem s) (lit msg) (s_dev s))"

text \<open>\<open>SAVE_CTX; call f; RESTORE_CTX; mret\<close>.\<close>

definition irq_entry :: "(nat \<Rightarrow> u64) \<Rightarrow> ('d sys \<Rightarrow> 'd sys option) \<Rightarrow> hart \<times> 'd sys \<Rightarrow> (hart \<times> 'd sys) option" where
  "irq_entry junk f = (\<lambda>(h, s).
     let (h, m) = exec SAVE_CTX (h, s_mem s)
     in map_option (\<lambda>s. let (h, m) = exec RESTORE_CTX (c_call junk h, s_mem s) in (mret h, s\<lparr>s_mem := m\<rparr>))
          (f (s\<lparr>s_mem := m\<rparr>)))"

definition m_external_irq_handler where
  "m_external_irq_handler junk B run spurious plic0 =
     irq_entry junk (plic_handle_m_ext_irq (on_sys B) run spurious plic0)"

definition m_timer_irq_handler where
  "m_timer_irq_handler junk run unhandled clint0 =
     irq_entry junk (clint_handle_m_timer_irq run unhandled clint0)"

definition m_software_irq_handler where
  "m_software_irq_handler junk B run unhandled clint0 =
     irq_entry junk (clint_handle_m_sw_irq (on_sys B) run unhandled clint0)"

text \<open>The default callbacks of the interrupt drivers print a message.\<close>

definition plic_default_isr :: "'d bus \<Rightarrow> uart \<Rightarrow> (string \<Rightarrow> addr) \<Rightarrow> 'd sys \<Rightarrow> 'd sys option" where
  "plic_default_isr BU uart0 lit s =
     map_option (\<lambda>d. s\<lparr>s_dev := d\<rparr>) (uart_puts BU uart0 (s_mem s) (lit ''BSP: spurious PLIC IRQ\<newline>'') (s_dev s))"

definition clint_default_cb :: "'d bus \<Rightarrow> uart \<Rightarrow> (string \<Rightarrow> addr) \<Rightarrow> 'd sys \<Rightarrow> 'd sys option" where
  "clint_default_cb BU uart0 lit s =
     map_option (\<lambda>d. s\<lparr>s_dev := d\<rparr>) (uart_puts BU uart0 (s_mem s) (lit ''BSP: unhandled CLINT IRQ\<newline>'') (s_dev s))"

text \<open>\<open>__no_irq_handler\<close> prints its message again and again.\<close>

partial_function (option) no_irq_handler :: "'d bus \<Rightarrow> uart \<Rightarrow> (string \<Rightarrow> addr) \<Rightarrow> 'd sys \<Rightarrow> 'd sys option" where
  "no_irq_handler BU uart0 lit s =
     Option.bind (puts_sys BU uart0 lit ''BSP: no exception handler installed\<newline>'' s) (no_irq_handler BU uart0 lit)"

section \<open>Synchronous traps\<close>

definition EXCEPTION_ILLEGAL_INSN :: u64 where [c_const]: "EXCEPTION_ILLEGAL_INSN = 2"
definition EXCEPTION_BREAKPOINT :: u64 where [c_const]: "EXCEPTION_BREAKPOINT = 3"
definition EXCEPTION_ECALL_M :: u64 where [c_const]: "EXCEPTION_ECALL_M = 11"

definition advance :: "addr \<Rightarrow> 'd sys \<Rightarrow> 'd sys" where
  "advance ctx s = s\<lparr>s_mem := ctx_advance_mepc ctx (s_mem s)\<rparr>"

definition exception_body :: "newlib \<Rightarrow> 'd bus \<Rightarrow> 'd bus \<Rightarrow> uart \<Rightarrow> soc_ctrl \<Rightarrow> (string \<Rightarrow> addr) \<Rightarrow> addr \<Rightarrow>
    'd sys \<Rightarrow> 'd sys outcome option" where
  "exception_body L BU BC uart0 soc_ctrl0 lit sp s =
     (let t0 = load64 (s_mem s) (sp + of_nat CTX_MCAUSE_OFF)
      in if t0 = EXCEPTION_ILLEGAL_INSN
         then map_option (\<lambda>s. Returned (advance sp s)) (puts_sys BU uart0 lit ''BSP: illegal instruction exception handler entered\<newline>'' s)
         else if t0 = EXCEPTION_ECALL_M
         then map_option (\<lambda>r. case r of Returned s \<Rightarrow> Returned (advance sp s) | Halted s \<Rightarrow> Halted s)
                (handle_syscall L BU BC uart0 soc_ctrl0 lit sp s)
         else if t0 = EXCEPTION_BREAKPOINT
         then map_option (\<lambda>s. Returned (advance sp s)) (puts_sys BU uart0 lit ''BSP: ebreak exception handler entered\<newline>'' s)
         else map_option Returned (puts_sys BU uart0 lit ''BSP: unknown exception handler entered\<newline>'' s))"

definition u_sw_irq_handler :: "newlib \<Rightarrow> 'd bus \<Rightarrow> 'd bus \<Rightarrow> uart \<Rightarrow> soc_ctrl \<Rightarrow> (string \<Rightarrow> addr) \<Rightarrow> (nat \<Rightarrow> u64) \<Rightarrow>
    hart \<times> 'd sys \<Rightarrow> (hart \<times> 'd sys) outcome option" where
  "u_sw_irq_handler L BU BC uart0 soc_ctrl0 lit junk = (\<lambda>(h, s).
     let (h, m) = exec SAVE_CTX (h, s_mem s)
     in map_option (\<lambda>r. case r of
            Halted s \<Rightarrow> Halted (h, s)
          | Returned s \<Rightarrow> (let (h, m) = exec RESTORE_CTX (c_call junk h, s_mem s) in Returned (mret h, s\<lparr>s_mem := m\<rparr>)))
          (exception_body L BU BC uart0 soc_ctrl0 lit (h_x h 2) (s\<lparr>s_mem := m\<rparr>)))"

section \<open>Saving and restoring\<close>

lemma exec_Nil [simp]: "exec [] s = s" and exec_Cons [simp]: "exec (i # is) s = exec is (exec1 i s)"
  and exec_append [simp]: "exec (is @ js) s = exec js (exec is s)"
  by (simp_all add: exec_def)

lemma exec_SDs:
  "exec (map (\<lambda>i. SD i (CTX_GPR_OFF i) 2) is) (h, m) =
     (h, stores m (h_x h 2) (map (\<lambda>i. (CTX_GPR_OFF i, h_x h i)) is))"
  by (induction "is" arbitrary: m) (simp_all add: stores_def)

lemma exec_LDs:
  "2 \<notin> set is \<Longrightarrow> exec (map (\<lambda>i. LD i (CTX_GPR_OFF i) 2) is) (h, m) =
     (h\<lparr>h_x := (\<lambda>r. if r \<in> set is then load64 m (h_x h 2 + of_nat (CTX_GPR_OFF r)) else h_x h r)\<rparr>, m)"
proof (induction "is" arbitrary: h)
  case (Cons i js)
  then show ?case by (auto simp: fun_eq_iff)
qed simp

definition frame :: "hart \<Rightarrow> (nat \<times> u64) list" where
  "frame h = (CTX_GPR_OFF 1, h_x h 1) # (CTX_GPR_OFF 2, h_x h 2) #
     map (\<lambda>i. (CTX_GPR_OFF i, if i = 5 then h_x h 2 else h_x h i)) [3..<32] @
     [(CTX_MCAUSE_OFF, h_csr h Mcause), (CTX_MSTATUS_OFF, h_csr h Mstatus), (CTX_MEPC_OFF, h_csr h Mepc)]"

lemma save_ctx:
  assumes "exec SAVE_CTX (h, m) = (h', m')"
  shows "h_x h' 2 = h_x h 2 - of_nat CTX_SIZE" "m' = stores m (h_x h 2 - of_nat CTX_SIZE) (frame h)"
    "h_csr h' = h_csr h"
proof -
  let ?h1 = "h\<lparr>h_x := (h_x h)(2 := h_x h 2 - of_nat CTX_SIZE, 5 := h_x h 2)\<rparr>"
  have e: "(- of_nat CTX_SIZE :: u64) + of_nat CTX_SIZE = 0" by simp
  have eq: "map (\<lambda>i. (CTX_GPR_OFF i, if i = 5 then h_x h 2 else ((h_x h)(2 := h_x h 2 - of_nat CTX_SIZE)) i)) [3..<32] = map (\<lambda>i. (CTX_GPR_OFF i, if i = 5 then h_x h 2 else h_x h i)) [3..<32]"
    by (rule map_cong) auto
  have "exec SAVE_CTX (h, m) = (?h1\<lparr>h_x := (h_x ?h1)(5 := h_csr h Mepc)\<rparr>, stores m (h_x h 2 - of_nat CTX_SIZE) (frame h))"
    unfolding SAVE_CTX_def exec_append frame_def
    by (simp add: exec_SDs e eq stores_def del: upt_Suc upt_rec_numeral)
  then show "h_x h' 2 = h_x h 2 - of_nat CTX_SIZE" "m' = stores m (h_x h 2 - of_nat CTX_SIZE) (frame h)"
    "h_csr h' = h_csr h" using assms by auto
qed

lemma frame_spaced: "spaced (frame h)"
proof -
  have "map fst (frame h) = map (\<lambda>i. i * 8) ([1..<32] @ [32, 33, 34])"
    by (simp add: frame_def c_const comp_def upt_conv_Cons del: upt_Suc)
  moreover have "distinct (map (\<lambda>i :: nat. i * 8) ([1..<32] @ [32, 33, 34]))" by (auto simp add: distinct_map inj_on_def)
  moreover have "\<forall>k \<in> set (map (\<lambda>i :: nat. i * 8) ([1..<32] @ [32, 33, 34])). k mod 8 = 0 \<and> k < 2 ^ 20" by auto
  ultimately show ?thesis unfolding spaced_def by (metis list.set_map)
qed

lemma frame_bound: "\<forall>k \<in> fst ` set (frame h). k + 8 \<le> CTX_SIZE"
  by (auto simp: frame_def c_const)

lemma frame_loads:
  shows "r \<in> {1..<32} \<Longrightarrow> load64 (stores m f (frame h)) (f + of_nat (CTX_GPR_OFF r)) = (if r = 5 then h_x h 2 else h_x h r)"
    and "load64 (stores m f (frame h)) (f + of_nat CTX_MCAUSE_OFF) = h_csr h Mcause"
    and "load64 (stores m f (frame h)) (f + of_nat CTX_MSTATUS_OFF) = h_csr h Mstatus"
    and "load64 (stores m f (frame h)) (f + of_nat CTX_MEPC_OFF) = h_csr h Mepc"
proof -
  assume r: "r \<in> {1..<32}"
  have "(CTX_GPR_OFF r, if r = 5 then h_x h 2 else h_x h r) \<in> set (frame h)"
  proof -
    consider "r = 1" | "r = 2" | "3 \<le> r" using r by fastforce
    then show ?thesis using r by cases (auto simp: frame_def simp del: upt_Suc upt_rec_numeral)
  qed
  then show "load64 (stores m f (frame h)) (f + of_nat (CTX_GPR_OFF r)) = (if r = 5 then h_x h 2 else h_x h r)"
    by (rule load64_stores [OF frame_spaced])
qed (rule load64_stores [OF frame_spaced], simp add: frame_def del: upt_Suc upt_rec_numeral)+

lemma restore_ctx:
  assumes "exec RESTORE_CTX (h, m) = (h', m')"
  shows "m' = m" "h_csr h' Mstatus = load64 m (h_x h 2 + of_nat CTX_MSTATUS_OFF)"
    "h_csr h' Mepc = load64 m (h_x h 2 + of_nat CTX_MEPC_OFF)" "h_x h' 2 = h_x h 2 + of_nat CTX_SIZE"
    "r \<in> {1..<32} - {2} \<Longrightarrow> h_x h' r = load64 m (h_x h 2 + of_nat (CTX_GPR_OFF r))"
proof -
  let ?v = "\<lambda>k. load64 m (h_x h 2 + of_nat k)"
  have e: "exec RESTORE_CTX (h, m) = (h\<lparr>h_csr := (h_csr h)(Mstatus := ?v CTX_MSTATUS_OFF, Mepc := ?v CTX_MEPC_OFF),
     h_x := (\<lambda>r. if r = 2 then h_x h 2 + of_nat CTX_SIZE else if r \<in> {3..<32} then ?v (CTX_GPR_OFF r)
        else if r = 1 then ?v (CTX_GPR_OFF 1) else h_x h r)\<rparr>, m)"
    unfolding RESTORE_CTX_def exec_append
    by (auto simp: exec_LDs fun_eq_iff simp del: upt_Suc upt_rec_numeral)
  show "m' = m" "h_csr h' Mstatus = ?v CTX_MSTATUS_OFF" "h_csr h' Mepc = ?v CTX_MEPC_OFF" "h_x h' 2 = h_x h 2 + of_nat CTX_SIZE"
    using assms unfolding e by auto
  assume "r \<in> {1..<32} - {2}"
  then have "r = 1 \<or> r \<in> {3..<32}" "r \<noteq> 2" by auto
  then show "h_x h' r = ?v (CTX_GPR_OFF r)" using assms unfolding e by auto
qed

text \<open>What a handler may not touch: the frame below the interrupted stack pointer.\<close>

definition same_block :: "mem \<Rightarrow> mem \<Rightarrow> addr \<Rightarrow> nat \<Rightarrow> bool" where
  "same_block m m' a n \<longleftrightarrow> (\<forall>y. unat (y - a) < n \<longrightarrow> m' y = m y)"

lemma same_block_load64:
  assumes "same_block m m' a n" and "k + 8 \<le> n" and "n < 2 ^ 20"
  shows "load64 m' (a + of_nat k) = load64 m (a + of_nat k)"
proof (rule load64_cong)
  fix i :: nat assume "i < 8"
  have "a + of_nat k + of_nat i - a = of_nat (k + i)" by simp
  moreover have "unat (of_nat (k + i) :: addr) = k + i" by (rule unat_of_nat64) (use assms \<open>i < 8\<close> in simp)
  ultimately have "unat (a + of_nat k + of_nat i - a) = k + i" by (simp only:)
  then show "m' (a + of_nat k + of_nat i) = m (a + of_nat k + of_nat i)"
    using assms \<open>i < 8\<close> by (simp add: same_block_def)
qed

lemma mret_mie: "bit ms 3 \<Longrightarrow> h_csr h Mstatus = set_bit 7 (unset_bit 3 ms) \<Longrightarrow> bit (h_csr (mret h) Mstatus) 3"
  by (simp add: mret_def Let_def bit_simps)

section \<open>Properties\<close>

text \<open>C31. An interrupt taken with interrupts enabled, served by a C handler that returns and leaves
  the saved frame alone, resumes the interrupted program where it was, with interrupts enabled
  and every register as before except \<open>t0\<close>, which holds the old stack pointer: \<open>SAVE_CTX\<close> uses \<open>t0\<close>
  as a temporary before it has saved it.\<close>

theorem interrupt_resumes:
  assumes "irq_entry junk f (trap_enter cause h, s) = Some (h', s')" and "bit (h_csr h Mstatus) 3"
    and "\<And>s1 s2. f s1 = Some s2 \<Longrightarrow> same_block (s_mem s1) (s_mem s2) (h_x h 2 - of_nat CTX_SIZE) CTX_SIZE"
  shows "h_pc h' = h_pc h \<and> bit (h_csr h' Mstatus) 3 \<and>
    (\<forall>r \<in> {1..<32}. h_x h' r = (if r = 5 then h_x h 2 else h_x h r))"
proof -
  let ?h = "trap_enter cause h" and ?f = "h_x h 2 - of_nat CTX_SIZE"
  have x: "h_x ?h = h_x h" "h_csr ?h Mepc = h_pc h" "h_csr ?h Mstatus = set_bit 7 (unset_bit 3 (h_csr h Mstatus))"
    using assms(2) by (simp_all add: trap_enter_def Let_def)
  obtain h1 m1 where sv: "exec SAVE_CTX (?h, s_mem s) = (h1, m1)" by fastforce
  note S = save_ctx [OF sv, unfolded x(1)]
  obtain s2 where s2: "f (s\<lparr>s_mem := m1\<rparr>) = Some s2"
    and e: "(h', s') = (let (h, m) = exec RESTORE_CTX (c_call junk h1, s_mem s2) in (mret h, s2\<lparr>s_mem := m\<rparr>))"
    using assms(1) by (auto simp: irq_entry_def sv)
  obtain h2 m2 where rs: "exec RESTORE_CTX (c_call junk h1, s_mem s2) = (h2, m2)" by fastforce
  have sp: "h_x (c_call junk h1) 2 = ?f" using S(1) by (simp add: c_call_def)
  note R = restore_ctx [OF rs, unfolded sp]
  have h': "h' = mret h2" using e by (simp add: rs)
  have same: "same_block m1 (s_mem s2) ?f CTX_SIZE" using assms(3) [OF s2] by simp
  have ld: "load64 (s_mem s2) (?f + of_nat k) = load64 m1 (?f + of_nat k)" if "k + 8 \<le> CTX_SIZE" for k
    by (rule same_block_load64 [OF same that]) (simp add: CTX_SIZE_def)
  have L: "load64 (s_mem s2) (?f + of_nat CTX_MSTATUS_OFF) = h_csr ?h Mstatus"
    "load64 (s_mem s2) (?f + of_nat CTX_MEPC_OFF) = h_csr ?h Mepc"
    by (subst ld, simp add: c_const, simp only: S(2) frame_loads)+
  have "h_pc h' = h_pc h" using R(3) L(2) x(2) by (simp add: h' mret_def Let_def)
  moreover have "bit (h_csr h' Mstatus) 3" unfolding h'
    by (rule mret_mie [OF assms(2)]) (simp add: R(2) L(1) x(3))
  moreover have "h_x h' r = (if r = 5 then h_x h 2 else h_x h r)" if r: "r \<in> {1..<32}" for r
  proof (cases "r = 2")
    case True
    then show ?thesis using R(4) by (simp add: h' mret_def Let_def)
  next
    case False
    then have "h_x h' r = load64 (s_mem s2) (?f + of_nat (CTX_GPR_OFF r))"
      using R(5) r by (simp add: h' mret_def Let_def)
    also have "\<dots> = load64 m1 (?f + of_nat (CTX_GPR_OFF r))"
      by (rule ld) (use r in \<open>simp add: c_const\<close>)
    also have "\<dots> = (if r = 5 then h_x h 2 else h_x h r)" using frame_loads(1) [OF r, of m1] r
      unfolding S(2) by (simp add: frame_loads x(1))
    finally show ?thesis .
  qed
  ultimately show ?thesis by blast
qed

lemma bytes_at_same: "(\<And>i. i < n \<Longrightarrow> m' (p + of_nat i) = m (p + of_nat i)) \<Longrightarrow> bytes_at m' p n = bytes_at m p n"
  by (simp add: bytes_at_def)

lemma frame_outside:
  "CTX_SIZE \<le> unat (y - f) \<Longrightarrow> stores m f (frame h) y = m y"
  by (rule stores_outside [OF frame_bound]) (simp_all add: CTX_SIZE_def)

lemma frame_store_outside:
  assumes "k + 8 \<le> CTX_SIZE" and "CTX_SIZE \<le> unat (y - f)"
  shows "store64 m (f + of_nat k) v y = m y"
  using stores_outside [of "[(k, v)]" CTX_SIZE y f m] assms by (simp add: stores_def CTX_SIZE_def)

text \<open>An exception whose handler returns: the frame, as the handler left it, is what the program resumes with.\<close>

lemma exception_returns:
  fixes h :: hart and s :: "'d sys"
  defines "f \<equiv> h_x h 2 - of_nat CTX_SIZE"
  assumes "exception_body L BU BC u c lit f (s\<lparr>s_mem := stores (s_mem s) f (frame (trap_enter cause h))\<rparr>) = Some (Returned s2)"
  shows "\<exists>h'. u_sw_irq_handler L BU BC u c lit junk (trap_enter cause h, s) = Some (Returned (h', s2)) \<and>
    h_pc h' = load64 (s_mem s2) (f + of_nat CTX_MEPC_OFF) \<and> h_x h' 2 = h_x h 2 \<and>
    (\<forall>r \<in> {1..<32} - {2}. h_x h' r = load64 (s_mem s2) (f + of_nat (CTX_GPR_OFF r)))"
proof -
  let ?h = "trap_enter cause h"
  have x: "h_x ?h = h_x h" by (simp add: trap_enter_def Let_def)
  obtain h1 m1 where sv: "exec SAVE_CTX (?h, s_mem s) = (h1, m1)" by fastforce
  note S = save_ctx [OF sv, unfolded x, folded f_def]
  obtain h2 m2 where rs: "exec RESTORE_CTX (c_call junk h1, s_mem s2) = (h2, m2)" by fastforce
  have sp: "h_x (c_call junk h1) 2 = f" using S(1) by (simp add: c_call_def)
  note R = restore_ctx [OF rs, unfolded sp]
  have e: "u_sw_irq_handler L BU BC u c lit junk (?h, s) = Some (Returned (mret h2, s2))"
    using assms(2) rs R(1) by (simp add: u_sw_irq_handler_def sv S(1,2) Let_def)
  have "h_pc (mret h2) = load64 (s_mem s2) (f + of_nat CTX_MEPC_OFF)" "h_x (mret h2) 2 = h_x h 2"
    using R(3,4) by (simp_all add: mret_def Let_def f_def)
  moreover have "h_x (mret h2) r = load64 (s_mem s2) (f + of_nat (CTX_GPR_OFF r))" if "r \<in> {1..<32} - {2}" for r
    using R(5) [OF that] by (simp add: mret_def Let_def)
  ultimately show ?thesis using e by blast
qed

lemma trap_exception: "trap_vector EXCEPTION_ECALL_M = Some U_sw_irq"
  by (simp add: trap_vector_def EXCEPTION_ECALL_M_def vector_table_def)

text \<open>C30. A \<open>write\<close> system call to the console from beginning to end: the trap vector leads to the
  exception entry, the handler prints exactly the bytes of the buffer, and the program resumes
  after the \<open>ecall\<close> with the length in \<open>a0\<close> and every other register but \<open>t0\<close> as before.\<close>

theorem ecall_write:
  fixes h :: hart and s :: "uart_dev sys"
  defines "f \<equiv> h_x h 2 - of_nat CTX_SIZE"
  assumes "u_bound u" and "u_regs u = UART_BASE" and "tx_ready (s_dev s)"
    and "n_sysno L (h_x h 17) = Some SYS_write" and "h_x h 10 = 1"
    and "apart (h_x h 11) (unat (h_x h 12)) f CTX_SIZE"
    and "s_mem s (h_pc h) AND 3 = 3" and "CTX_SIZE \<le> unat (h_pc h - f)"
  shows "\<exists>h' s'. trap_vector EXCEPTION_ECALL_M = Some U_sw_irq \<and>
    u_sw_irq_handler L (uart_bus lat) BC u c lit junk (trap_enter EXCEPTION_ECALL_M h, s) = Some (Returned (h', s')) \<and>
    h_pc h' = h_pc h + 4 \<and>
    (\<forall>r \<in> {1..<32}. h_x h' r = (if r = 10 then h_x h 12 else if r = 5 then h_x h 2 else h_x h r)) \<and>
    tx_out (s_dev s') @ tx_fifo (s_dev s') =
      tx_out (s_dev s) @ tx_fifo (s_dev s) @ bytes_at (s_mem s) (h_x h 11) (unat (h_x h 12))"
proof -
  let ?h = "trap_enter EXCEPTION_ECALL_M h"
  have x: "h_x ?h = h_x h" "h_csr ?h Mepc = h_pc h" "h_csr ?h Mcause = EXCEPTION_ECALL_M"
    by (simp_all add: trap_enter_def Let_def)
  obtain h1 m1 where sv: "exec SAVE_CTX (?h, s_mem s) = (h1, m1)" by fastforce
  note S = save_ctx [OF sv, unfolded x(1), folded f_def]
  have out1: "m1 y = s_mem s y" if "CTX_SIZE \<le> unat (y - f)" for y
    unfolding S(2) using that by (rule frame_outside)
  have gpr: "load64 m1 (ctx_gpr f r) = (if r = 5 then h_x h 2 else h_x h r)" if "r \<in> {1..<32}" for r
    unfolding S(2) trap_context_layout frame_loads(1) [OF that] x(1) ..
  have regs: "load64 m1 (ctx_gpr f REG_A0) = 1" "load64 m1 (ctx_gpr f REG_A1) = h_x h 11"
    "load64 m1 (ctx_gpr f REG_A2) = h_x h 12" "load64 m1 (ctx_gpr f REG_A7) = h_x h 17"
    by (simp_all add: gpr c_const assms(6))
  have cause: "load64 m1 (f + of_nat CTX_MCAUSE_OFF) = EXCEPTION_ECALL_M" unfolding S(2) frame_loads(2) x(3) ..
  obtain d' where w: "sys_write L (uart_bus lat) u 1 (h_x h 11) (h_x h 12) (s\<lparr>s_mem := m1\<rparr>) =
       Some (h_x h 12, s\<lparr>s_mem := m1, s_dev := d'\<rparr>)"
    "wire d' = wire (s_dev s) @ bytes_at m1 (h_x h 11) (unat (h_x h 12))"
    using sys_write_wire [OF assms(2,3), of "s\<lparr>s_mem := m1\<rparr>" 1 L lat "h_x h 11" "h_x h 12"] assms(4)
    by (auto simp: STDOUT_FILENO_def)
  define m2 where "m2 = store64 m1 (f + of_nat (CTX_GPR_OFF 10)) (h_x h 12)"
  define m3 where "m3 = store64 m2 (f + of_nat CTX_MEPC_OFF) (h_pc h + 4)"
  have st: "store64 m1 (ctx_gpr f REG_A0) (h_x h 12) = m2" by (simp add: m2_def trap_context_layout REG_A0_def)
  have hs: "handle_syscall L (uart_bus lat) BC u c lit f (s\<lparr>s_mem := m1\<rparr>) = Some (Returned (s\<lparr>s_mem := m2, s_dev := d'\<rparr>))"
    using w(1) by (simp add: handle_syscall_def regs assms(5) Let_def st)
  have adv: "ctx_advance_mepc f m2 = m3"
  proof -
    have "load64 m2 (f + of_nat CTX_MEPC_OFF) = load64 m1 (f + of_nat CTX_MEPC_OFF)"
      unfolding m2_def by (rule load64_store64_offset) (simp_all add: c_const)
    then have pc: "load64 m2 (ctx_mepc f) = h_pc h"
      unfolding trap_context_layout S(2) by (simp only: frame_loads x(2))
    have "m2 (h_pc h) = s_mem s (h_pc h)"
      unfolding m2_def out1 [OF assms(9), symmetric]
      by (rule frame_store_outside [OF _ assms(9)]) (simp add: c_const)
    then show ?thesis using assms(8)
      unfolding ctx_advance_mepc_def Let_def pc by (simp add: m3_def trap_context_layout(2))
  qed
  define t where "t = s\<lparr>s_mem := m3, s_dev := d'\<rparr>"
  have b: "exception_body L (uart_bus lat) BC u c lit f (s\<lparr>s_mem := m1\<rparr>) = Some (Returned t)"
    using cause hs adv by (simp add: t_def exception_body_def Let_def EXCEPTION_ECALL_M_def EXCEPTION_ILLEGAL_INSN_def advance_def)
  obtain h' where h': "u_sw_irq_handler L (uart_bus lat) BC u c lit junk (?h, s) = Some (Returned (h', t))"
    "h_pc h' = load64 (s_mem t) (f + of_nat CTX_MEPC_OFF)" "h_x h' 2 = h_x h 2"
    "\<forall>r \<in> {1..<32} - {2}. h_x h' r = load64 (s_mem t) (f + of_nat (CTX_GPR_OFF r))"
    using exception_returns [OF b [unfolded f_def S(2)], of junk] unfolding f_def by blast
  have "load64 m3 (f + of_nat (CTX_GPR_OFF i)) = (if i = 10 then h_x h 12 else if i = 5 then h_x h 2 else h_x h i)"
    if i: "i \<in> {1..<32}" for i
  proof -
    have "load64 m3 (f + of_nat (CTX_GPR_OFF i)) = load64 m2 (f + of_nat (CTX_GPR_OFF i))"
      unfolding m3_def by (rule load64_store64_offset) (use i in \<open>auto simp: c_const\<close>)
    also have "\<dots> = (if i = 10 then h_x h 12 else load64 m1 (f + of_nat (CTX_GPR_OFF i)))"
      unfolding m2_def using i load64_store64_offset [of "CTX_GPR_OFF i" "CTX_GPR_OFF 10" m1 f "h_x h 12"]
      by (auto simp: c_const)
    also have "\<dots> = (if i = 10 then h_x h 12 else if i = 5 then h_x h 2 else h_x h i)"
      using gpr [OF i] by (simp add: trap_context_layout)
    finally show ?thesis .
  qed
  then have "h_x h' i = (if i = 10 then h_x h 12 else if i = 5 then h_x h 2 else h_x h i)" if "i \<in> {1..<32}" for i
    using h'(3,4) that by (cases "i = 2") (simp_all add: t_def)
  moreover have "h_pc h' = h_pc h + 4" using h'(2) by (simp add: t_def m3_def)
  moreover have "bytes_at m1 (h_x h 11) (unat (h_x h 12)) = bytes_at (s_mem s) (h_x h 11) (unat (h_x h 12))"
    by (rule bytes_at_same, rule out1) (use assms(7) in \<open>simp add: apart_def\<close>)
  ultimately show ?thesis using h'(1) w(2) trap_exception by (auto simp: wire_def t_def)
qed

definition demo_hart :: hart where
  "demo_hart = \<lparr>h_x = (\<lambda>r. if r = 2 then 0x80010000 else if r = 10 then 1 else if r = 11 then 0x80000100
      else if r = 12 then 2 else if r = 17 then 64 else of_nat r),
     h_csr = (\<lambda>c. if c = Mstatus then 8 else 0), h_pc = 0x80000000\<rparr>"

definition demo_sys :: "uart_dev sys" where
  "demo_sys = \<lparr>s_errno = 0, s_brk = 0, s_mem = (\<lambda>_. 0)(0x80000000 := 0x73, 0x80000100 := 72, 0x80000101 := 105),
     s_dev = uart_reset\<rparr>"

lemma ecall_write_witness:
  "\<forall>B c lit. \<exists>h' s'. u_sw_irq_handler demo_libc (uart_bus (\<lambda>n. n)) B (uart_bind (uart_zero\<lparr>u_regs := UART_BASE\<rparr>)) c lit (\<lambda>_. 0)
       (trap_enter EXCEPTION_ECALL_M demo_hart, demo_sys) = Some (Returned (h', s')) \<and>
     h_pc h' = 0x80000004 \<and> h_x h' 10 = 2 \<and> h_x h' 5 = 0x80010000 \<and>
     tx_out (s_dev s') @ tx_fifo (s_dev s') = str ''Hi''"
proof -
  let ?u = "uart_bind (uart_zero\<lparr>u_regs := UART_BASE\<rparr>)"
  have u: "u_bound ?u" "u_regs ?u = UART_BASE" by (simp_all add: uart_bind_def uart_zero_def)
  have d: "tx_ready (s_dev demo_sys)" by (simp add: demo_sys_def uart_reset_def tx_ready_def dlab_def)
  have l: "n_sysno demo_libc (h_x demo_hart 17) = Some SYS_write" "h_x demo_hart 10 = 1"
    by (simp_all add: demo_libc_def demo_hart_def)
  have a: "apart (h_x demo_hart 11) (unat (h_x demo_hart 12)) (h_x demo_hart 2 - of_nat CTX_SIZE) CTX_SIZE"
    by (simp add: apart_def demo_hart_def CTX_SIZE_def less_2_cases_iff)
  have p: "s_mem demo_sys (h_pc demo_hart) AND 3 = 3" "CTX_SIZE \<le> unat (h_pc demo_hart - (h_x demo_hart 2 - of_nat CTX_SIZE))"
    by (simp_all add: demo_sys_def demo_hart_def CTX_SIZE_def)
  have m: "bytes_at (s_mem demo_sys) 0x80000100 2 = str ''Hi''"
    by (simp add: bytes_at_def demo_sys_def upt_rec)
  have r: "h_x demo_hart 12 = 2" "h_x demo_hart 11 = 0x80000100" "h_x demo_hart 2 = 0x80010000" "h_pc demo_hart = 0x80000000"
    "tx_out (s_dev demo_sys) = []" "tx_fifo (s_dev demo_sys) = []"
    by (simp_all add: demo_hart_def demo_sys_def uart_reset_def)
  show ?thesis
  proof (intro allI)
    fix B c lit
    show "\<exists>h' s'. u_sw_irq_handler demo_libc (uart_bus (\<lambda>n. n)) B ?u c lit (\<lambda>_. 0)
         (trap_enter EXCEPTION_ECALL_M demo_hart, demo_sys) = Some (Returned (h', s')) \<and>
       h_pc h' = 0x80000004 \<and> h_x h' 10 = 2 \<and> h_x h' 5 = 0x80010000 \<and>
       tx_out (s_dev s') @ tx_fifo (s_dev s') = str ''Hi''"
      using ecall_write [OF u d l a p, of "\<lambda>n. n" B c lit "\<lambda>_. 0"] by (auto simp: r m)
  qed
qed

lemma interrupt_resumes_witness:
  "\<exists>h' s'. irq_entry (\<lambda>_. 0) Some (trap_enter 0x800000000000000B demo_hart, demo_sys) = Some (h', s') \<and>
     h_pc h' = 0x80000000 \<and> h_x h' 5 = 0x80010000 \<and> h_x h' 6 = 6"
proof -
  have "irq_entry (\<lambda>_. 0) Some (trap_enter 0x800000000000000B demo_hart, demo_sys) \<noteq> None"
    by (simp add: irq_entry_def split: prod.split)
  then obtain h' s' where e: "irq_entry (\<lambda>_. 0) Some (trap_enter 0x800000000000000B demo_hart, demo_sys) = Some (h', s')"
    by fastforce
  have m: "bit (h_csr demo_hart Mstatus) 3" by (simp add: demo_hart_def)
  have "h_pc h' = h_pc demo_hart \<and> (\<forall>r \<in> {1..<32}. h_x h' r = (if r = 5 then h_x demo_hart 2 else h_x demo_hart r))"
    using interrupt_resumes [OF e m] by (simp add: same_block_def)
  then show ?thesis using e by (auto simp: demo_hart_def)
qed

end
