(* ===== verification/Console.thy ===== *)
theory Console
  imports Printf_Spec Uart
begin

text \<open>
  The console of the programs: \<open>printf\<close> over \<open>_putchar\<close> over the UART driver, and the abstract
  console on which the test programs of \<open>software/app\<close> are modelled, a list of the characters
  printed so far. \<open>console_refines\<close> shows that the UART sends exactly the characters of the
  abstract console. \<open>'d app\<close> is the state of a program: the devices it works on and its output.
\<close>

section \<open>printf on a character sink\<close>

fun act_chars :: "action list \<Rightarrow> byte list" where
  "act_chars [] = []"
| "act_chars (Put c # as) = (if c = 0 then act_chars as else c # act_chars as)"
| "act_chars (Rewind # as) = act_chars as"

lemma act_chars_append [simp]: "act_chars (as @ bs) = act_chars as @ act_chars bs"
  by (induction as rule: act_chars.induct) simp_all

lemma act_chars_Put [simp]: "act_chars (map Put cs) = filter (\<lambda>c. c \<noteq> 0) cs"
  by (induction cs) simp_all

lemma play_char:
  "play (out_char putc) b n as (idx, s) = (play_idx as idx, fold putc (act_chars as) s)"
  by (induction as idx arbitrary: s rule: play_idx.induct) (simp_all add: out_char_def)

lemma printf_chars:
  assumes "local \<noteq> 0"
  shows "printf local putc m f va s =
    map_sum id (\<lambda>as. (ucast (play_idx as 0), fold putc (act_chars as) s)) (vsn_acts m f va)"
  by (cases "vsn_acts m f va")
     (simp_all add: printf_def vsnprintf_gen_play [OF assms] play_char out_char_def)

section \<open>The UART as the console\<close>

text \<open>\<open>printf\<close> with \<open>_putchar\<close> on \<open>uart0\<close>; a write that never returns ends the program.\<close>

definition uart_printf :: "'d bus \<Rightarrow> uart \<Rightarrow> mem \<Rightarrow> byte list \<Rightarrow> u64 list \<Rightarrow> 'd \<Rightarrow> (u32 \<times> 'd) option" where
  "uart_printf B uart0 m f va d =
     (case printf 1 (\<lambda>c s. Option.bind s (put_char B uart0 c)) m f va (Some d) of
        Inr (r, Some d') \<Rightarrow> Some (r, d') | _ \<Rightarrow> None)"

section \<open>The state of a program\<close>

record 'd app =
  ap_dev :: 'd
  ap_out :: "byte list"

definition say :: "mem \<Rightarrow> string \<Rightarrow> u64 list \<Rightarrow> 'd app \<Rightarrow> 'd app option" where
  "say m f va s =
     (case printf 1 (\<lambda>c out. out @ [c]) m (str f) va (ap_out s) of
        Inr (r, out) \<Rightarrow> Some (s\<lparr>ap_out := out\<rparr>) | Inl _ \<Rightarrow> None)"

definition on_dev :: "('d \<Rightarrow> 'd) \<Rightarrow> 'd app \<Rightarrow> 'd app" where
  "on_dev f s = s\<lparr>ap_dev := f (ap_dev s)\<rparr>"

definition from_dev :: "('d \<Rightarrow> 'a \<times> 'd) \<Rightarrow> 'd app \<Rightarrow> 'a \<times> 'd app" where
  "from_dev f s = (let (v, d) = f (ap_dev s) in (v, s\<lparr>ap_dev := d\<rparr>))"

lemma fold_append [simp]: "fold (\<lambda>c out. out @ [c]) cs out = out @ cs"
  by (induction cs arbitrary: out) simp_all

text \<open>The text a call prints.\<close>

definition text_of :: "mem \<Rightarrow> string \<Rightarrow> u64 list \<Rightarrow> byte list option" where
  "text_of m f va = (case vsn_acts m (str f) va of Inr as \<Rightarrow> Some (act_chars as) | Inl _ \<Rightarrow> None)"

lemma say_text: "say m f va s = map_option (\<lambda>t. s\<lparr>ap_out := ap_out s @ t\<rparr>) (text_of m f va)"
  by (simp add: say_def text_of_def printf_chars split: sum.splits)

lemma ch_inject [simp]: "ch c = ch d \<longleftrightarrow> c = d"
proof
  assume eq: "ch c = ch d"
  have "unat (ch x) = of_char x" for x :: char
  proof -
    have "ch x = of_nat (of_char x)" by (simp only: of_nat_of_char)
    then show ?thesis by (simp only: unat_of_nat) (simp add: take_bit_nat_eq_self)
  qed
  then have "of_char c = (of_char d :: nat)" using eq by metis
  then show "c = d" by simp
qed simp

lemma plain_acts: "CHR ''%'' \<notin> set cs \<Longrightarrow> vsn_acts m (str cs) va = Inr (map Put (str cs))"
proof -
  assume "CHR ''%'' \<notin> set cs"
  then have "ch CHR ''%'' \<notin> set (str cs)" by (auto simp: str_def simp del: of_char_Char)
  then show ?thesis using vsn_acts_plain [of "str cs" m "[]" va] by simp
qed

lemma text_of_plain: "CHR ''%'' \<notin> set cs \<Longrightarrow> text_of m cs va = Some (filter (\<lambda>c. c \<noteq> 0) (str cs))"
  by (simp add: text_of_def plain_acts)

lemma say_filtered: "CHR ''%'' \<notin> set cs \<Longrightarrow> say m cs va s = Some (s\<lparr>ap_out := ap_out s @ filter (\<lambda>c. c \<noteq> 0) (str cs)\<rparr>)"
  by (simp add: say_text text_of_plain)

lemma str_no_nul: "CHR 0x00 \<notin> set cs \<Longrightarrow> filter (\<lambda>c. c \<noteq> 0) (str cs) = str cs"
proof -
  have "ch c = 0 \<longleftrightarrow> c = CHR 0x00" for c using ch_inject [of c "CHR 0x00"] by simp
  then show "CHR 0x00 \<notin> set cs \<Longrightarrow> filter (\<lambda>c. c \<noteq> 0) (str cs) = str cs"
    by (induction cs) auto
qed

lemma say_plain:
  "CHR ''%'' \<notin> set cs \<Longrightarrow> CHR 0x00 \<notin> set cs \<Longrightarrow> say m cs va s = Some (s\<lparr>ap_out := ap_out s @ str cs\<rparr>)"
  by (simp add: say_text text_of_plain str_no_nul)

text \<open>The text that a call appends.\<close>

definition said :: "mem \<Rightarrow> string \<Rightarrow> u64 list \<Rightarrow> byte list" where
  "said m f va = (case text_of m f va of Some t \<Rightarrow> t | None \<Rightarrow> [])"

lemma say_said: "text_of m f va \<noteq> None \<Longrightarrow> say m f va s = Some (s\<lparr>ap_out := ap_out s @ said m f va\<rparr>)"
  by (auto simp: say_text said_def)

lemma putc_wire:
  assumes "u_bound u" and "u_regs u = UART_BASE"
  shows "tx_ready d \<Longrightarrow> \<exists>d'. fold (\<lambda>c s. Option.bind s (put_char (uart_bus lat) u c)) cs (Some d) = Some d' \<and>
    tx_ready d' \<and> wire d' = wire d @ cs"
proof (induction cs arbitrary: d)
  case (Cons c cs)
  obtain d1 where d1: "uart_op_putc (uart_bus lat) u c d = Some d1" "tx_ready d1" "wire d1 = wire d @ [c]"
    using uart_op_putc_wire [OF Cons.prems assms(2)] .
  then show ?case using Cons.IH [OF d1(2)] assms(1) by (simp add: put_char_def uart_putc_def)
qed simp

lemma plain_text: "CHR ''%'' \<notin> set cs \<Longrightarrow> CHR 0x00 \<notin> set cs \<Longrightarrow> text_of m cs va = Some (str cs)"
  by (simp add: text_of_plain str_no_nul)

lemma uart_printf_wire:
  assumes "text_of m f va = Some t" and "tx_ready d" and "u_bound u" and "u_regs u = UART_BASE"
  shows "\<exists>r d'. uart_printf (uart_bus lat) u m (str f) va d = Some (r, d') \<and> tx_ready d' \<and> wire d' = wire d @ t"
proof -
  obtain as where as: "vsn_acts m (str f) va = Inr as" and t: "t = act_chars as"
    using assms(1) by (auto simp: text_of_def split: sum.splits)
  obtain d' where "fold (\<lambda>c s. Option.bind s (put_char (uart_bus lat) u c)) (act_chars as) (Some d) = Some d'"
    "tx_ready d'" "wire d' = wire d @ act_chars as" using putc_wire [OF assms(3,4,2)] by blast
  then show ?thesis by (simp add: uart_printf_def printf_chars as t)
qed

section \<open>Properties\<close>

text \<open>C29. The UART console implements the abstract one: a \<open>printf\<close> that has a defined result on the
  abstract console returns on the UART, whatever the speed of the transmitter, and the characters
  that went to the wire are those appended to the abstract console, in order.\<close>

theorem console_refines:
  assumes "say m f va s = Some s'" and "tx_ready d" and "wire d = ap_out s"
    and "u_bound u" and "u_regs u = UART_BASE"
  shows "\<exists>r d'. uart_printf (uart_bus lat) u m (str f) va d = Some (r, d') \<and> tx_ready d' \<and> wire d' = ap_out s'"
proof -
  obtain t where "text_of m f va = Some t" "ap_out s' = ap_out s @ t" using assms(1) by (auto simp: say_text)
  then show ?thesis using uart_printf_wire [OF _ assms(2,4,5)] assms(3) by metis
qed

lemma console_refines_witness:
  "\<exists>r d'. uart_printf (uart_bus (\<lambda>n. n)) (uart_bind (uart_zero\<lparr>u_regs := UART_BASE\<rparr>)) (\<lambda>_. 0) (str ''100%% \<newline>'') []
      uart_reset = Some (r, d') \<and> wire d' = str ''100% \<newline>''"
proof -
  have t: "text_of (\<lambda>_. 0) ''100%% \<newline>'' [] = Some (str ''100% \<newline>'')"
    by (simp add: text_of_def parse_spec_def parse_width_def parse_precision_def parse_length_def cur_def is_digit_def
        conv_acts_def int_specs_def)
  have "say (\<lambda>_. 0) ''100%% \<newline>'' [] \<lparr>ap_dev = (), ap_out = []\<rparr> = Some \<lparr>ap_dev = (), ap_out = str ''100% \<newline>''\<rparr>"
    unfolding say_text t by simp
  from console_refines [OF this, of uart_reset "uart_bind (uart_zero\<lparr>u_regs := UART_BASE\<rparr>)" "\<lambda>n. n"]
  show ?thesis by (auto simp: uart_reset_def tx_ready_def dlab_def uart_bind_def uart_zero_def wire_def)
qed

end
