(* ===== verification/Accel.thy ===== *)
theory Accel
  imports Mmio Soc Cmem
begin

text \<open>
  The two drivers \<open>software/soc/src/asic_accel.c\<close> and \<open>asic_dma_accel.c\<close>, and a register file shared
  by the accelerators with a command and a status register: start and clear bits, busy, done and
  error status, interrupt mask and sticky flag, cycle count. A device is an \<open>accel_ip\<close>: where its
  interrupt and counter registers are, which configurations it accepts, and its job as a function
  on the configuration and the memory. \<open>lat n\<close> is the number of accesses that pass before the
  \<open>n\<close>th job ends. \<open>asic_dma_ip\<close> is \<open>asic_dma_accel_sim.sv\<close>; no hardware of the repository answers to
  \<open>asic_accel.c\<close>, which is modelled over an arbitrary bus.
\<close>

section \<open>Status polling\<close>

text \<open>\<open>(regs->status & mask) != 0\<close>, and the loop that gives up after \<open>timeout\<close> attempts.\<close>

definition flag_step :: "'d bus \<Rightarrow> addr \<Rightarrow> u64 \<Rightarrow> 'd \<Rightarrow> bool \<times> 'd" where
  "flag_step B a msk d = (let (v, d) = rd64 B a d in (v AND msk \<noteq> 0, d))"

function poll_timeout :: "('d \<Rightarrow> bool \<times> 'd) \<Rightarrow> u64 \<Rightarrow> 'd \<Rightarrow> u32 \<times> 'd" where
  "poll_timeout step timeout d =
     (if timeout = 0 then (- 1, d)
      else let (again, d) = step d in if again then poll_timeout step (timeout - 1) d else (0, d))"
  by pat_completeness auto
termination
  by (relation "measure (\<lambda>(step, timeout, d). unat timeout)")
     (auto simp: unat_minus_one unat_gt_0 unat_eq_0)

declare poll_timeout.simps [simp del]

text \<open>What a driver that polls relies on: bit 0 of the status tells that the device is busy, a read
  moves the device on, and a busy device comes closer to its end.\<close>

locale busy_device =
  fixes B :: "'d bus" and a :: addr and busy :: "'d \<Rightarrow> bool" and tick :: "'d \<Rightarrow> 'd" and left :: "'d \<Rightarrow> nat"
  assumes status: "flag_step B a 1 d = (busy d, tick d)"
    and progress: "busy d \<Longrightarrow> left (tick d) < left d"
begin

lemma idle_after: "\<exists>k \<le> left d. \<not> busy ((tick ^^ k) d)"
proof (induction "left d" arbitrary: d rule: less_induct)
  case less
  show ?case
  proof (cases "busy d")
    case True
    then obtain k where "k \<le> left (tick d)" "\<not> busy ((tick ^^ k) (tick d))"
      using less [OF progress] by blast
    then have "Suc k \<le> left d" "\<not> busy ((tick ^^ Suc k) d)"
      using progress [OF True] by (simp_all add: funpow_Suc_right del: funpow.simps(2))
    then show ?thesis by blast
  qed (rule exI [of _ 0], simp)
qed

lemma polling: "polling (flag_step B a 1) (\<lambda>_. True) left"
  by unfold_locales (auto simp: status progress)

lemma wait_idle:
  assumes "\<And>i. i < k \<Longrightarrow> busy ((tick ^^ i) d)" and "\<not> busy ((tick ^^ k) d)"
  shows "poll (flag_step B a 1) d = Some ((tick ^^ Suc k) d)"
  using assms
proof (induction k arbitrary: d)
  case 0
  then show ?case by (intro poll_stop) (simp add: status)
next
  case (Suc k)
  have "flag_step B a 1 d = (True, tick d)" using Suc.prems(1) [of 0] status by simp
  moreover have "poll (flag_step B a 1) (tick d) = Some ((tick ^^ Suc k) (tick d))"
    by (rule Suc.IH) (use Suc.prems(1) [of "Suc _"] Suc.prems(2) in \<open>auto simp: funpow_swap1\<close>)
  ultimately show ?case
    using poll_again [of "flag_step B a 1" d "tick d"] by (simp add: funpow_swap1)
qed

text \<open>The loop with a timeout answers 0 exactly if one of its reads finds the device idle.\<close>

lemma timeout_busy:
  "(\<And>i. i < unat n \<Longrightarrow> busy ((tick ^^ i) d)) \<Longrightarrow> poll_timeout (flag_step B a 1) n d = (- 1, (tick ^^ unat n) d)"
proof (induction "unat n" arbitrary: n d)
  case 0
  then show ?case by (subst poll_timeout.simps) (simp add: unat_eq_0)
next
  case (Suc k)
  have "n \<noteq> 0" using Suc.hyps(2) by auto
  with Suc.hyps(2) have n: "n \<noteq> 0" "unat (n - 1) = k" by (simp_all add: unat_minus_one)
  have "busy d" using Suc.prems [of 0] Suc.hyps(2) by simp
  moreover have "poll_timeout (flag_step B a 1) (n - 1) (tick d) = (- 1, (tick ^^ unat (n - 1)) (tick d))"
    by (rule Suc.hyps(1)) (use Suc.prems [of "Suc _"] Suc.hyps(2) n in \<open>auto simp: funpow_swap1\<close>)
  ultimately show ?case
    by (subst poll_timeout.simps) (simp add: n Suc.hyps(2) [symmetric] status funpow_swap1)
qed

lemma timeout_idle:
  assumes "k < unat n" and "\<And>i. i < k \<Longrightarrow> busy ((tick ^^ i) d)" and "\<not> busy ((tick ^^ k) d)"
  shows "poll_timeout (flag_step B a 1) n d = (0, (tick ^^ Suc k) d)"
  using assms
proof (induction k arbitrary: n d)
  case 0
  then show ?case by (subst poll_timeout.simps) (auto simp: status)
next
  case (Suc k)
  have "n \<noteq> 0" using Suc.prems(1) by auto
  with Suc.prems(1) have n: "n \<noteq> 0" "k < unat (n - 1)" by (simp_all add: unat_minus_one)
  have "busy d" using Suc.prems(2) [of 0] by simp
  moreover have "poll_timeout (flag_step B a 1) (n - 1) (tick d) = (0, (tick ^^ Suc k) (tick d))"
    by (rule Suc.IH) (use Suc.prems(2) [of "Suc _"] Suc.prems(3) n in \<open>auto simp: funpow_swap1\<close>)
  ultimately show ?case
    by (subst poll_timeout.simps) (simp add: n status funpow_swap1)
qed

lemma timeout_iff:
  "fst (poll_timeout (flag_step B a 1) n d) = 0 \<longleftrightarrow> (\<exists>k < unat n. \<not> busy ((tick ^^ k) d))"
proof (cases "\<exists>k < unat n. \<not> busy ((tick ^^ k) d)")
  case True
  then obtain k where k: "k < unat n" "\<not> busy ((tick ^^ k) d)" "\<And>i. i < k \<Longrightarrow> busy ((tick ^^ i) d)"
    using ex_least_nat_le [of "\<lambda>k. \<not> busy ((tick ^^ k) d)"] by (metis le_neq_implies_less order.strict_trans1)
  show ?thesis using timeout_idle [OF k(1) k(3) k(2)] True by simp
next
  case False
  then show ?thesis using timeout_busy [of n d] by auto
qed

end


section \<open>The ASIC accelerator driver\<close>

definition ASIC_ACCEL_CMD_OFF :: addr where [c_const]: "ASIC_ACCEL_CMD_OFF = 0x00"
definition ASIC_ACCEL_STATUS_OFF :: addr where [c_const]: "ASIC_ACCEL_STATUS_OFF = 0x08"
definition ASIC_ACCEL_OP_A_OFF :: addr where [c_const]: "ASIC_ACCEL_OP_A_OFF = 0x10"
definition ASIC_ACCEL_OP_B_OFF :: addr where [c_const]: "ASIC_ACCEL_OP_B_OFF = 0x18"
definition ASIC_ACCEL_RESULT_OFF :: addr where [c_const]: "ASIC_ACCEL_RESULT_OFF = 0x20"
definition ASIC_ACCEL_CYCLE_CNT_OFF :: addr where [c_const]: "ASIC_ACCEL_CYCLE_CNT_OFF = 0x28"
definition ASIC_ACCEL_IRQ_MASK_OFF :: addr where [c_const]: "ASIC_ACCEL_IRQ_MASK_OFF = 0x30"
definition ASIC_ACCEL_IRQ_STAT_OFF :: addr where [c_const]: "ASIC_ACCEL_IRQ_STAT_OFF = 0x38"
definition ASIC_ACCEL_CMD_START :: u32 where [c_const]: "ASIC_ACCEL_CMD_START = 1"
definition ASIC_ACCEL_CMD_CLR_DONE :: u32 where [c_const]: "ASIC_ACCEL_CMD_CLR_DONE = 2"
definition ASIC_ACCEL_STATUS_BUSY :: u32 where [c_const]: "ASIC_ACCEL_STATUS_BUSY = 1"
definition ASIC_ACCEL_STATUS_DONE :: u32 where [c_const]: "ASIC_ACCEL_STATUS_DONE = 2"

text \<open>The register structs are arrays of 64-bit words in the order of the fields.\<close>

definition asic_accel_regs :: "addr list" where
  "asic_accel_regs = [ASIC_ACCEL_CMD_OFF, ASIC_ACCEL_STATUS_OFF, ASIC_ACCEL_OP_A_OFF, ASIC_ACCEL_OP_B_OFF,
     ASIC_ACCEL_RESULT_OFF, ASIC_ACCEL_CYCLE_CNT_OFF, ASIC_ACCEL_IRQ_MASK_OFF, ASIC_ACCEL_IRQ_STAT_OFF]"

lemma asic_accel_regs_layout: "asic_accel_regs = map (\<lambda>i. of_nat (8 * i)) [0..<8]"
  by (simp add: asic_accel_regs_def c_const upt_rec)

record asic_accel =
  aa_regs :: addr
  aa_bound :: bool

definition asic_accel_bind :: "asic_accel \<Rightarrow> asic_accel" where
  "asic_accel_bind a = a\<lparr>aa_bound := True\<rparr>"

definition asic_accel_op_init :: "'d bus \<Rightarrow> addr \<Rightarrow> asic_accel \<Rightarrow> 'd \<Rightarrow> asic_accel \<times> 'd" where
  "asic_accel_op_init B regs a d =
     (let d = wr64 B (regs + ASIC_ACCEL_IRQ_MASK_OFF) 0 d;
          d = wr64 B (regs + ASIC_ACCEL_IRQ_STAT_OFF) 1 d;
          d = wr64 B (regs + ASIC_ACCEL_CMD_OFF) (ucast ASIC_ACCEL_CMD_CLR_DONE) d
      in (a\<lparr>aa_regs := regs\<rparr>, d))"

definition asic_accel_op_set_operands :: "'d bus \<Rightarrow> asic_accel \<Rightarrow> u64 \<Rightarrow> u64 \<Rightarrow> 'd \<Rightarrow> 'd" where
  "asic_accel_op_set_operands B a op_a op_b d =
     wr64 B (aa_regs a + ASIC_ACCEL_OP_B_OFF) op_b (wr64 B (aa_regs a + ASIC_ACCEL_OP_A_OFF) op_a d)"

definition asic_accel_op_start :: "'d bus \<Rightarrow> asic_accel \<Rightarrow> 'd \<Rightarrow> 'd" where
  "asic_accel_op_start B a d = wr64 B (aa_regs a + ASIC_ACCEL_CMD_OFF) (ucast ASIC_ACCEL_CMD_START) d"

definition asic_accel_op_busy :: "'d bus \<Rightarrow> asic_accel \<Rightarrow> 'd \<Rightarrow> bool \<times> 'd" where
  "asic_accel_op_busy B a d = flag_step B (aa_regs a + ASIC_ACCEL_STATUS_OFF) (ucast ASIC_ACCEL_STATUS_BUSY) d"

definition asic_accel_op_wait :: "'d bus \<Rightarrow> asic_accel \<Rightarrow> 'd \<Rightarrow> 'd option" where
  "asic_accel_op_wait B a d = poll (flag_step B (aa_regs a + ASIC_ACCEL_STATUS_OFF) (ucast ASIC_ACCEL_STATUS_BUSY)) d"

definition asic_accel_op_result :: "'d bus \<Rightarrow> asic_accel \<Rightarrow> 'd \<Rightarrow> u64 \<times> 'd" where
  "asic_accel_op_result B a d = rd64 B (aa_regs a + ASIC_ACCEL_RESULT_OFF) d"

definition asic_accel_op_cycle_cnt :: "'d bus \<Rightarrow> asic_accel \<Rightarrow> 'd \<Rightarrow> u64 \<times> 'd" where
  "asic_accel_op_cycle_cnt B a d = rd64 B (aa_regs a + ASIC_ACCEL_CYCLE_CNT_OFF) d"

definition asic_accel_op_irq_enable :: "'d bus \<Rightarrow> asic_accel \<Rightarrow> u32 \<Rightarrow> 'd \<Rightarrow> 'd" where
  "asic_accel_op_irq_enable B a en d = wr64 B (aa_regs a + ASIC_ACCEL_IRQ_MASK_OFF) (if en \<noteq> 0 then 1 else 0) d"

definition asic_accel_op_irq_clear :: "'d bus \<Rightarrow> asic_accel \<Rightarrow> 'd \<Rightarrow> 'd" where
  "asic_accel_op_irq_clear B a d =
     (let d = wr64 B (aa_regs a + ASIC_ACCEL_IRQ_STAT_OFF) 1 d
      in wr64 B (aa_regs a + ASIC_ACCEL_CMD_OFF) (ucast ASIC_ACCEL_CMD_CLR_DONE) d)"

section \<open>The DMA accelerator driver\<close>

definition ASIC_DMA_CMD_OFF :: addr where [c_const]: "ASIC_DMA_CMD_OFF = 0x00"
definition ASIC_DMA_STATUS_OFF :: addr where [c_const]: "ASIC_DMA_STATUS_OFF = 0x08"
definition ASIC_DMA_SRC_OFF :: addr where [c_const]: "ASIC_DMA_SRC_OFF = 0x10"
definition ASIC_DMA_DST_OFF :: addr where [c_const]: "ASIC_DMA_DST_OFF = 0x18"
definition ASIC_DMA_LEN_OFF :: addr where [c_const]: "ASIC_DMA_LEN_OFF = 0x20"
definition ASIC_DMA_CYCLES_OFF :: addr where [c_const]: "ASIC_DMA_CYCLES_OFF = 0x28"
definition ASIC_DMA_IRQ_MASK_OFF :: addr where [c_const]: "ASIC_DMA_IRQ_MASK_OFF = 0x30"
definition ASIC_DMA_IRQ_STAT_OFF :: addr where [c_const]: "ASIC_DMA_IRQ_STAT_OFF = 0x38"
definition ASIC_DMA_RESULT_OFF :: addr where [c_const]: "ASIC_DMA_RESULT_OFF = 0x40"
definition ASIC_DMA_CMD_START :: u32 where [c_const]: "ASIC_DMA_CMD_START = 1"
definition ASIC_DMA_CMD_CLR_DONE :: u32 where [c_const]: "ASIC_DMA_CMD_CLR_DONE = 2"
definition ASIC_DMA_STATUS_BUSY :: u32 where [c_const]: "ASIC_DMA_STATUS_BUSY = 1"
definition ASIC_DMA_STATUS_DONE :: u32 where [c_const]: "ASIC_DMA_STATUS_DONE = 2"

definition asic_dma_regs :: "addr list" where
  "asic_dma_regs = [ASIC_DMA_CMD_OFF, ASIC_DMA_STATUS_OFF, ASIC_DMA_SRC_OFF, ASIC_DMA_DST_OFF, ASIC_DMA_LEN_OFF,
     ASIC_DMA_CYCLES_OFF, ASIC_DMA_IRQ_MASK_OFF, ASIC_DMA_IRQ_STAT_OFF, ASIC_DMA_RESULT_OFF]"

lemma asic_dma_regs_layout: "asic_dma_regs = map (\<lambda>i. of_nat (8 * i)) [0..<9]"
  by (simp add: asic_dma_regs_def c_const upt_rec)

record asic_dma_accel =
  ad_regs :: addr
  ad_bound :: bool

definition asic_dma_bind :: "asic_dma_accel \<Rightarrow> asic_dma_accel" where
  "asic_dma_bind a = a\<lparr>ad_bound := True\<rparr>"

definition asic_dma_op_init :: "'d bus \<Rightarrow> addr \<Rightarrow> asic_dma_accel \<Rightarrow> 'd \<Rightarrow> asic_dma_accel \<times> 'd" where
  "asic_dma_op_init B regs a d =
     (let d = wr64 B (regs + ASIC_DMA_IRQ_MASK_OFF) 0 d;
          d = wr64 B (regs + ASIC_DMA_IRQ_STAT_OFF) 1 d;
          d = wr64 B (regs + ASIC_DMA_CMD_OFF) (ucast ASIC_DMA_CMD_CLR_DONE) d
      in (a\<lparr>ad_regs := regs\<rparr>, d))"

definition asic_dma_op_config :: "'d bus \<Rightarrow> asic_dma_accel \<Rightarrow> u64 \<Rightarrow> u64 \<Rightarrow> u64 \<Rightarrow> 'd \<Rightarrow> 'd" where
  "asic_dma_op_config B a src dst len d =
     (let d = wr64 B (ad_regs a + ASIC_DMA_SRC_OFF) src d;
          d = wr64 B (ad_regs a + ASIC_DMA_DST_OFF) dst d
      in wr64 B (ad_regs a + ASIC_DMA_LEN_OFF) len d)"

definition asic_dma_op_start :: "'d bus \<Rightarrow> asic_dma_accel \<Rightarrow> 'd \<Rightarrow> 'd" where
  "asic_dma_op_start B a d = wr64 B (ad_regs a + ASIC_DMA_CMD_OFF) (ucast ASIC_DMA_CMD_START) d"

definition asic_dma_op_busy :: "'d bus \<Rightarrow> asic_dma_accel \<Rightarrow> 'd \<Rightarrow> bool \<times> 'd" where
  "asic_dma_op_busy B a d = flag_step B (ad_regs a + ASIC_DMA_STATUS_OFF) (ucast ASIC_DMA_STATUS_BUSY) d"

definition asic_dma_op_wait :: "'d bus \<Rightarrow> asic_dma_accel \<Rightarrow> 'd \<Rightarrow> 'd option" where
  "asic_dma_op_wait B a d = poll (flag_step B (ad_regs a + ASIC_DMA_STATUS_OFF) (ucast ASIC_DMA_STATUS_BUSY)) d"

definition asic_dma_op_cycle_cnt :: "'d bus \<Rightarrow> asic_dma_accel \<Rightarrow> 'd \<Rightarrow> u64 \<times> 'd" where
  "asic_dma_op_cycle_cnt B a d = rd64 B (ad_regs a + ASIC_DMA_CYCLES_OFF) d"

definition asic_dma_op_irq_enable :: "'d bus \<Rightarrow> asic_dma_accel \<Rightarrow> u32 \<Rightarrow> 'd \<Rightarrow> 'd" where
  "asic_dma_op_irq_enable B a en d = wr64 B (ad_regs a + ASIC_DMA_IRQ_MASK_OFF) (if en \<noteq> 0 then 1 else 0) d"

definition asic_dma_op_irq_clear :: "'d bus \<Rightarrow> asic_dma_accel \<Rightarrow> 'd \<Rightarrow> 'd" where
  "asic_dma_op_irq_clear B a d =
     (let d = wr64 B (ad_regs a + ASIC_DMA_IRQ_STAT_OFF) 1 d
      in wr64 B (ad_regs a + ASIC_DMA_CMD_OFF) (ucast ASIC_DMA_CMD_CLR_DONE) d)"

section \<open>Accelerators with a command register\<close>

record accel_ip =
  ip_cycles :: nat
  ip_mask :: nat
  ip_stat :: nat
  ip_result :: "nat option"
  ip_plain :: "nat \<Rightarrow> nat option"
  ip_ok :: "(nat \<Rightarrow> u64) \<Rightarrow> bool"
  ip_job :: "(nat \<Rightarrow> u64) \<Rightarrow> mem \<Rightarrow> u64 \<times> mem"

record accel_dev =
  ac_reg :: "nat \<Rightarrow> u64"
  ac_busy :: bool
  ac_done :: bool
  ac_err :: bool
  ac_irq_mask :: bool
  ac_irq_status :: bool
  ac_cycles :: u64
  ac_result :: u64
  ac_wait :: nat
  ac_runs :: nat
  ac_mem :: mem

text \<open>Between two accesses a running job comes closer to its end or ends.\<close>

definition accel_finish :: "accel_ip \<Rightarrow> accel_dev \<Rightarrow> accel_dev" where
  "accel_finish ip d =
     (let (r, m) = ip_job ip (ac_reg d) (ac_mem d)
      in d\<lparr>ac_busy := False, ac_done := True, ac_irq_status := True, ac_result := r, ac_mem := m, ac_runs := Suc (ac_runs d)\<rparr>)"

definition accel_tick :: "accel_ip \<Rightarrow> accel_dev \<Rightarrow> accel_dev" where
  "accel_tick ip d =
     (if ac_busy d
      then let d = d\<lparr>ac_cycles := ac_cycles d + 1\<rparr>
           in if ac_wait d > 0 then d\<lparr>ac_wait := ac_wait d - 1\<rparr> else accel_finish ip d
      else d)"

text \<open>The clear bit acts before the start bit; a start is ignored while a job runs, and refused
  with the error flag when the configuration is not supported.\<close>

definition accel_clear :: "accel_dev \<Rightarrow> accel_dev" where
  "accel_clear d = d\<lparr>ac_done := False, ac_irq_status := False, ac_err := False\<rparr>"

definition accel_start :: "accel_ip \<Rightarrow> (nat \<Rightarrow> nat) \<Rightarrow> accel_dev \<Rightarrow> accel_dev" where
  "accel_start ip lat d =
     (if ip_ok ip (ac_reg d)
      then d\<lparr>ac_busy := True, ac_done := False, ac_err := False, ac_cycles := 0, ac_wait := lat (ac_runs d)\<rparr>
      else d\<lparr>ac_done := True, ac_irq_status := True, ac_err := True\<rparr>)"

definition accel_cmd :: "accel_ip \<Rightarrow> (nat \<Rightarrow> nat) \<Rightarrow> u64 \<Rightarrow> accel_dev \<Rightarrow> accel_dev" where
  "accel_cmd ip lat v d =
     (let d = (if bit v 1 then accel_clear d else d)
      in if bit v 0 \<and> \<not> ac_busy d then accel_start ip lat d else d)"

definition accel_reg_wr :: "accel_ip \<Rightarrow> (nat \<Rightarrow> nat) \<Rightarrow> nat \<Rightarrow> u64 \<Rightarrow> accel_dev \<Rightarrow> accel_dev" where
  "accel_reg_wr ip lat o' v d =
     (if o' = 0 then accel_cmd ip lat v d
      else if o' = ip_mask ip then d\<lparr>ac_irq_mask := bit v 0\<rparr>
      else if o' = ip_stat ip then (if bit v 0 then d\<lparr>ac_irq_status := False\<rparr> else d)
      else case ip_plain ip o' of None \<Rightarrow> d | Some w \<Rightarrow> d\<lparr>ac_reg := (ac_reg d)(o' := take_bit w v)\<rparr>)"

definition accel_status :: "accel_dev \<Rightarrow> u64" where
  "accel_status d = of_bool (ac_busy d) OR push_bit 1 (of_bool (ac_done d)) OR push_bit 4 (of_bool (ac_err d))"

definition accel_reg_rd :: "accel_ip \<Rightarrow> nat \<Rightarrow> accel_dev \<Rightarrow> u64" where
  "accel_reg_rd ip o' d =
     (if o' = 8 then accel_status d
      else if o' = ip_cycles ip then ac_cycles d
      else if o' = ip_mask ip then of_bool (ac_irq_mask d)
      else if o' = ip_stat ip then of_bool (ac_irq_status d)
      else if ip_result ip = Some o' then ac_result d
      else case ip_plain ip o' of None \<Rightarrow> 0 | Some w \<Rightarrow> ac_reg d o')"

definition accel_bus :: "accel_ip \<Rightarrow> (nat \<Rightarrow> nat) \<Rightarrow> accel_dev bus" where
  "accel_bus ip lat =
     \<lparr>bus_rd = (\<lambda>n a d. (accel_reg_rd ip (unat (take_bit 12 a)) d, accel_tick ip d)),
      bus_wr = (\<lambda>n a v d. accel_tick ip (accel_reg_wr ip lat (unat (take_bit 12 a)) v d)),
      bus_idle = (\<lambda>n d. (accel_tick ip ^^ n) d)\<rparr>"

definition accel_irq :: "accel_dev \<Rightarrow> bool" where
  "accel_irq d \<longleftrightarrow> ac_irq_mask d \<and> ac_irq_status d"

text \<open>\<open>asic_dma_accel_sim.sv\<close>: one 64-bit word is read, incremented and written; the length register
  is not used.\<close>

definition asic_dma_ip :: accel_ip where
  "asic_dma_ip =
     \<lparr>ip_cycles = 0x28, ip_mask = 0x30, ip_stat = 0x38, ip_result = Some 0x40,
      ip_plain = (\<lambda>o'. if o' \<in> {0x10, 0x18, 0x20} then Some 64 else None),
      ip_ok = (\<lambda>_. True),
      ip_job = (\<lambda>r m. let v = load64 m (r 0x10 AND NOT 7) + 1 in (v, store64 m (r 0x18 AND NOT 7) v))\<rparr>"

section \<open>Runs of a job\<close>

definition accel_left :: "accel_dev \<Rightarrow> nat" where
  "accel_left d = (if ac_busy d then Suc (ac_wait d) else 0)"

lemma flag_step_accel:
  "unat (take_bit 12 a) = 8 \<Longrightarrow> flag_step (accel_bus ip lat) a 1 d = (ac_busy d, accel_tick ip d)"
  by (auto simp: flag_step_def rd64_def accel_bus_def accel_reg_rd_def accel_status_def and_one_eq
      odd_iff_mod_2_eq_one bit_simps simp flip: bit_0)

interpretation accel_poll: busy_device "accel_bus ip lat" "ASIC_ACCEL_BASE + 8" ac_busy "accel_tick ip" accel_left
  by unfold_locales
     (rule flag_step_accel, simp add: ASIC_ACCEL_BASE_def,
      auto simp: accel_left_def accel_tick_def accel_finish_def Let_def split: prod.splits)

lemma tick_idle [simp]: "\<not> ac_busy d \<Longrightarrow> accel_tick ip d = d"
  by (simp add: accel_tick_def)

definition accel_end :: "accel_ip \<Rightarrow> accel_dev \<Rightarrow> accel_dev" where
  "accel_end ip d = accel_finish ip (d\<lparr>ac_cycles := ac_cycles d + of_nat (Suc (ac_wait d)), ac_wait := 0\<rparr>)"

lemma end_idle [simp]: "\<not> ac_busy (accel_end ip d)"
  by (simp add: accel_end_def accel_finish_def Let_def split: prod.splits)

lemma ticks_busy:
  "ac_busy d \<Longrightarrow> i \<le> ac_wait d \<Longrightarrow>
     (accel_tick ip ^^ i) d = d\<lparr>ac_cycles := ac_cycles d + of_nat i, ac_wait := ac_wait d - i\<rparr>"
  by (induction i) (auto simp: accel_tick_def algebra_simps)

lemma ticks_end: "ac_busy d \<Longrightarrow> (accel_tick ip ^^ Suc (ac_wait d)) d = accel_end ip d"
  using ticks_busy [of d "ac_wait d" ip] by (cases d) (simp add: accel_tick_def accel_end_def algebra_simps)

text \<open>A start followed by polling ends with the job done.\<close>

lemma accel_wait:
  assumes "ac_busy d"
  shows "poll (flag_step (accel_bus ip lat) (ASIC_ACCEL_BASE + 8) 1) (accel_tick ip d) = Some (accel_end ip d)"
proof -
  have "poll (flag_step (accel_bus ip lat) (ASIC_ACCEL_BASE + 8) 1) (accel_tick ip d) =
      Some ((accel_tick ip ^^ Suc (ac_wait d)) (accel_tick ip d))"
  proof (rule accel_poll.wait_idle)
    fix i assume "i < ac_wait d"
    then show "ac_busy ((accel_tick ip ^^ i) (accel_tick ip d))"
      using ticks_busy [OF assms, of "Suc i" ip] assms by (simp add: funpow_swap1)
  next
    show "\<not> ac_busy ((accel_tick ip ^^ ac_wait d) (accel_tick ip d))"
      using ticks_end [OF assms, of ip] by (simp add: funpow_swap1)
  qed
  also have "(accel_tick ip ^^ Suc (ac_wait d)) (accel_tick ip d) = accel_tick ip ((accel_tick ip ^^ Suc (ac_wait d)) d)"
    by (simp add: funpow_swap1)
  also have "\<dots> = accel_end ip d" unfolding ticks_end [OF assms] by simp
  finally show ?thesis .
qed

lemma wr64_accel [dev_simps]:
  "wr64 (accel_bus ip lat) a v d = accel_tick ip (accel_reg_wr ip lat (unat (take_bit 12 a)) v d)"
  by (simp add: wr64_def accel_bus_def)

lemma rd64_accel [dev_simps]:
  "rd64 (accel_bus ip lat) a d = (accel_reg_rd ip (unat (take_bit 12 a)) d, accel_tick ip d)"
  by (simp add: rd64_def accel_bus_def)

lemma busy_reg_wr: "o' \<noteq> 0 \<Longrightarrow> ac_busy (accel_reg_wr ip lat o' v d) = ac_busy d"
  by (auto simp: accel_reg_wr_def split: option.splits)

lemma and_not_aligned:
  assumes "(a :: 64 word) AND 7 = 0" shows "a AND - 8 = a"
proof -
  have "a = a AND (7 OR NOT 7)" by (simp only: bit.disj_cancel_right and.right_neutral)
  also have "\<dots> = a AND NOT 7" by (simp only: bit.conj_disj_distrib assms or.left_neutral)
  finally show ?thesis by simp
qed

lemma accel_end_simps:
  "ac_done (accel_end ip d)" "ac_irq_status (accel_end ip d)" "ac_irq_mask (accel_end ip d) = ac_irq_mask d"
  "ac_err (accel_end ip d) = ac_err d" "ac_reg (accel_end ip d) = ac_reg d"
  "ac_mem (accel_end ip d) = snd (ip_job ip (ac_reg d) (ac_mem d))"
  "ac_result (accel_end ip d) = fst (ip_job ip (ac_reg d) (ac_mem d))"
  by (simp_all add: accel_end_def accel_finish_def Let_def split: prod.splits)

section \<open>Properties\<close>

text \<open>A transfer of the DMA accelerator, configured and started on an idle device, ends whatever
  its latency; it has copied one 64-bit word incremented by one, whatever the length register
  was told, left the rest of the memory alone, and the interrupt line is the interrupt mask.\<close>

theorem asic_dma_increments:
  assumes "\<not> ac_busy d" and "ad_regs a = ASIC_ACCEL_BASE" and "src AND 7 = 0" and "dst AND 7 = 0"
  shows "\<exists>d'. asic_dma_op_wait (accel_bus asic_dma_ip lat) a
      (asic_dma_op_start (accel_bus asic_dma_ip lat) a (asic_dma_op_config (accel_bus asic_dma_ip lat) a src dst len d)) = Some d' \<and>
    \<not> ac_busy d' \<and> ac_done d' \<and> ac_mem d' = store64 (ac_mem d) dst (load64 (ac_mem d) src + 1) \<and>
    accel_irq d' = ac_irq_mask d"
proof -
  let ?B = "accel_bus asic_dma_ip lat"
  define d1 where "d1 = d\<lparr>ac_reg := (ac_reg d)(0x10 := src, 0x18 := dst, 0x20 := len)\<rparr>"
  define d2 where "d2 = accel_start asic_dma_ip lat d1"
  have c: "asic_dma_op_config ?B a src dst len d = d1"
    using assms(1) by (simp add: asic_dma_op_config_def dev_simps assms(2) c_const accel_reg_wr_def asic_dma_ip_def d1_def Let_def take_bit_word_eq_self)
  have s: "asic_dma_op_start ?B a d1 = accel_tick asic_dma_ip d2"
    using assms(1) by (simp add: asic_dma_op_start_def dev_simps assms(2) c_const accel_reg_wr_def accel_cmd_def d2_def d1_def Let_def)
  have b: "ac_busy d2" by (simp add: d2_def accel_start_def asic_dma_ip_def)
  have "asic_dma_op_wait ?B a (asic_dma_op_start ?B a d1) = Some (accel_end asic_dma_ip d2)"
    using accel_wait [OF b, of asic_dma_ip lat]
    by (simp add: asic_dma_op_wait_def s assms(2) ASIC_DMA_STATUS_OFF_def ASIC_DMA_STATUS_BUSY_def)
  moreover have "ac_mem (accel_end asic_dma_ip d2) = store64 (ac_mem d) dst (load64 (ac_mem d) src + 1)"
    unfolding accel_end_simps
    by (simp add: asic_dma_ip_def d2_def accel_start_def d1_def Let_def and_not_aligned assms(3,4))
  moreover have "ac_irq_mask d2 = ac_irq_mask d" by (simp add: d2_def accel_start_def asic_dma_ip_def d1_def)
  ultimately show ?thesis unfolding c by (simp add: accel_irq_def accel_end_simps)
qed

definition demo_accel :: accel_dev where
  "demo_accel = \<lparr>ac_reg = (\<lambda>_. 0), ac_busy = False, ac_done = False, ac_err = False, ac_irq_mask = True,
     ac_irq_status = False, ac_cycles = 0, ac_result = 0, ac_wait = 0, ac_runs = 0, ac_mem = (\<lambda>_. 0)\<rparr>"

lemma asic_dma_increments_witness:
  "\<exists>d'. asic_dma_op_wait (accel_bus asic_dma_ip (\<lambda>_. 5)) (asic_dma_bind \<lparr>ad_regs = ASIC_ACCEL_BASE, ad_bound = False\<rparr>)
     (asic_dma_op_start (accel_bus asic_dma_ip (\<lambda>_. 5)) (asic_dma_bind \<lparr>ad_regs = ASIC_ACCEL_BASE, ad_bound = False\<rparr>)
       (asic_dma_op_config (accel_bus asic_dma_ip (\<lambda>_. 5)) (asic_dma_bind \<lparr>ad_regs = ASIC_ACCEL_BASE, ad_bound = False\<rparr>)
          0x100 0x200 4096 demo_accel)) = Some d' \<and>
     load64 (ac_mem d') 0x200 = 1 \<and> accel_irq d'"
proof -
  have z: "load64 (\<lambda>_. 0) (0x100 :: addr) = 0" by (simp add: load64_def)
  show ?thesis
    using asic_dma_increments [of demo_accel "asic_dma_bind \<lparr>ad_regs = ASIC_ACCEL_BASE, ad_bound = False\<rparr>" "0x100" "0x200" "\<lambda>_. 5" 4096]
    by (auto simp: demo_accel_def asic_dma_bind_def z)
qed

end
