(* ===== verification/Vmma.thy ===== *)
theory Vmma
  imports Accel Console Context
begin

text \<open>
  The vector-matrix accelerator: the driver \<open>software/soc/src/vmma.c\<close>, the device
  (\<open>hardware/user_ip/vmma/vmma_sim.sv\<close>, an \<open>accel_ip\<close> of theory Accel whose job is the product
  of an \<open>int16\<close> matrix and a vector, read and written by DMA at 8-byte aligned addresses), and the
  test program \<open>software/app/vmma_test/main.c\<close> with its wait loop.
\<close>

section \<open>16-bit objects\<close>

definition load16 :: "mem \<Rightarrow> addr \<Rightarrow> 16 word" where
  "load16 m a = ucast (m a) OR push_bit 8 (ucast (m (a + 1)))"

definition byte16 :: "16 word \<Rightarrow> nat \<Rightarrow> byte" where
  "byte16 v k = ucast (drop_bit (8 * k) v)"

definition store16 :: "mem \<Rightarrow> addr \<Rightarrow> 16 word \<Rightarrow> mem" where
  "store16 m a v = m(a := byte16 v 0, a + 1 := byte16 v 1)"

section \<open>The driver\<close>

definition VMMA_REG_CMD_OFF :: addr where [c_const]: "VMMA_REG_CMD_OFF = 0x00"
definition VMMA_REG_STATUS_OFF :: addr where [c_const]: "VMMA_REG_STATUS_OFF = 0x08"
definition VMMA_REG_CTRL_OFF :: addr where [c_const]: "VMMA_REG_CTRL_OFF = 0x10"
definition VMMA_REG_M_OFF :: addr where [c_const]: "VMMA_REG_M_OFF = 0x18"
definition VMMA_REG_N_OFF :: addr where [c_const]: "VMMA_REG_N_OFF = 0x20"
definition VMMA_REG_W_ADDR_OFF :: addr where [c_const]: "VMMA_REG_W_ADDR_OFF = 0x28"
definition VMMA_REG_X_ADDR_OFF :: addr where [c_const]: "VMMA_REG_X_ADDR_OFF = 0x30"
definition VMMA_REG_Y_ADDR_OFF :: addr where [c_const]: "VMMA_REG_Y_ADDR_OFF = 0x38"
definition VMMA_REG_W_STRIDE_OFF :: addr where [c_const]: "VMMA_REG_W_STRIDE_OFF = 0x40"
definition VMMA_REG_CYCLE_CNT_OFF :: addr where [c_const]: "VMMA_REG_CYCLE_CNT_OFF = 0x48"
definition VMMA_REG_IRQ_MASK_OFF :: addr where [c_const]: "VMMA_REG_IRQ_MASK_OFF = 0x50"
definition VMMA_REG_IRQ_STAT_OFF :: addr where [c_const]: "VMMA_REG_IRQ_STAT_OFF = 0x58"
definition VMMA_CMD_START :: u32 where [c_const]: "VMMA_CMD_START = 1"
definition VMMA_CMD_CLR_DONE :: u32 where [c_const]: "VMMA_CMD_CLR_DONE = 2"
definition VMMA_STATUS_BUSY :: u32 where [c_const]: "VMMA_STATUS_BUSY = 1"
definition VMMA_STATUS_DONE :: u32 where [c_const]: "VMMA_STATUS_DONE = 2"
definition VMMA_STATUS_ERR_M :: u32 where [c_const]: "VMMA_STATUS_ERR_M = 0xF0"

datatype vmma_dtype = VMMA_DTYPE_INT8 | VMMA_DTYPE_INT16 | VMMA_DTYPE_FP16 | VMMA_DTYPE_FP32

fun dtype_code :: "vmma_dtype \<Rightarrow> u32" where
  "dtype_code VMMA_DTYPE_INT8 = 0"
| "dtype_code VMMA_DTYPE_INT16 = 1"
| "dtype_code VMMA_DTYPE_FP16 = 2"
| "dtype_code VMMA_DTYPE_FP32 = 3"

definition vmma_regs :: "addr list" where
  "vmma_regs = [VMMA_REG_CMD_OFF, VMMA_REG_STATUS_OFF, VMMA_REG_CTRL_OFF, VMMA_REG_M_OFF, VMMA_REG_N_OFF,
     VMMA_REG_W_ADDR_OFF, VMMA_REG_X_ADDR_OFF, VMMA_REG_Y_ADDR_OFF, VMMA_REG_W_STRIDE_OFF,
     VMMA_REG_CYCLE_CNT_OFF, VMMA_REG_IRQ_MASK_OFF, VMMA_REG_IRQ_STAT_OFF]"

lemma vmma_regs_layout: "vmma_regs = map (\<lambda>i. of_nat (8 * i)) [0..<12]"
  by (simp add: vmma_regs_def c_const upt_rec)

record vmma_drv =
  vm_regs :: addr
  vm_bound :: bool

definition vmma_bind :: "vmma_drv \<Rightarrow> vmma_drv" where
  "vmma_bind v = v\<lparr>vm_bound := True\<rparr>"

definition vmma_op_init :: "'d bus \<Rightarrow> addr \<Rightarrow> vmma_drv \<Rightarrow> 'd \<Rightarrow> vmma_drv \<times> 'd" where
  "vmma_op_init B r v d =
     (let d = wr64 B (r + VMMA_REG_IRQ_MASK_OFF) 0 d;
          d = wr64 B (r + VMMA_REG_IRQ_STAT_OFF) 1 d;
          d = wr64 B (r + VMMA_REG_CMD_OFF) (ucast VMMA_CMD_CLR_DONE) d
      in (v\<lparr>vm_regs := r\<rparr>, d))"

definition vmma_op_config :: "'d bus \<Rightarrow> vmma_drv \<Rightarrow> vmma_dtype \<Rightarrow> u32 \<Rightarrow> u32 \<Rightarrow> u64 \<Rightarrow> u64 \<Rightarrow> u64 \<Rightarrow> u64 \<Rightarrow> 'd \<Rightarrow> 'd" where
  "vmma_op_config B v dt m n w x y w_stride d =
     (let d = wr64 B (vm_regs v + VMMA_REG_CTRL_OFF) (ucast (dtype_code dt AND 3)) d;
          d = wr64 B (vm_regs v + VMMA_REG_M_OFF) (ucast m) d;
          d = wr64 B (vm_regs v + VMMA_REG_N_OFF) (ucast n) d;
          d = wr64 B (vm_regs v + VMMA_REG_W_ADDR_OFF) w d;
          d = wr64 B (vm_regs v + VMMA_REG_X_ADDR_OFF) x d;
          d = wr64 B (vm_regs v + VMMA_REG_Y_ADDR_OFF) y d
      in wr64 B (vm_regs v + VMMA_REG_W_STRIDE_OFF) w_stride d)"

definition vmma_op_start :: "'d bus \<Rightarrow> vmma_drv \<Rightarrow> 'd \<Rightarrow> 'd" where
  "vmma_op_start B v d = wr64 B (vm_regs v + VMMA_REG_CMD_OFF) (ucast VMMA_CMD_START) d"

definition vmma_op_busy :: "'d bus \<Rightarrow> vmma_drv \<Rightarrow> 'd \<Rightarrow> bool \<times> 'd" where
  "vmma_op_busy B v d = flag_step B (vm_regs v + VMMA_REG_STATUS_OFF) (ucast VMMA_STATUS_BUSY) d"

definition vmma_op_wait :: "'d bus \<Rightarrow> vmma_drv \<Rightarrow> 'd \<Rightarrow> 'd option" where
  "vmma_op_wait B v d = poll (flag_step B (vm_regs v + VMMA_REG_STATUS_OFF) (ucast VMMA_STATUS_BUSY)) d"

definition vmma_op_cycles :: "'d bus \<Rightarrow> vmma_drv \<Rightarrow> 'd \<Rightarrow> u64 \<times> 'd" where
  "vmma_op_cycles B v d = rd64 B (vm_regs v + VMMA_REG_CYCLE_CNT_OFF) d"

definition vmma_op_irq_enable :: "'d bus \<Rightarrow> vmma_drv \<Rightarrow> u32 \<Rightarrow> 'd \<Rightarrow> 'd" where
  "vmma_op_irq_enable B v en d = wr64 B (vm_regs v + VMMA_REG_IRQ_MASK_OFF) (if en \<noteq> 0 then 1 else 0) d"

definition vmma_op_irq_clear :: "'d bus \<Rightarrow> vmma_drv \<Rightarrow> 'd \<Rightarrow> 'd" where
  "vmma_op_irq_clear B v d =
     (let d = wr64 B (vm_regs v + VMMA_REG_IRQ_STAT_OFF) 1 d
      in wr64 B (vm_regs v + VMMA_REG_CMD_OFF) (ucast VMMA_CMD_CLR_DONE) d)"

section \<open>The device\<close>

definition elem :: "mem \<Rightarrow> addr \<Rightarrow> nat \<Rightarrow> 16 word" where
  "elem m a i = load16 m ((a AND NOT 7) + of_nat (2 * i))"

definition vmma_dot :: "mem \<Rightarrow> u64 \<Rightarrow> u64 \<Rightarrow> nat \<Rightarrow> 16 word" where
  "vmma_dot m w x n = (\<Sum>i < n. elem m w i * elem m x i)"

definition vmma_job :: "(nat \<Rightarrow> u64) \<Rightarrow> mem \<Rightarrow> u64 \<times> mem" where
  "vmma_job r m =
     (0, mem_put m (r 0x38 AND NOT 7) (2 * unat (r 0x18))
           (\<lambda>o'. byte16 (vmma_dot m (r 0x28 + of_nat (unat o' div 2) * r 0x40) (r 0x30) (unat (r 0x20))) (unat o' mod 2)))"

definition vmma_ip :: accel_ip where
  "vmma_ip =
     \<lparr>ip_cycles = 0x48, ip_mask = 0x50, ip_stat = 0x58, ip_result = None,
      ip_plain = (\<lambda>o'. if o' \<in> {0x10, 0x18, 0x20} then Some 32 else if o' \<in> {0x28, 0x30, 0x38, 0x40} then Some 64 else None),
      ip_ok = (\<lambda>r. take_bit 2 (r 0x10) = 1 \<and> r 0x18 \<noteq> 0 \<and> r 0x20 \<noteq> 0 \<and> r 0x18 \<le> 32 \<and> r 0x20 \<le> 32),
      ip_job = vmma_job\<rparr>"

section \<open>The product\<close>

lemma byte16_load16: "k < 2 \<Longrightarrow> byte16 (load16 m a) k = m (a + of_nat k)"
  by (rule bit_word_eqI) (auto simp: byte16_def load16_def bit_simps less_2_cases_iff dest: bit_imp_le_length)

lemma load16_bytes: "m a = byte16 v 0 \<Longrightarrow> m (a + 1) = byte16 v 1 \<Longrightarrow> load16 m a = v"
  by (rule bit_word_eqI) (auto simp: byte16_def load16_def bit_simps)

text \<open>The configured device.\<close>

definition vmma_conf :: "vmma_dtype \<Rightarrow> u32 \<Rightarrow> u32 \<Rightarrow> u64 \<Rightarrow> u64 \<Rightarrow> u64 \<Rightarrow> u64 \<Rightarrow> accel_dev \<Rightarrow> accel_dev" where
  "vmma_conf dt m n w x y s d = d\<lparr>ac_reg := (ac_reg d)(0x10 := ucast (dtype_code dt AND 3), 0x18 := ucast m,
     0x20 := ucast n, 0x28 := w, 0x30 := x, 0x38 := y, 0x40 := s)\<rparr>"

lemma take_bit_ucast32 [simp]: "take_bit 32 (ucast (v :: u32) :: u64) = ucast v"
  by (rule bit_word_eqI) (auto simp: bit_simps dest: bit_imp_le_length)

lemma vmma_config_device:
  assumes "\<not> ac_busy d" and "vm_regs v = VMMA_ACCEL_BASE"
  shows "vmma_op_config (accel_bus vmma_ip lat) v dt m n w x y s d = vmma_conf dt m n w x y s d"
  using assms(1)
  by (simp add: vmma_op_config_def dev_simps assms(2) c_const accel_reg_wr_def vmma_ip_def vmma_conf_def Let_def
      take_bit_word_eq_self)

lemma vmma_start_device:
  assumes "\<not> ac_busy d" and "vm_regs v = VMMA_ACCEL_BASE"
  shows "vmma_op_start (accel_bus vmma_ip lat) v d = accel_tick vmma_ip (accel_start vmma_ip lat d)"
  using assms(1) by (simp add: vmma_op_start_def dev_simps assms(2) c_const accel_reg_wr_def accel_cmd_def Let_def)


lemma vmma_wait_end:
  assumes "ac_busy d" and "vm_regs v = VMMA_ACCEL_BASE"
  shows "vmma_op_wait (accel_bus vmma_ip lat) v (accel_tick vmma_ip d) = Some (accel_end vmma_ip d)"
  using accel_wait [OF assms(1), of vmma_ip lat]
  by (simp add: vmma_op_wait_def assms(2) VMMA_ACCEL_BASE_def ASIC_ACCEL_BASE_def VMMA_REG_STATUS_OFF_def VMMA_STATUS_BUSY_def)

lemma dtype_INT16 [simp]: "dtype_code VMMA_DTYPE_INT16 AND 3 = 1"
  by simp

lemma conf_ok:
  assumes "0 < m" "m \<le> 32" "0 < n" "n \<le> 32"
  shows "ip_ok vmma_ip (ac_reg (vmma_conf VMMA_DTYPE_INT16 m n w x y s d))"
proof -
  have "(ucast m :: u64) \<noteq> 0" "(ucast n :: u64) \<noteq> 0" "(ucast m :: u64) \<le> 32" "(ucast n :: u64) \<le> 32"
    using assms by (auto simp: word_le_nat_alt word_less_nat_alt simp flip: unat_eq_zero unat_0_iff)
  then show ?thesis by (simp add: vmma_ip_def vmma_conf_def)
qed

lemma low_bits_zero: "(a :: u64) AND 7 = 0 \<longleftrightarrow> take_bit 3 a = 0"
  by (simp add: take_bit_eq_mask mask_eq_exp_minus_1)

lemma aligned_push: "take_bit 3 (a :: u64) = 0 \<Longrightarrow> a = push_bit 3 (drop_bit 3 a)"
  using bits_ident [of 3 a] by simp

lemma aligned_and:
  assumes "a AND 7 = 0" "b AND 7 = 0" shows "(a + of_nat k * b :: u64) AND 7 = 0"
proof -
  have "a + of_nat k * b = push_bit 3 (drop_bit 3 a) + of_nat k * push_bit 3 (drop_bit 3 b)"
    using assms unfolding low_bits_zero by (simp only: aligned_push [symmetric])
  also have "\<dots> = push_bit 3 (drop_bit 3 a + of_nat k * drop_bit 3 b)"
    by (simp add: push_bit_eq_mult algebra_simps)
  finally show ?thesis by (simp add: low_bits_zero take_bit_push_bit)
qed

section \<open>Properties\<close>

text \<open>A configuration that the device does not support is refused at once, without touching the memory.\<close>

lemma vmma_refused:
  assumes "\<not> ac_busy d" and "vm_regs v = VMMA_ACCEL_BASE" and "dt \<noteq> VMMA_DTYPE_INT16 \<or> m = 0 \<or> 32 < m \<or> n = 0 \<or> 32 < n"
  shows "\<exists>d'. vmma_op_start (accel_bus vmma_ip lat) v (vmma_op_config (accel_bus vmma_ip lat) v dt m n w x y s d) = d' \<and>
    \<not> ac_busy d' \<and> ac_done d' \<and> ac_err d' \<and> ac_mem d' = ac_mem d"
proof -
  let ?d = "vmma_conf dt m n w x y s d"
  have i1: "\<not> ac_busy ?d" using assms(1) by (simp add: vmma_conf_def)
  have "take_bit 2 (ucast (dtype_code dt AND 3) :: u64) = 1 \<longleftrightarrow> dt = VMMA_DTYPE_INT16"
    by (cases dt) simp_all
  moreover have "(ucast m :: u64) = 0 \<longleftrightarrow> m = 0" "(ucast n :: u64) = 0 \<longleftrightarrow> n = 0"
    "(ucast m :: u64) \<le> 32 \<longleftrightarrow> m \<le> 32" "(ucast n :: u64) \<le> 32 \<longleftrightarrow> n \<le> 32"
    by (simp_all add: word_le_nat_alt flip: unat_eq_0)
  ultimately have "\<not> ip_ok vmma_ip (ac_reg ?d)" using assms(3) by (auto simp: vmma_ip_def vmma_conf_def)
  then show ?thesis using i1
    unfolding vmma_config_device [OF assms(1,2)] vmma_start_device [OF i1 assms(2)]
    by (simp add: accel_start_def) (simp add: vmma_conf_def)
qed

text \<open>C35. A product on an idle device, for a matrix of at most 32 rows of at most 32 \<open>int16\<close> elements
  with 8-byte aligned rows: \<open>wait\<close> returns, the device reports done and no error, element \<open>i\<close> of the
  output is the inner product of row \<open>i\<close> and the vector modulo \<open>2^16\<close>, computed from the memory at
  the start even if the output overlaps the inputs, and no other byte of the memory has changed.\<close>

theorem vmma_product:
  assumes "\<not> ac_busy d" and "vm_regs v = VMMA_ACCEL_BASE" and "0 < m" "m \<le> 32" "0 < n" "n \<le> 32"
    and "w AND 7 = 0" "x AND 7 = 0" "y AND 7 = 0" "s AND 7 = 0"
  shows "\<exists>d'. vmma_op_wait (accel_bus vmma_ip lat) v (vmma_op_start (accel_bus vmma_ip lat) v
        (vmma_op_config (accel_bus vmma_ip lat) v VMMA_DTYPE_INT16 m n w x y s d)) = Some d' \<and>
      \<not> ac_busy d' \<and> ac_done d' \<and> \<not> ac_err d' \<and>
      (\<forall>i < unat m. load16 (ac_mem d') (y + of_nat (2 * i)) =
         (\<Sum>j < unat n. load16 (ac_mem d) (w + of_nat i * s + of_nat (2 * j)) * load16 (ac_mem d) (x + of_nat (2 * j)))) \<and>
      (\<forall>a. 2 * unat m \<le> unat (a - y) \<longrightarrow> ac_mem d' a = ac_mem d a)"
proof -
  define d1 where "d1 = vmma_conf VMMA_DTYPE_INT16 m n w x y s d"
  define d2 where "d2 = accel_start vmma_ip lat d1"
  have ok: "ip_ok vmma_ip (ac_reg d1)" unfolding d1_def by (rule conf_ok [OF assms(3-6)])
  then have b: "ac_busy d2" by (simp add: d2_def accel_start_def)
  have i1: "\<not> ac_busy d1" using assms(1) by (simp add: d1_def vmma_conf_def)
  have run: "vmma_op_wait (accel_bus vmma_ip lat) v (vmma_op_start (accel_bus vmma_ip lat) v
        (vmma_op_config (accel_bus vmma_ip lat) v VMMA_DTYPE_INT16 m n w x y s d)) = Some (accel_end vmma_ip d2)"
    unfolding vmma_config_device [OF assms(1,2)] d1_def [symmetric] vmma_start_device [OF i1 assms(2)] d2_def [symmetric]
    by (rule vmma_wait_end [OF b assms(2)])
  have m32: "unat m \<le> 32" using assms(4) by (simp add: word_le_nat_alt)
  have mem: "ac_mem (accel_end vmma_ip d2) = mem_put (ac_mem d) y (2 * unat m)
      (\<lambda>o'. byte16 (vmma_dot (ac_mem d) (w + of_nat (unat o' div 2) * s) x (unat n)) (unat o' mod 2))"
    unfolding accel_end_simps using ok assms(9)
    by (simp add: d2_def accel_start_def vmma_ip_def vmma_job_def d1_def vmma_conf_def and_not_aligned)
  have out: "load16 (ac_mem (accel_end vmma_ip d2)) (y + of_nat (2 * i)) =
      (\<Sum>j < unat n. load16 (ac_mem d) (w + of_nat i * s + of_nat (2 * j)) * load16 (ac_mem d) (x + of_nat (2 * j)))"
    if i: "i < unat m" for i
  proof -
    have o1: "unat (of_nat (2 * i) :: u64) = 2 * i" "unat (of_nat (2 * i) + 1 :: u64) = 2 * i + 1"
      using i m32 unat_of_nat64 [of "2 * i"] unat_of_nat64 [of "2 * i + 1"] by (simp_all add: add.commute)
    have "load16 (ac_mem (accel_end vmma_ip d2)) (y + of_nat (2 * i)) = vmma_dot (ac_mem d) (w + of_nat i * s) x (unat n)"
      by (rule load16_bytes) (use i o1 in \<open>simp_all add: mem mem_put_def add.assoc del: of_nat_mult of_nat_numeral\<close>)
    also have "\<dots> = (\<Sum>j < unat n. load16 (ac_mem d) (w + of_nat i * s + of_nat (2 * j)) * load16 (ac_mem d) (x + of_nat (2 * j)))"
      by (simp add: vmma_dot_def elem_def and_not_aligned aligned_and assms(7,8,10))
    finally show ?thesis .
  qed
  have e: "\<not> ac_err (accel_end vmma_ip d2)" using ok by (simp add: accel_end_simps d2_def accel_start_def)
  have "\<forall>a. 2 * unat m \<le> unat (a - y) \<longrightarrow> ac_mem (accel_end vmma_ip d2) a = ac_mem d a"
    by (simp add: mem mem_put_outside)
  then show ?thesis using run out e accel_end_simps(1) by (intro exI [of _ "accel_end vmma_ip d2"]) simp
qed

section \<open>The wait loop of the test\<close>

text \<open>\<open>while (busy() && timeout--) ;\<close>, with the value that \<open>timeout\<close> has after the loop.\<close>

function busy_or_timeout :: "('d \<Rightarrow> bool \<times> 'd) \<Rightarrow> u64 \<Rightarrow> 'd \<Rightarrow> u64 \<times> 'd" where
  "busy_or_timeout step timeout d =
     (let (again, d) = step d
      in if \<not> again then (timeout, d)
         else if timeout = 0 then (timeout - 1, d)
         else busy_or_timeout step (timeout - 1) d)"
  by pat_completeness auto
termination
  by (relation "measure (\<lambda>(step, timeout, d). unat timeout)")
     (auto simp: unat_minus_one unat_gt_0 unat_eq_0)

declare busy_or_timeout.simps [simp del]

context busy_device begin

lemma count_idle:
  assumes "k \<le> unat n" and "\<And>i. i < k \<Longrightarrow> busy ((tick ^^ i) d)" and "\<not> busy ((tick ^^ k) d)"
  shows "busy_or_timeout (flag_step B a 1) n d = (n - of_nat k, (tick ^^ Suc k) d)"
  using assms
proof (induction k arbitrary: n d)
  case 0
  then show ?case by (subst busy_or_timeout.simps) (simp add: status)
next
  case (Suc k)
  have "n \<noteq> 0" using Suc.prems(1) by auto
  with Suc.prems(1) have n: "n \<noteq> 0" "k \<le> unat (n - 1)" by (simp_all add: unat_minus_one)
  have "busy d" using Suc.prems(2) [of 0] by simp
  moreover have "busy_or_timeout (flag_step B a 1) (n - 1) (tick d) = (n - 1 - of_nat k, (tick ^^ Suc k) (tick d))"
    by (rule Suc.IH) (use Suc.prems(2) [of "Suc _"] Suc.prems(3) n in \<open>auto simp: funpow_swap1\<close>)
  ultimately show ?case
    by (subst busy_or_timeout.simps) (simp add: n status funpow_swap1 algebra_simps)
qed

lemma count_busy:
  assumes "\<And>i. i \<le> unat n \<Longrightarrow> busy ((tick ^^ i) d)"
  shows "busy_or_timeout (flag_step B a 1) n d = (- 1, (tick ^^ Suc (unat n)) d)"
  using assms
proof (induction "unat n" arbitrary: n d)
  case 0
  then show ?case by (subst busy_or_timeout.simps) (auto simp: status unat_eq_0)
next
  case (Suc k)
  have "n \<noteq> 0" using Suc.hyps(2) by auto
  with Suc.hyps(2) have n: "n \<noteq> 0" "unat (n - 1) = k" by (simp_all add: unat_minus_one)
  have "busy d" using Suc.prems [of 0] by simp
  moreover have "busy_or_timeout (flag_step B a 1) (n - 1) (tick d) = (- 1, (tick ^^ Suc (unat (n - 1))) (tick d))"
    by (rule Suc.hyps(1)) (use Suc.prems [of "Suc _"] Suc.hyps(2) n in \<open>auto simp: funpow_swap1\<close>)
  ultimately show ?case
    by (subst busy_or_timeout.simps) (simp add: n Suc.hyps(2) [symmetric] status funpow_swap1)
qed

end

section \<open>The test program\<close>

text \<open>\<open>aw\<close>, \<open>ax\<close> and \<open>ay\<close> are the addresses the linker gives to \<open>W\<close>, \<open>X\<close> and \<open>Y\<close>.\<close>

definition vmma_inputs :: "addr \<Rightarrow> addr \<Rightarrow> mem \<Rightarrow> mem" where
  "vmma_inputs aw ax m =
     fold (\<lambda>(a, v) m. store16 m a v)
       [(aw, 1), (aw + 2, 2), (aw + 4, 3), (aw + 8, 4), (aw + 10, 5), (aw + 12, 6), (ax, 1), (ax + 2, 2), (ax + 4, 3)] m"

definition vmma_wait_loop :: "'d bus \<Rightarrow> vmma_drv \<Rightarrow> u64 \<Rightarrow> 'd \<Rightarrow> u64 \<times> 'd" where
  "vmma_wait_loop B v = busy_or_timeout (vmma_op_busy B v)"

text \<open>\<open>printf\<close> arguments of type \<open>int\<close> are passed sign extended.\<close>

definition int_slot :: "16 word \<Rightarrow> u64" where
  "int_slot v = scast v"

definition vmma_test_check :: "accel_dev bus \<Rightarrow> vmma_drv \<Rightarrow> mem \<Rightarrow> addr \<Rightarrow> accel_dev app \<Rightarrow> (u32 \<times> accel_dev app) option" where
  "vmma_test_check B v m ay s =
     (let (st, s) = from_dev (rd64 B (vm_regs v + VMMA_REG_STATUS_OFF)) s;
          stlo = (ucast st :: byte)
      in if drop_bit 4 stlo AND 0xF \<noteq> 0
         then Option.bind (say m ''VMMA error in STATUS bits[7:4]: 0x%x\<newline>'' [ucast stlo] s)
                (\<lambda>s. map_option (Pair 3) (say m ''FAIL\<newline>'' [] s))
         else let e0 = 1 * 1 + 2 * 2 + 3 * 3; e1 = 4 * 1 + 5 * 2 + 6 * 3;
                  (cy, s) = from_dev (vmma_op_cycles B v) s;
                  y = (\<lambda>i. load16 (ac_mem (ap_dev s)) (ay + 2 * i))
              in Option.bind (say m ''Y[0]=%d (expect %d), Y[1]=%d (expect %d), cycles=%lu status=0x%x\<newline>''
                     [int_slot (y 0), int_slot e0, int_slot (y 1), int_slot e1, cy, ucast stlo] s)
                   (\<lambda>s. if y 0 \<noteq> e0 \<or> y 1 \<noteq> e1 then map_option (Pair 1) (say m ''FAIL\<newline>'' [] s)
                        else map_option (Pair 0) (say m ''PASS\<newline>'' [] s)))"

definition vmma_test_main :: "accel_dev bus \<Rightarrow> vmma_drv \<Rightarrow> mem \<Rightarrow> addr \<Rightarrow> addr \<Rightarrow> addr \<Rightarrow> accel_dev app \<Rightarrow>
    (u32 \<times> accel_dev app) option" where
  "vmma_test_main B vmma0 m aw ax ay s =
     Option.bind (say m ''=== VMMA (VecMatMul + DMA) test ===\<newline>'' [] s) (\<lambda>s.
       let s = on_dev (\<lambda>d. d\<lparr>ac_mem := vmma_inputs aw ax (ac_mem d)\<rparr>) s;
           (v, s) = from_dev (vmma_op_init B VMMA_ACCEL_BASE (vmma_bind vmma0)) s;
           s = on_dev (vmma_op_irq_enable B v 0) s;
           s = on_dev (vmma_op_config B v VMMA_DTYPE_INT16 2 3 aw ax ay 8) s;
           s = on_dev (vmma_op_start B v) s;
           (timeout, s) = from_dev (vmma_wait_loop B v 5000000) s
       in if timeout = 0
          then let (st, s) = from_dev (rd64 B (vm_regs v + VMMA_REG_STATUS_OFF)) s
               in Option.bind (say m ''TIMEOUT status=0x%lx\<newline>'' [st] s)
                    (\<lambda>s. map_option (Pair 2) (say m ''FAIL\<newline>'' [] s))
          else vmma_test_check B v m ay s)"

section \<open>Properties of the test\<close>

lemma vmma_wait_loop_run:
  assumes "ac_busy d" and "vm_regs v = VMMA_ACCEL_BASE"
  shows "vmma_wait_loop (accel_bus vmma_ip lat) v n (accel_tick vmma_ip d) =
    (if ac_wait d \<le> unat n then (n - of_nat (ac_wait d), accel_end vmma_ip d)
     else (- 1, (accel_tick vmma_ip ^^ (unat n + 2)) d))"
proof -
  have step: "vmma_op_busy (accel_bus vmma_ip lat) v = flag_step (accel_bus vmma_ip lat) (ASIC_ACCEL_BASE + 8) 1"
    by (simp add: fun_eq_iff vmma_op_busy_def assms(2) VMMA_ACCEL_BASE_def ASIC_ACCEL_BASE_def VMMA_REG_STATUS_OFF_def VMMA_STATUS_BUSY_def)
  have busy: "ac_busy ((accel_tick vmma_ip ^^ i) (accel_tick vmma_ip d))" if "i < ac_wait d" for i
    using ticks_busy [OF assms(1), of "Suc i" vmma_ip] assms(1) that by (simp add: funpow_swap1)
  have fin: "(accel_tick vmma_ip ^^ Suc (ac_wait d)) d = accel_end vmma_ip d" by (rule ticks_end [OF assms(1)])
  show ?thesis
  proof (cases "ac_wait d \<le> unat n")
    case True
    have "busy_or_timeout (flag_step (accel_bus vmma_ip lat) (ASIC_ACCEL_BASE + 8) 1) n (accel_tick vmma_ip d) =
       (n - of_nat (ac_wait d), (accel_tick vmma_ip ^^ Suc (ac_wait d)) (accel_tick vmma_ip d))"
      by (rule accel_poll.count_idle [OF True busy]) (use fin in \<open>simp_all add: funpow_swap1\<close>)
    also have "(accel_tick vmma_ip ^^ Suc (ac_wait d)) (accel_tick vmma_ip d) = accel_tick vmma_ip (accel_end vmma_ip d)"
      unfolding fin [symmetric] by (simp add: funpow_swap1)
    finally show ?thesis using True by (simp add: vmma_wait_loop_def step)
  next
    case False
    have "busy_or_timeout (flag_step (accel_bus vmma_ip lat) (ASIC_ACCEL_BASE + 8) 1) n (accel_tick vmma_ip d) =
       (- 1, (accel_tick vmma_ip ^^ Suc (unat n)) (accel_tick vmma_ip d))"
      by (rule accel_poll.count_busy [OF busy]) (use False in simp)
    then show ?thesis using False by (simp add: vmma_wait_loop_def step funpow_swap1)
  qed
qed

text \<open>The timeout of the VMMA test does not report a hanging accelerator: when the device is
  still busy as the counter runs out, \<open>timeout\<close> has wrapped around to \<open>2^64 - 1\<close>, and the program
  goes on as after a success; the value 0, which it reports as a timeout, is left exactly when the
  job ended in time for the last poll.\<close>

theorem vmma_timeout_undetected:
  assumes "ac_busy d" and "vm_regs v = VMMA_ACCEL_BASE"
    and "vmma_wait_loop (accel_bus vmma_ip lat) v n (accel_tick vmma_ip d) = (t, d')"
  shows "(unat n + 1 < ac_wait d \<longrightarrow> ac_busy d' \<and> t = - 1) \<and>
    (t = 0 \<longleftrightarrow> ac_wait d = unat n) \<and> (t = 0 \<longrightarrow> \<not> ac_busy d' \<and> ac_done d')"
proof -
  have r: "(if ac_wait d \<le> unat n then (n - of_nat (ac_wait d), accel_end vmma_ip d)
     else (- 1, (accel_tick vmma_ip ^^ (unat n + 2)) d)) = (t, d')"
    using vmma_wait_loop_run [OF assms(1,2), of lat n] assms(3) by simp
  show ?thesis
  proof (cases "ac_wait d \<le> unat n")
    case True
    have "n - of_nat (ac_wait d) = 0 \<longleftrightarrow> ac_wait d = unat n"
      using True word64_of_nat_inj [of "ac_wait d" "unat n"] le_less_trans [OF True unat_lt64] by auto
    then show ?thesis using r True accel_end_simps(1) [of vmma_ip d] by auto
  next
    case False
    then show ?thesis using r ticks_busy [OF assms(1), of "unat n + 2" vmma_ip] assms(1) by auto
  qed
qed

lemma vmma_timeout_undetected_witness:
  "\<exists>t d'. vmma_wait_loop (accel_bus vmma_ip (\<lambda>_. 9)) \<lparr>vm_regs = VMMA_ACCEL_BASE, vm_bound = True\<rparr> 5
      (accel_tick vmma_ip (demo_accel\<lparr>ac_busy := True, ac_wait := 9\<rparr>)) = (t, d') \<and> ac_busy d' \<and> t = - 1"
proof -
  obtain t d' where r: "vmma_wait_loop (accel_bus vmma_ip (\<lambda>_. 9)) \<lparr>vm_regs = VMMA_ACCEL_BASE, vm_bound = True\<rparr> 5
      (accel_tick vmma_ip (demo_accel\<lparr>ac_busy := True, ac_wait := 9\<rparr>)) = (t, d')" by fastforce
  then show ?thesis using vmma_timeout_undetected [OF _ _ r] by auto
qed

lemma load16_store16: "load16 (store16 m a v) a = v"
  by (rule load16_bytes) (simp_all add: store16_def)

lemma load16_other: "b \<noteq> a \<Longrightarrow> b \<noteq> a + 1 \<Longrightarrow> b + 1 \<noteq> a \<Longrightarrow> load16 (store16 m a v) b = load16 m b"
  by (simp add: load16_def store16_def)

lemma vmma_inputs_x:
  "load16 (vmma_inputs aw ax m) ax = 1" "load16 (vmma_inputs aw ax m) (ax + 2) = 2" "load16 (vmma_inputs aw ax m) (ax + 4) = 3"
  by (simp_all add: vmma_inputs_def load16_store16 load16_other)

lemma vmma_inputs_w:
  assumes "apart aw 16 ax 8"
  shows "load16 (vmma_inputs aw ax m) aw = 1" "load16 (vmma_inputs aw ax m) (aw + 2) = 2" "load16 (vmma_inputs aw ax m) (aw + 4) = 3"
    "load16 (vmma_inputs aw ax m) (aw + 8) = 4" "load16 (vmma_inputs aw ax m) (aw + 10) = 5" "load16 (vmma_inputs aw ax m) (aw + 12) = 6"
proof -
  define mw where "mw = fold (\<lambda>(a, v) m. store16 m a v) [(aw, 1), (aw + 2, 2), (aw + 4, 3), (aw + 8, 4), (aw + 10, 5), (aw + 12, 6)] m"
  have x: "store16 (store16 (store16 mw ax 1) (ax + 2) 2) (ax + 4) 3 y = mw y" if "8 \<le> unat (y - ax)" for y
    using that by (auto simp: store16_def)
  have "vmma_inputs aw ax m y = mw y" if "y \<in> (\<lambda>i. aw + of_nat i) ` {..<16}" for y
    using x [of y] that assms by (auto simp: vmma_inputs_def mw_def apart_def)
  then have "vmma_inputs aw ax m (aw + of_nat i) = mw (aw + of_nat i)" if "i < 16" for i using that by blast
  from this [of 0] this [of 1] this [of 2] this [of 3] this [of 4] this [of 5] this [of 8] this [of 9] this [of 10] this [of 11]
    this [of 12] this [of 13]
  have "load16 (vmma_inputs aw ax m) (aw + k) = load16 mw (aw + k)" if "k \<in> {0, 2, 4, 8, 10, 12}" for k
    using that by (auto simp: load16_def add.assoc)
  from this [of 0] this [of 2] this [of 4] this [of 8] this [of 10] this [of 12]
  show "load16 (vmma_inputs aw ax m) aw = 1" "load16 (vmma_inputs aw ax m) (aw + 2) = 2" "load16 (vmma_inputs aw ax m) (aw + 4) = 3"
    "load16 (vmma_inputs aw ax m) (aw + 8) = 4" "load16 (vmma_inputs aw ax m) (aw + 10) = 5" "load16 (vmma_inputs aw ax m) (aw + 12) = 6"
    by (simp_all add: mw_def load16_store16 load16_other)
qed


lemma vmma_report: "text_of m ''Y[0]=%d (expect %d), Y[1]=%d (expect %d), cycles=%lu status=0x%x\<newline>'' [a, b, c, d, e, f] \<noteq> None"
  by (simp add: text_of_def parse_spec_def parse_width_def parse_precision_def parse_length_def cur_def is_digit_def
    conv_acts_def int_specs_def Let_def)

lemma vmma_init_device:
  assumes "\<not> ac_busy d"
  shows "vmma_op_init (accel_bus vmma_ip lat) VMMA_ACCEL_BASE v d =
    (v\<lparr>vm_regs := VMMA_ACCEL_BASE\<rparr>, accel_clear (d\<lparr>ac_irq_mask := False\<rparr>))"
  using assms by (simp add: vmma_op_init_def dev_simps c_const accel_reg_wr_def accel_cmd_def accel_clear_def vmma_ip_def Let_def)

lemma vmma_irq_enable_device:
  assumes "\<not> ac_busy d" and "vm_regs v = VMMA_ACCEL_BASE"
  shows "vmma_op_irq_enable (accel_bus vmma_ip lat) v en d = d\<lparr>ac_irq_mask := (en \<noteq> 0)\<rparr>"
  using assms by (simp add: vmma_op_irq_enable_def dev_simps c_const accel_reg_wr_def vmma_ip_def)


section \<open>Witnesses\<close>


lemma vmma_product_witness:
  "\<exists>d'. vmma_op_wait (accel_bus vmma_ip (\<lambda>_. 7)) \<lparr>vm_regs = VMMA_ACCEL_BASE, vm_bound = True\<rparr>
      (vmma_op_start (accel_bus vmma_ip (\<lambda>_. 7)) \<lparr>vm_regs = VMMA_ACCEL_BASE, vm_bound = True\<rparr>
        (vmma_op_config (accel_bus vmma_ip (\<lambda>_. 7)) \<lparr>vm_regs = VMMA_ACCEL_BASE, vm_bound = True\<rparr> VMMA_DTYPE_INT16 1 1
          0x100 0x200 0x300 8 (demo_accel\<lparr>ac_mem := store16 (store16 (\<lambda>_. 0) 0x100 5) 0x200 3\<rparr>))) = Some d' \<and>
     load16 (ac_mem d') 0x300 = 15"
  using vmma_product [where d = "demo_accel\<lparr>ac_mem := store16 (store16 (\<lambda>_. 0) 0x100 5) 0x200 3\<rparr>"
      and v = "\<lparr>vm_regs = VMMA_ACCEL_BASE, vm_bound = True\<rparr>" and lat = "\<lambda>_. 7" and m = 1 and n = 1
      and w = "0x100" and x = "0x200" and y = "0x300" and s = 8]
  by (auto simp: demo_accel_def load16_store16 load16_other)

end
