(* ===== verification/Tile.thy ===== *)
theory Tile
  imports Accel Console
begin

text \<open>
  What the drivers of the two matrix and vector units rely on of their hardware
  (\<open>hardware/user_ip/my_mxu/mxu_top_wrapper.sv\<close>, \<open>my_axu/axu_top_wrapper.sv\<close> and
  \<open>sram_buffer/rf2p_256_128_wrapper.sv\<close>): a register window and three buffers of 4096 words of 64
  bits, each with a read and a write port that belong to the processor or to the unit, a table of
  configuration bytes written through one register, busy and done status. The computation itself
  is a parameter \<open>ti_job\<close>: from the configuration, the input buffers it may read and the state
  of the unit to the words it writes to the output buffer and the next state. A word read by the
  processor through a port that it does not own is the stale output of the memory.
\<close>

section \<open>The device\<close>

type_synonym cfg = "nat \<Rightarrow> byte"
type_synonym buf = "nat \<Rightarrow> u64"

record 'u tile_ip =
  ti_bits :: "nat \<Rightarrow> nat"
  ti_seed :: "nat \<Rightarrow> byte \<Rightarrow> bool"
  ti_ok :: "cfg \<Rightarrow> bool"
  ti_calc :: "nat \<Rightarrow> bool"
  ti_job :: "bool \<Rightarrow> cfg \<Rightarrow> buf option \<Rightarrow> buf option \<Rightarrow> 'u \<Rightarrow> (nat \<Rightarrow> u64 option) \<times> 'u"

record 'u tile_dev =
  tl_buf :: "nat \<Rightarrow> buf"
  tl_rd :: "nat \<Rightarrow> bool"
  tl_wr :: "nat \<Rightarrow> bool"
  tl_cfg :: cfg
  tl_busy :: bool
  tl_seed :: bool
  tl_done :: bool
  tl_irq_mask :: bool
  tl_irq_status :: bool
  tl_wait :: nat
  tl_runs :: nat
  tl_stale :: u64
  tl_unit :: 'u

text \<open>The end of a job: the unit has read the input buffers whose read port it owns, and has written
  the output buffer if it owns its write port.\<close>

definition tile_finish :: "'u tile_ip \<Rightarrow> 'u tile_dev \<Rightarrow> 'u tile_dev" where
  "tile_finish ip d =
     (let inp = (\<lambda>i. if tl_rd d i then Some (tl_buf d i) else None);
          (w, u) = ti_job ip (tl_seed d) (tl_cfg d) (inp 0) (inp 1) (tl_unit d);
          out = (\<lambda>i. case w i of None \<Rightarrow> tl_buf d 2 i | Some v \<Rightarrow> v)
      in d\<lparr>tl_busy := False, tl_done := True, tl_irq_status := True, tl_unit := u, tl_runs := Suc (tl_runs d),
           tl_buf := (if tl_wr d 2 then (tl_buf d)(2 := out) else tl_buf d)\<rparr>)"

definition tile_tick :: "'u tile_ip \<Rightarrow> 'u tile_dev \<Rightarrow> 'u tile_dev" where
  "tile_tick ip d =
     (if tl_busy d
      then if tl_wait d > 0 then d\<lparr>tl_wait := tl_wait d - 1\<rparr> else tile_finish ip d
      else d)"

definition tile_begin :: "(nat \<Rightarrow> nat) \<Rightarrow> bool \<Rightarrow> 'u tile_dev \<Rightarrow> 'u tile_dev" where
  "tile_begin lat seed d = d\<lparr>tl_busy := True, tl_seed := seed, tl_wait := lat (tl_runs d)\<rparr>"

text \<open>A start clears done even if the unit does not accept it.\<close>

definition tile_ctrl :: "'u tile_ip \<Rightarrow> (nat \<Rightarrow> nat) \<Rightarrow> u64 \<Rightarrow> 'u tile_dev \<Rightarrow> 'u tile_dev" where
  "tile_ctrl ip lat v d =
     (let d = (if bit v 0 \<or> bit v 1 then d\<lparr>tl_done := False, tl_irq_status := False\<rparr> else d)
      in if bit v 0 \<and> \<not> tl_busy d \<and> ti_ok ip (tl_cfg d) then tile_begin lat False d else d)"

definition tile_cfg_write :: "'u tile_ip \<Rightarrow> (nat \<Rightarrow> nat) \<Rightarrow> u64 \<Rightarrow> 'u tile_dev \<Rightarrow> 'u tile_dev" where
  "tile_cfg_write ip lat v d =
     (let i = unat (take_bit 4 v); b = (ucast (drop_bit 8 v) :: byte)
      in if tl_busy d then d
         else if ti_seed ip i b then tile_begin lat True d
         else if ti_bits ip i = 0 then d
         else d\<lparr>tl_cfg := (tl_cfg d)(i := take_bit (ti_bits ip i) b)\<rparr>)"

definition tile_reg_wr :: "'u tile_ip \<Rightarrow> (nat \<Rightarrow> nat) \<Rightarrow> nat \<Rightarrow> u64 \<Rightarrow> 'u tile_dev \<Rightarrow> 'u tile_dev" where
  "tile_reg_wr ip lat o' v d =
     (if o' = 0x000 then tile_ctrl ip lat v d
      else if o' \<in> {0x010, 0x018, 0x020} then
        let i = (o' - 0x010) div 8 in d\<lparr>tl_rd := (tl_rd d)(i := bit v 0), tl_wr := (tl_wr d)(i := bit v 1)\<rparr>
      else if o' = 0x030 then tile_cfg_write ip lat v d
      else if o' = 0x038 then d\<lparr>tl_irq_mask := bit v 0\<rparr>
      else if o' = 0x040 then (if bit v 0 then d\<lparr>tl_irq_status := False\<rparr> else d)
      else d)"

definition tile_status :: "'u tile_ip \<Rightarrow> 'u tile_dev \<Rightarrow> u64" where
  "tile_status ip d =
     of_bool (tl_busy d) OR push_bit 1 (of_bool (tl_done d)) OR push_bit 2 (of_bool (tl_busy d \<and> ti_calc ip (tl_wait d)))"

definition tile_reg_rd :: "'u tile_ip \<Rightarrow> nat \<Rightarrow> 'u tile_dev \<Rightarrow> u64" where
  "tile_reg_rd ip o' d =
     (if o' = 0x008 then tile_status ip d
      else if o' \<in> {0x010, 0x018, 0x020} then
        let i = (o' - 0x010) div 8 in of_bool (tl_rd d i) OR push_bit 1 (of_bool (tl_wr d i))
      else if o' = 0x038 then of_bool (tl_irq_mask d)
      else if o' = 0x040 then of_bool (tl_irq_status d)
      else 0)"

text \<open>The windows: 32 KiB each, registers first.\<close>

definition window :: "addr \<Rightarrow> nat" where
  "window a = unat (take_bit 2 (drop_bit 15 a))"

definition word_index :: "addr \<Rightarrow> nat" where
  "word_index a = unat (take_bit 12 (drop_bit 3 a))"

definition tile_rd :: "'u tile_ip \<Rightarrow> addr \<Rightarrow> 'u tile_dev \<Rightarrow> u64" where
  "tile_rd ip a d =
     (if window a = 0 then tile_reg_rd ip (unat (take_bit 12 a)) d
      else if tl_rd d (window a - 1) then tl_stale d else tl_buf d (window a - 1) (word_index a))"

definition tile_wr :: "'u tile_ip \<Rightarrow> (nat \<Rightarrow> nat) \<Rightarrow> addr \<Rightarrow> u64 \<Rightarrow> 'u tile_dev \<Rightarrow> 'u tile_dev" where
  "tile_wr ip lat a v d =
     (let i = window a - 1
      in if window a = 0 then tile_reg_wr ip lat (unat (take_bit 12 a)) v d
         else if tl_wr d i then d
         else d\<lparr>tl_buf := (tl_buf d)(i := (tl_buf d i)(word_index a := v))\<rparr>)"

definition tile_bus :: "'u tile_ip \<Rightarrow> (nat \<Rightarrow> nat) \<Rightarrow> 'u tile_dev bus" where
  "tile_bus ip lat =
     \<lparr>bus_rd = (\<lambda>n a d. (tile_rd ip a d, tile_tick ip d)),
      bus_wr = (\<lambda>n a v d. tile_tick ip (tile_wr ip lat a v d)),
      bus_idle = (\<lambda>n d. (tile_tick ip ^^ n) d)\<rparr>"

section \<open>Polling and runs\<close>

lemma wr64_tile [dev_simps]: "wr64 (tile_bus ip lat) a v d = tile_tick ip (tile_wr ip lat a v d)"
  by (simp add: wr64_def tile_bus_def)

lemma rd64_tile [dev_simps]: "rd64 (tile_bus ip lat) a d = (tile_rd ip a d, tile_tick ip d)"
  by (simp add: rd64_def tile_bus_def)

lemma tile_tick_idle [simp]: "\<not> tl_busy d \<Longrightarrow> tile_tick ip d = d"
  by (simp add: tile_tick_def)

definition tile_left :: "'u tile_dev \<Rightarrow> nat" where
  "tile_left d = (if tl_busy d then Suc (tl_wait d) else 0)"

definition status_at :: "addr \<Rightarrow> bool" where
  "status_at a \<longleftrightarrow> window a = 0 \<and> unat (take_bit 12 a) = 8"

lemma flag_step_tile: "status_at a \<Longrightarrow> flag_step (tile_bus ip lat) a 1 d = (tl_busy d, tile_tick ip d)"
  by (auto simp: flag_step_def dev_simps status_at_def tile_rd_def tile_reg_rd_def tile_status_def and_one_eq
      odd_iff_mod_2_eq_one bit_simps simp flip: bit_0)

lemma tile_busy_device: "status_at a \<Longrightarrow> busy_device (tile_bus ip lat) a tl_busy (tile_tick ip) tile_left"
  by unfold_locales
     (auto simp: flag_step_tile tile_left_def tile_tick_def tile_finish_def Let_def split: prod.splits)

lemma tile_ticks_busy: "tl_busy d \<Longrightarrow> i \<le> tl_wait d \<Longrightarrow> (tile_tick ip ^^ i) d = d\<lparr>tl_wait := tl_wait d - i\<rparr>"
  by (induction i) (auto simp: tile_tick_def)

definition tile_end :: "'u tile_ip \<Rightarrow> 'u tile_dev \<Rightarrow> 'u tile_dev" where
  "tile_end ip d = tile_finish ip (d\<lparr>tl_wait := 0\<rparr>)"

lemma tile_end_idle [simp]: "\<not> tl_busy (tile_end ip d)" "tl_done (tile_end ip d)"
  by (simp_all add: tile_end_def tile_finish_def Let_def split: prod.splits)

lemma tile_end_ports [simp]: "tl_rd (tile_end ip d) = tl_rd d" "tl_wr (tile_end ip d) = tl_wr d"
  "tl_cfg (tile_end ip d) = tl_cfg d"
  by (simp_all add: tile_end_def tile_finish_def Let_def split: prod.splits)

lemma tile_ticks_end: "tl_busy d \<Longrightarrow> (tile_tick ip ^^ Suc (tl_wait d)) d = tile_end ip d"
  using tile_ticks_busy [of d "tl_wait d" ip] by (simp add: tile_tick_def tile_end_def)

lemma tile_wait_done:
  assumes "tl_busy d" and "status_at a"
  shows "poll_timeout (flag_step (tile_bus ip lat) a 1) n (tile_tick ip d) =
    (if tl_wait d < unat n then (0, tile_end ip d) else (- 1, (tile_tick ip ^^ Suc (unat n)) d))"
proof -
  note dev = tile_busy_device [OF assms(2), of ip lat]
  have busy: "tl_busy ((tile_tick ip ^^ i) (tile_tick ip d))" if "i < tl_wait d" for i
    using tile_ticks_busy [OF assms(1), of "Suc i" ip] assms(1) that by (simp add: funpow_swap1)
  have fin: "(tile_tick ip ^^ tl_wait d) (tile_tick ip d) = tile_end ip d"
    using tile_ticks_end [OF assms(1), of ip] by (simp add: funpow_swap1)
  show ?thesis
  proof (cases "tl_wait d < unat n")
    case True
    have "poll_timeout (flag_step (tile_bus ip lat) a 1) n (tile_tick ip d) =
        (0, (tile_tick ip ^^ Suc (tl_wait d)) (tile_tick ip d))"
      by (rule busy_device.timeout_idle [OF dev True busy]) (simp_all add: fin)
    then show ?thesis using True by (simp add: fin)
  next
    case False
    have "poll_timeout (flag_step (tile_bus ip lat) a 1) n (tile_tick ip d) =
        (- 1, (tile_tick ip ^^ unat n) (tile_tick ip d))"
      by (rule busy_device.timeout_busy [OF dev busy]) (use False in simp)
    then show ?thesis using False by (simp add: funpow_swap1)
  qed
qed

text \<open>Polling an idle device.\<close>

lemma tile_wait_idle:
  assumes "\<not> tl_busy d" and "status_at a" and "n \<noteq> 0"
  shows "poll_timeout (flag_step (tile_bus ip lat) a 1) n d = (0, d)"
  using assms by (subst poll_timeout.simps) (simp add: flag_step_tile)

section \<open>Buffers\<close>

text \<open>The loops of the test programs over rows, banks and halves of a buffer.\<close>

definition buf_loop :: "nat \<Rightarrow> nat \<Rightarrow> (nat \<Rightarrow> nat \<Rightarrow> 's \<Rightarrow> 's) \<Rightarrow> 's \<Rightarrow> 's" where
  "buf_loop rows banks body s = fold (\<lambda>(r, b). body r b) (List.product [0..<rows] [0..<banks]) s"

definition buf_pos :: "u32 \<Rightarrow> u32 \<Rightarrow> u32 \<Rightarrow> nat" where
  "buf_pos bank row half = unat bank * 512 + unat row * 2 + unat half"

lemma buf_pos_inj:
  assumes "unat r < 256" "unat r' < 256" "unat h < 2" "unat h' < 2"
  shows "buf_pos b r h = buf_pos b' r' h' \<longleftrightarrow> b = b' \<and> r = r' \<and> h = h'"
proof
  assume e: "buf_pos b r h = buf_pos b' r' h'"
  then have "unat b = unat b'" using assms unfolding buf_pos_def by linarith
  moreover have "unat r = unat r'" using e calculation assms unfolding buf_pos_def by linarith
  moreover have "unat h = unat h'" using e calculation unfolding buf_pos_def by linarith
  ultimately show "b = b' \<and> r = r' \<and> h = h'" by (simp add: word_unat_eq_iff)
qed simp

end
