(* ===== verification/Mxu.thy ===== *)
theory Mxu
  imports Tile
begin

text \<open>
  The matrix unit: \<open>software/soc/include/my_mxu.h\<close>, the driver \<open>software/soc/src/my_mxu.c\<close> on a bus,
  and the global buffer addresses of \<open>global_buffer.h\<close>.
\<close>

section \<open>The header\<close>

definition MY_MXU_CFG_BASE :: addr where [c_const]: "MY_MXU_CFG_BASE = 0x70000000"
definition MY_MXU_WGT_BASE :: addr where [c_const]: "MY_MXU_WGT_BASE = 0x70008000"
definition MY_MXU_ACT_BASE :: addr where [c_const]: "MY_MXU_ACT_BASE = 0x70010000"
definition MY_MXU_OUT_BASE :: addr where [c_const]: "MY_MXU_OUT_BASE = 0x70018000"
definition MY_MXU_CFG_SIZE :: u64 where [c_const]: "MY_MXU_CFG_SIZE = 0x1000"
definition MY_MXU_WGT_SIZE :: u64 where [c_const]: "MY_MXU_WGT_SIZE = 0x8000"
definition MY_MXU_ACT_SIZE :: u64 where [c_const]: "MY_MXU_ACT_SIZE = 0x8000"
definition MY_MXU_OUT_SIZE :: u64 where [c_const]: "MY_MXU_OUT_SIZE = 0x8000"
definition MY_MXU_REG_CTRL_OFF :: addr where [c_const]: "MY_MXU_REG_CTRL_OFF = 0x000"
definition MY_MXU_REG_STATUS_OFF :: addr where [c_const]: "MY_MXU_REG_STATUS_OFF = 0x008"
definition MY_MXU_REG_WGT_BUF_CTRL_OFF :: addr where [c_const]: "MY_MXU_REG_WGT_BUF_CTRL_OFF = 0x010"
definition MY_MXU_REG_ACT_BUF_CTRL_OFF :: addr where [c_const]: "MY_MXU_REG_ACT_BUF_CTRL_OFF = 0x018"
definition MY_MXU_REG_OUT_BUF_CTRL_OFF :: addr where [c_const]: "MY_MXU_REG_OUT_BUF_CTRL_OFF = 0x020"
definition MY_MXU_REG_CFG_WRITE_OFF :: addr where [c_const]: "MY_MXU_REG_CFG_WRITE_OFF = 0x030"
definition MY_MXU_REG_IRQ_MASK_OFF :: addr where [c_const]: "MY_MXU_REG_IRQ_MASK_OFF = 0x038"
definition MY_MXU_REG_IRQ_STAT_OFF :: addr where [c_const]: "MY_MXU_REG_IRQ_STAT_OFF = 0x040"
definition MY_MXU_CTRL_START :: u32 where [c_const]: "MY_MXU_CTRL_START = 1"
definition MY_MXU_CTRL_CLR_DONE :: u32 where [c_const]: "MY_MXU_CTRL_CLR_DONE = 2"
definition MY_MXU_STATUS_BUSY :: u64 where [c_const]: "MY_MXU_STATUS_BUSY = 1"
definition MY_MXU_STATUS_DONE :: u64 where [c_const]: "MY_MXU_STATUS_DONE = 2"
definition MY_MXU_BUF_RD_MXU :: u64 where [c_const]: "MY_MXU_BUF_RD_MXU = 1"
definition MY_MXU_BUF_WR_MXU :: u64 where [c_const]: "MY_MXU_BUF_WR_MXU = 2"
definition MY_MXU_CFG_ADDR_SHIFT :: nat where [c_const]: "MY_MXU_CFG_ADDR_SHIFT = 0"
definition MY_MXU_CFG_ADDR_MASK :: u32 where [c_const]: "MY_MXU_CFG_ADDR_MASK = push_bit MY_MXU_CFG_ADDR_SHIFT 0xF"
definition MY_MXU_CFG_DATA_SHIFT :: nat where [c_const]: "MY_MXU_CFG_DATA_SHIFT = 8"
definition MY_MXU_CFG_DATA_MASK :: u32 where [c_const]: "MY_MXU_CFG_DATA_MASK = push_bit MY_MXU_CFG_DATA_SHIFT 0xFF"

definition MY_MXU_CFG_WRITE :: "u32 \<Rightarrow> u32 \<Rightarrow> u32" where
  "MY_MXU_CFG_WRITE a b = push_bit MY_MXU_CFG_ADDR_SHIFT (a AND 0xF) OR push_bit MY_MXU_CFG_DATA_SHIFT (b AND 0xFF)"

definition MXU_CFG_WGT_TILE0_BASE_ADDR :: u32 where [c_const]: "MXU_CFG_WGT_TILE0_BASE_ADDR = 0"
definition MXU_CFG_ACT_TILE0_BASE_ADDR :: u32 where [c_const]: "MXU_CFG_ACT_TILE0_BASE_ADDR = 4"
definition MXU_CFG_OUT_TILE0_BASE_ADDR :: u32 where [c_const]: "MXU_CFG_OUT_TILE0_BASE_ADDR = 8"
definition MXU_CFG_ACT_BATCHSIZE_M :: u32 where [c_const]: "MXU_CFG_ACT_BATCHSIZE_M = 12"
definition MXU_CFG_SA_DATA_FLOW_MODE :: u32 where [c_const]: "MXU_CFG_SA_DATA_FLOW_MODE = 13"
definition MXU_CFG_SA_DATA_TYPE_MODE :: u32 where [c_const]: "MXU_CFG_SA_DATA_TYPE_MODE = 14"
definition MXU_FLOW_FF :: u32 where [c_const]: "MXU_FLOW_FF = 0"
definition MXU_FLOW_BP :: u32 where [c_const]: "MXU_FLOW_BP = 1"
definition MXU_TYPE_POSIT :: u32 where [c_const]: "MXU_TYPE_POSIT = 0"
definition MXU_TYPE_INT :: u32 where [c_const]: "MXU_TYPE_INT = 1"
definition MXU_LANE_NUM :: u32 where [c_const]: "MXU_LANE_NUM = 4"
definition MXU_BUF_BANK_COUNT :: u32 where [c_const]: "MXU_BUF_BANK_COUNT = 8"
definition MXU_BUF_ROW_COUNT :: u32 where [c_const]: "MXU_BUF_ROW_COUNT = 256"
definition MXU_BUF_ROW_BYTES :: u32 where [c_const]: "MXU_BUF_ROW_BYTES = 16"
definition MXU_BUF_WORD_BYTES :: u32 where [c_const]: "MXU_BUF_WORD_BYTES = 8"
definition MY_MXU_PLIC_IRQ_SRC :: u32 where [c_const]: "MY_MXU_PLIC_IRQ_SRC = 2"
definition IRQn_MY_MXU :: u32 where [c_const]: "IRQn_MY_MXU = MY_MXU_PLIC_IRQ_SRC + 1"

definition mxu_buf_word_offset :: "u32 \<Rightarrow> u32 \<Rightarrow> u32 \<Rightarrow> u32" where
  "mxu_buf_word_offset bank row half64 =
     push_bit 12 (bank AND 7) OR push_bit 4 (row AND 0xFF) OR push_bit 3 (half64 AND 1)"

text \<open>\<open>struct my_mxu_regs\<close>: words in the order of the fields, one of them reserved.\<close>

definition mxu_regs :: "addr list" where
  "mxu_regs = [MY_MXU_REG_CTRL_OFF, MY_MXU_REG_STATUS_OFF, MY_MXU_REG_WGT_BUF_CTRL_OFF, MY_MXU_REG_ACT_BUF_CTRL_OFF,
     MY_MXU_REG_OUT_BUF_CTRL_OFF, 0x028, MY_MXU_REG_CFG_WRITE_OFF, MY_MXU_REG_IRQ_MASK_OFF, MY_MXU_REG_IRQ_STAT_OFF]"

lemma mxu_regs_layout: "mxu_regs = map (\<lambda>i. of_nat (8 * i)) [0..<9]"
  by (simp add: mxu_regs_def c_const upt_rec)

section \<open>The driver\<close>

record my_mxu_drv =
  mx_regs :: addr
  mx_wgtbuf :: addr
  mx_actbuf :: addr
  mx_outbuf :: addr
  mx_bound :: bool

definition my_mxu_bind :: "my_mxu_drv \<Rightarrow> my_mxu_drv" where
  "my_mxu_bind x = x\<lparr>mx_bound := True\<rparr>"

definition my_mxu_op_init :: "'d bus \<Rightarrow> addr \<Rightarrow> addr \<Rightarrow> addr \<Rightarrow> addr \<Rightarrow> my_mxu_drv \<Rightarrow> 'd \<Rightarrow> my_mxu_drv \<times> 'd" where
  "my_mxu_op_init B r wgtbuf actbuf outbuf x d =
     (let d = wr64 B (r + MY_MXU_REG_IRQ_MASK_OFF) 0 d;
          d = wr64 B (r + MY_MXU_REG_IRQ_STAT_OFF) 1 d;
          d = wr64 B (r + MY_MXU_REG_CTRL_OFF) (ucast MY_MXU_CTRL_CLR_DONE) d
      in (x\<lparr>mx_regs := r, mx_wgtbuf := wgtbuf, mx_actbuf := actbuf, mx_outbuf := outbuf\<rparr>, d))"

definition my_mxu_op_write_cfg :: "'d bus \<Rightarrow> my_mxu_drv \<Rightarrow> u32 \<Rightarrow> u32 \<Rightarrow> 'd \<Rightarrow> 'd" where
  "my_mxu_op_write_cfg B x cfg_addr cfg_data d =
     wr64 B (mx_regs x + MY_MXU_REG_CFG_WRITE_OFF) (ucast (MY_MXU_CFG_WRITE cfg_addr cfg_data)) d"

definition my_mxu_op_config_common :: "'d bus \<Rightarrow> my_mxu_drv \<Rightarrow> u32 \<Rightarrow> u32 \<Rightarrow> 'd \<Rightarrow> 'd" where
  "my_mxu_op_config_common B x flow_mode data_type_mode d =
     (let d = wr64 B (mx_regs x + MY_MXU_REG_CFG_WRITE_OFF) (ucast (MY_MXU_CFG_WRITE MXU_CFG_SA_DATA_FLOW_MODE flow_mode)) d
      in wr64 B (mx_regs x + MY_MXU_REG_CFG_WRITE_OFF) (ucast (MY_MXU_CFG_WRITE MXU_CFG_SA_DATA_TYPE_MODE data_type_mode)) d)"

text \<open>The value of a port register, the same for the three buffers.\<close>

definition mxu_ports :: "u32 \<Rightarrow> u32 \<Rightarrow> u64" where
  "mxu_ports rd_to_acc wr_to_acc =
     (let v = 0;
          v = (if rd_to_acc \<noteq> 0 then v OR MY_MXU_BUF_RD_MXU else v)
      in if wr_to_acc \<noteq> 0 then v OR MY_MXU_BUF_WR_MXU else v)"

definition my_mxu_op_set_wgtbuf_ports :: "'d bus \<Rightarrow> my_mxu_drv \<Rightarrow> u32 \<Rightarrow> u32 \<Rightarrow> 'd \<Rightarrow> 'd" where
  "my_mxu_op_set_wgtbuf_ports B x rd wr d = wr64 B (mx_regs x + MY_MXU_REG_WGT_BUF_CTRL_OFF) (mxu_ports rd wr) d"

definition my_mxu_op_set_actbuf_ports :: "'d bus \<Rightarrow> my_mxu_drv \<Rightarrow> u32 \<Rightarrow> u32 \<Rightarrow> 'd \<Rightarrow> 'd" where
  "my_mxu_op_set_actbuf_ports B x rd wr d = wr64 B (mx_regs x + MY_MXU_REG_ACT_BUF_CTRL_OFF) (mxu_ports rd wr) d"

definition my_mxu_op_set_outbuf_ports :: "'d bus \<Rightarrow> my_mxu_drv \<Rightarrow> u32 \<Rightarrow> u32 \<Rightarrow> 'd \<Rightarrow> 'd" where
  "my_mxu_op_set_outbuf_ports B x rd wr d = wr64 B (mx_regs x + MY_MXU_REG_OUT_BUF_CTRL_OFF) (mxu_ports rd wr) d"

definition my_mxu_op_start :: "'d bus \<Rightarrow> my_mxu_drv \<Rightarrow> 'd \<Rightarrow> 'd" where
  "my_mxu_op_start B x d = wr64 B (mx_regs x + MY_MXU_REG_CTRL_OFF) (ucast MY_MXU_CTRL_START) d"

definition my_mxu_op_read_status :: "'d bus \<Rightarrow> my_mxu_drv \<Rightarrow> 'd \<Rightarrow> u64 \<times> 'd" where
  "my_mxu_op_read_status B x d = rd64 B (mx_regs x + MY_MXU_REG_STATUS_OFF) d"

definition my_mxu_op_busy :: "'d bus \<Rightarrow> my_mxu_drv \<Rightarrow> 'd \<Rightarrow> bool \<times> 'd" where
  "my_mxu_op_busy B x d = flag_step B (mx_regs x + MY_MXU_REG_STATUS_OFF) MY_MXU_STATUS_BUSY d"

definition my_mxu_op_wait_done :: "'d bus \<Rightarrow> my_mxu_drv \<Rightarrow> u64 \<Rightarrow> 'd \<Rightarrow> u32 \<times> 'd" where
  "my_mxu_op_wait_done B x timeout d = poll_timeout (my_mxu_op_busy B x) timeout d"

definition my_mxu_op_clear_done :: "'d bus \<Rightarrow> my_mxu_drv \<Rightarrow> 'd \<Rightarrow> 'd" where
  "my_mxu_op_clear_done B x d =
     (let d = wr64 B (mx_regs x + MY_MXU_REG_IRQ_STAT_OFF) 1 d
      in wr64 B (mx_regs x + MY_MXU_REG_CTRL_OFF) (ucast MY_MXU_CTRL_CLR_DONE) d)"

section \<open>The global buffer\<close>

definition GLOBAL_BUFFER_BASE :: addr where [c_const]: "GLOBAL_BUFFER_BASE = 0x70040000"
definition GLOBAL_BUFFER_SIZE :: u64 where [c_const]: "GLOBAL_BUFFER_SIZE = 0x8000"
definition GLOBAL_BUFFER_NUM_BANKS :: u32 where [c_const]: "GLOBAL_BUFFER_NUM_BANKS = 1"
definition GLOBAL_BUFFER_BANK_WORDS :: u32 where [c_const]: "GLOBAL_BUFFER_BANK_WORDS = 4096"
definition GLOBAL_BUFFER_WORD_BYTES :: u32 where [c_const]: "GLOBAL_BUFFER_WORD_BYTES = 8"

definition global_buffer_word_addr :: "u32 \<Rightarrow> addr" where
  "global_buffer_word_addr word_idx =
     GLOBAL_BUFFER_BASE + ucast (word_idx mod GLOBAL_BUFFER_BANK_WORDS) * ucast GLOBAL_BUFFER_WORD_BYTES"

section \<open>Fields and addresses\<close>

lemma low_masks:
  "(x :: u32) AND 1 = take_bit 1 x" "x AND 7 = take_bit 3 x" "x AND 0xF = take_bit 4 x" "x AND 0xFF = take_bit 8 x"
  by (simp_all add: take_bit_eq_mask mask_eq_exp_minus_1)

lemma cfg_write_fields:
  "take_bit 4 (ucast (MY_MXU_CFG_WRITE a b) :: u64) = take_bit 4 (ucast a)"
  "(ucast (drop_bit 8 (ucast (MY_MXU_CFG_WRITE a b) :: u64)) :: byte) = ucast b"
  unfolding MY_MXU_CFG_WRITE_def c_const low_masks
  by (rule bit_word_eqI, auto simp: bit_simps dest: bit_imp_le_length)+

lemma word_index_nat: "word_index a = unat a div 8 mod 4096"
  by (simp add: word_index_def take_bit_eq_mod drop_bit_eq_div unat_div_distrib unat_mod_distrib)

lemma window_nat: "window a = unat a div 32768 mod 4"
  by (simp add: window_def take_bit_eq_mod drop_bit_eq_div unat_div_distrib unat_mod_distrib)

lemma unat_low_bits: "unat (take_bit n (x :: u32)) = unat x mod 2 ^ n"
  by (subst unsigned_take_bit_eq) (simp add: take_bit_eq_mod)

lemma unat_push:
  assumes "n < 32" and "unat x * 2 ^ n < 2 ^ 32"
  shows "unat (push_bit n (x :: u32)) = unat x * 2 ^ n"
proof -
  have "(2 :: nat) ^ n < 2 ^ 32" by (rule power_strict_increasing [OF assms(1)]) simp
  then have "unat (of_nat (2 ^ n) :: u32) = 2 ^ n" by (simp only: unat_of_nat) (simp add: take_bit_nat_eq_self)
  then have p: "unat (2 ^ n :: u32) = 2 ^ n" by simp
  show ?thesis using unat_mult_lem [of x "2 ^ n"] assms(2) unfolding p by (simp add: push_bit_eq_mult)
qed

lemma mxu_offset_nat:
  "unat (mxu_buf_word_offset b r h) = 4096 * (unat b mod 8) + 16 * (unat r mod 256) + 8 * (unat h mod 2)"
proof -
  let ?b = "push_bit 12 (take_bit 3 b)" and ?r = "push_bit 4 (take_bit 8 r)" and ?h = "push_bit 3 (take_bit 1 h)"
  have rh: "?b OR ?r = ?b + ?r" by (rule disjunctive_add [symmetric]) (auto simp: bit_simps)
  have "?b OR ?r OR ?h = (?b OR ?r) + ?h" unfolding or.assoc [symmetric]
    by (rule disjunctive_add [symmetric]) (auto simp: bit_simps)
  then have e: "mxu_buf_word_offset b r h = ?b + ?r + ?h"
    unfolding mxu_buf_word_offset_def low_masks rh [symmetric] or.assoc [symmetric] by simp
  have l: "unat b mod 8 < 8" "unat r mod 256 < 256" "unat h mod 2 < 2" by simp_all
  have u: "unat ?b = (unat b mod 8) * 4096" "unat ?r = (unat r mod 256) * 16" "unat ?h = (unat h mod 2) * 8"
    using l unat_push [of 12 "take_bit 3 b", unfolded unat_low_bits] unat_push [of 4 "take_bit 8 r", unfolded unat_low_bits]
      unat_push [of 3 "take_bit 1 h", unfolded unat_low_bits] by simp_all
  then show ?thesis using l unfolding e by (simp add: unat_word_ariths)
qed

end
