(* ===== verification/Mxu_Test.thy ===== *)
theory Mxu_Test
  imports Mxu
begin

text \<open>
  The test program of the matrix unit, \<open>software/app/my_mxu_test/main.c\<close>: it programs the
  configuration table, fills the input buffers, hands the ports over, starts the unit, waits, and
  compares the output with the expected words. The tables come from a generated file or, without
  it, from the definitions at the head of the program (\<open>mxu_fallback\<close>); here they are a parameter.
\<close>

section \<open>Tables\<close>

record mxu_data =
  xd_mode :: addr
  xd_banks :: u32
  xd_wgt_start :: u32
  xd_wgt_rows :: u32
  xd_act_start :: u32
  xd_act_rows :: u32
  xd_out_start :: u32
  xd_out_rows :: u32
  xd_batch :: u32
  xd_flow :: u32
  xd_type :: u32
  xd_wgt_tile :: "nat \<Rightarrow> u64"
  xd_act_tile :: "nat \<Rightarrow> u64"
  xd_out_tile :: "nat \<Rightarrow> u64"
  xd_wgt :: "nat \<Rightarrow> nat \<Rightarrow> nat \<Rightarrow> u64"
  xd_act :: "nat \<Rightarrow> nat \<Rightarrow> nat \<Rightarrow> u64"
  xd_golden :: "nat \<Rightarrow> nat \<Rightarrow> nat \<Rightarrow> u64"

text \<open>The default tables; \<open>mode\<close> is the address of the string \<open>"int_ff_fallback"\<close>.\<close>

definition mxu_fallback :: "addr \<Rightarrow> mxu_data" where
  "mxu_fallback mode =
     \<lparr>xd_mode = mode, xd_banks = 8, xd_wgt_start = 0, xd_wgt_rows = 1, xd_act_start = 0, xd_act_rows = 1,
      xd_out_start = 0, xd_out_rows = 1, xd_batch = 32, xd_flow = 0, xd_type = 1,
      xd_wgt_tile = (\<lambda>i. [0, 4, 8, 12] ! i), xd_act_tile = (\<lambda>i. [0, 8, 16, 24] ! i),
      xd_out_tile = (\<lambda>i. [0, 8, 16, 24] ! i),
      xd_wgt = (\<lambda>r b h. if h = 0 then [0x01, 0x02, 0x03, 0x04, 0x05, 0x06, 0x07, 0x08] ! b else 0),
      xd_act = (\<lambda>r b h. if h = 0 then [0x11, 0x12, 0x13, 0x14, 0x15, 0x16, 0x17, 0x18] ! b else 0),
      xd_golden = (\<lambda>r b h. 0)\<rparr>"

section \<open>The program\<close>

definition mxu_buf64 :: "addr \<Rightarrow> u32 \<Rightarrow> u32 \<Rightarrow> u32 \<Rightarrow> addr" where
  "mxu_buf64 buf bank row half64 = buf + ucast (mxu_buf_word_offset bank row half64)"

definition mxu_token :: "u64 \<Rightarrow> u64 \<Rightarrow> nat \<Rightarrow> u64" where
  "mxu_token lo hi i = drop_bit (16 * (i mod 4)) (if i < 4 then lo else hi) AND 0xFFFF"

definition print_mxu_word_tokens :: "mem \<Rightarrow> u64 \<Rightarrow> u64 \<Rightarrow> 'd app \<Rightarrow> 'd app option" where
  "print_mxu_word_tokens m lo hi s =
     fold (\<lambda>i so. Option.bind so (\<lambda>s.
         Option.bind (if i \<noteq> 0 then say m ''  '' [] s else Some s) (say m ''%04x'' [mxu_token lo hi i])))
       [0..<8] (Some s)"

text \<open>Reading the two halves of a word.\<close>

definition mxu_word :: "'d bus \<Rightarrow> addr \<Rightarrow> u32 \<Rightarrow> u32 \<Rightarrow> 'd \<Rightarrow> (u64 \<times> u64) \<times> 'd" where
  "mxu_word B buf bank row d =
     (let (lo, d) = rd64 B (mxu_buf64 buf bank row 0) d;
          (hi, d) = rd64 B (mxu_buf64 buf bank row 1) d
      in ((lo, hi), d))"

definition dump_row :: "'d bus \<Rightarrow> my_mxu_drv \<Rightarrow> mem \<Rightarrow> u32 \<Rightarrow> u32 \<Rightarrow> 'd app \<Rightarrow> 'd app option" where
  "dump_row B x m b row s =
     (let ((lo, hi), s) = from_dev (mxu_word B (mx_outbuf x) b row) s
      in Option.bind (say m ''row=%u '' [ucast row] s) (\<lambda>s.
         Option.bind (print_mxu_word_tokens m lo hi s) (say m ''\<newline>'' [])))"

definition dump_output_bank_files_compatible :: "'d bus \<Rightarrow> my_mxu_drv \<Rightarrow> mem \<Rightarrow> mxu_data \<Rightarrow> 'd app \<Rightarrow> 'd app option" where
  "dump_output_bank_files_compatible B x m c s =
     Option.bind (say m ''===MXU_OUT_BEGIN bank_count=%u row_start=0x%x row_count=%u===\<newline>''
         [ucast (xd_banks c), ucast (xd_out_start c), ucast (xd_out_rows c)] s) (\<lambda>s.
     Option.bind (fold (\<lambda>b so. Option.bind so (\<lambda>s.
         Option.bind (say m ''===MXU_OUT_BANK_BEGIN bank=%u rows=%u===\<newline>'' [of_nat b, ucast (xd_out_rows c)] s) (\<lambda>s.
         Option.bind (fold (\<lambda>r so. Option.bind so (dump_row B x m (of_nat b) (xd_out_start c + of_nat r)))
             [0..<unat (xd_out_rows c)] (Some s))
           (say m ''===MXU_OUT_BANK_END bank=%u===\<newline>'' [of_nat b]))))
         [0..<unat (xd_banks c)] (Some s))
       (say m ''===MXU_OUT_END===\<newline>'' []))"

definition write_cfg_table :: "'d bus \<Rightarrow> my_mxu_drv \<Rightarrow> mxu_data \<Rightarrow> 'd \<Rightarrow> 'd" where
  "write_cfg_table B x c d =
     (let d = fold (\<lambda>i d.
            let d = my_mxu_op_write_cfg B x (MXU_CFG_WGT_TILE0_BASE_ADDR + of_nat i) (ucast (xd_wgt_tile c i)) d;
                d = my_mxu_op_write_cfg B x (MXU_CFG_ACT_TILE0_BASE_ADDR + of_nat i) (ucast (xd_act_tile c i)) d
            in my_mxu_op_write_cfg B x (MXU_CFG_OUT_TILE0_BASE_ADDR + of_nat i) (ucast (xd_out_tile c i)) d) [0..<4] d;
          d = my_mxu_op_write_cfg B x MXU_CFG_ACT_BATCHSIZE_M (xd_batch c) d
      in my_mxu_op_config_common B x (xd_flow c) (xd_type c) d)"

definition mxu_fill :: "'d bus \<Rightarrow> addr \<Rightarrow> u32 \<Rightarrow> (nat \<Rightarrow> nat \<Rightarrow> nat \<Rightarrow> u64) \<Rightarrow> nat \<Rightarrow> nat \<Rightarrow> 'd \<Rightarrow> 'd" where
  "mxu_fill B buf start data r b d =
     (let row = start + of_nat r;
          d = wr64 B (mxu_buf64 buf (of_nat b) row 0) (data r b 0) d
      in wr64 B (mxu_buf64 buf (of_nat b) row 1) (data r b 1) d)"

definition write_input_buffers :: "'d bus \<Rightarrow> my_mxu_drv \<Rightarrow> mxu_data \<Rightarrow> 'd \<Rightarrow> 'd" where
  "write_input_buffers B x c d =
     (let d = buf_loop (unat (xd_wgt_rows c)) (unat (xd_banks c)) (mxu_fill B (mx_wgtbuf x) (xd_wgt_start c) (xd_wgt c)) d
      in buf_loop (unat (xd_act_rows c)) (unat (xd_banks c)) (mxu_fill B (mx_actbuf x) (xd_act_start c) (xd_act c)) d)"

text \<open>The comparison stops at the first difference.\<close>

fun compare_from :: "'d bus \<Rightarrow> my_mxu_drv \<Rightarrow> mem \<Rightarrow> mxu_data \<Rightarrow> (nat \<times> nat) list \<Rightarrow> 'd app \<Rightarrow> (u32 \<times> 'd app) option" where
  "compare_from B x m c [] s = Some (0, s)"
| "compare_from B x m c ((r, b) # rbs) s =
     (let row = xd_out_start c + of_nat r;
          ((lo, hi), s) = from_dev (mxu_word B (mx_outbuf x) (of_nat b) row) s
      in if lo \<noteq> xd_golden c r b 0 \<or> hi \<noteq> xd_golden c r b 1
         then map_option (Pair (- 1))
                (say m ''MXU_MISMATCH row=0x%02x bank=%u actual=0x%016lx_%016lx expected=0x%016lx_%016lx\<newline>''
                   [ucast row, of_nat b, hi, lo, xd_golden c r b 1, xd_golden c r b 0] s)
         else compare_from B x m c rbs s)"

definition compare_output :: "'d bus \<Rightarrow> my_mxu_drv \<Rightarrow> mem \<Rightarrow> mxu_data \<Rightarrow> 'd app \<Rightarrow> (u32 \<times> 'd app) option" where
  "compare_output B x m c s =
     compare_from B x m c (List.product [0..<unat (xd_out_rows c)] [0..<unat (xd_banks c)]) s"

text \<open>The three ways the program ends.\<close>

definition mxu_finish :: "mem \<Rightarrow> string \<Rightarrow> u32 \<Rightarrow> 'd app \<Rightarrow> (u32 \<times> 'd app) option" where
  "mxu_finish m verdict r s =
     Option.bind (say m verdict [] s) (\<lambda>s. map_option (Pair r) (say m ''MXU_SOC_TEST_END\<newline>'' [] s))"

definition mxu_ports_all :: "'d bus \<Rightarrow> my_mxu_drv \<Rightarrow> u32 \<Rightarrow> u32 \<Rightarrow> 'd \<Rightarrow> 'd" where
  "mxu_ports_all B x inrd outwr d =
     (let d = my_mxu_op_set_wgtbuf_ports B x inrd 0 d;
          d = my_mxu_op_set_actbuf_ports B x inrd 0 d
      in my_mxu_op_set_outbuf_ports B x 0 outwr d)"

definition mxu_after_wait :: "'d bus \<Rightarrow> my_mxu_drv \<Rightarrow> mem \<Rightarrow> mxu_data \<Rightarrow> 'd app \<Rightarrow> (u32 \<times> 'd app) option" where
  "mxu_after_wait B x m c s =
     (let (status, s) = from_dev (my_mxu_op_read_status B x) s
      in if status AND MY_MXU_STATUS_DONE = 0
         then Option.bind (say m ''MXU_NO_DONE status=0x%lx\<newline>'' [status] s) (mxu_finish m ''MXU_FAIL\<newline>'' 3)
         else let s = on_dev (mxu_ports_all B x 0 0) s
              in Option.bind (compare_output B x m c s) (\<lambda>(r, s).
                   if r \<noteq> 0 then mxu_finish m ''MXU_FAIL\<newline>'' 1 s else mxu_finish m ''MXU_PASS\<newline>'' 0 s))"

definition my_mxu_test_main :: "'d bus \<Rightarrow> my_mxu_drv \<Rightarrow> mem \<Rightarrow> mxu_data \<Rightarrow> 'd app \<Rightarrow> (u32 \<times> 'd app) option" where
  "my_mxu_test_main B my_mxu0 m c s =
     Option.bind (say m ''MXU_SOC_TEST_BEGIN\<newline>'' [] s) (\<lambda>s.
     Option.bind (say m ''MXU_MODE %s\<newline>'' [xd_mode c] s) (\<lambda>s.
       let (x, s) = from_dev (my_mxu_op_init B MY_MXU_CFG_BASE MY_MXU_WGT_BASE MY_MXU_ACT_BASE MY_MXU_OUT_BASE (my_mxu_bind my_mxu0)) s;
           s = on_dev (mxu_ports_all B x 0 0) s;
           s = on_dev (write_input_buffers B x c) s;
           s = on_dev (write_cfg_table B x c) s;
           s = on_dev (mxu_ports_all B x 1 1) s;
           s = on_dev (my_mxu_op_start B x) s;
           (r, s) = from_dev (my_mxu_op_wait_done B x 5000000) s
       in if r \<noteq> 0
          then let (status, s) = from_dev (my_mxu_op_read_status B x) s
               in Option.bind (say m ''MXU_TIMEOUT status=0x%lx\<newline>'' [status] s) (mxu_finish m ''MXU_FAIL\<newline>'' 2)
          else mxu_after_wait B x m c s))"

section \<open>The unit\<close>

text \<open>\<open>mxu_ctrl.sv\<close>: twelve tile addresses and the batch size of eight bits, two mode bits.\<close>

definition mxu_ip :: "(bool \<Rightarrow> cfg \<Rightarrow> buf option \<Rightarrow> buf option \<Rightarrow> 'u \<Rightarrow> (nat \<Rightarrow> u64 option) \<times> 'u) \<Rightarrow> 'u tile_ip" where
  "mxu_ip job =
     \<lparr>ti_bits = (\<lambda>i. if i < 13 then 8 else if i < 15 then 1 else 0), ti_seed = (\<lambda>_ _. False), ti_ok = (\<lambda>_. True),
      ti_calc = (\<lambda>_. False), ti_job = job\<rparr>"

section \<open>The driver on an idle unit\<close>

lemma tile_addr:
  assumes "unat base = 32768 * q" and "q < 2 ^ 40" and "off < 32768"
  shows "window (base + of_nat off) = q mod 4" and "word_index (base + of_nat off) = off div 8"
proof -
  have o: "unat (of_nat off :: addr) = off" using assms(3) by (intro unat_of_nat64) simp
  have "unat base + unat (of_nat off :: addr) < 2 ^ 64" using assms unfolding o by simp
  then have a: "unat (base + of_nat off) = 32768 * q + off"
    using unat_add_lem [of base "of_nat off"] unfolding o assms(1) by simp
  show "window (base + of_nat off) = q mod 4" using assms(3) unfolding window_nat a by simp
  have "(32768 * q + off) div 8 = 4096 * q + off div 8" by simp
  then show "word_index (base + of_nat off) = off div 8" using assms(3) unfolding word_index_nat a by simp
qed

lemma mxu_buf64_at:
  assumes "unat buf = 32768 * q" and "q < 2 ^ 40" and "unat b < 8" "unat r < 256" "unat h < 2"
  shows "window (mxu_buf64 buf b r h) = q mod 4" and "word_index (mxu_buf64 buf b r h) = buf_pos b r h"
proof -
  let ?o = "unat (mxu_buf_word_offset b r h)"
  have o: "?o = 4096 * unat b + 16 * unat r + 8 * unat h" using assms(3-5) by (simp add: mxu_offset_nat)
  have "(ucast (mxu_buf_word_offset b r h) :: addr) = of_nat ?o" by (rule eq_of_nat_unat) simp
  then have e: "mxu_buf64 buf b r h = buf + of_nat ?o" by (simp add: mxu_buf64_def)
  have l: "?o < 32768" using assms(3-5) unfolding o by linarith
  show "window (mxu_buf64 buf b r h) = q mod 4" unfolding e by (rule tile_addr(1) [OF assms(1,2) l])
  have "?o div 8 = buf_pos b r h" unfolding o buf_pos_def by linarith
  then show "word_index (mxu_buf64 buf b r h) = buf_pos b r h" using tile_addr(2) [OF assms(1,2) l] unfolding e by simp
qed

lemma mxu_bases:
  "unat MY_MXU_WGT_BASE = 32768 * 57345" "unat MY_MXU_ACT_BASE = 32768 * 57346" "unat MY_MXU_OUT_BASE = 32768 * 57347"
  by (simp_all add: c_const)

lemmas mxu_buffers =
  mxu_buf64_at [OF mxu_bases(1), simplified] mxu_buf64_at [OF mxu_bases(2), simplified] mxu_buf64_at [OF mxu_bases(3), simplified]

lemma tile_reg_write:
  assumes "mx_regs x = MY_MXU_CFG_BASE"
  shows "wr64 (tile_bus ip lat) (mx_regs x + MY_MXU_REG_CTRL_OFF) v d = tile_tick ip (tile_ctrl ip lat v d)"
    "wr64 (tile_bus ip lat) (mx_regs x + MY_MXU_REG_CFG_WRITE_OFF) v d = tile_tick ip (tile_cfg_write ip lat v d)"
    "wr64 (tile_bus ip lat) (mx_regs x + MY_MXU_REG_WGT_BUF_CTRL_OFF) v d =
       tile_tick ip (d\<lparr>tl_rd := (tl_rd d)(0 := bit v 0), tl_wr := (tl_wr d)(0 := bit v 1)\<rparr>)"
    "wr64 (tile_bus ip lat) (mx_regs x + MY_MXU_REG_ACT_BUF_CTRL_OFF) v d =
       tile_tick ip (d\<lparr>tl_rd := (tl_rd d)(1 := bit v 0), tl_wr := (tl_wr d)(1 := bit v 1)\<rparr>)"
    "wr64 (tile_bus ip lat) (mx_regs x + MY_MXU_REG_OUT_BUF_CTRL_OFF) v d =
       tile_tick ip (d\<lparr>tl_rd := (tl_rd d)(2 := bit v 0), tl_wr := (tl_wr d)(2 := bit v 1)\<rparr>)"
  by (simp_all add: assms dev_simps tile_wr_def tile_reg_wr_def c_const window_def Let_def)

lemma ports_bits: "bit (mxu_ports rd wr) 0 = (rd \<noteq> 0)" "bit (mxu_ports rd wr) 1 = (wr \<noteq> 0)"
  by (simp_all add: mxu_ports_def c_const bit_simps)

definition set_ports :: "nat \<Rightarrow> bool \<Rightarrow> bool \<Rightarrow> 'u tile_dev \<Rightarrow> 'u tile_dev" where
  "set_ports i rd wr d = d\<lparr>tl_rd := (tl_rd d)(i := rd), tl_wr := (tl_wr d)(i := wr)\<rparr>"

lemma mxu_ports_idle:
  assumes "mx_regs x = MY_MXU_CFG_BASE" and "\<not> tl_busy d"
  shows "mxu_ports_all (tile_bus ip lat) x inrd outwr d =
    set_ports 2 False (outwr \<noteq> 0) (set_ports 1 (inrd \<noteq> 0) False (set_ports 0 (inrd \<noteq> 0) False d))"
  using assms(2)
  by (simp add: mxu_ports_all_def my_mxu_op_set_wgtbuf_ports_def my_mxu_op_set_actbuf_ports_def my_mxu_op_set_outbuf_ports_def
      tile_reg_write [OF assms(1)] ports_bits ports_bits(2) [unfolded One_nat_def] set_ports_def Let_def)

lemma mxu_init_idle:
  assumes "\<not> tl_busy d"
  shows "my_mxu_op_init (tile_bus ip lat) MY_MXU_CFG_BASE w a o' x d =
    (x\<lparr>mx_regs := MY_MXU_CFG_BASE, mx_wgtbuf := w, mx_actbuf := a, mx_outbuf := o'\<rparr>,
     d\<lparr>tl_irq_mask := False, tl_irq_status := False, tl_done := False\<rparr>)"
  using assms by (simp add: my_mxu_op_init_def dev_simps tile_wr_def tile_reg_wr_def tile_ctrl_def c_const window_def Let_def)

definition cfg_put :: "'u tile_ip \<Rightarrow> u32 \<Rightarrow> u32 \<Rightarrow> 'u tile_dev \<Rightarrow> 'u tile_dev" where
  "cfg_put ip a v d = d\<lparr>tl_cfg := (tl_cfg d)(unat a := take_bit (ti_bits ip (unat a)) (ucast v))\<rparr>"

lemma mxu_cfg_idle:
  assumes "mx_regs x = MY_MXU_CFG_BASE" and "\<not> tl_busy d" and "unat a < 15"
  shows "my_mxu_op_write_cfg (tile_bus (mxu_ip job) lat) x a v d = cfg_put (mxu_ip job) a v d"
proof -
  have "unat (take_bit 4 (ucast a :: u64)) = unat a"
    using assms(3) by (simp add: unsigned_take_bit_eq unsigned_ucast_eq take_bit_nat_eq_self)
  then show ?thesis using assms(2,3)
    by (simp add: my_mxu_op_write_cfg_def tile_reg_write [OF assms(1)] tile_cfg_write_def cfg_write_fields mxu_ip_def
        cfg_put_def Let_def)
qed


section \<open>Filling a buffer\<close>

definition fill_word :: "u32 \<Rightarrow> (nat \<Rightarrow> nat \<Rightarrow> nat \<Rightarrow> u64) \<Rightarrow> nat \<times> nat \<Rightarrow> buf \<Rightarrow> buf" where
  "fill_word start data = (\<lambda>(r, b) f.
     f(buf_pos (of_nat b) (start + of_nat r) 0 := data r b 0, buf_pos (of_nat b) (start + of_nat r) 1 := data r b 1))"

definition in_buffer :: "u32 \<Rightarrow> nat \<times> nat \<Rightarrow> bool" where
  "in_buffer start = (\<lambda>(r, b). b < 8 \<and> unat start + r < 256)"

lemma in_buffer_words:
  assumes "in_buffer start (r, b)"
  shows "unat (of_nat b :: u32) = b" "unat (start + of_nat r) = unat start + r"
proof -
  have l: "b < 2 ^ 32" "r < 2 ^ 32" using assms by (auto simp: in_buffer_def)
  then have u: "unat (of_nat b :: u32) = b" "unat (of_nat r :: u32) = r"
    by (simp_all add: unat_of_nat take_bit_nat_eq_self)
  then show "unat (of_nat b :: u32) = b" by simp
  have "unat start + unat (of_nat r :: u32) < 2 ^ 32" using assms unfolding u by (simp add: in_buffer_def)
  then show "unat (start + of_nat r) = unat start + r" using unat_add_lem [of start "of_nat r"] unfolding u by simp
qed

lemma fill_words_value:
  assumes "\<And>x. x \<in> set xs \<Longrightarrow> in_buffer start x" and "(r, b) \<in> set xs" and "h < 2"
  shows "fold (fill_word start data) xs f (buf_pos (of_nat b) (start + of_nat r) (of_nat h)) = data r b h"
  using assms
proof (induction xs rule: rev_induct)
  case (snoc x xs)
  obtain r' b' where x: "x = (r', b')" by fastforce
  have i: "in_buffer start (r, b)" "in_buffer start (r', b')" using snoc.prems x by auto
  note w = in_buffer_words [OF i(1)] in_buffer_words [OF i(2)]
  have lt: "unat start + r < 256" "unat start + r' < 256" using i by (auto simp: in_buffer_def)
  have pos: "buf_pos (of_nat b) (start + of_nat r) hh = buf_pos (of_nat b') (start + of_nat r') hh' \<longleftrightarrow>
      b = b' \<and> r = r' \<and> hh = hh'" if "unat hh < 2" "unat hh' < 2" for hh hh' :: u32
  proof -
    have "of_nat b = (of_nat b' :: u32) \<longleftrightarrow> b = b'" using w by metis
    moreover have "start + of_nat r = start + of_nat r' \<longleftrightarrow> r = r'" using w by (metis add_left_cancel)
    ultimately show ?thesis
      using buf_pos_inj [of "start + of_nat r" "start + of_nat r'" hh hh' "of_nat b" "of_nat b'"] lt that unfolding w by blast
  qed
  have h: "h = 0 \<or> h = 1" using snoc.prems(3) by auto
  show ?case
  proof (cases "(r, b) = (r', b')")
    case True
    then show ?thesis using h pos [of 0 1] pos [of 1 0] by (auto simp: x fill_word_def)
  next
    case False
    then have "(r, b) \<in> set xs" using snoc.prems(2) x by auto
    then have "fold (fill_word start data) xs f (buf_pos (of_nat b) (start + of_nat r) (of_nat h)) = data r b h"
      using snoc.IH snoc.prems(1,3) by simp
    moreover have "unat (of_nat h :: u32) < 2" using h by auto
    ultimately show ?thesis using False pos [of "of_nat h" 0] pos [of "of_nat h" 1] by (auto simp: x fill_word_def)
  qed
qed simp

text \<open>The loops of the program on an idle unit whose write port belongs to the processor.\<close>

lemma mxu_fill_idle:
  assumes "unat buf = 32768 * q" "q < 2 ^ 40" "q mod 4 = Suc k" and "\<not> tl_busy d" "\<not> tl_wr d k" and "in_buffer start (r, b)"
  shows "mxu_fill (tile_bus ip lat) buf start data r b d =
    d\<lparr>tl_buf := (tl_buf d)(k := fill_word start data (r, b) (tl_buf d k))\<rparr>"
proof -
  note w = in_buffer_words [OF assms(6)]
  have l: "unat (of_nat b :: u32) < 8" "unat (start + of_nat r) < 256" using assms(6) unfolding w by (simp_all add: in_buffer_def)
  note at = mxu_buf64_at [OF assms(1,2) l]
  show ?thesis using assms(3-5) at [of 0] at [of 1]
    by (simp add: mxu_fill_def dev_simps tile_wr_def fill_word_def Let_def)
qed

lemma mxu_loop_idle:
  assumes "unat buf = 32768 * q" "q < 2 ^ 40" "q mod 4 = Suc k" and "\<And>x. x \<in> set xs \<Longrightarrow> in_buffer start x"
  shows "\<not> tl_busy d \<Longrightarrow> \<not> tl_wr d k \<Longrightarrow>
    fold (\<lambda>(r, b). mxu_fill (tile_bus ip lat) buf start data r b) xs d =
      d\<lparr>tl_buf := (tl_buf d)(k := fold (fill_word start data) xs (tl_buf d k))\<rparr>"
  using assms(4)
proof (induction xs arbitrary: d)
  case (Cons x xs)
  obtain r b where x: "x = (r, b)" by fastforce
  have "in_buffer start (r, b)" using Cons.prems(3) x by simp
  note f = mxu_fill_idle [OF assms(1-3) Cons.prems(1,2) this, of ip lat data]
  show ?case using Cons.prems by (simp add: x f Cons.IH fun_upd_same del: fun_upd_apply)
qed simp

section \<open>The verdict of the test\<close>

text \<open>The configuration that the table programs.\<close>

definition mxu_cfg :: "mxu_data \<Rightarrow> cfg \<Rightarrow> cfg" where
  "mxu_cfg c f = (\<lambda>i. if i < 4 then ucast (xd_wgt_tile c i) else if i < 8 then ucast (xd_act_tile c (i - 4))
     else if i < 12 then ucast (xd_out_tile c (i - 8)) else if i = 12 then ucast (xd_batch c)
     else if i = 13 then take_bit 1 (ucast (xd_flow c)) else if i = 14 then take_bit 1 (ucast (xd_type c)) else f i)"

lemma cfg_put_simps [simp]:
  "tl_busy (cfg_put ip a v d) = tl_busy d" "tl_buf (cfg_put ip a v d) = tl_buf d" "tl_rd (cfg_put ip a v d) = tl_rd d"
  "tl_wr (cfg_put ip a v d) = tl_wr d"
  by (simp_all add: cfg_put_def)

lemma ucast32_8 [simp]: "ucast (ucast (v :: u64) :: u32) = (ucast v :: byte)"
  by (rule bit_word_eqI) (auto simp: bit_simps)

lemma cfg_put_upd: "cfg_put ip a v (d\<lparr>tl_cfg := f\<rparr>) = d\<lparr>tl_cfg := f(unat a := take_bit (ti_bits ip (unat a)) (ucast v))\<rparr>"
  by (simp add: cfg_put_def)

lemma mxu_cfg_chain:
  "mxu_cfg c f = f(0 := ucast (xd_wgt_tile c 0), 4 := ucast (xd_act_tile c 0), 8 := ucast (xd_out_tile c 0),
      1 := ucast (xd_wgt_tile c 1), 5 := ucast (xd_act_tile c 1), 9 := ucast (xd_out_tile c 1),
      2 := ucast (xd_wgt_tile c 2), 6 := ucast (xd_act_tile c 2), 10 := ucast (xd_out_tile c 2),
      3 := ucast (xd_wgt_tile c 3), 7 := ucast (xd_act_tile c 3), 11 := ucast (xd_out_tile c 3),
      12 := ucast (xd_batch c), 13 := take_bit 1 (ucast (xd_flow c)), 14 := take_bit 1 (ucast (xd_type c)))"
    (is "_ = ?g")
proof (rule ext)
  fix i :: nat
  have "i = 0 \<or> i = 1 \<or> i = 2 \<or> i = 3 \<or> i = 4 \<or> i = 5 \<or> i = 6 \<or> i = 7 \<or> i = 8 \<or> i = 9 \<or> i = 10 \<or> i = 11 \<or> i = 12 \<or>
      i = 13 \<or> i = 14 \<or> 14 < i" by presburger
  then show "mxu_cfg c f i = ?g i" by (elim disjE; simp add: mxu_cfg_def)
qed

lemma cfg_put_chain:
  "fold (\<lambda>(a, v). cfg_put (mxu_ip job) a v) [(0, u0), (4, a0), (8, o0), (1, u1), (5, a1), (9, o1),
     (2, u2), (6, a2), (10, o2), (3, u3), (7, a3), (11, o3), (12, b), (13, fl), (14, ty)] (d\<lparr>tl_cfg := f\<rparr>) =
   d\<lparr>tl_cfg := f(0 := ucast u0, 4 := ucast a0, 8 := ucast o0, 1 := ucast u1, 5 := ucast a1, 9 := ucast o1,
     2 := ucast u2, 6 := ucast a2, 10 := ucast o2, 3 := ucast u3, 7 := ucast a3, 11 := ucast o3, 12 := ucast b,
     13 := take_bit 1 (ucast fl), 14 := take_bit 1 (ucast ty))\<rparr>"
  by (simp add: cfg_put_upd mxu_ip_def take_bit_word_eq_self del: fun_upd_apply)

lemma write_cfg_table_idle:
  assumes "mx_regs x = MY_MXU_CFG_BASE" and "\<not> tl_busy d"
  shows "write_cfg_table (tile_bus (mxu_ip job) lat) x c d = d\<lparr>tl_cfg := mxu_cfg c (tl_cfg d)\<rparr>"
proof -
  note w = mxu_cfg_idle [OF assms(1), where job = job and lat = lat]
  have common: "my_mxu_op_config_common (tile_bus (mxu_ip job) lat) x f t d =
      cfg_put (mxu_ip job) 14 t (cfg_put (mxu_ip job) 13 f d)" if "\<not> tl_busy d" for f t d
    using w [of d 13 f] w [of "cfg_put (mxu_ip job) 13 f d" 14 t] that
    by (simp add: my_mxu_op_config_common_def my_mxu_op_write_cfg_def c_const Let_def)
  have keep: "d\<lparr>tl_cfg := tl_cfg d\<rparr> = d" by simp
  note chain = cfg_put_chain [where d = d and f = "tl_cfg d" and job = job, unfolded keep]
  have e: "write_cfg_table (tile_bus (mxu_ip job) lat) x c d = fold (\<lambda>(a, v). cfg_put (mxu_ip job) a v)
     [(0, ucast (xd_wgt_tile c 0)), (4, ucast (xd_act_tile c 0)), (8, ucast (xd_out_tile c 0)),
      (1, ucast (xd_wgt_tile c 1)), (5, ucast (xd_act_tile c 1)), (9, ucast (xd_out_tile c 1)),
      (2, ucast (xd_wgt_tile c 2)), (6, ucast (xd_act_tile c 2)), (10, ucast (xd_out_tile c 2)),
      (3, ucast (xd_wgt_tile c 3)), (7, ucast (xd_act_tile c 3)), (11, ucast (xd_out_tile c 3)),
      (12, xd_batch c), (13, xd_flow c), (14, xd_type c)] d"
  proof -
    have u: "[0..<4] = [0, 1, 2, 3 :: nat]" by (simp add: upt_rec)
    show ?thesis using assms(2) unfolding write_cfg_table_def u by (simp add: w common c_const Let_def)
  qed
  show ?thesis unfolding e chain mxu_cfg_chain by (simp only: ucast32_8)
qed

lemma mxu_word_idle:
  assumes "\<not> tl_busy d" "\<not> tl_rd d 2" and "in_buffer start (r, b)"
  shows "mxu_word (tile_bus ip lat) MY_MXU_OUT_BASE (of_nat b) (start + of_nat r) d =
    ((tl_buf d 2 (buf_pos (of_nat b) (start + of_nat r) 0), tl_buf d 2 (buf_pos (of_nat b) (start + of_nat r) 1)), d)"
proof -
  note w = in_buffer_words [OF assms(3)]
  have l: "unat (of_nat b :: u32) < 8" "unat (start + of_nat r) < 256" using assms(3) unfolding w by (simp_all add: in_buffer_def)
  note at = mxu_buf64_at [OF mxu_bases(3) _ l]
  show ?thesis using assms(1,2) at [of 0] at [of 1]
    by (simp add: mxu_word_def dev_simps tile_rd_def Let_def)
qed

lemma mismatch_text:
  "\<exists>t. text_of m ''MXU_MISMATCH row=0x%02x bank=%u actual=0x%016lx_%016lx expected=0x%016lx_%016lx\<newline>'' [a, b, c, d, e, f] = Some t"
  by (simp add: text_of_def parse_spec_def parse_width_def parse_precision_def parse_length_def cur_def is_digit_def
    atoi_def conv_acts_def int_specs_def Let_def)

lemma status_text: "\<exists>t. text_of m ''MXU_NO_DONE status=0x%lx\<newline>'' [a] = Some t"
  by (simp add: text_of_def parse_spec_def parse_width_def parse_precision_def parse_length_def cur_def is_digit_def
    conv_acts_def int_specs_def Let_def)

definition mxu_match :: "mxu_data \<Rightarrow> buf \<Rightarrow> nat \<times> nat \<Rightarrow> bool" where
  "mxu_match c f = (\<lambda>(r, b). f (buf_pos (of_nat b) (xd_out_start c + of_nat r) 0) = xd_golden c r b 0 \<and>
     f (buf_pos (of_nat b) (xd_out_start c + of_nat r) 1) = xd_golden c r b 1)"

lemma compare_idle:
  assumes "mx_outbuf x = MY_MXU_OUT_BASE" and "\<And>p. p \<in> set ps \<Longrightarrow> in_buffer (xd_out_start c) p"
  shows "\<not> tl_busy (ap_dev s) \<Longrightarrow> \<not> tl_rd (ap_dev s) 2 \<Longrightarrow>
    \<exists>s'. compare_from (tile_bus ip lat) x m c ps s =
      Some (if \<forall>p \<in> set ps. mxu_match c (tl_buf (ap_dev s) 2) p then 0 else - 1, s') \<and> ap_dev s' = ap_dev s"
  using assms(2)
proof (induction ps arbitrary: s)
  case (Cons p ps)
  obtain r b where p: "p = (r, b)" by fastforce
  have i: "in_buffer (xd_out_start c) (r, b)" using Cons.prems(3) p by simp
  let ?d = "ap_dev s"
  let ?lo = "tl_buf ?d 2 (buf_pos (of_nat b) (xd_out_start c + of_nat r) 0)"
  let ?hi = "tl_buf ?d 2 (buf_pos (of_nat b) (xd_out_start c + of_nat r) 1)"
  have w: "from_dev (mxu_word (tile_bus ip lat) (mx_outbuf x) (of_nat b) (xd_out_start c + of_nat r)) s = ((?lo, ?hi), s)"
    using mxu_word_idle [OF Cons.prems(1,2) i, of ip lat] by (simp add: from_dev_def assms(1))
  obtain t where t: "text_of m ''MXU_MISMATCH row=0x%02x bank=%u actual=0x%016lx_%016lx expected=0x%016lx_%016lx\<newline>''
      [ucast (xd_out_start c + of_nat r), of_nat b, ?hi, ?lo, xd_golden c r b 1, xd_golden c r b 0] = Some t"
    using mismatch_text by blast
  show ?case
  proof (cases "mxu_match c (tl_buf ?d 2) p")
    case True
    then show ?thesis using Cons.IH [OF Cons.prems(1,2)] Cons.prems(3) w
      by (simp add: p Let_def) (simp add: mxu_match_def)
  next
    case False
    then show ?thesis using w t
      by (auto simp: p Let_def mxu_match_def say_text)
  qed
qed simp

lemma mxu_finish_returns:
  "CHR ''%'' \<notin> set v \<Longrightarrow> \<exists>s'. mxu_finish m v r s = Some (r, s') \<and> ap_dev s' = ap_dev s"
  by (simp add: mxu_finish_def say_text text_of_plain)

lemma mode_text:
  "cstr_at m p cs \<Longrightarrow> \<exists>t. text_of m ''MXU_MODE %s\<newline>'' [p] = Some t"
  by (simp add: text_of_def parse_spec_def parse_width_def parse_precision_def parse_length_def cur_def is_digit_def
    conv_acts_def int_specs_def str_text_def str_chars_cstr Let_def)

text \<open>The words of the output buffer after the job.\<close>

definition mxu_output :: "(bool \<Rightarrow> cfg \<Rightarrow> buf option \<Rightarrow> buf option \<Rightarrow> 'u \<Rightarrow> (nat \<Rightarrow> u64 option) \<times> 'u) \<Rightarrow>
    cfg \<Rightarrow> buf \<Rightarrow> buf \<Rightarrow> 'u \<Rightarrow> buf \<Rightarrow> buf" where
  "mxu_output job cf w a u old = (\<lambda>i. case fst (job False cf (Some w) (Some a) u) i of None \<Rightarrow> old i | Some v \<Rightarrow> v)"

lemma mxu_tail:
  assumes "\<not> tl_busy (ap_dev s)" "tl_done (ap_dev s)" and "mx_regs x = MY_MXU_CFG_BASE" "mx_outbuf x = MY_MXU_OUT_BASE"
    and "unat (xd_banks c) \<le> 8" and "unat (xd_out_start c) + unat (xd_out_rows c) \<le> 256"
  shows "\<exists>s'. mxu_after_wait (tile_bus (mxu_ip job) lat) x m c s =
    Some (if \<forall>p \<in> {0..<unat (xd_out_rows c)} \<times> {0..<unat (xd_banks c)}. mxu_match c (tl_buf (ap_dev s) 2) p then 0 else 1, s')"
proof -
  let ?B = "tile_bus (mxu_ip job) lat"
  have st: "from_dev (my_mxu_op_read_status ?B x) s = (tile_status (mxu_ip job) (ap_dev s), s)"
    using assms(1) by (simp add: from_dev_def my_mxu_op_read_status_def assms(3) dev_simps tile_rd_def tile_reg_rd_def c_const window_def)
  have dn: "tile_status (mxu_ip job) (ap_dev s) AND MY_MXU_STATUS_DONE \<noteq> 0"
    using assms(1,2) by (simp add: tile_status_def c_const)
  define s2 where "s2 = on_dev (mxu_ports_all ?B x 0 0) s"
  have d2: "ap_dev s2 = set_ports 2 False False (set_ports 1 False False (set_ports 0 False False (ap_dev s)))"
    unfolding s2_def on_dev_def using mxu_ports_idle [OF assms(3,1), of "mxu_ip job" lat 0 0] by simp
  have i2: "\<not> tl_busy (ap_dev s2)" "\<not> tl_rd (ap_dev s2) 2" "tl_buf (ap_dev s2) = tl_buf (ap_dev s)"
    using assms(1) by (simp_all add: d2 set_ports_def)
  have inb: "in_buffer (xd_out_start c) p" if "p \<in> set (List.product [0..<unat (xd_out_rows c)] [0..<unat (xd_banks c)])" for p
    using that assms(5,6) by (auto simp: in_buffer_def)
  obtain s3 where s3: "compare_output ?B x m c s2 =
      Some (if \<forall>p \<in> set (List.product [0..<unat (xd_out_rows c)] [0..<unat (xd_banks c)]). mxu_match c (tl_buf (ap_dev s2) 2) p
            then 0 else - 1, s3)"
    unfolding compare_output_def using compare_idle [OF assms(4) inb i2(1,2), where ip = "mxu_ip job" and lat = lat and m = m
          and ps = "List.product [0..<unat (xd_out_rows c)] [0..<unat (xd_banks c)]"] by blast
  obtain f p where f: "mxu_finish m ''MXU_FAIL\<newline>'' 1 s3 = Some (1, f)" and p: "mxu_finish m ''MXU_PASS\<newline>'' 0 s3 = Some (0, p)"
    using mxu_finish_returns [of "''MXU_FAIL\<newline>''" m 1 s3] mxu_finish_returns [of "''MXU_PASS\<newline>''" m 0 s3] by auto
  show ?thesis
    using dn s3 f p unfolding mxu_after_wait_def st
    by (simp add: s2_def [symmetric] i2(3) del: str_Cons)
qed

section \<open>Property\<close>

text \<open>C37. The verdict of the MXU test is the truth about the unit: on an idle unit that finishes
  within the timeout, with tables that fit the buffers, \<open>main\<close> returns 0 if and only if the job of
  the unit, given exactly the programmed configuration and input buffers that hold the tables,
  leaves the expected words in the output buffer, and 1 otherwise.\<close>

theorem mxu_test_verdict:
  fixes s :: "'u tile_dev app"
  assumes "\<not> tl_busy (ap_dev s)" and "lat (tl_runs (ap_dev s)) < 5000000" and "cstr_at m (xd_mode c) cs"
    and "unat (xd_banks c) \<le> 8" and "unat (xd_wgt_start c) + unat (xd_wgt_rows c) \<le> 256"
    and "unat (xd_act_start c) + unat (xd_act_rows c) \<le> 256" and "unat (xd_out_start c) + unat (xd_out_rows c) \<le> 256"
  shows "\<exists>w a s'. my_mxu_test_main (tile_bus (mxu_ip job) lat) my_mxu0 m c s =
      Some (if \<forall>p \<in> {0..<unat (xd_out_rows c)} \<times> {0..<unat (xd_banks c)}.
              mxu_match c (mxu_output job (mxu_cfg c (tl_cfg (ap_dev s))) w a (tl_unit (ap_dev s)) (tl_buf (ap_dev s) 2)) p
            then 0 else 1, s') \<and>
    (\<forall>r < unat (xd_wgt_rows c). \<forall>b < unat (xd_banks c). \<forall>h < 2.
       w (buf_pos (of_nat b) (xd_wgt_start c + of_nat r) (of_nat h)) = xd_wgt c r b h) \<and>
    (\<forall>r < unat (xd_act_rows c). \<forall>b < unat (xd_banks c). \<forall>h < 2.
       a (buf_pos (of_nat b) (xd_act_start c + of_nat r) (of_nat h)) = xd_act c r b h)"
proof -
  let ?B = "tile_bus (mxu_ip job) lat" and ?d = "ap_dev s"
  define x where "x = (my_mxu_bind my_mxu0)\<lparr>mx_regs := MY_MXU_CFG_BASE, mx_wgtbuf := MY_MXU_WGT_BASE,
      mx_actbuf := MY_MXU_ACT_BASE, mx_outbuf := MY_MXU_OUT_BASE\<rparr>"
  have x: "mx_regs x = MY_MXU_CFG_BASE" "mx_wgtbuf x = MY_MXU_WGT_BASE" "mx_actbuf x = MY_MXU_ACT_BASE" "mx_outbuf x = MY_MXU_OUT_BASE"
    by (simp_all add: x_def)
  let ?wl = "List.product [0..<unat (xd_wgt_rows c)] [0..<unat (xd_banks c)]"
  let ?al = "List.product [0..<unat (xd_act_rows c)] [0..<unat (xd_banks c)]"
  define w where "w = fold (fill_word (xd_wgt_start c) (xd_wgt c)) ?wl (tl_buf ?d 0)"
  define a where "a = fold (fill_word (xd_act_start c) (xd_act c)) ?al (tl_buf ?d (Suc 0))"
  have wi: "in_buffer (xd_wgt_start c) p" if "p \<in> set ?wl" for p using that assms(4,5) by (auto simp: in_buffer_def)
  have ai: "in_buffer (xd_act_start c) p" if "p \<in> set ?al" for p using that assms(4,6) by (auto simp: in_buffer_def)
  define d1 where "d1 = set_ports 2 False False (set_ports 1 False False (set_ports 0 False False
      (?d\<lparr>tl_irq_mask := False, tl_irq_status := False, tl_done := False\<rparr>)))"
  have i1: "\<not> tl_busy d1" "\<not> tl_wr d1 0" "\<not> tl_wr d1 1" using assms(1) by (simp_all add: d1_def set_ports_def)
  define d2 where "d2 = d1\<lparr>tl_buf := (tl_buf d1)(0 := w, 1 := a)\<rparr>"
  have b1: "tl_buf d1 = tl_buf ?d" by (simp add: d1_def set_ports_def)
  have fill: "write_input_buffers ?B x c d1 = d2"
    using mxu_loop_idle [OF mxu_bases(1) _ _ wi i1(1,2), where ip = "mxu_ip job" and lat = lat and data = "xd_wgt c" and xs = ?wl]
      mxu_loop_idle [OF mxu_bases(2) _ _ ai, where d = "d1\<lparr>tl_buf := (tl_buf d1)(0 := w)\<rparr>" and k = 1
        and ip = "mxu_ip job" and lat = lat and data = "xd_act c" and xs = ?al] i1
    by (simp add: write_input_buffers_def buf_loop_def x b1 w_def [symmetric] a_def [symmetric] d2_def Let_def)
  define d3 where "d3 = d2\<lparr>tl_cfg := mxu_cfg c (tl_cfg d2)\<rparr>"
  have i2: "\<not> tl_busy d2" using i1 by (simp add: d2_def)
  have cf: "write_cfg_table ?B x c d2 = d3" unfolding d3_def by (rule write_cfg_table_idle [OF x(1) i2])
  define d4 where "d4 = set_ports 2 False True (set_ports 1 True False (set_ports 0 True False d3))"
  have i3: "\<not> tl_busy d3" using i2 by (simp add: d3_def)
  have p4: "mxu_ports_all ?B x 1 1 d3 = d4" unfolding d4_def using mxu_ports_idle [OF x(1) i3, of "mxu_ip job" lat 1 1] by simp
  define d5 where "d5 = tile_begin lat False (d4\<lparr>tl_done := False, tl_irq_status := False\<rparr>)"
  have i4: "\<not> tl_busy d4" using i3 by (simp add: d4_def set_ports_def)
  have st: "my_mxu_op_start ?B x d4 = tile_tick (mxu_ip job) d5"
  proof -
    have "tile_ctrl (mxu_ip job) lat (ucast MY_MXU_CTRL_START) d4 = d5"
      using i4 by (simp add: tile_ctrl_def d5_def mxu_ip_def MY_MXU_CTRL_START_def Let_def)
    then show ?thesis unfolding my_mxu_op_start_def tile_reg_write(1) [OF x(1)] by simp
  qed
  have b5: "tl_busy d5" "tl_wait d5 < 5000000"
    using assms(2) by (simp_all add: d5_def tile_begin_def d4_def set_ports_def d3_def d2_def d1_def)
  have sa: "status_at (MY_MXU_CFG_BASE + MY_MXU_REG_STATUS_OFF)" by (simp add: status_at_def c_const window_def)
  have wt: "my_mxu_op_wait_done ?B x 5000000 (tile_tick (mxu_ip job) d5) = (0, tile_end (mxu_ip job) d5)"
    using tile_wait_done [OF b5(1) sa, where ip = "mxu_ip job" and lat = lat and n = 5000000] b5(2)
    by (simp add: my_mxu_op_wait_done_def my_mxu_op_busy_def [abs_def] x MY_MXU_STATUS_BUSY_def)
  define d6 where "d6 = tile_end (mxu_ip job) d5"
  have out: "tl_buf d6 2 = mxu_output job (mxu_cfg c (tl_cfg ?d)) w a (tl_unit ?d) (tl_buf ?d 2)"
    by (simp add: d6_def tile_end_def tile_finish_def d5_def tile_begin_def d4_def set_ports_def d3_def d2_def b1
        mxu_output_def mxu_ip_def Let_def split_beta cong: option.case_cong) (simp add: d1_def set_ports_def cong: option.case_cong)
  obtain t where t: "text_of m ''MXU_MODE %s\<newline>'' [xd_mode c] = Some t" using mode_text [OF assms(3)] by blast
  define s1 where "s1 = s\<lparr>ap_out := (ap_out s @ filter (\<lambda>c. c \<noteq> 0) (str ''MXU_SOC_TEST_BEGIN\<newline>'')) @ t\<rparr>"
  have main: "my_mxu_test_main ?B my_mxu0 m c s = mxu_after_wait ?B x m c (s1\<lparr>ap_dev := d6\<rparr>)"
    using assms(1) i1 t
    by (simp add: my_mxu_test_main_def say_text text_of_plain from_dev_def on_dev_def mxu_init_idle x_def [symmetric]
        mxu_ports_idle [OF x(1)] d1_def [symmetric, unfolded One_nat_def] fill cf p4 st wt d6_def [symmetric] s1_def Let_def del: str_Cons)
  obtain s' where "mxu_after_wait ?B x m c (s1\<lparr>ap_dev := d6\<rparr>) =
      Some (if \<forall>p \<in> {0..<unat (xd_out_rows c)} \<times> {0..<unat (xd_banks c)}. mxu_match c (tl_buf d6 2) p then 0 else 1, s')"
    using mxu_tail [of "s1\<lparr>ap_dev := d6\<rparr>" x c job lat m] assms(4,7) x by (auto simp: d6_def)
  moreover have "w (buf_pos (of_nat b) (xd_wgt_start c + of_nat r) (of_nat h)) = xd_wgt c r b h"
    if "r < unat (xd_wgt_rows c)" "b < unat (xd_banks c)" "h < 2" for r b h
    unfolding w_def by (rule fill_words_value [OF wi]) (use that in auto)
  moreover have "a (buf_pos (of_nat b) (xd_act_start c + of_nat r) (of_nat h)) = xd_act c r b h"
    if "r < unat (xd_act_rows c)" "b < unat (xd_banks c)" "h < 2" for r b h
    unfolding a_def by (rule fill_words_value [OF ai]) (use that in auto)
  ultimately show ?thesis unfolding main out by blast
qed

definition demo_tile :: "unit tile_dev" where
  "demo_tile = \<lparr>tl_buf = (\<lambda>_ _. 7), tl_rd = (\<lambda>_. True), tl_wr = (\<lambda>_. True), tl_cfg = (\<lambda>_. 0), tl_busy = False,
     tl_seed = False, tl_done = False, tl_irq_mask = False, tl_irq_status = False, tl_wait = 0, tl_runs = 0,
     tl_stale = 0, tl_unit = ()\<rparr>"

lemma mxu_test_verdict_witness:
  "\<exists>s'. my_mxu_test_main (tile_bus (mxu_ip (\<lambda>_ _ _ _ u. (\<lambda>_. Some 0, u))) (\<lambda>_. 1000))
      \<lparr>mx_regs = 0, mx_wgtbuf = 0, mx_actbuf = 0, mx_outbuf = 0, mx_bound = False\<rparr> (\<lambda>_. 0) (mxu_fallback 16)
      \<lparr>ap_dev = demo_tile, ap_out = []\<rparr> = Some (0, s')"
proof -
  have c: "cstr_at (\<lambda>_. 0) (xd_mode (mxu_fallback 16)) []" by simp
  show ?thesis
    using mxu_test_verdict [OF _ _ c, where s = "\<lparr>ap_dev = demo_tile, ap_out = []\<rparr>" and lat = "\<lambda>_. 1000"
        and job = "\<lambda>_ _ _ _ u. (\<lambda>_. Some 0, u)"
        and ?my_mxu0.0 = "\<lparr>mx_regs = 0, mx_wgtbuf = 0, mx_actbuf = 0, mx_outbuf = 0, mx_bound = False\<rparr>"]
    by (auto simp: demo_tile_def mxu_fallback_def mxu_output_def mxu_match_def)
qed

section \<open>Addresses in the buffers\<close>

lemma digits_inj:
  fixes b r h b' r' h' :: nat
  assumes "r < 256" "r' < 256" "h < 2" "h' < 2"
  shows "512 * b + 2 * r + h = 512 * b' + 2 * r' + h' \<longleftrightarrow> b = b' \<and> r = r' \<and> h = h'"
proof
  assume e: "512 * b + 2 * r + h = 512 * b' + 2 * r' + h'"
  then have "b = b'" using assms by linarith
  moreover have "r = r'" using e calculation assms by linarith
  moreover have "h = h'" using e calculation by linarith
  ultimately show "b = b' \<and> r = r' \<and> h = h'" by blast
qed simp

text \<open>C38. The address of a word of a buffer is always an 8-byte aligned address of its 32 KiB window,
  and two triples of bank, row and half give the same address exactly if they agree modulo 8,
  256 and 2: inside the dimensions of the buffer no two words alias.\<close>

theorem mxu_buf64_words:
  "(\<exists>k < 4096. mxu_buf64 buf b r h = buf + of_nat (8 * k)) \<and>
   (mxu_buf64 buf b r h = mxu_buf64 buf b' r' h' \<longleftrightarrow>
      unat b mod 8 = unat b' mod 8 \<and> unat r mod 256 = unat r' mod 256 \<and> unat h mod 2 = unat h' mod 2)"
proof
  have l: "unat x mod 8 < 8" "unat x mod 256 < 256" "unat x mod 2 < 2" for x :: u32 by simp_all
  have ofs: "(ucast (mxu_buf_word_offset b r h) :: addr) =
      of_nat (8 * (512 * (unat b mod 8) + 2 * (unat r mod 256) + unat h mod 2))"
    by (rule eq_of_nat_unat) (simp add: mxu_offset_nat)
  have "512 * (unat b mod 8) + 2 * (unat r mod 256) + unat h mod 2 < 4096" using l(1) [of b] l(2) [of r] l(3) [of h] by linarith
  then show "\<exists>k < 4096. mxu_buf64 buf b r h = buf + of_nat (8 * k)" unfolding mxu_buf64_def ofs by blast
  have "mxu_buf64 buf b r h = mxu_buf64 buf b' r' h' \<longleftrightarrow>
      unat (ucast (mxu_buf_word_offset b r h) :: addr) = unat (ucast (mxu_buf_word_offset b' r' h') :: addr)"
    unfolding mxu_buf64_def by (simp only: add_left_cancel word_unat_eq_iff [symmetric])
  also have "\<dots> \<longleftrightarrow> 512 * (unat b mod 8) + 2 * (unat r mod 256) + unat h mod 2 = 512 * (unat b' mod 8) + 2 * (unat r' mod 256) + unat h' mod 2"
    unfolding unat_ucast32 mxu_offset_nat by linarith
  also have "\<dots> \<longleftrightarrow> unat b mod 8 = unat b' mod 8 \<and> unat r mod 256 = unat r' mod 256 \<and> unat h mod 2 = unat h' mod 2"
    by (rule digits_inj) simp_all
  finally show "mxu_buf64 buf b r h = mxu_buf64 buf b' r' h' \<longleftrightarrow>
      unat b mod 8 = unat b' mod 8 \<and> unat r mod 256 = unat r' mod 256 \<and> unat h mod 2 = unat h' mod 2" .
qed

end
