(* ===== verification/Axu.thy ===== *)
theory Axu
  imports Tile Mxu
begin

text \<open>
  The vector and activation unit: \<open>software/soc/include/my_axu.h\<close> and the driver
  \<open>software/soc/src/my_axu.c\<close> on a bus; the unit itself (\<open>hardware/user_ip/my_axu/axu_top/axu_ctrl.sv\<close>)
  as an instance of the device of theory Tile.
\<close>

section \<open>The header\<close>

definition MY_AXU_CFG_BASE :: addr where [c_const]: "MY_AXU_CFG_BASE = 0x70020000"
definition MY_AXU_OPA_BASE :: addr where [c_const]: "MY_AXU_OPA_BASE = 0x70028000"
definition MY_AXU_OPB_BASE :: addr where [c_const]: "MY_AXU_OPB_BASE = 0x70030000"
definition MY_AXU_OUT_BASE :: addr where [c_const]: "MY_AXU_OUT_BASE = 0x70038000"
definition MY_AXU_CFG_SIZE :: u64 where [c_const]: "MY_AXU_CFG_SIZE = 0x1000"
definition MY_AXU_OPA_SIZE :: u64 where [c_const]: "MY_AXU_OPA_SIZE = 0x8000"
definition MY_AXU_OPB_SIZE :: u64 where [c_const]: "MY_AXU_OPB_SIZE = 0x8000"
definition MY_AXU_OUT_SIZE :: u64 where [c_const]: "MY_AXU_OUT_SIZE = 0x8000"
definition MY_AXU_REG_CTRL_OFF :: addr where [c_const]: "MY_AXU_REG_CTRL_OFF = 0x000"
definition MY_AXU_REG_STATUS_OFF :: addr where [c_const]: "MY_AXU_REG_STATUS_OFF = 0x008"
definition MY_AXU_REG_OPA_BUF_CTRL_OFF :: addr where [c_const]: "MY_AXU_REG_OPA_BUF_CTRL_OFF = 0x010"
definition MY_AXU_REG_OPB_BUF_CTRL_OFF :: addr where [c_const]: "MY_AXU_REG_OPB_BUF_CTRL_OFF = 0x018"
definition MY_AXU_REG_OUT_BUF_CTRL_OFF :: addr where [c_const]: "MY_AXU_REG_OUT_BUF_CTRL_OFF = 0x020"
definition MY_AXU_REG_CFG_WRITE_OFF :: addr where [c_const]: "MY_AXU_REG_CFG_WRITE_OFF = 0x030"
definition MY_AXU_REG_IRQ_MASK_OFF :: addr where [c_const]: "MY_AXU_REG_IRQ_MASK_OFF = 0x038"
definition MY_AXU_REG_IRQ_STAT_OFF :: addr where [c_const]: "MY_AXU_REG_IRQ_STAT_OFF = 0x040"
definition MY_AXU_CTRL_START :: u32 where [c_const]: "MY_AXU_CTRL_START = 1"
definition MY_AXU_CTRL_CLR_DONE :: u32 where [c_const]: "MY_AXU_CTRL_CLR_DONE = 2"
definition MY_AXU_STATUS_BUSY :: u64 where [c_const]: "MY_AXU_STATUS_BUSY = 1"
definition MY_AXU_STATUS_DONE :: u64 where [c_const]: "MY_AXU_STATUS_DONE = 2"
definition MY_AXU_STATUS_CALC_DONE :: u64 where [c_const]: "MY_AXU_STATUS_CALC_DONE = 4"
definition MY_AXU_BUF_RD_AXU :: u64 where [c_const]: "MY_AXU_BUF_RD_AXU = 1"
definition MY_AXU_BUF_WR_AXU :: u64 where [c_const]: "MY_AXU_BUF_WR_AXU = 2"
definition MY_AXU_CFG_ADDR_SHIFT :: nat where [c_const]: "MY_AXU_CFG_ADDR_SHIFT = 0"
definition MY_AXU_CFG_ADDR_MASK :: u32 where [c_const]: "MY_AXU_CFG_ADDR_MASK = push_bit MY_AXU_CFG_ADDR_SHIFT 0xF"
definition MY_AXU_CFG_DATA_SHIFT :: nat where [c_const]: "MY_AXU_CFG_DATA_SHIFT = 8"
definition MY_AXU_CFG_DATA_MASK :: u32 where [c_const]: "MY_AXU_CFG_DATA_MASK = push_bit MY_AXU_CFG_DATA_SHIFT 0xFF"
definition AXU_CFG_FUNC_SEL :: u32 where [c_const]: "AXU_CFG_FUNC_SEL = 0"
definition AXU_CFG_OP_A_BASE_ADDR :: u32 where [c_const]: "AXU_CFG_OP_A_BASE_ADDR = 1"
definition AXU_CFG_OP_B_BASE_ADDR :: u32 where [c_const]: "AXU_CFG_OP_B_BASE_ADDR = 2"
definition AXU_CFG_VEC_OUT_BASE_ADDR :: u32 where [c_const]: "AXU_CFG_VEC_OUT_BASE_ADDR = 3"
definition AXU_CFG_REDUCE_OUT_BASE_ADDR :: u32 where [c_const]: "AXU_CFG_REDUCE_OUT_BASE_ADDR = 4"
definition AXU_CFG_BATCH_SIZE :: u32 where [c_const]: "AXU_CFG_BATCH_SIZE = 5"
definition AXU_CFG_UNIT_SEL :: u32 where [c_const]: "AXU_CFG_UNIT_SEL = 6"
definition AXU_CFG_SFU_SEED_HIGH_BASE_ADDR :: u32 where [c_const]: "AXU_CFG_SFU_SEED_HIGH_BASE_ADDR = 7"
definition AXU_CFG_SFU_SEED_LOW_BASE_ADDR :: u32 where [c_const]: "AXU_CFG_SFU_SEED_LOW_BASE_ADDR = 8"
definition AXU_CFG_SFU_SEED_LOAD :: u32 where [c_const]: "AXU_CFG_SFU_SEED_LOAD = 9"
definition AXU_UNIT_VPU :: byte where [c_const]: "AXU_UNIT_VPU = 0"
definition AXU_UNIT_SFU :: byte where [c_const]: "AXU_UNIT_SFU = 1"
definition AXU_UNIT_NLI :: byte where [c_const]: "AXU_UNIT_NLI = 2"
definition AXU_UNIT_SCH :: byte where [c_const]: "AXU_UNIT_SCH = 3"
definition AXU_VPU_ADD :: byte where [c_const]: "AXU_VPU_ADD = 0"
definition AXU_VPU_SUB :: byte where [c_const]: "AXU_VPU_SUB = 1"
definition AXU_VPU_MUL :: byte where [c_const]: "AXU_VPU_MUL = 2"
definition AXU_VPU_MAX_EW :: byte where [c_const]: "AXU_VPU_MAX_EW = 3"
definition AXU_VPU_MIN_EW :: byte where [c_const]: "AXU_VPU_MIN_EW = 4"
definition AXU_VPU_REDUCE_MAX :: byte where [c_const]: "AXU_VPU_REDUCE_MAX = 5"
definition AXU_VPU_REDUCE_SUM :: byte where [c_const]: "AXU_VPU_REDUCE_SUM = 6"
definition AXU_SFU_CORDIC :: byte where [c_const]: "AXU_SFU_CORDIC = 0"
definition AXU_SFU_RNG :: byte where [c_const]: "AXU_SFU_RNG = 1"
definition AXU_SFU_ITP :: byte where [c_const]: "AXU_SFU_ITP = 2"
definition AXU_NLI_LOAD_MULT :: byte where [c_const]: "AXU_NLI_LOAD_MULT = 0"
definition AXU_NLI_LOAD_YBND :: byte where [c_const]: "AXU_NLI_LOAD_YBND = 1"
definition AXU_NLI_COMPUTE :: byte where [c_const]: "AXU_NLI_COMPUTE = 2"
definition AXU_SCH_RUN :: byte where [c_const]: "AXU_SCH_RUN = 0"
definition AXU_VPU_LANE_NUM :: u32 where [c_const]: "AXU_VPU_LANE_NUM = 64"
definition AXU_OTHER_LANE_NUM :: u32 where [c_const]: "AXU_OTHER_LANE_NUM = 32"
definition AXU_BUF_BANK_COUNT :: u32 where [c_const]: "AXU_BUF_BANK_COUNT = 8"
definition AXU_BUF_ROW_COUNT :: u32 where [c_const]: "AXU_BUF_ROW_COUNT = 256"
definition AXU_BUF_ROW_BYTES :: u32 where [c_const]: "AXU_BUF_ROW_BYTES = 16"
definition AXU_BUF_WORD_BYTES :: u32 where [c_const]: "AXU_BUF_WORD_BYTES = 8"
definition MY_AXU_PLIC_IRQ_SRC :: u32 where [c_const]: "MY_AXU_PLIC_IRQ_SRC = 1"
definition IRQn_MY_AXU :: u32 where [c_const]: "IRQn_MY_AXU = MY_AXU_PLIC_IRQ_SRC + 1"

definition MY_AXU_CFG_WRITE :: "u32 \<Rightarrow> u32 \<Rightarrow> u32" where
  "MY_AXU_CFG_WRITE a b = push_bit MY_AXU_CFG_ADDR_SHIFT (a AND 0xF) OR push_bit MY_AXU_CFG_DATA_SHIFT (b AND 0xFF)"

definition axu_buf_word_offset :: "u32 \<Rightarrow> u32 \<Rightarrow> u32 \<Rightarrow> u32" where
  "axu_buf_word_offset bank row half64 =
     push_bit 12 (bank AND 7) OR push_bit 4 (row AND 0xFF) OR push_bit 3 (half64 AND 1)"

text \<open>\<open>struct my_axu_regs\<close>: words in the order of the fields, one of them reserved.\<close>

definition axu_regs :: "addr list" where
  "axu_regs = [MY_AXU_REG_CTRL_OFF, MY_AXU_REG_STATUS_OFF, MY_AXU_REG_OPA_BUF_CTRL_OFF, MY_AXU_REG_OPB_BUF_CTRL_OFF,
     MY_AXU_REG_OUT_BUF_CTRL_OFF, 0x028, MY_AXU_REG_CFG_WRITE_OFF, MY_AXU_REG_IRQ_MASK_OFF, MY_AXU_REG_IRQ_STAT_OFF]"

lemma axu_regs_layout: "axu_regs = map (\<lambda>i. of_nat (8 * i)) [0..<9]"
  by (simp add: axu_regs_def c_const upt_rec)

section \<open>The driver\<close>

record my_axu_drv =
  ax_regs :: addr
  ax_opabuf :: addr
  ax_opbbuf :: addr
  ax_outbuf :: addr
  ax_bound :: bool

definition my_axu_bind :: "my_axu_drv \<Rightarrow> my_axu_drv" where
  "my_axu_bind x = x\<lparr>ax_bound := True\<rparr>"

definition my_axu_op_init :: "'d bus \<Rightarrow> addr \<Rightarrow> addr \<Rightarrow> addr \<Rightarrow> addr \<Rightarrow> my_axu_drv \<Rightarrow> 'd \<Rightarrow> my_axu_drv \<times> 'd" where
  "my_axu_op_init B r opabuf opbbuf outbuf x d =
     (let d = wr64 B (r + MY_AXU_REG_IRQ_MASK_OFF) 0 d;
          d = wr64 B (r + MY_AXU_REG_IRQ_STAT_OFF) 1 d;
          d = wr64 B (r + MY_AXU_REG_CTRL_OFF) (ucast MY_AXU_CTRL_CLR_DONE) d
      in (x\<lparr>ax_regs := r, ax_opabuf := opabuf, ax_opbbuf := opbbuf, ax_outbuf := outbuf\<rparr>, d))"

definition my_axu_op_write_cfg :: "'d bus \<Rightarrow> my_axu_drv \<Rightarrow> u32 \<Rightarrow> u32 \<Rightarrow> 'd \<Rightarrow> 'd" where
  "my_axu_op_write_cfg B x cfg_addr cfg_data d =
     wr64 B (ax_regs x + MY_AXU_REG_CFG_WRITE_OFF) (ucast (MY_AXU_CFG_WRITE cfg_addr cfg_data)) d"

definition my_axu_op_set_unit :: "'d bus \<Rightarrow> my_axu_drv \<Rightarrow> u32 \<Rightarrow> 'd \<Rightarrow> 'd" where
  "my_axu_op_set_unit B x v d = wr64 B (ax_regs x + MY_AXU_REG_CFG_WRITE_OFF) (ucast (MY_AXU_CFG_WRITE AXU_CFG_UNIT_SEL v)) d"

definition my_axu_op_set_func :: "'d bus \<Rightarrow> my_axu_drv \<Rightarrow> u32 \<Rightarrow> 'd \<Rightarrow> 'd" where
  "my_axu_op_set_func B x v d = wr64 B (ax_regs x + MY_AXU_REG_CFG_WRITE_OFF) (ucast (MY_AXU_CFG_WRITE AXU_CFG_FUNC_SEL v)) d"

definition my_axu_op_set_batch_size :: "'d bus \<Rightarrow> my_axu_drv \<Rightarrow> u32 \<Rightarrow> 'd \<Rightarrow> 'd" where
  "my_axu_op_set_batch_size B x v d = wr64 B (ax_regs x + MY_AXU_REG_CFG_WRITE_OFF) (ucast (MY_AXU_CFG_WRITE AXU_CFG_BATCH_SIZE v)) d"

definition my_axu_op_set_op_a_base :: "'d bus \<Rightarrow> my_axu_drv \<Rightarrow> u32 \<Rightarrow> 'd \<Rightarrow> 'd" where
  "my_axu_op_set_op_a_base B x v d = wr64 B (ax_regs x + MY_AXU_REG_CFG_WRITE_OFF) (ucast (MY_AXU_CFG_WRITE AXU_CFG_OP_A_BASE_ADDR v)) d"

definition my_axu_op_set_op_b_base :: "'d bus \<Rightarrow> my_axu_drv \<Rightarrow> u32 \<Rightarrow> 'd \<Rightarrow> 'd" where
  "my_axu_op_set_op_b_base B x v d = wr64 B (ax_regs x + MY_AXU_REG_CFG_WRITE_OFF) (ucast (MY_AXU_CFG_WRITE AXU_CFG_OP_B_BASE_ADDR v)) d"

definition my_axu_op_set_vec_out_base :: "'d bus \<Rightarrow> my_axu_drv \<Rightarrow> u32 \<Rightarrow> 'd \<Rightarrow> 'd" where
  "my_axu_op_set_vec_out_base B x v d = wr64 B (ax_regs x + MY_AXU_REG_CFG_WRITE_OFF) (ucast (MY_AXU_CFG_WRITE AXU_CFG_VEC_OUT_BASE_ADDR v)) d"

definition my_axu_op_set_reduce_out_base :: "'d bus \<Rightarrow> my_axu_drv \<Rightarrow> u32 \<Rightarrow> 'd \<Rightarrow> 'd" where
  "my_axu_op_set_reduce_out_base B x v d = wr64 B (ax_regs x + MY_AXU_REG_CFG_WRITE_OFF) (ucast (MY_AXU_CFG_WRITE AXU_CFG_REDUCE_OUT_BASE_ADDR v)) d"

definition my_axu_op_set_seed_high_base :: "'d bus \<Rightarrow> my_axu_drv \<Rightarrow> u32 \<Rightarrow> 'd \<Rightarrow> 'd" where
  "my_axu_op_set_seed_high_base B x v d = wr64 B (ax_regs x + MY_AXU_REG_CFG_WRITE_OFF) (ucast (MY_AXU_CFG_WRITE AXU_CFG_SFU_SEED_HIGH_BASE_ADDR v)) d"

definition my_axu_op_set_seed_low_base :: "'d bus \<Rightarrow> my_axu_drv \<Rightarrow> u32 \<Rightarrow> 'd \<Rightarrow> 'd" where
  "my_axu_op_set_seed_low_base B x v d = wr64 B (ax_regs x + MY_AXU_REG_CFG_WRITE_OFF) (ucast (MY_AXU_CFG_WRITE AXU_CFG_SFU_SEED_LOW_BASE_ADDR v)) d"

definition my_axu_op_load_seed :: "'d bus \<Rightarrow> my_axu_drv \<Rightarrow> 'd \<Rightarrow> 'd" where
  "my_axu_op_load_seed B x d = wr64 B (ax_regs x + MY_AXU_REG_CFG_WRITE_OFF) (ucast (MY_AXU_CFG_WRITE AXU_CFG_SFU_SEED_LOAD 1)) d"

text \<open>The value of a port register, the same for the three buffers.\<close>

definition axu_ports :: "u32 \<Rightarrow> u32 \<Rightarrow> u64" where
  "axu_ports rd_to_acc wr_to_acc =
     (let v = 0;
          v = (if rd_to_acc \<noteq> 0 then v OR MY_AXU_BUF_RD_AXU else v)
      in if wr_to_acc \<noteq> 0 then v OR MY_AXU_BUF_WR_AXU else v)"

definition my_axu_op_set_opa_ports :: "'d bus \<Rightarrow> my_axu_drv \<Rightarrow> u32 \<Rightarrow> u32 \<Rightarrow> 'd \<Rightarrow> 'd" where
  "my_axu_op_set_opa_ports B x rd wr d = wr64 B (ax_regs x + MY_AXU_REG_OPA_BUF_CTRL_OFF) (axu_ports rd wr) d"

definition my_axu_op_set_opb_ports :: "'d bus \<Rightarrow> my_axu_drv \<Rightarrow> u32 \<Rightarrow> u32 \<Rightarrow> 'd \<Rightarrow> 'd" where
  "my_axu_op_set_opb_ports B x rd wr d = wr64 B (ax_regs x + MY_AXU_REG_OPB_BUF_CTRL_OFF) (axu_ports rd wr) d"

definition my_axu_op_set_out_ports :: "'d bus \<Rightarrow> my_axu_drv \<Rightarrow> u32 \<Rightarrow> u32 \<Rightarrow> 'd \<Rightarrow> 'd" where
  "my_axu_op_set_out_ports B x rd wr d = wr64 B (ax_regs x + MY_AXU_REG_OUT_BUF_CTRL_OFF) (axu_ports rd wr) d"

definition my_axu_op_start :: "'d bus \<Rightarrow> my_axu_drv \<Rightarrow> 'd \<Rightarrow> 'd" where
  "my_axu_op_start B x d = wr64 B (ax_regs x + MY_AXU_REG_CTRL_OFF) (ucast MY_AXU_CTRL_START) d"

definition my_axu_op_read_status :: "'d bus \<Rightarrow> my_axu_drv \<Rightarrow> 'd \<Rightarrow> u64 \<times> 'd" where
  "my_axu_op_read_status B x d = rd64 B (ax_regs x + MY_AXU_REG_STATUS_OFF) d"

definition my_axu_op_busy :: "'d bus \<Rightarrow> my_axu_drv \<Rightarrow> 'd \<Rightarrow> bool \<times> 'd" where
  "my_axu_op_busy B x d = flag_step B (ax_regs x + MY_AXU_REG_STATUS_OFF) MY_AXU_STATUS_BUSY d"

definition my_axu_op_wait_done :: "'d bus \<Rightarrow> my_axu_drv \<Rightarrow> u64 \<Rightarrow> 'd \<Rightarrow> u32 \<times> 'd" where
  "my_axu_op_wait_done B x timeout d = poll_timeout (my_axu_op_busy B x) timeout d"

definition my_axu_op_clear_done :: "'d bus \<Rightarrow> my_axu_drv \<Rightarrow> 'd \<Rightarrow> 'd" where
  "my_axu_op_clear_done B x d =
     (let d = wr64 B (ax_regs x + MY_AXU_REG_IRQ_STAT_OFF) 1 d
      in wr64 B (ax_regs x + MY_AXU_REG_CTRL_OFF) (ucast MY_AXU_CTRL_CLR_DONE) d)"

section \<open>The unit\<close>

text \<open>The functions that the controller accepts; a start with another selection is ignored.\<close>

definition axu_supported :: "cfg \<Rightarrow> bool" where
  "axu_supported c =
     (let f = c 0; u = c 6
      in if u = AXU_UNIT_VPU then f \<le> AXU_VPU_REDUCE_SUM
         else if u = AXU_UNIT_SFU then take_bit 2 f = AXU_SFU_RNG \<or> take_bit 2 f = AXU_SFU_ITP
         else if u = AXU_UNIT_NLI then f \<le> AXU_NLI_COMPUTE
         else f = AXU_SCH_RUN)"

definition axu_ip :: "(nat \<Rightarrow> bool) \<Rightarrow> (bool \<Rightarrow> cfg \<Rightarrow> buf option \<Rightarrow> buf option \<Rightarrow> 'u \<Rightarrow> (nat \<Rightarrow> u64 option) \<times> 'u) \<Rightarrow> 'u tile_ip" where
  "axu_ip calc job =
     \<lparr>ti_bits = (\<lambda>i. if i = 0 then 3 else if i = 6 then 2 else if i < 9 then 8 else 0),
      ti_seed = (\<lambda>i b. i = 9 \<and> bit b 0), ti_ok = axu_supported, ti_calc = calc, ti_job = job\<rparr>"

section \<open>The driver on an idle unit\<close>

lemma axu_is_mxu:
  "MY_AXU_CFG_WRITE = MY_MXU_CFG_WRITE" "axu_buf_word_offset = mxu_buf_word_offset" "axu_regs = mxu_regs"
  by (simp_all add: fun_eq_iff MY_AXU_CFG_WRITE_def MY_MXU_CFG_WRITE_def axu_buf_word_offset_def mxu_buf_word_offset_def
      axu_regs_def mxu_regs_def c_const)

end
