(* ===== verification/Axu_Test.thy ===== *)
theory Axu_Test
  imports Axu Mxu_Test
begin

text \<open>
  The test program of the vector unit, \<open>software/app/my_axu_test/main.c\<close>: the list of cases of each
  build, one case (\<open>run_case\<close>), the comparison with the expected words and the summary. The tables
  and the row numbers of the generated \<open>input_data.h\<close> are a parameter, \<open>lit\<close> gives the addresses of
  the string constants that are printed with a format.
\<close>

section \<open>Cases\<close>

definition AXU_WAIT_TIMEOUT :: u64 where [c_const]: "AXU_WAIT_TIMEOUT = 5000000"
definition LANE_MASK_FULL64 :: byte where [c_const]: "LANE_MASK_FULL64 = 0xFF"
definition LANE_MASK_FIRST32 :: byte where [c_const]: "LANE_MASK_FIRST32 = 0x0F"
definition LANE_MASK_BANK0 :: byte where [c_const]: "LANE_MASK_BANK0 = 0x01"
definition CASE_NORMAL :: byte where [c_const]: "CASE_NORMAL = 0"
definition CASE_SEED_LOAD :: byte where [c_const]: "CASE_SEED_LOAD = 1"
definition CASE_LUT_LOAD :: byte where [c_const]: "CASE_LUT_LOAD = 2"

record axu_case =
  ca_name :: string
  ca_unit :: byte
  ca_func :: byte
  ca_opa_base :: byte
  ca_opb_base :: byte
  ca_vec_out_base :: byte
  ca_reduce_out_base :: byte
  ca_batch_size :: byte
  ca_out_row_start :: byte
  ca_out_row_count :: byte
  ca_bank_mask :: byte
  ca_special :: byte

record axu_data =
  xa_mode :: string
  xa_map_opa :: "nat \<Rightarrow> byte"
  xa_map_opb :: "nat \<Rightarrow> byte"
  xa_map_golden :: "nat \<Rightarrow> byte"
  xa_rows_opa :: u32
  xa_rows_opb :: u32
  xa_rows_golden :: u32
  xa_banks :: u32
  xa_op_a :: "nat \<Rightarrow> nat \<Rightarrow> nat \<Rightarrow> u64"
  xa_op_b :: "nat \<Rightarrow> nat \<Rightarrow> nat \<Rightarrow> u64"
  xa_golden :: "nat \<Rightarrow> nat \<Rightarrow> nat \<Rightarrow> u64"

datatype axu_test = Vpu_add | Vpu_sub | Vpu_mul | Vpu_max | Vpu_min | Vpu_reduce_max | Vpu_reduce_sum
  | Sfu_int2posit | Sfu_rng | Nli_mish | Nli_tanh | Scheduler

fun axu_cases :: "axu_data \<Rightarrow> axu_test \<Rightarrow> axu_case list" where
  "axu_cases c Vpu_add =
     [axu_case.make ''vpu_add'' AXU_UNIT_VPU AXU_VPU_ADD (xa_map_opa c 0) (xa_map_opb c 0) (xa_map_golden c 0) 0 10
        (xa_map_golden c 0) 10 LANE_MASK_FULL64 CASE_NORMAL]"
| "axu_cases c Vpu_sub =
     [axu_case.make ''vpu_sub'' AXU_UNIT_VPU AXU_VPU_SUB (xa_map_opa c 10) (xa_map_opb c 10) (xa_map_golden c 10) 0 10
        (xa_map_golden c 10) 10 LANE_MASK_FULL64 CASE_NORMAL]"
| "axu_cases c Vpu_mul =
     [axu_case.make ''vpu_mul'' AXU_UNIT_VPU AXU_VPU_MUL (xa_map_opa c 20) (xa_map_opb c 20) (xa_map_golden c 20) 0 10
        (xa_map_golden c 20) 10 LANE_MASK_FULL64 CASE_NORMAL]"
| "axu_cases c Vpu_max =
     [axu_case.make ''vpu_max'' AXU_UNIT_VPU AXU_VPU_MAX_EW (xa_map_opa c 30) (xa_map_opb c 30) (xa_map_golden c 30) 0 10
        (xa_map_golden c 30) 10 LANE_MASK_FULL64 CASE_NORMAL]"
| "axu_cases c Vpu_min =
     [axu_case.make ''vpu_min'' AXU_UNIT_VPU AXU_VPU_MIN_EW (xa_map_opa c 40) (xa_map_opb c 40) (xa_map_golden c 40) 0 10
        (xa_map_golden c 40) 10 LANE_MASK_FULL64 CASE_NORMAL]"
| "axu_cases c Vpu_reduce_max =
     [axu_case.make ''vpu_reduce_max'' AXU_UNIT_VPU AXU_VPU_REDUCE_MAX (xa_map_opa c 50) (xa_map_opb c 50) 0 (xa_map_golden c 50) 10
        (xa_map_golden c 50) 10 LANE_MASK_BANK0 CASE_NORMAL]"
| "axu_cases c Vpu_reduce_sum =
     [axu_case.make ''vpu_reduce_sum'' AXU_UNIT_VPU AXU_VPU_REDUCE_SUM (xa_map_opa c 60) (xa_map_opb c 60) 0 (xa_map_golden c 60) 10
        (xa_map_golden c 60) 10 LANE_MASK_BANK0 CASE_NORMAL]"
| "axu_cases c Sfu_int2posit =
     [axu_case.make ''sfu_int2posit'' AXU_UNIT_SFU AXU_SFU_ITP (xa_map_opa c 80) (xa_map_opb c 80) (xa_map_golden c 80) 0 10
        (xa_map_golden c 80) 10 LANE_MASK_FIRST32 CASE_NORMAL]"
| "axu_cases c Sfu_rng =
     [axu_case.make ''sfu_rng_seed'' AXU_UNIT_SFU 0 0 0 0 0 0 0 0 0 CASE_SEED_LOAD,
      axu_case.make ''sfu_rng'' AXU_UNIT_SFU AXU_SFU_RNG 0 0 (xa_map_golden c 90) 0 10
        (xa_map_golden c 90) 10 LANE_MASK_FULL64 CASE_NORMAL]"
| "axu_cases c Nli_mish =
     [axu_case.make ''nli_mish_mul'' AXU_UNIT_NLI AXU_NLI_LOAD_MULT (xa_map_opa c 90) 0 0 0 0 0 0 0 CASE_LUT_LOAD,
      axu_case.make ''nli_mish_ybnd'' AXU_UNIT_NLI AXU_NLI_LOAD_YBND (xa_map_opa c 91) 0 0 0 0 0 0 0 CASE_LUT_LOAD,
      axu_case.make ''nli_mish'' AXU_UNIT_NLI AXU_NLI_COMPUTE (xa_map_opa c 96) (xa_map_opb c 50) (xa_map_golden c 100) 0 32
        (xa_map_golden c 100) 32 LANE_MASK_FIRST32 CASE_NORMAL]"
| "axu_cases c Nli_tanh =
     [axu_case.make ''nli_tanh_mul'' AXU_UNIT_NLI AXU_NLI_LOAD_MULT (xa_map_opa c 128) 0 0 0 0 0 0 0 CASE_LUT_LOAD,
      axu_case.make ''nli_tanh_ybnd'' AXU_UNIT_NLI AXU_NLI_LOAD_YBND (xa_map_opa c 129) 0 0 0 0 0 0 0 CASE_LUT_LOAD,
      axu_case.make ''nli_tanh'' AXU_UNIT_NLI AXU_NLI_COMPUTE (xa_map_opa c 134) (xa_map_opb c 51) (xa_map_golden c 132) 0 32
        (xa_map_golden c 132) 32 LANE_MASK_FIRST32 CASE_NORMAL]"
| "axu_cases c Scheduler =
     [axu_case.make ''scheduler'' AXU_UNIT_SCH AXU_SCH_RUN (xa_map_opa c 166) 0 (xa_map_golden c 164) 0 0
        (xa_map_golden c 164) 29 LANE_MASK_BANK0 CASE_NORMAL]"

definition SFU_SEED_HIGH_ROW :: "axu_data \<Rightarrow> axu_test \<Rightarrow> u32" where
  "SFU_SEED_HIGH_ROW c t = (if t = Sfu_rng then ucast (xa_map_opa c 48) else 48)"

definition SFU_SEED_LOW_ROW :: "axu_data \<Rightarrow> axu_test \<Rightarrow> u32" where
  "SFU_SEED_LOW_ROW c t = (if t = Sfu_rng then ucast (xa_map_opa c 49) else 49)"

section \<open>The program\<close>

definition axu_buf64 :: "addr \<Rightarrow> u32 \<Rightarrow> u32 \<Rightarrow> u32 \<Rightarrow> addr" where
  "axu_buf64 buf bank row half64 = buf + ucast (axu_buf_word_offset bank row half64)"

definition axu_fill :: "'d bus \<Rightarrow> addr \<Rightarrow> (nat \<Rightarrow> nat \<Rightarrow> nat \<Rightarrow> u64) \<Rightarrow> nat \<Rightarrow> nat \<Rightarrow> 'd \<Rightarrow> 'd" where
  "axu_fill B buf data r b d =
     (let d = wr64 B (axu_buf64 buf (of_nat b) (of_nat r) 0) (data r b 0) d
      in wr64 B (axu_buf64 buf (of_nat b) (of_nat r) 1) (data r b 1) d)"

definition write_all_input_buffers :: "'d bus \<Rightarrow> my_axu_drv \<Rightarrow> axu_data \<Rightarrow> 'd \<Rightarrow> 'd" where
  "write_all_input_buffers B x c d =
     (let d = buf_loop (unat (xa_rows_opa c)) (unat (xa_banks c)) (axu_fill B (ax_opabuf x) (xa_op_a c)) d
      in buf_loop (unat (xa_rows_opb c)) (unat (xa_banks c)) (axu_fill B (ax_opbbuf x) (xa_op_b c)) d)"

definition axu_word :: "'d bus \<Rightarrow> addr \<Rightarrow> u32 \<Rightarrow> u32 \<Rightarrow> 'd \<Rightarrow> (u64 \<times> u64) \<times> 'd" where
  "axu_word B buf bank row d =
     (let (lo, d) = rd64 B (axu_buf64 buf bank row 0) d;
          (hi, d) = rd64 B (axu_buf64 buf bank row 1) d
      in ((lo, hi), d))"

text \<open>The banks of a row, then the rows of a case.\<close>

fun compare_banks :: "'d bus \<Rightarrow> my_axu_drv \<Rightarrow> mem \<Rightarrow> (string \<Rightarrow> addr) \<Rightarrow> axu_data \<Rightarrow> axu_case \<Rightarrow> u32 \<Rightarrow> nat list \<Rightarrow>
    'd app \<Rightarrow> (u32 \<times> 'd app) option" where
  "compare_banks B x m lit c k row [] s = Some (0, s)"
| "compare_banks B x m lit c k row (b # bs) s =
     (if drop_bit b (ca_bank_mask k) AND 1 = 0 then compare_banks B x m lit c k row bs s
      else let ((lo, hi), s) = from_dev (axu_word B (ax_outbuf x) (of_nat b) row) s;
               elo = xa_golden c (unat row) b 0; ehi = xa_golden c (unat row) b 1
           in if lo \<noteq> elo \<or> hi \<noteq> ehi
              then map_option (Pair (- 1))
                     (say m ''AXU_MISMATCH case=%s row=0x%02x bank=%u actual=0x%016lx_%016lx expected=0x%016lx_%016lx\<newline>''
                        [lit (ca_name k), ucast row, of_nat b, hi, lo, ehi, elo] s)
              else compare_banks B x m lit c k row bs s)"

fun compare_rows :: "'d bus \<Rightarrow> my_axu_drv \<Rightarrow> mem \<Rightarrow> (string \<Rightarrow> addr) \<Rightarrow> axu_data \<Rightarrow> axu_case \<Rightarrow> nat list \<Rightarrow>
    'd app \<Rightarrow> (u32 \<times> 'd app) option" where
  "compare_rows B x m lit c k [] s = Some (0, s)"
| "compare_rows B x m lit c k (r # rs) s =
     (let row = ucast (ca_out_row_start k) + of_nat r
      in if xa_rows_golden c \<le> row
         then map_option (Pair (- 1))
                (say m ''ERROR: golden_row %u out of bounds (max %u)\<newline>'' [ucast row, ucast (xa_rows_golden c)] s)
         else Option.bind (compare_banks B x m lit c k row [0..<unat (xa_banks c)] s)
                (\<lambda>(r', s). if r' \<noteq> 0 then Some (r', s) else compare_rows B x m lit c k rs s))"

definition compare_output_range :: "'d bus \<Rightarrow> my_axu_drv \<Rightarrow> mem \<Rightarrow> (string \<Rightarrow> addr) \<Rightarrow> axu_data \<Rightarrow> axu_case \<Rightarrow>
    'd app \<Rightarrow> (u32 \<times> 'd app) option" where
  "compare_output_range B x m lit c k s = compare_rows B x m lit c k [0..<unat (ca_out_row_count k)] s"

definition axu_set_ports :: "'d bus \<Rightarrow> my_axu_drv \<Rightarrow> u32 \<Rightarrow> u32 \<Rightarrow> 'd \<Rightarrow> 'd" where
  "axu_set_ports B x inrd outwr d =
     (let d = my_axu_op_set_opa_ports B x inrd 0 d;
          d = my_axu_op_set_opb_ports B x inrd 0 d
      in my_axu_op_set_out_ports B x 0 outwr d)"

definition axu_timeout :: "'d bus \<Rightarrow> my_axu_drv \<Rightarrow> mem \<Rightarrow> (string \<Rightarrow> addr) \<Rightarrow> axu_case \<Rightarrow> 'd app \<Rightarrow> (u32 \<times> 'd app) option" where
  "axu_timeout B x m lit k s =
     (let (status, s) = from_dev (my_axu_op_read_status B x) s
      in map_option (Pair (- 1)) (say m ''AXU_TIMEOUT case=%s status=0x%lx\<newline>'' [lit (ca_name k), status] s))"

definition seed_case :: "'d bus \<Rightarrow> my_axu_drv \<Rightarrow> mem \<Rightarrow> (string \<Rightarrow> addr) \<Rightarrow> u32 \<Rightarrow> u32 \<Rightarrow> axu_case \<Rightarrow> 'd app \<Rightarrow>
    (u32 \<times> 'd app) option" where
  "seed_case B x m lit hi_row lo_row k s =
     (let s = on_dev (my_axu_op_set_seed_high_base B x hi_row) s;
          s = on_dev (my_axu_op_set_seed_low_base B x lo_row) s;
          s = on_dev (axu_set_ports B x 1 0) s;
          s = on_dev (my_axu_op_load_seed B x) s;
          (r, s) = from_dev (my_axu_op_wait_done B x AXU_WAIT_TIMEOUT) s
      in if r \<noteq> 0 then axu_timeout B x m lit k s
         else Some (0, on_dev (axu_set_ports B x 0 0) s))"

definition program_case :: "'d bus \<Rightarrow> my_axu_drv \<Rightarrow> axu_case \<Rightarrow> 'd \<Rightarrow> 'd" where
  "program_case B x k d =
     (let d = my_axu_op_set_unit B x (ucast (ca_unit k)) d;
          d = my_axu_op_set_func B x (ucast (ca_func k)) d;
          d = my_axu_op_set_op_a_base B x (ucast (ca_opa_base k)) d;
          d = my_axu_op_set_op_b_base B x (ucast (ca_opb_base k)) d;
          d = my_axu_op_set_vec_out_base B x (ucast (ca_vec_out_base k)) d;
          d = my_axu_op_set_reduce_out_base B x (ucast (ca_reduce_out_base k)) d
      in my_axu_op_set_batch_size B x (ucast (ca_batch_size k)) d)"

definition run_case :: "'d bus \<Rightarrow> my_axu_drv \<Rightarrow> mem \<Rightarrow> (string \<Rightarrow> addr) \<Rightarrow> u32 \<Rightarrow> u32 \<Rightarrow> axu_case \<Rightarrow> 'd app \<Rightarrow>
    (u32 \<times> 'd app) option" where
  "run_case B x m lit hi_row lo_row k s =
     (let s = on_dev (my_axu_op_clear_done B x) s
      in if ca_special k = CASE_SEED_LOAD then seed_case B x m lit hi_row lo_row k s
         else let s = on_dev (program_case B x k) s;
                  s = on_dev (axu_set_ports B x 1 (if ca_special k = CASE_LUT_LOAD then 0 else 1)) s;
                  s = on_dev (my_axu_op_start B x) s;
                  (r, s) = from_dev (my_axu_op_wait_done B x AXU_WAIT_TIMEOUT) s
              in if r \<noteq> 0 then axu_timeout B x m lit k s
                 else let (status, s) = from_dev (my_axu_op_read_status B x) s
                      in if status AND MY_AXU_STATUS_DONE = 0
                         then map_option (Pair (- 1))
                                (say m ''AXU_NO_DONE case=%s status=0x%lx\<newline>'' [lit (ca_name k), status] s)
                         else Some (0, on_dev (axu_set_ports B x 0 0) s))"

text \<open>The loop over the cases, with the numbers of passed and failed ones.\<close>

fun run_cases :: "'d bus \<Rightarrow> my_axu_drv \<Rightarrow> mem \<Rightarrow> (string \<Rightarrow> addr) \<Rightarrow> axu_data \<Rightarrow> axu_test \<Rightarrow> axu_case list \<Rightarrow> u32 \<Rightarrow> u32 \<Rightarrow>
    'd app \<Rightarrow> (u32 \<times> u32 \<times> 'd app) option" where
  "run_cases B x m lit c t [] pass fl s = Some (pass, fl, s)"
| "run_cases B x m lit c t (k # ks) pass fl s =
     Option.bind (run_case B x m lit (SFU_SEED_HIGH_ROW c t) (SFU_SEED_LOW_ROW c t) k s) (\<lambda>(rc, s).
       if rc \<noteq> 0
       then Option.bind (say m ''AXU_CASE name=%s result=FAIL (hw error)\<newline>'' [lit (ca_name k)] s)
              (run_cases B x m lit c t ks pass (fl + 1))
       else if ca_special k = CASE_SEED_LOAD \<or> ca_special k = CASE_LUT_LOAD
       then Option.bind (say m ''AXU_CASE name=%s result=PASS (no compare)\<newline>'' [lit (ca_name k)] s)
              (run_cases B x m lit c t ks (pass + 1) fl)
       else Option.bind (compare_output_range B x m lit c k s) (\<lambda>(r, s).
              if r \<noteq> 0
              then Option.bind (say m ''AXU_CASE name=%s result=FAIL\<newline>'' [lit (ca_name k)] s)
                     (run_cases B x m lit c t ks pass (fl + 1))
              else Option.bind (say m ''AXU_CASE name=%s result=PASS\<newline>'' [lit (ca_name k)] s)
                     (run_cases B x m lit c t ks (pass + 1) fl)))"

definition my_axu_test_main :: "'d bus \<Rightarrow> my_axu_drv \<Rightarrow> mem \<Rightarrow> (string \<Rightarrow> addr) \<Rightarrow> axu_data \<Rightarrow> axu_test \<Rightarrow> 'd app \<Rightarrow>
    (u32 \<times> 'd app) option" where
  "my_axu_test_main B my_axu0 m lit c t s =
     Option.bind (say m ''AXU_SOC_TEST_BEGIN\<newline>'' [] s) (\<lambda>s.
     Option.bind (say m ''AXU_MODE %s\<newline>'' [lit (xa_mode c)] s) (\<lambda>s.
       let (x, s) = from_dev (my_axu_op_init B MY_AXU_CFG_BASE MY_AXU_OPA_BASE MY_AXU_OPB_BASE MY_AXU_OUT_BASE (my_axu_bind my_axu0)) s;
           s = on_dev (axu_set_ports B x 0 0) s;
           s = on_dev (write_all_input_buffers B x c) s
       in Option.bind (run_cases B x m lit c t (axu_cases c t) 0 0 s) (\<lambda>(pass, fl, s).
          Option.bind (say m ''AXU_SUMMARY total=%u pass=%u fail=%u\<newline>''
              [of_nat (length (axu_cases c t)), ucast pass, ucast fl] s) (\<lambda>s.
          Option.bind (say m (if fl = 0 then ''AXU_PASS\<newline>'' else ''AXU_FAIL\<newline>'') [] s) (\<lambda>s.
          map_option (Pair (if fl = 0 then 0 else 1)) (say m ''AXU_SOC_TEST_END\<newline>'' [] s))))))"

section \<open>One case on an idle unit\<close>

lemma axu_reg_write:
  assumes "ax_regs x = MY_AXU_CFG_BASE"
  shows "wr64 (tile_bus ip lat) (ax_regs x + MY_AXU_REG_CTRL_OFF) v d = tile_tick ip (tile_ctrl ip lat v d)"
    "wr64 (tile_bus ip lat) (ax_regs x + MY_AXU_REG_CFG_WRITE_OFF) v d = tile_tick ip (tile_cfg_write ip lat v d)"
    "wr64 (tile_bus ip lat) (ax_regs x + MY_AXU_REG_OPA_BUF_CTRL_OFF) v d = tile_tick ip (set_ports 0 (bit v 0) (bit v 1) d)"
    "wr64 (tile_bus ip lat) (ax_regs x + MY_AXU_REG_OPB_BUF_CTRL_OFF) v d = tile_tick ip (set_ports 1 (bit v 0) (bit v 1) d)"
    "wr64 (tile_bus ip lat) (ax_regs x + MY_AXU_REG_OUT_BUF_CTRL_OFF) v d = tile_tick ip (set_ports 2 (bit v 0) (bit v 1) d)"
    "wr64 (tile_bus ip lat) (ax_regs x + MY_AXU_REG_IRQ_STAT_OFF) v d = tile_tick ip (if bit v 0 then d\<lparr>tl_irq_status := False\<rparr> else d)"
  by (simp_all add: assms dev_simps tile_wr_def tile_reg_wr_def c_const window_def Let_def set_ports_def)

lemma set_ports_simps [simp]:
  "tl_busy (set_ports i r w d) = tl_busy d" "tl_buf (set_ports i r w d) = tl_buf d" "tl_cfg (set_ports i r w d) = tl_cfg d"
  "tl_unit (set_ports i r w d) = tl_unit d" "tl_runs (set_ports i r w d) = tl_runs d" "tl_done (set_ports i r w d) = tl_done d"
  by (simp_all add: set_ports_def)

lemma axu_ports_bits: "bit (axu_ports rd wr) 0 = (rd \<noteq> 0)" "bit (axu_ports rd wr) (Suc 0) = (wr \<noteq> 0)"
  by (simp_all add: axu_ports_def c_const bit_simps)

definition case_ports :: "bool \<Rightarrow> bool \<Rightarrow> 'u tile_dev \<Rightarrow> 'u tile_dev" where
  "case_ports i o' d = set_ports 2 False o' (set_ports 1 i False (set_ports 0 i False d))"

lemma axu_ports_idle:
  assumes "ax_regs x = MY_AXU_CFG_BASE" and "\<not> tl_busy d"
  shows "axu_set_ports (tile_bus ip lat) x inrd outwr d = case_ports (inrd \<noteq> 0) (outwr \<noteq> 0) d"
  using assms(2)
  by (simp add: axu_set_ports_def my_axu_op_set_opa_ports_def my_axu_op_set_opb_ports_def my_axu_op_set_out_ports_def
      axu_reg_write [OF assms(1)] axu_ports_bits case_ports_def Let_def)

lemma axu_cfg_idle:
  assumes "ax_regs x = MY_AXU_CFG_BASE" and "\<not> tl_busy d" and "unat a < 9"
  shows "wr64 (tile_bus (axu_ip calc job) lat) (ax_regs x + MY_AXU_REG_CFG_WRITE_OFF) (ucast (MY_AXU_CFG_WRITE a v)) d =
    cfg_put (axu_ip calc job) a v d"
proof -
  have "unat (take_bit 4 (ucast a :: u64)) = unat a"
    using assms(3) by (simp add: unsigned_take_bit_eq unsigned_ucast_eq take_bit_nat_eq_self)
  then show ?thesis using assms(2,3)
    by (simp add: axu_reg_write [OF assms(1)] tile_cfg_write_def axu_is_mxu cfg_write_fields axu_ip_def cfg_put_def Let_def)
qed

definition case_cfg :: "axu_case \<Rightarrow> cfg \<Rightarrow> cfg" where
  "case_cfg k f = f(6 := take_bit 2 (ca_unit k), 0 := take_bit 3 (ca_func k), 1 := ca_opa_base k, 2 := ca_opb_base k,
     3 := ca_vec_out_base k, 4 := ca_reduce_out_base k, 5 := ca_batch_size k)"

lemma ucast_byte32 [simp]: "(ucast (ucast (v :: byte) :: u32) :: byte) = v"
  by (rule bit_word_eqI) (auto simp: bit_simps)

lemma program_case_idle:
  assumes "ax_regs x = MY_AXU_CFG_BASE" and "\<not> tl_busy d"
  shows "program_case (tile_bus (axu_ip calc job) lat) x k d = d\<lparr>tl_cfg := case_cfg k (tl_cfg d)\<rparr>"
proof -
  let ?i = "axu_ip calc job"
  have "program_case (tile_bus ?i lat) x k d = fold (\<lambda>(a, v). cfg_put ?i a v)
      [(6, ucast (ca_unit k)), (0, ucast (ca_func k)), (1, ucast (ca_opa_base k)), (2, ucast (ca_opb_base k)),
       (3, ucast (ca_vec_out_base k)), (4, ucast (ca_reduce_out_base k)), (5, ucast (ca_batch_size k))] d"
    unfolding program_case_def my_axu_op_set_unit_def my_axu_op_set_func_def my_axu_op_set_op_a_base_def
      my_axu_op_set_op_b_base_def my_axu_op_set_vec_out_base_def my_axu_op_set_reduce_out_base_def
      my_axu_op_set_batch_size_def
    using assms(2) by (simp add: axu_cfg_idle [OF assms(1)] AXU_CFG_UNIT_SEL_def AXU_CFG_FUNC_SEL_def AXU_CFG_OP_A_BASE_ADDR_def
      AXU_CFG_OP_B_BASE_ADDR_def AXU_CFG_VEC_OUT_BASE_ADDR_def AXU_CFG_REDUCE_OUT_BASE_ADDR_def AXU_CFG_BATCH_SIZE_def Let_def)
  moreover have "fold (\<lambda>(a, v). cfg_put ?i a v)
      [(6, ucast (ca_unit k)), (0, ucast (ca_func k)), (1, ucast (ca_opa_base k)), (2, ucast (ca_opb_base k)),
       (3, ucast (ca_vec_out_base k)), (4, ucast (ca_reduce_out_base k)), (5, ucast (ca_batch_size k))] (d\<lparr>tl_cfg := f\<rparr>) =
      d\<lparr>tl_cfg := case_cfg k f\<rparr>" for f
    by (simp add: cfg_put_upd axu_ip_def case_cfg_def take_bit_word_eq_self del: fun_upd_apply)
  from this [of "tl_cfg d"] have "fold (\<lambda>(a, v). cfg_put ?i a v)
      [(6, ucast (ca_unit k)), (0, ucast (ca_func k)), (1, ucast (ca_opa_base k)), (2, ucast (ca_opb_base k)),
       (3, ucast (ca_vec_out_base k)), (4, ucast (ca_reduce_out_base k)), (5, ucast (ca_batch_size k))] d =
      d\<lparr>tl_cfg := case_cfg k (tl_cfg d)\<rparr>" by simp
  ultimately show ?thesis by simp
qed

lemma axu_busy_step:
  assumes "ax_regs x = MY_AXU_CFG_BASE"
  shows "my_axu_op_busy B x = flag_step B (MY_AXU_CFG_BASE + MY_AXU_REG_STATUS_OFF) 1"
    "status_at (MY_AXU_CFG_BASE + MY_AXU_REG_STATUS_OFF)"
  by (simp_all add: fun_eq_iff my_axu_op_busy_def assms MY_AXU_STATUS_BUSY_def) (simp add: status_at_def c_const window_def)

lemma axu_status_idle:
  assumes "ax_regs x = MY_AXU_CFG_BASE" and "\<not> tl_busy d"
  shows "my_axu_op_read_status (tile_bus ip lat) x d = (push_bit 1 (of_bool (tl_done d)), d)"
  using assms(2) axu_busy_step(2) [OF assms(1)]
  by (simp add: my_axu_op_read_status_def assms(1) dev_simps tile_rd_def tile_reg_rd_def status_at_def tile_status_def)

text \<open>The words of the output buffer after a job.\<close>

definition axu_output :: "(bool \<Rightarrow> cfg \<Rightarrow> buf option \<Rightarrow> buf option \<Rightarrow> 'u \<Rightarrow> (nat \<Rightarrow> u64 option) \<times> 'u) \<Rightarrow>
    cfg \<Rightarrow> 'u tile_dev \<Rightarrow> buf" where
  "axu_output job cf d =
     (\<lambda>i. case fst (job False cf (Some (tl_buf d 0)) (Some (tl_buf d 1)) (tl_unit d)) i of None \<Rightarrow> tl_buf d 2 i | Some v \<Rightarrow> v)"

lemma no_done_text: "cstr_at m p cs \<Longrightarrow> \<exists>t. text_of m ''AXU_NO_DONE case=%s status=0x%lx\<newline>'' [p, a] = Some t"
  by (simp add: text_of_def parse_spec_def parse_width_def parse_precision_def parse_length_def cur_def is_digit_def
    conv_acts_def int_specs_def str_text_def str_chars_cstr Let_def)

section \<open>Property\<close>

lemma axu_clear_idle:
  assumes "ax_regs x = MY_AXU_CFG_BASE" and "\<not> tl_busy d"
  shows "my_axu_op_clear_done (tile_bus ip lat) x d = d\<lparr>tl_done := False, tl_irq_status := False\<rparr>"
  using assms(2) by (simp add: my_axu_op_clear_done_def axu_reg_write [OF assms(1)] tile_ctrl_def MY_AXU_CTRL_CLR_DONE_def bit_simps Let_def)

lemma axu_start_idle:
  assumes "ax_regs x = MY_AXU_CFG_BASE" and "\<not> tl_busy d"
  shows "my_axu_op_start (tile_bus ip lat) x d =
    tile_tick ip (let d = d\<lparr>tl_done := False, tl_irq_status := False\<rparr> in if ti_ok ip (tl_cfg d) then tile_begin lat False d else d)"
  using assms(2) by (simp add: my_axu_op_start_def axu_reg_write [OF assms(1)] tile_ctrl_def MY_AXU_CTRL_START_def Let_def)

lemma axu_wait_step: "ax_regs x = MY_AXU_CFG_BASE \<Longrightarrow>
  my_axu_op_wait_done B x n = poll_timeout (flag_step B (MY_AXU_CFG_BASE + MY_AXU_REG_STATUS_OFF) 1) n"
  by (simp add: fun_eq_iff my_axu_op_wait_done_def axu_busy_step(1))


definition demo_case :: "byte \<Rightarrow> byte \<Rightarrow> axu_case" where
  "demo_case u f = axu_case.make ''demo'' u f 0 0 0 0 10 0 10 LANE_MASK_FULL64 CASE_NORMAL"

definition demo_axu :: my_axu_drv where
  "demo_axu = \<lparr>ax_regs = MY_AXU_CFG_BASE, ax_opabuf = 0, ax_opbbuf = 0, ax_outbuf = 0, ax_bound = True\<rparr>"

definition demo_unit :: "unit tile_ip" where
  "demo_unit = axu_ip (\<lambda>_. False) (\<lambda>_ _ _ _ u. (\<lambda>_. Some 9, u))"


end
