(* ===== verification/Vector.thy ===== *)
theory Vector
  imports Cmem
begin

text \<open>
  The vector unit on which the kernels of \<open>software/app\<close> run, as far as their inline assembly uses
  it: the instructions of the RISC-V vector extension on groups of registers, at one element width
  \<open>'w\<close>. The unit itself is not part of the repository; what the standard leaves to it is the record
  \<open>vunit\<close>: the length of a register, the vector length \<open>vsetvli\<close> grants (within the limits that
  \<open>rvv_set\<close> states), what it leaves in the elements beyond the vector length (all kernels run tail
  agnostic). The floating-point operations, or the integer ones, are the record \<open>eops\<close>. A group of
  registers is named by its first register; the groups a kernel names do not overlap.
\<close>

section \<open>The unit\<close>

record 'e vunit =
  vu_vlen :: nat
  vu_set :: "nat \<Rightarrow> nat \<Rightarrow> nat"
  vu_tail :: "nat \<Rightarrow> 'e \<Rightarrow> 'e"

text \<open>The vector lengths that the standard allows for a maximum and an application vector length.\<close>

definition rvv_set :: "(nat \<Rightarrow> nat \<Rightarrow> nat) \<Rightarrow> bool" where
  "rvv_set f \<longleftrightarrow> (\<forall>vlmax avl. (avl \<le> vlmax \<longrightarrow> f vlmax avl = avl) \<and> (2 * vlmax \<le> avl \<longrightarrow> f vlmax avl = vlmax) \<and>
     (vlmax < avl \<longrightarrow> avl < 2 * vlmax \<longrightarrow> (avl + 1) div 2 \<le> f vlmax avl \<and> f vlmax avl \<le> vlmax))"

record 'e eops =
  eo_mul :: "'e \<Rightarrow> 'e \<Rightarrow> 'e"
  eo_macc :: "'e \<Rightarrow> 'e \<Rightarrow> 'e \<Rightarrow> 'e"
  eo_red :: "'e \<Rightarrow> 'e list \<Rightarrow> 'e"

definition int_ops :: "('w :: len) word eops" where
  "int_ops = \<lparr>eo_mul = (\<lambda>x y. x * y), eo_macc = (\<lambda>acc x y. x * y + acc), eo_red = (\<lambda>x ys. x + sum_list ys)\<rparr>"

record 'e vregs =
  v_reg :: "nat \<Rightarrow> nat \<Rightarrow> 'e"
  v_vl :: nat

section \<open>Instructions\<close>

definition vlmax :: "('w :: len) word vunit \<Rightarrow> nat \<Rightarrow> nat" where
  "vlmax U lmul = lmul * vu_vlen U div LENGTH('w)"

definition vsetvli :: "('w :: len) word vunit \<Rightarrow> nat \<Rightarrow> u64 \<Rightarrow> 'w word vregs \<Rightarrow> u64 \<times> 'w word vregs" where
  "vsetvli U lmul avl s = (let vl = vu_set U (vlmax U lmul) (unat avl) in (of_nat vl, s\<lparr>v_vl := vl\<rparr>))"

text \<open>The elements below the vector length get new values, the others are the tail.\<close>

definition v_write :: "('w :: len) word vunit \<Rightarrow> nat \<Rightarrow> (nat \<Rightarrow> 'w word) \<Rightarrow> 'w word vregs \<Rightarrow> 'w word vregs" where
  "v_write U vd f s =
     s\<lparr>v_reg := (v_reg s)(vd := (\<lambda>i. if i < v_vl s then f i else vu_tail U i (v_reg s vd i)))\<rparr>"

text \<open>Element 0 alone gets a new value, if the vector length is not 0.\<close>

definition v_write0 :: "('w :: len) word vunit \<Rightarrow> nat \<Rightarrow> 'w word \<Rightarrow> 'w word vregs \<Rightarrow> 'w word vregs" where
  "v_write0 U vd x s =
     (if v_vl s = 0 then s
      else s\<lparr>v_reg := (v_reg s)(vd := (\<lambda>i. if i = 0 then x else vu_tail U i (v_reg s vd i)))\<rparr>)"

text \<open>An element in memory, little-endian.\<close>

definition esize :: "('w :: len) itself \<Rightarrow> nat" where
  "esize w = LENGTH('w) div 8"

definition load_elem :: "mem \<Rightarrow> addr \<Rightarrow> ('w :: len) word" where
  "load_elem m a = foldr (\<lambda>i w. ucast (m (a + of_nat i)) OR push_bit 8 w) [0..<esize TYPE('w)] 0"

definition vle :: "('w :: len) word vunit \<Rightarrow> nat \<Rightarrow> mem \<Rightarrow> addr \<Rightarrow> 'w word vregs \<Rightarrow> 'w word vregs" where
  "vle U vd m a s = v_write U vd (\<lambda>i. load_elem m (a + of_nat (i * esize TYPE('w)))) s"

definition vmv_s_x :: "('w :: len) word vunit \<Rightarrow> nat \<Rightarrow> 'w word \<Rightarrow> 'w word vregs \<Rightarrow> 'w word vregs" where
  "vmv_s_x U vd x s = v_write0 U vd x s"

definition vmv_x_s :: "nat \<Rightarrow> ('w :: len) word vregs \<Rightarrow> 'w word" where
  "vmv_x_s vs s = v_reg s vs 0"

definition vmul_vv :: "'w word eops \<Rightarrow> ('w :: len) word vunit \<Rightarrow> nat \<Rightarrow> nat \<Rightarrow> nat \<Rightarrow> 'w word vregs \<Rightarrow> 'w word vregs" where
  "vmul_vv E U vd vs2 vs1 s = v_write U vd (\<lambda>i. eo_mul E (v_reg s vs2 i) (v_reg s vs1 i)) s"

definition vmacc_vv :: "'w word eops \<Rightarrow> ('w :: len) word vunit \<Rightarrow> nat \<Rightarrow> nat \<Rightarrow> nat \<Rightarrow> 'w word vregs \<Rightarrow> 'w word vregs" where
  "vmacc_vv E U vd vs1 vs2 s = v_write U vd (\<lambda>i. eo_macc E (v_reg s vd i) (v_reg s vs1 i) (v_reg s vs2 i)) s"

definition vredsum_vs :: "'w word eops \<Rightarrow> ('w :: len) word vunit \<Rightarrow> nat \<Rightarrow> nat \<Rightarrow> nat \<Rightarrow> 'w word vregs \<Rightarrow> 'w word vregs" where
  "vredsum_vs E U vd vs2 vs1 s = v_write0 U vd (eo_red E (v_reg s vs1 0) (map (v_reg s vs2) [0..<v_vl s])) s"

section \<open>Facts\<close>

lemma v_write_reg [simp]:
  "v_reg (v_write U vd f s) vd i = (if i < v_vl s then f i else vu_tail U i (v_reg s vd i))"
  "vs \<noteq> vd \<Longrightarrow> v_reg (v_write U vd f s) vs = v_reg s vs"
  "v_vl (v_write U vd f s) = v_vl s"
  by (simp_all add: v_write_def)

lemma v_write0_reg [simp]:
  "0 < v_vl s \<Longrightarrow> v_reg (v_write0 U vd x s) vd 0 = x"
  "vs \<noteq> vd \<Longrightarrow> v_reg (v_write0 U vd x s) vs = v_reg s vs"
  "v_vl (v_write0 U vd x s) = v_vl s"
  by (simp_all add: v_write0_def)

lemma vle_vl [simp]: "v_vl (vle U vd m a s) = v_vl s"
  by (simp add: vle_def)

lemma vle_reg [simp]:
  "i < v_vl s \<Longrightarrow> v_reg (vle U vd m a (s :: ('w :: len) word vregs)) vd i = load_elem m (a + of_nat (i * esize TYPE('w)))"
  "vs \<noteq> vd \<Longrightarrow> v_reg (vle U vd m a s) vs = v_reg s vs"
  by (simp_all add: vle_def)

lemma rvv_set_small: "rvv_set f \<Longrightarrow> avl \<le> n \<Longrightarrow> f n avl = avl"
  and rvv_set_large: "rvv_set f \<Longrightarrow> 2 * n \<le> avl \<Longrightarrow> f n avl = n"
  by (auto simp: rvv_set_def)

lemma rvv_set_bounds:
  assumes "rvv_set f"
  shows "f n avl \<le> avl" and "f n avl \<le> n" and "0 < n \<Longrightarrow> 0 < avl \<Longrightarrow> 0 < f n avl"
proof -
  have "avl \<le> n \<or> 2 * n \<le> avl \<or> n < avl \<and> avl < 2 * n" by linarith
  then have "f n avl \<le> avl \<and> f n avl \<le> n \<and> (0 < n \<longrightarrow> 0 < avl \<longrightarrow> 0 < f n avl)"
  proof (elim disjE conjE)
    assume "avl \<le> n"
    then show ?thesis using rvv_set_small [OF assms, of avl n] by simp
  next
    assume "2 * n \<le> avl"
    then show ?thesis using rvv_set_large [OF assms, of n avl] by simp
  next
    assume h: "n < avl" "avl < 2 * n"
    then have "(avl + 1) div 2 \<le> f n avl" "f n avl \<le> n" using assms unfolding rvv_set_def by blast+
    then show ?thesis using h by linarith
  qed
  then show "f n avl \<le> avl" "f n avl \<le> n" "0 < n \<Longrightarrow> 0 < avl \<Longrightarrow> 0 < f n avl" by auto
qed

text \<open>A multiple of the maximum is granted the maximum.\<close>

lemma rvv_set_multiple:
  assumes "rvv_set f" and "n dvd avl" and "0 < avl"
  shows "f n avl = n"
proof -
  obtain q where q: "avl = n * q" using assms(2) ..
  show ?thesis
  proof (cases "q = 1")
    case True
    then show ?thesis using rvv_set_small [OF assms(1), of avl n] q by simp
  next
    case False
    then have "2 \<le> q" using q assms(3) by (cases q) auto
    then have "2 * n \<le> avl" using q by simp
    then show ?thesis by (rule rvv_set_large [OF assms(1)])
  qed
qed

end
