(* ===== verification/Dotproduct.thy ===== *)
theory Dotproduct
  imports Vector Console
begin

text \<open>
  The dot product kernels: \<open>software/app/dotproduct/kernel/dotproduct.c\<close> (integers) and
  \<open>software/app/fdotproduct/kernel/fdotproduct.c\<close> (floating point), the assembly variants that the
  build uses and the unrolled scalar versions. The kernels for the element widths are the
  instances of one definition, and the integer and floating-point ones differ in the operations;
  the floating-point operations are a parameter.
\<close>

section \<open>The vector kernels\<close>

text \<open>The loop over the strips.\<close>

partial_function (option) dotp_strip :: "'w word eops \<Rightarrow> ('w :: len) word vunit \<Rightarrow> mem \<Rightarrow> u64 \<Rightarrow> addr \<Rightarrow> addr \<Rightarrow> u64 \<Rightarrow>
    'w word vregs \<Rightarrow> 'w word vregs option" where
  "dotp_strip E U m orig_avl a b avl s =
     (if 0 < avl then
        let (vl, s) = vsetvli U 8 avl s;
            s = vle U 8 m a s;
            s = vle U 16 m b s;
            s = (if avl = orig_avl then vmul_vv E U 24 8 16 s else vmacc_vv E U 24 8 16 s)
        in dotp_strip E U m orig_avl (a + vl * of_nat (esize TYPE('w))) (b + vl * of_nat (esize TYPE('w))) (avl - vl) s
      else Some s)"

definition dotp_vec :: "'w word eops \<Rightarrow> ('w :: len) word vunit \<Rightarrow> mem \<Rightarrow> addr \<Rightarrow> addr \<Rightarrow> u64 \<Rightarrow> 'w word vregs \<Rightarrow>
    'w word option" where
  "dotp_vec E U m a b avl s =
     (let (vl, s) = vsetvli U 8 avl s;
          s = vmv_s_x U 0 0 s
      in map_option (\<lambda>s. vmv_x_s 0 (vredsum_vs E U 0 24 0 s)) (dotp_strip E U m avl a b avl s))"

definition dotp_v64b :: "64 word vunit \<Rightarrow> mem \<Rightarrow> addr \<Rightarrow> addr \<Rightarrow> u64 \<Rightarrow> 64 word vregs \<Rightarrow> 64 word option" where
  "dotp_v64b = dotp_vec int_ops"

definition dotp_v32b :: "32 word vunit \<Rightarrow> mem \<Rightarrow> addr \<Rightarrow> addr \<Rightarrow> u64 \<Rightarrow> 32 word vregs \<Rightarrow> 32 word option" where
  "dotp_v32b = dotp_vec int_ops"

definition dotp_v16b :: "16 word vunit \<Rightarrow> mem \<Rightarrow> addr \<Rightarrow> addr \<Rightarrow> u64 \<Rightarrow> 16 word vregs \<Rightarrow> 16 word option" where
  "dotp_v16b = dotp_vec int_ops"

definition dotp_v8b :: "8 word vunit \<Rightarrow> mem \<Rightarrow> addr \<Rightarrow> addr \<Rightarrow> u64 \<Rightarrow> 8 word vregs \<Rightarrow> 8 word option" where
  "dotp_v8b = dotp_vec int_ops"

definition fdotp_v64b :: "64 word eops \<Rightarrow> 64 word vunit \<Rightarrow> mem \<Rightarrow> addr \<Rightarrow> addr \<Rightarrow> u64 \<Rightarrow> 64 word vregs \<Rightarrow> 64 word option" where
  "fdotp_v64b = dotp_vec"

definition fdotp_v32b :: "32 word eops \<Rightarrow> 32 word vunit \<Rightarrow> mem \<Rightarrow> addr \<Rightarrow> addr \<Rightarrow> u64 \<Rightarrow> 32 word vregs \<Rightarrow> 32 word option" where
  "fdotp_v32b = dotp_vec"

definition fdotp_v16b :: "16 word eops \<Rightarrow> 16 word vunit \<Rightarrow> mem \<Rightarrow> addr \<Rightarrow> addr \<Rightarrow> u64 \<Rightarrow> 16 word vregs \<Rightarrow> 16 word option" where
  "fdotp_v16b = dotp_vec"

section \<open>The scalar kernels\<close>

text \<open>The element operations of the C code: \<open>acc += x * y\<close> and \<open>x + y\<close>. Integers wrap around, the
  promotions to \<open>int\<close> and the conversions back do not change the result.\<close>

record 'e sops =
  so_macc :: "'e \<Rightarrow> 'e \<Rightarrow> 'e \<Rightarrow> 'e"
  so_add :: "'e \<Rightarrow> 'e \<Rightarrow> 'e"

definition int_sops :: "('w :: len) word sops" where
  "int_sops = \<lparr>so_macc = (\<lambda>acc x y. acc + x * y), so_add = (\<lambda>x y. x + y)\<rparr>"

text \<open>\<open>acc0\<close> to \<open>acc7\<close> are the values of a function at 0 to 7.\<close>

definition elem_at :: "mem \<Rightarrow> addr \<Rightarrow> u64 \<Rightarrow> ('w :: len) word" where
  "elem_at m a i = load_elem m (a + i * of_nat (esize TYPE('w)))"

partial_function (option) dotp_s_loop :: "('w :: len) word sops \<Rightarrow> mem \<Rightarrow> addr \<Rightarrow> addr \<Rightarrow> u64 \<Rightarrow> u64 \<Rightarrow>
    (nat \<Rightarrow> 'w word) \<Rightarrow> (nat \<Rightarrow> 'w word) option" where
  "dotp_s_loop E m a b avl i acc =
     (if i < avl
      then dotp_s_loop E m a b avl (i + 8)
             (\<lambda>k. so_macc E (acc k) (elem_at m a (i + of_nat k)) (elem_at m b (i + of_nat k)))
      else Some acc)"

definition dotp_s :: "('w :: len) word sops \<Rightarrow> mem \<Rightarrow> addr \<Rightarrow> addr \<Rightarrow> u64 \<Rightarrow> 'w word option" where
  "dotp_s E m a b avl =
     map_option (\<lambda>acc.
       let acc = acc(0 := so_add E (acc 0) (acc 1));
           acc = acc(2 := so_add E (acc 2) (acc 3));
           acc = acc(4 := so_add E (acc 4) (acc 5));
           acc = acc(6 := so_add E (acc 6) (acc 7));
           acc = acc(0 := so_add E (acc 0) (acc 2));
           acc = acc(4 := so_add E (acc 4) (acc 6));
           acc = acc(0 := so_add E (acc 0) (acc 4))
       in acc 0)
     (dotp_s_loop E m a b avl 0 (\<lambda>k. 0))"

definition dotp_s64b :: "mem \<Rightarrow> addr \<Rightarrow> addr \<Rightarrow> u64 \<Rightarrow> 64 word option" where "dotp_s64b = dotp_s int_sops"
definition dotp_s32b :: "mem \<Rightarrow> addr \<Rightarrow> addr \<Rightarrow> u64 \<Rightarrow> 32 word option" where "dotp_s32b = dotp_s int_sops"
definition dotp_s16b :: "mem \<Rightarrow> addr \<Rightarrow> addr \<Rightarrow> u64 \<Rightarrow> 16 word option" where "dotp_s16b = dotp_s int_sops"
definition dotp_s8b :: "mem \<Rightarrow> addr \<Rightarrow> addr \<Rightarrow> u64 \<Rightarrow> 8 word option" where "dotp_s8b = dotp_s int_sops"
definition fdotp_s64b :: "64 word sops \<Rightarrow> mem \<Rightarrow> addr \<Rightarrow> addr \<Rightarrow> u64 \<Rightarrow> 64 word option" where "fdotp_s64b = dotp_s"
definition fdotp_s32b :: "32 word sops \<Rightarrow> mem \<Rightarrow> addr \<Rightarrow> addr \<Rightarrow> u64 \<Rightarrow> 32 word option" where "fdotp_s32b = dotp_s"
definition fdotp_s16b :: "16 word sops \<Rightarrow> mem \<Rightarrow> addr \<Rightarrow> addr \<Rightarrow> u64 \<Rightarrow> 16 word option" where "fdotp_s16b = dotp_s"

section \<open>The strips\<close>

text \<open>Element \<open>i\<close> of the accumulator after \<open>k\<close> strips of \<open>n\<close> elements.\<close>

fun col :: "'w word eops \<Rightarrow> mem \<Rightarrow> addr \<Rightarrow> addr \<Rightarrow> nat \<Rightarrow> nat \<Rightarrow> nat \<Rightarrow> ('w :: len) word" where
  "col E m a b n 0 i = eo_mul E (elem_at m a (of_nat i)) (elem_at m b (of_nat i))"
| "col E m a b n (Suc k) i =
     eo_macc E (col E m a b n k i) (elem_at m a (of_nat (Suc k * n + i))) (elem_at m b (of_nat (Suc k * n + i)))"

lemma load_elem_at: "load_elem m (a + of_nat (i * esize TYPE('w))) = (elem_at m a (of_nat i) :: ('w :: len) word)"
  by (simp add: elem_at_def)

lemma elem_at_add: "elem_at m (a + of_nat k * of_nat (esize TYPE('w))) j = (elem_at m a (of_nat k + j) :: ('w :: len) word)"
  by (simp add: elem_at_def algebra_simps)

text \<open>The strips after the first, each as long as the maximum.\<close>

lemma diff_same: "(x :: u64) - z = x \<Longrightarrow> z = 0"
  by simp

lemma dotp_strip_rest:
  fixes U :: "('w :: len) word vunit"
  defines "sz \<equiv> of_nat (esize TYPE('w))"
  assumes set: "rvv_set (vu_set U)" and n: "0 < n" "1 < q \<Longrightarrow> vlmax U 8 = n" and bound: "unat orig = n * q"
    and kq: "Suc k \<le> q" and vl: "v_vl s = n" and reg: "\<And>i. i < n \<Longrightarrow> v_reg s 24 i = col E m a b n k i" and zero: "v_reg s 0 0 = 0"
  shows "\<exists>s'. dotp_strip E U m orig (a + of_nat (Suc k * n) * sz) (b + of_nat (Suc k * n) * sz) (orig - of_nat (Suc k * n)) s = Some s' \<and>
    v_vl s' = n \<and> (\<forall>i < n. v_reg s' 24 i = col E m a b n (q - 1) i) \<and> v_reg s' 0 0 = 0"
  using kq vl reg zero
proof (induction "q - Suc k" arbitrary: k s)
  case 0
  then have k: "q = Suc k" by simp
  have "orig = of_nat (Suc k * n)" by (rule eq_of_nat_unat) (use bound k in \<open>simp only: mult.commute\<close>)
  then have z: "orig - of_nat (Suc k * n) = 0" by (simp only: diff_self)
  have "dotp_strip E U m orig x y 0 s = Some s" for x y by (subst dotp_strip.simps) simp
  then show ?case unfolding z using 0 n(1) k by simp
next
  case (Suc r)
  let ?i = "Suc k * n"
  have lt: "Suc k < q" using Suc.hyps(2) by linarith
  have "unat orig < 2 ^ LENGTH(64)" by (rule unsigned_less)
  moreover have "n * Suc (Suc k) \<le> n * q" using lt by (intro mult_le_mono2) simp
  moreover have "?i + n = n * Suc (Suc k)" by simp
  ultimately have q2: "?i + n \<le> n * q" "n * q < 2 ^ 64" unfolding bound by (metis, simp)
  then have iu: "unat (of_nat ?i :: u64) = ?i"
    by (simp only: unat_of_nat) (use q2 n(1) in \<open>simp add: take_bit_nat_eq_self\<close>)
  have le: "of_nat ?i \<le> orig" unfolding word_le_nat_alt iu bound using q2(1) by linarith
  have un: "unat (orig - of_nat ?i) = n * (q - Suc k)"
    unfolding unat_sub [OF le] iu bound by (simp only: diff_mult_distrib2 mult.commute)
  have pos: "0 < n * (q - Suc k)" using n(1) lt by simp
  have set': "vu_set U n (n * (q - Suc k)) = n" by (rule rvv_set_multiple [OF set _ pos]) simp
  have ne: "orig - of_nat ?i \<noteq> orig"
  proof
    assume "orig - of_nat ?i = orig"
    then have "(of_nat ?i :: u64) = 0" by (rule diff_same)
    then show False using iu n(1) by (metis mult_is_0 nat.distinct(1) not_gr_zero unat_0)
  qed
  have gt: "0 < orig - of_nat ?i" using un pos by (simp add: word_less_nat_alt)
  define s2 where "s2 = vmacc_vv E U 24 8 16 (vle U 16 m (b + of_nat ?i * sz) (vle U 8 m (a + of_nat ?i * sz) (s\<lparr>v_vl := n\<rparr>)))"
  have adv: "x + of_nat ?i * sz + of_nat n * sz = x + of_nat (Suc (Suc k) * n) * sz"
    "orig - of_nat ?i - of_nat n = orig - of_nat (Suc (Suc k) * n)" for x
    by (simp_all only: of_nat_mult of_nat_Suc distrib_right add_ac diff_diff_eq mult_1_left)
  have max: "vlmax U 8 = n" by (rule n(2)) (use lt in simp)
  have vs: "vsetvli U 8 (orig - of_nat ?i) s = (of_nat n, s\<lparr>v_vl := n\<rparr>)"
    unfolding vsetvli_def max un set' by (simp only: Let_def)
  have step: "dotp_strip E U m orig (a + of_nat ?i * sz) (b + of_nat ?i * sz) (orig - of_nat ?i) s =
      dotp_strip E U m orig (a + of_nat (Suc (Suc k) * n) * sz) (b + of_nat (Suc (Suc k) * n) * sz) (orig - of_nat (Suc (Suc k) * n)) s2"
    by (subst dotp_strip.simps) (simp only: gt ne vs if_True if_False Let_def prod.case s2_def [symmetric] adv sz_def [symmetric])
  have v2: "v_vl s2 = n" by (simp add: s2_def vmacc_vv_def)
  have "v_reg s2 24 i = col E m a b n (Suc k) i" if "i < n" for i
  proof -
    have "v_reg s2 24 i = eo_macc E (v_reg s 24 i) (load_elem m (a + of_nat ?i * sz + of_nat (i * esize TYPE('w))))
        (load_elem m (b + of_nat ?i * sz + of_nat (i * esize TYPE('w))))"
      using that by (simp add: s2_def vmacc_vv_def)
    also have "\<dots> = col E m a b n (Suc k) i"
      unfolding load_elem_at sz_def elem_at_add using Suc.prems(3) [OF that] by simp
    finally show ?thesis .
  qed
  note c = this
  have z: "v_reg s2 0 0 = 0" using Suc.prems(2,4) n(1) by (simp add: s2_def vmacc_vv_def)
  have q: "r = q - Suc (Suc k)" "Suc (Suc k) \<le> q" using Suc.hyps(2) lt by linarith+
  show ?case unfolding step by (rule Suc.hyps(1) [OF q v2 c z])
qed

text \<open>The number of elements of a strip, when all strips are equally long.\<close>

lemma dotp_vec_strips:
  fixes U :: "('w :: len) word vunit"
  defines "n \<equiv> vlmax U 8"
  assumes set: "rvv_set (vu_set U)" and n: "0 < n" and avl: "0 < avl" and fit: "unat avl \<le> n \<or> n dvd unat avl"
  defines "l \<equiv> min n (unat avl)"
  shows "dotp_vec E U m a b avl s = Some (eo_red E 0 (map (col E m a b l (unat avl div l - 1)) [0..<l]))"
proof -
  have pos: "0 < unat avl" using avl by (simp add: word_less_nat_alt)
  have l: "vu_set U n (unat avl) = l" "l dvd unat avl" "0 < l"
  proof -
    show "0 < l" using n pos by (simp add: l_def)
    show "vu_set U n (unat avl) = l"
      using fit rvv_set_small [OF set, of "unat avl" n] rvv_set_multiple [OF set _ pos, of n] n pos
      by (auto simp: l_def min_def dest: dvd_imp_le)
    show "l dvd unat avl" using fit n pos by (auto simp: l_def min_def dest: dvd_imp_le)
  qed
  define q where "q = unat avl div l"
  have q: "unat avl = l * q" "1 \<le> q" using l pos by (auto simp: q_def dvd_imp_le div_greater_zero_iff Suc_le_eq)
  have max: "vlmax U 8 = l" if "1 < q"
  proof -
    have "l \<noteq> unat avl" using that q(1) l(3) by simp
    then show ?thesis by (auto simp: l_def n_def)
  qed
  define s1 where "s1 = vmv_s_x U 0 0 (s\<lparr>v_vl := l\<rparr>)"
  define s2 where "s2 = vmul_vv E U 24 8 16 (vle U 16 m b (vle U 8 m a (s1\<lparr>v_vl := l\<rparr>)))"
  have vs: "vsetvli U 8 avl s = (of_nat l, s\<lparr>v_vl := l\<rparr>)" for s
    unfolding vsetvli_def n_def [symmetric] l(1) by (simp only: Let_def)
  have step: "dotp_strip E U m avl a b avl s1 =
      dotp_strip E U m avl (a + of_nat l * of_nat (esize TYPE('w))) (b + of_nat l * of_nat (esize TYPE('w))) (avl - of_nat l) s2"
    by (subst dotp_strip.simps) (simp only: avl vs if_True Let_def prod.case s2_def [symmetric] refl)
  have v1: "v_vl s1 = l" "v_reg s1 0 0 = 0" using l(3) by (simp_all add: s1_def vmv_s_x_def)
  have v2: "v_vl s2 = l" "v_reg s2 0 0 = 0" using v1 by (simp_all add: s2_def vmul_vv_def vle_def)
  have c: "v_reg s2 24 i = col E m a b l 0 i" if "i < l" for i
    using that by (simp add: s2_def vmul_vv_def load_elem_at del: of_nat_mult)
  obtain s3 where s3: "dotp_strip E U m avl a b avl s1 = Some s3" "v_vl s3 = l" "\<And>i. i < l \<Longrightarrow> v_reg s3 24 i = col E m a b l (q - 1) i"
    "v_reg s3 0 0 = 0"
    using dotp_strip_rest [OF set l(3) max q(1) _ v2(1) c v2(2)] q(2)
    unfolding step by auto
  have e: "map (v_reg s3 24) [0..<l] = map (col E m a b l (q - 1)) [0..<l]" using s3(3) by simp
  have "vmv_x_s 0 (vredsum_vs E U 0 24 0 s3) = eo_red E 0 (map (col E m a b l (q - 1)) [0..<l])"
    using l(3) unfolding vmv_x_s_def vredsum_vs_def s3(2,4) e by (simp add: s3(2))
  then show ?thesis
    unfolding q_def [symmetric] by (simp only: dotp_vec_def vs Let_def prod.case s1_def [symmetric] s3(1) option.map)
qed

section \<open>Integer dot products\<close>

definition dotprod :: "mem \<Rightarrow> addr \<Rightarrow> addr \<Rightarrow> nat \<Rightarrow> ('w :: len) word" where
  "dotprod m a b n = (\<Sum>j<n. elem_at m a (of_nat j) * elem_at m b (of_nat j))"

lemma col_sum:
  "col int_ops m a b n k i = (\<Sum>c<Suc k. elem_at m a (of_nat (c * n + i)) * elem_at m b (of_nat (c * n + i)))"
  by (induction k) (simp_all add: int_ops_def add.commute del: of_nat_mult of_nat_add mult_Suc)

lemma sum_blocks:
  fixes f :: "nat \<Rightarrow> 'a :: comm_monoid_add"
  shows "(\<Sum>i<n. \<Sum>c<q. f (c * n + i)) = sum f {..<q * n}"
proof -
  have "(\<Sum>i<n. \<Sum>c<q. f (c * n + i)) = (\<Sum>c<q. \<Sum>i<n. f (c * n + i))" by (rule sum.swap)
  also have "\<dots> = (\<Sum>c<q. sum f {c * n..<c * n + n})"
    by (simp add: sum.shift_bounds_nat_ivl [of f 0 _ n, simplified] lessThan_atLeast0 add.commute)
  also have "\<dots> = sum f {..<q * n}" by (rule sum.nat_group)
  finally show ?thesis .
qed

text \<open>A vector kernel.\<close>

lemma dotp_vec_int:
  fixes U :: "('w :: len) word vunit"
  assumes "rvv_set (vu_set U)" "0 < vlmax U 8" "0 < avl" "unat avl \<le> vlmax U 8 \<or> vlmax U 8 dvd unat avl"
  shows "dotp_vec int_ops U m a b avl s = Some (dotprod m a b (unat avl))"
proof -
  define l where "l = min (vlmax U 8) (unat avl)"
  have pos: "0 < unat avl" "0 < l" using assms(2,3) by (simp_all add: l_def word_less_nat_alt)
  have "l dvd unat avl" using assms(4) by (auto simp: l_def min_def)
  then have q: "unat avl div l * l = unat avl" "0 < unat avl div l" using pos by (auto simp: dvd_imp_le div_greater_zero_iff)
  have "(\<Sum>i<l. col int_ops m a b l (unat avl div l - 1) i) = (dotprod m a b (unat avl) :: 'w word)"
    unfolding col_sum dotprod_def using q(2) by (simp add: sum_blocks [where f = "\<lambda>j. elem_at m a (of_nat j) * elem_at m b (of_nat j)"] q(1) del: of_nat_mult of_nat_add)
  moreover have "eo_red int_ops 0 (map f [0..<l]) = sum f {..<l}" for f :: "nat \<Rightarrow> 'w word"
    by (simp add: int_ops_def sum_list_distinct_conv_sum_set atLeast0LessThan)
  ultimately show ?thesis using dotp_vec_strips [OF assms, where E = int_ops and m = m and a = a and b = b and s = s]
    by (simp add: l_def [symmetric])
qed

text \<open>A scalar kernel.\<close>

lemma dotp_s_loop_int:
  assumes "unat avl = 8 * q" and "k \<le> q"
  shows "dotp_s_loop int_sops m a b avl (of_nat (8 * k)) acc =
    Some (\<lambda>j. acc j + (\<Sum>c\<in>{k..<q}. elem_at m a (of_nat (c * 8 + j)) * elem_at m b (of_nat (c * 8 + j))))"
  using assms(2)
proof (induction "q - k" arbitrary: k acc)
  case 0
  then have "of_nat (8 * k) = avl" using assms(1) by (metis eq_of_nat_unat le_antisym diff_is_0_eq)
  then show ?case using 0 by (subst dotp_s_loop.simps) simp
next
  case (Suc r)
  have lt: "k < q" using Suc.hyps(2) by linarith
  have u: "unat avl < 2 ^ LENGTH(64)" by (rule unsigned_less)
  have i: "unat (of_nat (8 * k) :: u64) = 8 * k"
    by (simp only: unat_of_nat) (use u assms(1) lt in \<open>simp add: take_bit_nat_eq_self\<close>)
  have less: "of_nat (8 * k) < avl" unfolding word_less_nat_alt i assms(1) using lt by linarith
  have nx: "of_nat (8 * k) + 8 = (of_nat (8 * Suc k) :: u64)" by simp
  have ij: "of_nat (8 * k) + of_nat j = (of_nat (k * 8 + j) :: u64)" for j by (simp add: mult.commute)
  show ?case
    apply (subst dotp_s_loop.simps)
    apply (simp only: less if_True nx ij)
    apply (subst Suc.hyps(1))
    using Suc.hyps(2) lt by (simp_all add: int_sops_def sum.atLeast_Suc_lessThan add.assoc fun_eq_iff del: of_nat_mult of_nat_add)
qed

lemma dotp_s_int:
  fixes m a b
  assumes "8 dvd unat avl"
  shows "dotp_s int_sops m a b avl = Some (dotprod m a b (unat avl) :: ('w :: len) word)"
proof -
  obtain q where q: "unat avl = 8 * q" using assms ..
  have "dotp_s_loop int_sops m a b avl 0 (\<lambda>k. 0) =
      Some (\<lambda>j. \<Sum>c<q. elem_at m a (of_nat (c * 8 + j)) * elem_at m b (of_nat (c * 8 + j)) :: 'w word)"
    using dotp_s_loop_int [OF q, of 0 m a b "\<lambda>k. 0"] by (simp add: atLeast0LessThan del: of_nat_mult of_nat_add)
  moreover have "dotprod m a b (unat avl) = (\<Sum>i<8. \<Sum>c<q. elem_at m a (of_nat (c * 8 + i)) * elem_at m b (of_nat (c * 8 + i)) :: 'w word)"
    unfolding sum_blocks [where n = 8 and q = q and f = "\<lambda>j. elem_at m a (of_nat j) * elem_at m b (of_nat j)"] dotprod_def q
    by (simp add: mult.commute)
  ultimately show ?thesis by (simp add: dotp_s_def int_sops_def eval_nat_numeral add_ac Let_def del: of_nat_mult of_nat_add)
qed

section \<open>Lengths that the vector kernel does not handle\<close>

lemma rvv_set_min: "rvv_set min"
  by (auto simp: rvv_set_def)



end
