(* ===== verification/Benchmark.thy ===== *)
theory Benchmark
  imports Dotproduct Console
begin

text \<open>
  The helpers of \<open>software/sdk/src/util.c\<close> and \<open>include/util.h\<close>, the cycle timer and the comparison of
  floating-point results, and the benchmark \<open>software/app/dotproduct/main.c\<close> over the kernels. The
  values of the \<open>cycle\<close> register are a parameter, a sequence of samples; so are the floating-point
  operations of \<open>similarity_check\<close>.
\<close>

section \<open>The timer\<close>

record bench =
  bn_timer :: u64
  bn_sample :: nat

definition get_cycle_count :: "(nat \<Rightarrow> u64) \<Rightarrow> bench \<Rightarrow> u64 \<times> bench" where
  "get_cycle_count cyc t = (cyc (bn_sample t), t\<lparr>bn_sample := Suc (bn_sample t)\<rparr>)"

definition start_timer :: "(nat \<Rightarrow> u64) \<Rightarrow> bench \<Rightarrow> bench" where
  "start_timer cyc t = (let (c, t) = get_cycle_count cyc t in t\<lparr>bn_timer := - c\<rparr>)"

definition stop_timer :: "(nat \<Rightarrow> u64) \<Rightarrow> bench \<Rightarrow> bench" where
  "stop_timer cyc t = (let (c, t) = get_cycle_count cyc t in t\<lparr>bn_timer := bn_timer t + c\<rparr>)"

definition get_timer :: "bench \<Rightarrow> u64" where
  "get_timer t = bn_timer t"

text \<open>The time between a start and a stop, also if the counter wraps around in between.\<close>

lemma timer_difference:
  "get_timer (stop_timer cyc (start_timer cyc t)) = cyc (Suc (bn_sample t)) - cyc (bn_sample t)"
  by (simp add: get_timer_def stop_timer_def start_timer_def get_cycle_count_def)

section \<open>Floating-point results\<close>

record 'e fpu =
  fp_sub :: "'e \<Rightarrow> 'e \<Rightarrow> 'e"
  fp_gt :: "'e \<Rightarrow> 'e \<Rightarrow> bool"

definition fabs :: "u64 \<Rightarrow> u64" where "fabs x = unset_bit 63 x"
definition fabsf :: "u32 \<Rightarrow> u32" where "fabsf x = unset_bit 31 x"

definition similarity_check :: "u64 fpu \<Rightarrow> u64 \<Rightarrow> u64 \<Rightarrow> u64 \<Rightarrow> u32" where
  "similarity_check F a b threshold = (if fp_gt F (fabs (fp_sub F a b)) threshold then 0 else 1)"

definition similarity_check_32b :: "u32 fpu \<Rightarrow> u32 \<Rightarrow> u32 \<Rightarrow> u32 \<Rightarrow> u32" where
  "similarity_check_32b F a b threshold = (if fp_gt F (fabsf (fp_sub F a b)) threshold then 0 else 1)"

text \<open>A double that is not a number.\<close>

definition is_nan :: "u64 \<Rightarrow> bool" where
  "is_nan x \<longleftrightarrow> decode_double x = NaN"

lemma is_nan_fabs: "is_nan x \<Longrightarrow> is_nan (fabs x)"
proof -
  have "drop_bit 52 (unset_bit 63 x) AND 0x7FF = drop_bit 52 x AND (0x7FF :: u64)" for x :: u64
    by (rule bit_word_eqI) (auto simp: bit_simps)
  moreover have "unset_bit 63 x AND 0xFFFFFFFFFFFFF = x AND (0xFFFFFFFFFFFFF :: u64)" for x :: u64
    by (rule bit_word_eqI) (auto simp: bit_simps)
  ultimately show "is_nan x \<Longrightarrow> is_nan (fabs x)"
    by (simp add: is_nan_def decode_double_def fabs_def Let_def split: if_splits)
qed

text \<open>A result that is not a number passes every check, whatever is expected: the comparison is false.\<close>

lemma similarity_check_nan:
  assumes "\<And>x y. is_nan x \<Longrightarrow> is_nan (fp_sub F x y)" and "\<And>x y. is_nan x \<Longrightarrow> \<not> fp_gt F x y" and "is_nan a"
  shows "similarity_check F a b threshold = 1"
  using assms is_nan_fabs by (simp add: similarity_check_def)

section \<open>dotproduct\<close>

text \<open>The loop over the lengths, for one element width.\<close>

partial_function (option) dotp_check :: "(nat \<Rightarrow> u64) \<Rightarrow> mem \<Rightarrow> string \<Rightarrow> string \<Rightarrow> (u64 \<Rightarrow> ('w :: len) word option) \<Rightarrow>
    (u64 \<Rightarrow> 'w word option) \<Rightarrow> u64 \<Rightarrow> u64 \<Rightarrow> bench app \<Rightarrow> (u32 \<times> bench app) option" where
  "dotp_check cyc m head err vec scalar limit avl s =
     (if avl \<le> limit then
        Option.bind (say m head [avl] s) (\<lambda>s.
        let s = on_dev (start_timer cyc) s
        in Option.bind (vec avl) (\<lambda>res_v.
        let s = on_dev (stop_timer cyc) s;
            runtime_v = get_timer (ap_dev s)
        in Option.bind (say m ''Vector runtime: %ld\<newline>'' [runtime_v] s) (\<lambda>s.
           let s = on_dev (start_timer cyc) s
           in Option.bind (scalar avl) (\<lambda>res_s.
           let s = on_dev (stop_timer cyc) s;
               runtime_s = get_timer (ap_dev s)
           in Option.bind (say m ''Scalar runtime: %ld\<newline>'' [runtime_s] s) (\<lambda>s.
              if res_v \<noteq> res_s
              then Option.bind (say m err [scast res_v, scast res_s] s) (\<lambda>s. Some (- 1, s))
              else dotp_check cyc m head err vec scalar limit (avl * 8) s)))))
      else Some (0, s))"

record dotp_data =
  dd_vsize :: u64
  dd_v64a :: addr
  dd_v64b :: addr
  dd_v32a :: addr
  dd_v32b :: addr
  dd_v16a :: addr
  dd_v16b :: addr
  dd_v8a :: addr
  dd_v8b :: addr

text \<open>A vector unit, at the four widths.\<close>

record vunits =
  un_64 :: "64 word vunit"
  un_32 :: "32 word vunit"
  un_16 :: "16 word vunit"
  un_8 :: "8 word vunit"

text \<open>The registers that the calls find are a parameter.\<close>

record stale =
  st_64 :: "u64 \<Rightarrow> 64 word vregs"
  st_32 :: "u64 \<Rightarrow> 32 word vregs"
  st_16 :: "u64 \<Rightarrow> 16 word vregs"
  st_8 :: "u64 \<Rightarrow> 8 word vregs"

definition next_width :: "(bench app \<Rightarrow> (u32 \<times> bench app) option) \<Rightarrow> u32 \<times> bench app \<Rightarrow> (u32 \<times> bench app) option" where
  "next_width f rs = (if fst rs \<noteq> 0 then Some rs else f (snd rs))"

fun says :: "mem \<Rightarrow> string list \<Rightarrow> 'd app \<Rightarrow> 'd app option" where
  "says m [] s = Some s"
| "says m (t # ts) s = Option.bind (say m t [] s) (says m ts)"

definition dotproduct_main :: "(nat \<Rightarrow> u64) \<Rightarrow> vunits \<Rightarrow> stale \<Rightarrow> mem \<Rightarrow> dotp_data \<Rightarrow> bench app \<Rightarrow> (u32 \<times> bench app) option" where
  "dotproduct_main cyc U st m c s =
     Option.bind (says m [''\<newline>'', ''==========\<newline>'', ''=  DOTP  =\<newline>'', ''==========\<newline>'', ''\<newline>'', ''\<newline>''] s) (\<lambda>s.
     Option.bind (dotp_check cyc m ''Calulating 64b dotp with vectors with length = %lu\<newline>'' ''Error: v = %ld, g = %ld\<newline>''
       (\<lambda>avl. dotp_v64b (un_64 U) m (dd_v64a c) (dd_v64b c) avl (st_64 st avl)) (dotp_s64b m (dd_v64a c) (dd_v64b c))
       (drop_bit 3 (dd_vsize c)) 8 s) (\<lambda>rs.
     Option.bind (next_width (dotp_check cyc m ''Calulating 32b dotp with vectors with length = %lu\<newline>'' ''Error: v = %d, g = %d\<newline>''
       (\<lambda>avl. dotp_v32b (un_32 U) m (dd_v32a c) (dd_v32b c) avl (st_32 st avl)) (dotp_s32b m (dd_v32a c) (dd_v32b c))
       (drop_bit 2 (dd_vsize c)) 8) rs) (\<lambda>rs.
     Option.bind (next_width (dotp_check cyc m ''Calulating 16b dotp with vectors with length = %lu\<newline>'' ''Error: v = %hd, g = %hd\<newline>''
       (\<lambda>avl. dotp_v16b (un_16 U) m (dd_v16a c) (dd_v16b c) avl (st_16 st avl)) (dotp_s16b m (dd_v16a c) (dd_v16b c))
       (drop_bit 1 (dd_vsize c)) 8) rs) (\<lambda>rs.
     Option.bind (next_width (dotp_check cyc m ''Calulating 8b dotp with vectors with length = %lu\<newline>'' ''Error: v = %hhd, g = %hhd\<newline>''
       (\<lambda>avl. dotp_v8b (un_8 U) m (dd_v8a c) (dd_v8b c) avl (st_8 st avl)) (dotp_s8b m (dd_v8a c) (dd_v8b c))
       (drop_bit 0 (dd_vsize c)) 8) rs) (\<lambda>rs.
     next_width (\<lambda>s. map_option (Pair 0) (say m ''SUCCESS.\<newline>'' [] s)) rs)))))"

section \<open>The benchmark passes\<close>

lemma long_text: "\<exists>t. text_of m ''Vector runtime: %ld\<newline>'' [v] = Some t" "\<exists>t. text_of m ''Scalar runtime: %ld\<newline>'' [v] = Some t"
  "\<exists>t. text_of m ''Calulating 64b dotp with vectors with length = %lu\<newline>'' [v] = Some t"
  "\<exists>t. text_of m ''Calulating 32b dotp with vectors with length = %lu\<newline>'' [v] = Some t"
  "\<exists>t. text_of m ''Calulating 16b dotp with vectors with length = %lu\<newline>'' [v] = Some t"
  "\<exists>t. text_of m ''Calulating 8b dotp with vectors with length = %lu\<newline>'' [v] = Some t"
  by (simp_all add: text_of_def parse_spec_def parse_width_def parse_precision_def parse_length_def cur_def is_digit_def
    conv_acts_def int_specs_def Let_def)

lemma says_plain: "(\<And>t. t \<in> set ts \<Longrightarrow> CHR ''%'' \<notin> set t) \<Longrightarrow> \<exists>s'. says m ts s = Some s'"
  by (induction ts arbitrary: s) (simp_all add: say_text text_of_plain)

lemma dotp_check_returns:
  fixes vec :: "u64 \<Rightarrow> ('w :: len) word option"
  assumes "limit < 2 ^ 60" and head: "\<And>v. \<exists>t. text_of m head [v] = Some t"
    and eq: "\<And>j. 0 < j \<Longrightarrow> j \<le> 20 \<Longrightarrow> \<exists>r. vec (of_nat (8 ^ j)) = Some r \<and> scalar (of_nat (8 ^ j)) = Some r"
  shows "0 < j \<Longrightarrow> j \<le> 20 \<Longrightarrow> \<exists>s'. dotp_check cyc m head err vec scalar limit (of_nat (8 ^ j)) s = Some (0, s')"
proof (induction "20 - j" arbitrary: j s)
  case 0
  then have j: "j = 20" by simp
  have "\<not> of_nat (8 ^ j) \<le> limit" using assms(1) by (simp add: j)
  then show ?case by (subst dotp_check.simps) simp
next
  case (Suc r)
  obtain v where v: "vec (of_nat (8 ^ j)) = Some v" "scalar (of_nat (8 ^ j)) = Some v" using eq [OF Suc.prems] by blast
  have nx: "of_nat (8 ^ j) * 8 = (of_nat (8 ^ Suc j) :: u64)" by simp
  obtain t1 where t1: "text_of m head [of_nat (8 ^ j)] = Some t1" using head by blast
  have step: "\<exists>s1. dotp_check cyc m head err vec scalar limit (of_nat (8 ^ j)) s =
      dotp_check cyc m head err vec scalar limit (of_nat (8 ^ Suc j)) s1" if "of_nat (8 ^ j) \<le> limit"
  proof -
    define a where "a = (of_nat (8 ^ j) :: u64)"
    define s0 where "s0 = on_dev (stop_timer cyc) (on_dev (start_timer cyc) (s\<lparr>ap_out := ap_out s @ t1\<rparr>))"
    obtain t2 where t2: "text_of m ''Vector runtime: %ld\<newline>'' [get_timer (ap_dev s0)] = Some t2" using long_text(1) by blast
    define s2 where "s2 = on_dev (stop_timer cyc) (on_dev (start_timer cyc) (s0\<lparr>ap_out := ap_out s0 @ t2\<rparr>))"
    obtain t3 where t3: "text_of m ''Scalar runtime: %ld\<newline>'' [get_timer (ap_dev s2)] = Some t3" using long_text(2) by blast
    have "dotp_check cyc m head err vec scalar limit a s = dotp_check cyc m head err vec scalar limit (a * 8) (s2\<lparr>ap_out := ap_out s2 @ t3\<rparr>)"
      by (subst dotp_check.simps)
         (simp only: that [folded a_def] if_True say_text t1 [folded a_def] t2 t3 v [folded a_def] option.map Option.bind.simps
           Let_def s0_def [symmetric] s2_def [symmetric] simp_thms if_False)
    then show ?thesis unfolding a_def nx by blast
  qed
  show ?case
  proof (cases "of_nat (8 ^ j) \<le> limit")
    case True
    obtain s1 where "dotp_check cyc m head err vec scalar limit (of_nat (8 ^ j)) s =
        dotp_check cyc m head err vec scalar limit (of_nat (8 ^ Suc j)) s1" using step [OF True] by blast
    moreover have "r = 20 - Suc j" "0 < Suc j" "Suc j \<le> 20" using Suc.hyps(2) by linarith+
    ultimately show ?thesis using Suc.hyps(1) [of "Suc j" s1] by simp
  next
    case False
    then show ?thesis by (subst dotp_check.simps) simp
  qed
qed

lemma dotp_check_8:
  fixes vec :: "u64 \<Rightarrow> ('w :: len) word option"
  assumes "limit < 2 ^ 60" and "\<And>v. \<exists>t. text_of m head [v] = Some t"
    and "\<And>j. 0 < j \<Longrightarrow> j \<le> 20 \<Longrightarrow> \<exists>r. vec (of_nat (8 ^ j)) = Some r \<and> scalar (of_nat (8 ^ j)) = Some r"
  shows "\<exists>s'. dotp_check cyc m head err vec scalar limit 8 s = Some (0, s')"
  using dotp_check_returns [where j = 1 and vec = vec and scalar = scalar and cyc = cyc and err = err and s = s, OF assms] by simp

text \<open>The lengths of the benchmark suit every vector unit whose registers are a power of two long.\<close>

lemma pow8_fits:
  assumes "2 ^ e = n" and "0 < j" "j \<le> 20"
  shows "unat (of_nat (8 ^ j) :: u64) \<le> n \<or> n dvd unat (of_nat (8 ^ j) :: u64)" "8 dvd unat (of_nat (8 ^ j) :: u64)"
    "0 < (of_nat (8 ^ j) :: u64)"
proof -
  have "(8 :: nat) ^ j \<le> 8 ^ 20" using assms(3) by (intro power_increasing) simp_all
  then have u: "unat (of_nat (8 ^ j) :: u64) = 8 ^ j"
    by (simp only: unat_of_nat) (simp add: take_bit_nat_eq_self)
  have p: "(8 :: nat) ^ j = 2 ^ (3 * j)" by (simp add: power_mult)
  show "unat (of_nat (8 ^ j) :: u64) \<le> n \<or> n dvd unat (of_nat (8 ^ j) :: u64)"
    unfolding u unfolding p assms(1) [symmetric] by (cases "3 * j \<le> e") (simp_all add: power_increasing le_imp_power_dvd)
  show "8 dvd unat (of_nat (8 ^ j) :: u64)" unfolding u using assms(2) by (simp add: dvd_power)
  show "0 < (of_nat (8 ^ j) :: u64)" unfolding word_less_nat_alt u by simp
qed

definition good_unit :: "nat \<Rightarrow> ('w :: len) word vunit \<Rightarrow> bool" where
  "good_unit e U \<longleftrightarrow> rvv_set (vu_set U) \<and> vu_vlen U = 2 ^ e"

lemma dotp_agree:
  fixes V :: "('w :: len) word vunit"
  assumes "good_unit e V" "LENGTH('w) = 2 ^ w" "w \<le> 6" "6 \<le> e" "0 < j" "j \<le> 20"
  shows "\<exists>r. dotp_vec int_ops V m a b (of_nat (8 ^ j)) t = Some r \<and> dotp_s int_sops m a b (of_nat (8 ^ j)) = Some r"
proof -
  have max: "vlmax V 8 = 2 ^ (e + 3 - w)"
  proof -
    have "(2 :: nat) ^ (e + 3 - w) * 2 ^ w = 8 * 2 ^ e"
      using assms(3,4) by (simp add: power_add [symmetric]) (simp add: power_add)
    then show ?thesis using assms(1) unfolding vlmax_def good_unit_def assms(2)
      by (metis nonzero_mult_div_cancel_right power_not_zero zero_neq_numeral)
  qed
  have set: "rvv_set (vu_set V)" using assms(1) by (simp add: good_unit_def)
  note fits = pow8_fits [OF max [symmetric] assms(5,6)]
  have "0 < vlmax V 8" unfolding max by simp
  from dotp_vec_int [OF set this fits(3,1)] dotp_s_int [OF fits(2)]
  show ?thesis by metis
qed

lemma drop_bit_below: "n < 2 ^ 60 \<Longrightarrow> drop_bit k n < (2 ^ 60 :: u64)"
proof -
  have "unat (drop_bit k n) \<le> unat n"
    by (subst unsigned_drop_bit_eq, subst drop_bit_eq_div) (rule order_trans [OF div_le_dividend take_bit_nat_less_eq_self])
  then show "n < 2 ^ 60 \<Longrightarrow> drop_bit k n < (2 ^ 60 :: u64)" by (simp add: word_less_nat_alt)
qed

text \<open>C23. The dot product benchmark passes on every vector unit of the standard whose registers are a
  power of two of at least 64 bits: for all data, whatever the unit leaves in the tail of a register
  and whatever the registers hold before, at each of the four widths the stripmined vector kernel
  and the unrolled scalar kernel agree on all lengths of the benchmark, so that \<open>main\<close> returns 0.\<close>

theorem dotproduct_main_passes:
  assumes "good_unit e (un_64 U)" "good_unit e (un_32 U)" "good_unit e (un_16 U)" "good_unit e (un_8 U)" and "6 \<le> e"
    and "dd_vsize c < 2 ^ 60"
  shows "\<exists>s'. dotproduct_main cyc U st m c s = Some (0, s')"
proof -
  let ?banner = "[''\<newline>'', ''==========\<newline>'', ''=  DOTP  =\<newline>'', ''==========\<newline>'', ''\<newline>'', ''\<newline>'']"
  have "CHR ''%'' \<notin> set t" if "t \<in> set ?banner" for t using that by auto
  from says_plain [OF this] obtain s0 where s0: "says m ?banner s = Some s0" by blast
  have a64: "\<exists>r. dotp_v64b (un_64 U) m (dd_v64a c) (dd_v64b c) (of_nat (8 ^ j)) (st_64 st (of_nat (8 ^ j))) = Some r \<and>
      dotp_s64b m (dd_v64a c) (dd_v64b c) (of_nat (8 ^ j)) = Some r" if "0 < j" "j \<le> 20" for j
    unfolding dotp_v64b_def dotp_s64b_def by (rule dotp_agree [OF assms(1), of 6]) (use that assms(5) in simp_all)
  obtain s1 where s1: "dotp_check cyc m ''Calulating 64b dotp with vectors with length = %lu\<newline>'' ''Error: v = %ld, g = %ld\<newline>''
       (\<lambda>avl. dotp_v64b (un_64 U) m (dd_v64a c) (dd_v64b c) avl (st_64 st avl)) (dotp_s64b m (dd_v64a c) (dd_v64b c))
       (drop_bit 3 (dd_vsize c)) 8 s0 = Some (0, s1)"
    using dotp_check_8 [where vec = "\<lambda>avl. dotp_v64b (un_64 U) m (dd_v64a c) (dd_v64b c) avl (st_64 st avl)" and scalar = "dotp_s64b m (dd_v64a c) (dd_v64b c)",
        OF drop_bit_below [OF assms(6)] long_text(3) a64] by blast
  have a32: "\<exists>r. dotp_v32b (un_32 U) m (dd_v32a c) (dd_v32b c) (of_nat (8 ^ j)) (st_32 st (of_nat (8 ^ j))) = Some r \<and>
      dotp_s32b m (dd_v32a c) (dd_v32b c) (of_nat (8 ^ j)) = Some r" if "0 < j" "j \<le> 20" for j
    unfolding dotp_v32b_def dotp_s32b_def by (rule dotp_agree [OF assms(2), of 5]) (use that assms(5) in simp_all)
  obtain s2 where s2: "dotp_check cyc m ''Calulating 32b dotp with vectors with length = %lu\<newline>'' ''Error: v = %d, g = %d\<newline>''
       (\<lambda>avl. dotp_v32b (un_32 U) m (dd_v32a c) (dd_v32b c) avl (st_32 st avl)) (dotp_s32b m (dd_v32a c) (dd_v32b c))
       (drop_bit 2 (dd_vsize c)) 8 s1 = Some (0, s2)"
    using dotp_check_8 [where vec = "\<lambda>avl. dotp_v32b (un_32 U) m (dd_v32a c) (dd_v32b c) avl (st_32 st avl)" and scalar = "dotp_s32b m (dd_v32a c) (dd_v32b c)",
        OF drop_bit_below [OF assms(6)] long_text(4) a32] by blast
  have a16: "\<exists>r. dotp_v16b (un_16 U) m (dd_v16a c) (dd_v16b c) (of_nat (8 ^ j)) (st_16 st (of_nat (8 ^ j))) = Some r \<and>
      dotp_s16b m (dd_v16a c) (dd_v16b c) (of_nat (8 ^ j)) = Some r" if "0 < j" "j \<le> 20" for j
    unfolding dotp_v16b_def dotp_s16b_def by (rule dotp_agree [OF assms(3), of 4]) (use that assms(5) in simp_all)
  obtain s3 where s3: "dotp_check cyc m ''Calulating 16b dotp with vectors with length = %lu\<newline>'' ''Error: v = %hd, g = %hd\<newline>''
       (\<lambda>avl. dotp_v16b (un_16 U) m (dd_v16a c) (dd_v16b c) avl (st_16 st avl)) (dotp_s16b m (dd_v16a c) (dd_v16b c))
       (drop_bit 1 (dd_vsize c)) 8 s2 = Some (0, s3)"
    using dotp_check_8 [where vec = "\<lambda>avl. dotp_v16b (un_16 U) m (dd_v16a c) (dd_v16b c) avl (st_16 st avl)" and scalar = "dotp_s16b m (dd_v16a c) (dd_v16b c)",
        OF drop_bit_below [OF assms(6)] long_text(5) a16] by blast
  have a8: "\<exists>r. dotp_v8b (un_8 U) m (dd_v8a c) (dd_v8b c) (of_nat (8 ^ j)) (st_8 st (of_nat (8 ^ j))) = Some r \<and>
      dotp_s8b m (dd_v8a c) (dd_v8b c) (of_nat (8 ^ j)) = Some r" if "0 < j" "j \<le> 20" for j
    unfolding dotp_v8b_def dotp_s8b_def by (rule dotp_agree [OF assms(4), of 3]) (use that assms(5) in simp_all)
  obtain s4 where s4: "dotp_check cyc m ''Calulating 8b dotp with vectors with length = %lu\<newline>'' ''Error: v = %hhd, g = %hhd\<newline>''
       (\<lambda>avl. dotp_v8b (un_8 U) m (dd_v8a c) (dd_v8b c) avl (st_8 st avl)) (dotp_s8b m (dd_v8a c) (dd_v8b c))
       (drop_bit 0 (dd_vsize c)) 8 s3 = Some (0, s4)"
    using dotp_check_8 [where vec = "\<lambda>avl. dotp_v8b (un_8 U) m (dd_v8a c) (dd_v8b c) avl (st_8 st avl)" and scalar = "dotp_s8b m (dd_v8a c) (dd_v8b c)",
        OF drop_bit_below [OF assms(6)] long_text(6) a8] by blast
  obtain t where t: "text_of m ''SUCCESS.\<newline>'' [] = Some t" by (simp add: text_of_plain)
  show ?thesis
    unfolding dotproduct_main_def s0 Option.bind.simps s1 next_width_def fst_conv snd_conv simp_thms if_False s2 s3 s4 say_text t option.map
    by simp
qed

definition min_unit :: "('w :: len) word vunit" where
  "min_unit = \<lparr>vu_vlen = 64, vu_set = min, vu_tail = (\<lambda>_ _. - 1)\<rparr>"

lemma dotproduct_main_passes_witness:
  "\<exists>s'. dotproduct_main (\<lambda>i. of_nat (7 * i)) \<lparr>un_64 = min_unit, un_32 = min_unit, un_16 = min_unit, un_8 = min_unit\<rparr>
      \<lparr>st_64 = \<lambda>_. \<lparr>v_reg = \<lambda>_ _. 5, v_vl = 1\<rparr>, st_32 = \<lambda>_. \<lparr>v_reg = \<lambda>_ _. 5, v_vl = 1\<rparr>, st_16 = \<lambda>_. \<lparr>v_reg = \<lambda>_ _. 5, v_vl = 1\<rparr>,
        st_8 = \<lambda>_. \<lparr>v_reg = \<lambda>_ _. 5, v_vl = 1\<rparr>\<rparr>
      (\<lambda>a. ucast a) (dotp_data.make 4096 0x1000 0x2000 0x3000 0x4000 0x5000 0x6000 0x7000 0x8000)
      \<lparr>ap_dev = \<lparr>bn_timer = 0, bn_sample = 0\<rparr>, ap_out = []\<rparr> = Some (0, s')"
  by (rule dotproduct_main_passes [where e = 6])
     (simp_all add: good_unit_def min_unit_def rvv_set_min dotp_data.make_def)

end
