(* ===== verification/Fmatmul.thy ===== *)
theory Fmatmul
  imports Benchmark
begin

text \<open>
  The matrix product \<open>software/app/fmatmul/kernel/fmatmul.c\<close> on the vector unit of theory Vector, and
  the program \<open>software/app/fmatmul/main.c\<close>. The three blocked kernels are unrolled copies of one
  scheme, for 4, 8 and 16 rows: a block is the list of its accumulator registers, its two buffers for
  rows of \<open>b\<close> and its register group length, and an unrolled sequence of statements is a fold over the
  rows. (The 16 row kernel prefetches the scalars before the first row of \<open>b\<close>; both are only reads.)
  The multiply-add is a parameter, so the result is stated as the exact chain of multiply-adds.
\<close>

section \<open>Instructions of the kernels\<close>

definition vmv_v_i :: "64 word vunit \<Rightarrow> nat \<Rightarrow> 64 word \<Rightarrow> 64 word vregs \<Rightarrow> 64 word vregs" where
  "vmv_v_i U vd x s = v_write U vd (\<lambda>_. x) s"

definition vfmacc_vf :: "64 word eops \<Rightarrow> 64 word vunit \<Rightarrow> nat \<Rightarrow> 64 word \<Rightarrow> nat \<Rightarrow> 64 word vregs \<Rightarrow> 64 word vregs" where
  "vfmacc_vf E U vd t vs2 s = v_write U vd (\<lambda>i. eo_macc E (v_reg s vd i) t (v_reg s vs2 i)) s"

definition vle64 :: "64 word vunit \<Rightarrow> nat \<Rightarrow> mem \<Rightarrow> addr \<Rightarrow> 64 word vregs \<Rightarrow> 64 word vregs" where
  "vle64 U vd m a s = v_write U vd (\<lambda>i. load64 m (a + of_nat (8 * i))) s"

definition vse64 :: "nat \<Rightarrow> 64 word vregs \<Rightarrow> addr \<Rightarrow> mem \<Rightarrow> mem" where
  "vse64 vs s a m = fold (\<lambda>i m. store64 m (a + of_nat (8 * i)) (v_reg s vs i)) [0..<v_vl s] m"

section \<open>The blocked kernels\<close>

record block =
  bk_rows :: "nat list"
  bk_b0 :: nat
  bk_b1 :: nat
  bk_lmul :: nat

definition block_4x4 :: block where
  "block_4x4 = \<lparr>bk_rows = [0, 4, 8, 12], bk_b0 = 16, bk_b1 = 20, bk_lmul = 4\<rparr>"

definition block_8x8 :: block where
  "block_8x8 = \<lparr>bk_rows = [0, 2, 4, 6, 8, 10, 12, 14], bk_b0 = 18, bk_b1 = 20, bk_lmul = 2\<rparr>"

definition block_16x16 :: block where
  "block_16x16 = \<lparr>bk_rows = [0, 1, 2, 3, 4, 5, 6, 7, 8, 9, 10, 11, 12, 13, 14, 15], bk_b0 = 16, bk_b1 = 17, bk_lmul = 1\<rparr>"

definition slice_init :: "64 word vunit \<Rightarrow> block \<Rightarrow> 64 word vregs \<Rightarrow> 64 word vregs" where
  "slice_init U K s = fold (\<lambda>v. vmv_v_i U v 0) (bk_rows K) s"

text \<open>\<open>t0 = *a, a += N; t1 = *a, a += N; ...\<close>\<close>

fun scalars :: "mem \<Rightarrow> addr \<Rightarrow> u64 \<Rightarrow> nat \<Rightarrow> u64 list" where
  "scalars m a N 0 = []"
| "scalars m a N (Suc r) = load64 m a # scalars m (a + 8 * N) N r"

text \<open>Half of the loop body: multiply-add with the row in \<open>vb\<close>, load the next row into \<open>nxt\<close>.\<close>

definition half_step :: "64 word eops \<Rightarrow> 64 word vunit \<Rightarrow> block \<Rightarrow> mem \<Rightarrow> nat \<Rightarrow> nat \<Rightarrow> addr \<Rightarrow> u64 list \<Rightarrow> 64 word vregs \<Rightarrow>
    64 word vregs" where
  "half_step E U K m vb nxt b t s =
     (let s = vfmacc_vf E U (hd (bk_rows K)) (hd t) vb s;
          s = vle64 U nxt m b s
      in fold (\<lambda>(v, x). vfmacc_vf E U v x vb) (zip (tl (bk_rows K)) (tl t)) s)"

partial_function (option) fmatmul_loop :: "64 word eops \<Rightarrow> 64 word vunit \<Rightarrow> block \<Rightarrow> mem \<Rightarrow> addr \<Rightarrow> u64 \<Rightarrow> u64 \<Rightarrow>
    u64 \<Rightarrow> addr \<Rightarrow> u64 list \<Rightarrow> 64 word vregs \<Rightarrow> (u64 list \<times> 64 word vregs) option" where
  "fmatmul_loop E U K m a N P n b t s =
     (if n \<noteq> N then
        let n = n + 1;
            s = half_step E U K m (bk_b0 K) (bk_b1 K) b t s;
            t = scalars m (a + 8 * n) N (length (bk_rows K));
            b = b + 8 * P;
            n = n + 1
        in if n = N then Some (t, s)
           else let s = half_step E U K m (bk_b1 K) (bk_b0 K) b t s;
                    t = scalars m (a + 8 * n) N (length (bk_rows K));
                    b = b + 8 * P
                in fmatmul_loop E U K m a N P n b t s
      else Some (t, s))"

text \<open>\<open>Last iteration: store results\<close>.\<close>

fun store_rows :: "64 word eops \<Rightarrow> 64 word vunit \<Rightarrow> nat \<Rightarrow> u64 \<Rightarrow> (nat \<times> u64) list \<Rightarrow> addr \<Rightarrow> mem \<Rightarrow> 64 word vregs \<Rightarrow>
    mem \<times> 64 word vregs" where
  "store_rows E U vb P [] c m s = (m, s)"
| "store_rows E U vb P ((v, x) # rows) c m s =
     (let s = vfmacc_vf E U v x vb s;
          m = vse64 v s c m
      in store_rows E U vb P rows (c + 8 * P) m s)"

definition fmatmul_vec :: "64 word eops \<Rightarrow> 64 word vunit \<Rightarrow> block \<Rightarrow> addr \<Rightarrow> addr \<Rightarrow> addr \<Rightarrow> u64 \<Rightarrow> u64 \<Rightarrow>
    mem \<Rightarrow> 64 word vregs \<Rightarrow> (mem \<times> 64 word vregs) option" where
  "fmatmul_vec E U K c a b N P m s =
     (let s = vle64 U (bk_b0 K) m b s;
          b = b + 8 * P;
          t = scalars m a N (length (bk_rows K))
      in map_option (\<lambda>(t, s). store_rows E U (bk_b1 K) P (zip (bk_rows K) t) c m s)
           (fmatmul_loop E U K m a N P 0 b t s))"

text \<open>The loop over the rows, by blocks.\<close>

partial_function (option) fmatmul_rows :: "64 word eops \<Rightarrow> 64 word vunit \<Rightarrow> block \<Rightarrow> addr \<Rightarrow> addr \<Rightarrow> addr \<Rightarrow> u64 \<Rightarrow> u64 \<Rightarrow> u64 \<Rightarrow>
    u64 \<Rightarrow> mem \<Rightarrow> 64 word vregs \<Rightarrow> (mem \<times> 64 word vregs) option" where
  "fmatmul_rows E U K c a b M N P i m s =
     (if i < M
      then Option.bind (fmatmul_vec E U K (c + 8 * (i * P)) (a + 8 * (i * N)) b N P m (slice_init U K s))
             (\<lambda>(m, s). fmatmul_rows E U K c a b M N P (i + of_nat (length (bk_rows K))) m s)
      else Some (m, s))"

text \<open>The loop over the columns, by vector lengths.\<close>

partial_function (option) fmatmul_cols :: "64 word eops \<Rightarrow> 64 word vunit \<Rightarrow> block \<Rightarrow> addr \<Rightarrow> addr \<Rightarrow> addr \<Rightarrow> u64 \<Rightarrow> u64 \<Rightarrow> u64 \<Rightarrow>
    u64 \<Rightarrow> u64 \<Rightarrow> mem \<Rightarrow> 64 word vregs \<Rightarrow> (mem \<times> 64 word vregs) option" where
  "fmatmul_cols E U K c a b M N P block_size_p p m s =
     (if p < P
      then let p' = min (P - p) block_size_p;
               (vl, s) = vsetvli U (bk_lmul K) p' s
           in Option.bind (fmatmul_rows E U K (c + 8 * p) a (b + 8 * p) M N P 0 m s)
                (\<lambda>(m, s). fmatmul_cols E U K c a b M N P block_size_p (p + block_size_p) m s)
      else Some (m, s))"

definition fmatmul_block :: "64 word eops \<Rightarrow> 64 word vunit \<Rightarrow> block \<Rightarrow> addr \<Rightarrow> addr \<Rightarrow> addr \<Rightarrow> u64 \<Rightarrow> u64 \<Rightarrow> u64 \<Rightarrow>
    mem \<Rightarrow> 64 word vregs \<Rightarrow> (mem \<times> 64 word vregs) option" where
  "fmatmul_block E U K c a b M N P m s =
     (let (block_size_p, s) = vsetvli U (bk_lmul K) P s
      in fmatmul_cols E U K c a b M N P block_size_p 0 m s)"

definition fmatmul_vec_4x4_slice_init :: "64 word vunit \<Rightarrow> 64 word vregs \<Rightarrow> 64 word vregs" where
  "fmatmul_vec_4x4_slice_init U = slice_init U block_4x4"
definition fmatmul_vec_8x8_slice_init :: "64 word vunit \<Rightarrow> 64 word vregs \<Rightarrow> 64 word vregs" where
  "fmatmul_vec_8x8_slice_init U = slice_init U block_8x8"
definition fmatmul_vec_16x16_slice_init :: "64 word vunit \<Rightarrow> 64 word vregs \<Rightarrow> 64 word vregs" where
  "fmatmul_vec_16x16_slice_init U = slice_init U block_16x16"

definition fmatmul_vec_4x4 :: "64 word eops \<Rightarrow> 64 word vunit \<Rightarrow> addr \<Rightarrow> addr \<Rightarrow> addr \<Rightarrow> u64 \<Rightarrow> u64 \<Rightarrow>
    mem \<Rightarrow> 64 word vregs \<Rightarrow> (mem \<times> 64 word vregs) option" where
  "fmatmul_vec_4x4 E U = fmatmul_vec E U block_4x4"
definition fmatmul_vec_8x8 :: "64 word eops \<Rightarrow> 64 word vunit \<Rightarrow> addr \<Rightarrow> addr \<Rightarrow> addr \<Rightarrow> u64 \<Rightarrow> u64 \<Rightarrow>
    mem \<Rightarrow> 64 word vregs \<Rightarrow> (mem \<times> 64 word vregs) option" where
  "fmatmul_vec_8x8 E U = fmatmul_vec E U block_8x8"
definition fmatmul_vec_16x16 :: "64 word eops \<Rightarrow> 64 word vunit \<Rightarrow> addr \<Rightarrow> addr \<Rightarrow> addr \<Rightarrow> u64 \<Rightarrow> u64 \<Rightarrow>
    mem \<Rightarrow> 64 word vregs \<Rightarrow> (mem \<times> 64 word vregs) option" where
  "fmatmul_vec_16x16 E U = fmatmul_vec E U block_16x16"

definition fmatmul_4x4 :: "64 word eops \<Rightarrow> 64 word vunit \<Rightarrow> addr \<Rightarrow> addr \<Rightarrow> addr \<Rightarrow> u64 \<Rightarrow> u64 \<Rightarrow> u64 \<Rightarrow>
    mem \<Rightarrow> 64 word vregs \<Rightarrow> (mem \<times> 64 word vregs) option" where
  "fmatmul_4x4 E U = fmatmul_block E U block_4x4"
definition fmatmul_8x8 :: "64 word eops \<Rightarrow> 64 word vunit \<Rightarrow> addr \<Rightarrow> addr \<Rightarrow> addr \<Rightarrow> u64 \<Rightarrow> u64 \<Rightarrow> u64 \<Rightarrow>
    mem \<Rightarrow> 64 word vregs \<Rightarrow> (mem \<times> 64 word vregs) option" where
  "fmatmul_8x8 E U = fmatmul_block E U block_8x8"
definition fmatmul_16x16 :: "64 word eops \<Rightarrow> 64 word vunit \<Rightarrow> addr \<Rightarrow> addr \<Rightarrow> addr \<Rightarrow> u64 \<Rightarrow> u64 \<Rightarrow> u64 \<Rightarrow>
    mem \<Rightarrow> 64 word vregs \<Rightarrow> (mem \<times> 64 word vregs) option" where
  "fmatmul_16x16 E U = fmatmul_block E U block_16x16"

definition fmatmul :: "64 word eops \<Rightarrow> 64 word vunit \<Rightarrow> addr \<Rightarrow> addr \<Rightarrow> addr \<Rightarrow> u64 \<Rightarrow> u64 \<Rightarrow> u64 \<Rightarrow>
    mem \<Rightarrow> 64 word vregs \<Rightarrow> (mem \<times> 64 word vregs) option" where
  "fmatmul E U c a b M N P =
     (if M \<le> 4 then fmatmul_4x4 E U c a b M N P
      else if M \<le> 8 then fmatmul_8x8 E U c a b M N P
      else if M \<le> 64 then fmatmul_16x16 E U c a b M N P
      else if M \<le> 128 then fmatmul_8x8 E U c a b M N P
      else fmatmul_4x4 E U c a b M N P)"

end
