(* ===== verification/Fmatmul_Spec.thy ===== *)
theory Fmatmul_Spec
  imports Fmatmul
begin

text \<open>
  The matrix product of theory Fmatmul is correct for even inner dimensions and does not return for
  odd ones: the invariant of one block (\<open>block_at\<close>), the words written by the stores, the tiles of
  the two outer loops (\<open>tile_done\<close>, \<open>cols_done\<close>) and the two properties.
\<close>

section \<open>One block\<close>

definition block_ok :: "block \<Rightarrow> bool" where
  "block_ok K \<longleftrightarrow> bk_rows K \<noteq> [] \<and> distinct (bk_b0 K # bk_b1 K # bk_rows K)"

lemma blocks_ok: "block_ok block_4x4" "block_ok block_8x8" "block_ok block_16x16"
  by (simp_all add: block_ok_def block_4x4_def block_8x8_def block_16x16_def)

text \<open>The matrix elements and the chain of multiply-adds.\<close>

definition mat_a :: "mem \<Rightarrow> addr \<Rightarrow> u64 \<Rightarrow> nat \<Rightarrow> nat \<Rightarrow> u64" where
  "mat_a m a N r k = load64 m (a + 8 * (of_nat r * N + of_nat k))"

definition mat_b :: "mem \<Rightarrow> addr \<Rightarrow> u64 \<Rightarrow> nat \<Rightarrow> nat \<Rightarrow> u64" where
  "mat_b m b P k i = load64 m (b + 8 * (of_nat k * P + of_nat i))"

fun chain :: "64 word eops \<Rightarrow> mem \<Rightarrow> addr \<Rightarrow> addr \<Rightarrow> u64 \<Rightarrow> u64 \<Rightarrow> nat \<Rightarrow> nat \<Rightarrow> nat \<Rightarrow> u64" where
  "chain E m a b N P 0 r i = 0"
| "chain E m a b N P (Suc k) r i = eo_macc E (chain E m a b N P k r i) (mat_a m a N r k) (mat_b m b P k i)"

lemma scalars_length [simp]: "length (scalars m p N R) = R"
  by (induction R arbitrary: p) simp_all

lemma scalars_nth: "r < R \<Longrightarrow> scalars m p N R ! r = load64 m (p + 8 * (of_nat r * N))"
  by (induction R arbitrary: p r) (auto simp: nth_Cons algebra_simps split: nat.splits)

lemma scalars_col: "r < R \<Longrightarrow> scalars m (a + 8 * of_nat k) N R ! r = mat_a m a N r k"
  by (simp add: scalars_nth mat_a_def algebra_simps)

lemma fmacc_fold_all:
  "distinct vs \<Longrightarrow> vb \<notin> set vs \<Longrightarrow> length ts = length vs \<Longrightarrow>
   v_vl (fold (\<lambda>(v, x). vfmacc_vf E U v x vb) (zip vs ts) s) = v_vl s \<and>
   (\<forall>v. v \<notin> set vs \<longrightarrow> v_reg (fold (\<lambda>(v, x). vfmacc_vf E U v x vb) (zip vs ts) s) v = v_reg s v) \<and>
   (\<forall>r i. r < length vs \<longrightarrow> i < v_vl s \<longrightarrow>
      v_reg (fold (\<lambda>(v, x). vfmacc_vf E U v x vb) (zip vs ts) s) (vs ! r) i = eo_macc E (v_reg s (vs ! r) i) (ts ! r) (v_reg s vb i))"
proof (induction vs arbitrary: ts s)
  case (Cons w vs)
  obtain x us where ts: "ts = x # us" "length us = length vs" using Cons.prems(3) by (cases ts) auto
  have w: "w \<noteq> vb" "w \<notin> set vs" "distinct vs" "vb \<notin> set vs" using Cons.prems by auto
  let ?s = "vfmacc_vf E U w x vb s"
  have s: "v_vl ?s = v_vl s" "\<And>v. v \<noteq> w \<Longrightarrow> v_reg ?s v = v_reg s v"
    "\<And>i. i < v_vl s \<Longrightarrow> v_reg ?s w i = eo_macc E (v_reg s w i) x (v_reg s vb i)"
    by (simp_all add: vfmacc_vf_def)
  have n: "vs ! r \<noteq> w" if "r < length vs" for r using that w(2) by (metis nth_mem)
  show ?case
    using Cons.IH [OF w(3,4) ts(2), of ?s] s w n unfolding ts(1) by (auto simp: nth_Cons split: nat.splits)
qed simp

lemmas fmacc_fold = fmacc_fold_all [THEN conjunct1] fmacc_fold_all [THEN conjunct2, THEN conjunct1, rule_format]
  fmacc_fold_all [THEN conjunct2, THEN conjunct2, rule_format]

lemma half_step_regs:
  fixes E :: "64 word eops" and U :: "64 word vunit" and m b t s
  assumes "distinct (vb # nxt # bk_rows K)" "bk_rows K \<noteq> []" "length t = length (bk_rows K)"
  defines "s' \<equiv> half_step E U K m vb nxt b t s"
  shows "v_vl s' = v_vl s"
    and "i < v_vl s \<Longrightarrow> v_reg s' nxt i = load64 m (b + of_nat (8 * i))"
    and "r < length (bk_rows K) \<Longrightarrow> i < v_vl s \<Longrightarrow>
      v_reg s' (bk_rows K ! r) i = eo_macc E (v_reg s (bk_rows K ! r) i) (t ! r) (v_reg s vb i)"
proof -
  obtain v vs where rows: "bk_rows K = v # vs" using assms(2) by (cases "bk_rows K") auto
  obtain x ts where t: "t = x # ts" "length ts = length vs" using assms(3) rows by (cases t) auto
  have d: "distinct vs" "vb \<notin> set vs" "nxt \<notin> set vs" "v \<notin> set vs" "vb \<noteq> v" "nxt \<noteq> v" "vb \<noteq> nxt" using assms(1) rows by auto
  define s1 where "s1 = vle64 U nxt m b (vfmacc_vf E U v x vb s)"
  have s': "s' = fold (\<lambda>(v, x). vfmacc_vf E U v x vb) (zip vs ts) s1"
    by (simp add: s'_def half_step_def rows t s1_def Let_def)
  note f = fmacc_fold [OF d(1,2) t(2), where E = E and U = U and s = s1, folded s']
  have neq: "w \<noteq> nxt" "w \<noteq> v" if "w \<in> set vs" for w using that d by auto
  have s1: "v_vl s1 = v_vl s" "v_reg s1 vb = v_reg s vb" "\<And>w. w \<in> set vs \<Longrightarrow> v_reg s1 w = v_reg s w"
    "i < v_vl s \<Longrightarrow> v_reg s1 nxt i = load64 m (b + of_nat (8 * i))"
    "i < v_vl s \<Longrightarrow> v_reg s1 v i = eo_macc E (v_reg s v i) x (v_reg s vb i)" for i
    using d by (auto simp: s1_def vle64_def vfmacc_vf_def neq)
  show "v_vl s' = v_vl s" using f(1) s1(1) by simp
  show "i < v_vl s \<Longrightarrow> v_reg s' nxt i = load64 m (b + of_nat (8 * i))" using f(2) [OF d(3)] s1(4) by simp
  assume h: "r < length (bk_rows K)" "i < v_vl s"
  show "v_reg s' (bk_rows K ! r) i = eo_macc E (v_reg s (bk_rows K ! r) i) (t ! r) (v_reg s vb i)"
  proof (cases r)
    case 0
    then show ?thesis using f(2) [OF d(4)] s1(5) h(2) by (simp add: rows t)
  next
    case (Suc r')
    then have l: "r' < length vs" using h(1) rows by simp
    show ?thesis using f(3) [OF l, of i] s1 h(2) l by (simp add: rows t Suc)
  qed
qed

text \<open>The state of a block after \<open>k\<close> columns of \<open>a\<close>, with row \<open>k\<close> of \<open>b\<close> in the buffer \<open>vb\<close>.\<close>

definition block_at :: "64 word eops \<Rightarrow> block \<Rightarrow> mem \<Rightarrow> addr \<Rightarrow> addr \<Rightarrow> u64 \<Rightarrow> u64 \<Rightarrow> nat \<Rightarrow> nat \<Rightarrow> nat \<Rightarrow>
    u64 list \<Rightarrow> 64 word vregs \<Rightarrow> bool" where
  "block_at E K m a b N P l vb k t s \<longleftrightarrow>
     v_vl s = l \<and> t = scalars m (a + 8 * of_nat k) N (length (bk_rows K)) \<and>
     (\<forall>i < l. v_reg s vb i = mat_b m b P k i \<and>
        (\<forall>r < length (bk_rows K). v_reg s (bk_rows K ! r) i = chain E m a b N P k r i))"

lemma block_half:
  assumes "block_ok K" and "(vb, nxt) = (bk_b0 K, bk_b1 K) \<or> (vb, nxt) = (bk_b1 K, bk_b0 K)"
    and "block_at E K m a b N P l vb k t s" and "b' = b + 8 * (of_nat (Suc k) * P)"
  shows "block_at E K m a b N P l nxt (Suc k) (scalars m (a + 8 * of_nat (Suc k)) N (length (bk_rows K)))
    (half_step E U K m vb nxt b' t s)"
proof -
  have d: "distinct (vb # nxt # bk_rows K)" "bk_rows K \<noteq> []" using assms(1,2) by (auto simp: block_ok_def)
  have t: "length t = length (bk_rows K)" "\<And>r. r < length (bk_rows K) \<Longrightarrow> t ! r = mat_a m a N r k"
    using assms(3) by (auto simp: block_at_def scalars_col)
  note h = half_step_regs [OF d t(1), where E = E and U = U and m = m and b = b' and s = s]
  have "load64 m (b' + of_nat (8 * i)) = mat_b m b P (Suc k) i" for i
    by (simp add: assms(4) mat_b_def algebra_simps)
  then show ?thesis using assms(3) t(2) h unfolding block_at_def by (auto simp del: of_nat_mult of_nat_Suc)
qed

lemma fmatmul_loop_run:
  assumes "block_ok K" and q: "unat N = 2 * q" and "j < q"
    and "block_at E K m a b N P l (bk_b0 K) (2 * j) t s"
  shows "\<exists>t' s'. fmatmul_loop E U K m a N P (of_nat (2 * j)) (b + 8 * (of_nat (Suc (2 * j)) * P)) t s = Some (t', s') \<and>
    block_at E K m a b N P l (bk_b1 K) (2 * q - 1) t' s'"
  using assms(3,4)
proof (induction "q - j" arbitrary: j t s)
  case (Suc r)
  let ?R = "length (bk_rows K)"
  have u: "unat (of_nat n :: u64) = n" if "n \<le> 2 * q" for n
  proof -
    have "unat N < 2 ^ LENGTH(64)" by (rule unsigned_less)
    then show ?thesis by (simp only: unat_of_nat) (use q that in \<open>simp add: take_bit_nat_eq_self\<close>)
  qed
  have eq: "of_nat n = N \<longleftrightarrow> n = 2 * q" if "n \<le> 2 * q" for n
    unfolding word_unat_eq_iff u [OF that] q ..
  have ne: "of_nat (2 * j) \<noteq> N" using eq [of "2 * j"] Suc.prems(1) by simp
  have n1: "of_nat (2 * j) + 1 = (of_nat (Suc (2 * j)) :: u64)" "of_nat (Suc (2 * j)) + 1 = (of_nat (2 * Suc j) :: u64)" by simp_all
  have bn: "b + 8 * (of_nat k * P) + 8 * P = b + 8 * (of_nat (Suc k) * P)" for k by (simp add: algebra_simps)
  define s1 where "s1 = half_step E U K m (bk_b0 K) (bk_b1 K) (b + 8 * (of_nat (Suc (2 * j)) * P)) t s"
  define t1 where "t1 = scalars m (a + 8 * of_nat (Suc (2 * j))) N ?R"
  have i1: "block_at E K m a b N P l (bk_b1 K) (Suc (2 * j)) t1 s1"
    unfolding s1_def t1_def by (rule block_half [OF assms(1) _ Suc.prems(2) refl]) simp
  define s2 where "s2 = half_step E U K m (bk_b1 K) (bk_b0 K) (b + 8 * (of_nat (Suc (Suc (2 * j))) * P)) t1 s1"
  define t2 where "t2 = scalars m (a + 8 * of_nat (Suc (Suc (2 * j)))) N ?R"
  have i2: "block_at E K m a b N P l (bk_b0 K) (2 * Suc j) t2 s2"
    using block_half [OF assms(1) _ i1 refl, where U = U and nxt = "bk_b0 K"] unfolding s2_def t2_def by (simp del: of_nat_Suc of_nat_mult)
  show ?case
  proof (cases "2 * Suc j = 2 * q")
    case True
    then have "of_nat (2 * Suc j) = N" "2 * q - 1 = Suc (2 * j)" using eq [of "2 * Suc j"] by simp_all
    then have "fmatmul_loop E U K m a N P (of_nat (2 * j)) (b + 8 * (of_nat (Suc (2 * j)) * P)) t s = Some (t1, s1)"
      by (subst fmatmul_loop.simps) (simp only: ne not_False_eq_True if_True Let_def n1 t1_def [symmetric] s1_def [symmetric] refl)
    then show ?thesis using i1 \<open>2 * q - 1 = Suc (2 * j)\<close> by auto
  next
    case False
    then have "of_nat (2 * Suc j) \<noteq> N" using eq [of "2 * Suc j"] Suc.prems(1) by simp
    then have "fmatmul_loop E U K m a N P (of_nat (2 * j)) (b + 8 * (of_nat (Suc (2 * j)) * P)) t s =
        fmatmul_loop E U K m a N P (of_nat (2 * Suc j)) (b + 8 * (of_nat (Suc (2 * Suc j)) * P)) t2 s2"
      by (subst fmatmul_loop.simps)
         (simp only: ne not_False_eq_True if_True if_False Let_def n1 bn t1_def [symmetric] s1_def [symmetric] t2_def [symmetric] s2_def [symmetric]
            mult_Suc_right add_2_eq_Suc)
    moreover have "Suc j \<noteq> q" using False by simp
    then have "r = q - Suc j" "Suc j < q" using Suc.hyps(2) Suc.prems(1) by linarith+
    ultimately show ?thesis using Suc.hyps(1) [OF _ _ i2] by simp
  qed
qed simp

section \<open>Stores\<close>

text \<open>The words of an array, and memories that differ only inside an array of \<open>n\<close> words.\<close>

definition word_at :: "mem \<Rightarrow> addr \<Rightarrow> nat \<Rightarrow> u64" where
  "word_at m c q = load64 m (c + of_nat (8 * q))"

definition same_outside :: "addr \<Rightarrow> nat \<Rightarrow> mem \<Rightarrow> mem \<Rightarrow> bool" where
  "same_outside c n m m' \<longleftrightarrow> (\<forall>x. 8 * n \<le> unat (x - c) \<longrightarrow> m' x = m x)"

lemma same_outside_refl [simp]: "same_outside c n m m"
  and same_outside_trans: "same_outside c n m m1 \<Longrightarrow> same_outside c n m1 m2 \<Longrightarrow> same_outside c n m m2"
  by (simp_all add: same_outside_def)

lemma unat_word_offset: "q < 2 ^ 60 \<Longrightarrow> k < 8 \<Longrightarrow> unat (of_nat (8 * q) + of_nat k :: u64) = 8 * q + k"
  by (simp only: of_nat_add [symmetric] unat_of_nat) (simp add: take_bit_nat_eq_self)

lemma word_at_store:
  assumes "q < 2 ^ 60" "q' < 2 ^ 60"
  shows "word_at (store64 m (c + of_nat (8 * q)) v) c q' = (if q' = q then v else word_at m c q')"
proof (cases "q' = q")
  case False
  have "store64 m (c + of_nat (8 * q)) v (c + of_nat (8 * q') + of_nat k) = m (c + of_nat (8 * q') + of_nat k)" if "k < 8" for k
  proof (rule store64_outside)
    let ?x = "of_nat (8 * q') + of_nat k :: u64" and ?y = "of_nat (8 * q) :: u64"
    have x: "unat ?x = 8 * q' + k" "unat ?y = 8 * q"
      using unat_word_offset [OF assms(2) that] unat_word_offset [OF assms(1), of 0] by simp_all
    have d: "c + of_nat (8 * q') + of_nat k - (c + of_nat (8 * q)) = ?x - ?y" by (simp only: algebra_simps)
    show "8 \<le> unat (c + of_nat (8 * q') + of_nat k - (c + of_nat (8 * q)))"
    proof (cases "q < q'")
      case True
      then have "?y \<le> ?x" unfolding word_le_nat_alt x by linarith
      then have "unat (?x - ?y) = 8 * q' + k - 8 * q" by (simp only: unat_sub x)
      then show ?thesis unfolding d using True by linarith
    next
      case less: False
      then have lt: "8 * q' + k < 8 * q" using False that by linarith
      then have u: "unat (?x - ?y) = 8 * q' + k + 2 ^ 64 - 8 * q" by (simp add: unat_sub_if_size x word_size del: of_nat_mult)
      show ?thesis unfolding d u using assms by simp
    qed
  qed
  then show ?thesis using False unfolding word_at_def by (simp only: if_False) (rule load64_cong)
qed (simp add: word_at_def)

lemma same_outside_store: "q < n \<Longrightarrow> n \<le> 2 ^ 60 \<Longrightarrow> same_outside c n m (store64 m (c + of_nat (8 * q)) v)"
proof (unfold same_outside_def, intro allI impI, rule store64_outside)
  fix x :: addr
  assume h: "q < n" "n \<le> 2 ^ 60" "8 * n \<le> unat (x - c)"
  have y: "unat (of_nat (8 * q) :: u64) = 8 * q" using unat_word_offset [of q 0] h by simp
  have "of_nat (8 * q) \<le> x - c" unfolding word_le_nat_alt y using h by linarith
  then have u: "unat (x - c - of_nat (8 * q)) = unat (x - c) - 8 * q" by (simp only: unat_sub y)
  have d: "x - (c + of_nat (8 * q)) = x - c - of_nat (8 * q)" by (simp only: diff_diff_eq)
  show "8 \<le> unat (x - (c + of_nat (8 * q)))" unfolding d u using h by linarith
qed

lemma vse64_words:
  fixes m c v s
  assumes "q0 + v_vl s \<le> n" "n \<le> 2 ^ 60"
  defines "m' \<equiv> vse64 v s (c + of_nat (8 * q0)) m"
  shows "q < n \<Longrightarrow> word_at m' c q = (if q0 \<le> q \<and> q < q0 + v_vl s then v_reg s v (q - q0) else word_at m c q)"
    and "same_outside c n m m'"
proof -
  have "l \<le> v_vl s \<Longrightarrow> same_outside c n m (fold (\<lambda>i m. store64 m (c + of_nat (8 * q0) + of_nat (8 * i)) (v_reg s v i)) [0..<l] m) \<and>
    (\<forall>q < n. word_at (fold (\<lambda>i m. store64 m (c + of_nat (8 * q0) + of_nat (8 * i)) (v_reg s v i)) [0..<l] m) c q =
      (if q0 \<le> q \<and> q < q0 + l then v_reg s v (q - q0) else word_at m c q))" for l
  proof (induction l)
    case (Suc l)
    let ?m = "fold (\<lambda>i m. store64 m (c + of_nat (8 * q0) + of_nat (8 * i)) (v_reg s v i)) [0..<l] m"
    have a: "c + of_nat (8 * q0) + of_nat (8 * l) = c + of_nat (8 * (q0 + l))" by (simp add: algebra_simps)
    have b: "q0 + l < n" using Suc.prems assms(1) by linarith
    have b2: "q0 + l < 2 ^ 60" using b assms(2) by linarith
    have w: "word_at (store64 ?m (c + of_nat (8 * (q0 + l))) (v_reg s v l)) c q =
        (if q = q0 + l then v_reg s v l else word_at ?m c q)" if "q < n" for q
      by (rule word_at_store) (use b2 that assms(2) in linarith)+
    show ?case
      using Suc.IH Suc.prems same_outside_store [OF b assms(2), of c ?m "v_reg s v l"] w
      by (auto simp del: of_nat_mult of_nat_add simp: a intro: same_outside_trans)
  qed auto
  from this [of "v_vl s"] show "q < n \<Longrightarrow> word_at m' c q = (if q0 \<le> q \<and> q < q0 + v_vl s then v_reg s v (q - q0) else word_at m c q)"
    and "same_outside c n m m'"
    by (simp_all add: m'_def vse64_def)
qed

text \<open>The word \<open>q\<close> of the array is in one of \<open>R\<close> rows of \<open>l\<close> columns from \<open>q0\<close> on.\<close>

definition in_tile :: "nat \<Rightarrow> nat \<Rightarrow> nat \<Rightarrow> nat \<Rightarrow> nat \<Rightarrow> bool" where
  "in_tile q0 P R l q \<longleftrightarrow> (\<exists>r < R. \<exists>i < l. q = q0 + r * P + i)"

lemma in_tile_0 [simp]: "\<not> in_tile q0 P 0 l q"
  by (simp add: in_tile_def)

lemma in_tile_Suc: "in_tile q0 P (Suc R) l q \<longleftrightarrow> q0 \<le> q \<and> q < q0 + l \<or> in_tile (q0 + P) P R l q"
proof -
  have "in_tile q0 P (Suc R) l q \<longleftrightarrow> (\<exists>i < l. q = q0 + i) \<or> (\<exists>r < R. \<exists>i < l. q = q0 + Suc r * P + i)"
    unfolding in_tile_def by (auto simp: Ex_less_Suc2)
  moreover have "(\<exists>i < l. q = q0 + i) \<longleftrightarrow> q0 \<le> q \<and> q < q0 + l"
    by (auto intro: exI [of _ "q - q0"])
  ultimately show ?thesis by (simp add: in_tile_def algebra_simps)
qed

lemma store_rows_words:
  assumes "distinct vs" "vb \<notin> set vs" "length ts = length vs" "vs \<noteq> []"
    and "v_vl s \<le> unat P" "q0 + (length vs - 1) * unat P + v_vl s \<le> n" "n \<le> 2 ^ 60"
    and "store_rows E U vb P (zip vs ts) (c + of_nat (8 * q0)) m s = (m', s')"
  shows "v_vl s' = v_vl s \<and> same_outside c n m m' \<and>
    (\<forall>q < n. \<not> in_tile q0 (unat P) (length vs) (v_vl s) q \<longrightarrow> word_at m' c q = word_at m c q) \<and>
    (\<forall>r < length vs. \<forall>i < v_vl s.
       word_at m' c (q0 + r * unat P + i) = eo_macc E (v_reg s (vs ! r) i) (ts ! r) (v_reg s vb i))"
  using assms
proof (induction vs arbitrary: ts q0 m s)
  case (Cons w vs)
  obtain x us where ts: "ts = x # us" "length us = length vs" using Cons.prems(3) by (cases ts) auto
  have d: "w \<notin> set vs" "distinct vs" "vb \<notin> set vs" "w \<noteq> vb" using Cons.prems by auto
  define s1 where "s1 = vfmacc_vf E U w x vb s"
  define m1 where "m1 = vse64 w s1 (c + of_nat (8 * q0)) m"
  have s1: "v_vl s1 = v_vl s" "\<And>v. v \<noteq> w \<Longrightarrow> v_reg s1 v = v_reg s v"
    "\<And>i. i < v_vl s \<Longrightarrow> v_reg s1 w i = eo_macc E (v_reg s w i) x (v_reg s vb i)"
    by (simp_all add: s1_def vfmacc_vf_def)
  have fit: "q0 + v_vl s1 \<le> n" using Cons.prems(6) s1(1) by linarith
  note m1 = vse64_words [OF fit Cons.prems(7), where v = w and c = c and m = m, folded m1_def, unfolded s1(1)]
  have step: "store_rows E U vb P (zip vs us) (c + of_nat (8 * (q0 + unat P))) m1 s1 = (m', s')"
    using Cons.prems(8) by (simp add: ts s1_def m1_def Let_def algebra_simps)
  show ?case
  proof (cases "vs = []")
    case True
    then have e: "m' = m1" "s' = s1" "us = []" using step ts(2) by simp_all
    show ?thesis using m1 s1 fit True unfolding e ts by (auto simp: in_tile_Suc)
  next
    case False
    have len: "(length (w # vs) - 1) * unat P = unat P + (length vs - 1) * unat P" using False by (cases vs) simp_all
    have fit': "q0 + unat P + (length vs - 1) * unat P + v_vl s1 \<le> n" using Cons.prems(6) len s1(1) by linarith
    have vl: "v_vl s1 \<le> unat P" using Cons.prems(5) s1(1) by simp
    note IH = Cons.IH [OF d(2,3) ts(2) False vl fit' Cons.prems(7) step, unfolded s1(1)]
    have tail: "word_at m' c (q0 + Suc r * unat P + i) = eo_macc E (v_reg s (vs ! r) i) (us ! r) (v_reg s vb i)"
      if "r < length vs" "i < v_vl s" for r i
    proof -
      have "vs ! r \<noteq> w" using that d(1) by (metis nth_mem)
      then show ?thesis using IH that s1(2) d(4) by (simp add: algebra_simps)
    qed
    have head: "word_at m' c (q0 + i) = eo_macc E (v_reg s w i) x (v_reg s vb i)" if "i < v_vl s" for i
    proof -
      have "\<not> in_tile (q0 + unat P) (unat P) (length vs) (v_vl s) (q0 + i)"
        using that Cons.prems(5) by (auto simp: in_tile_def)
      then show ?thesis using IH m1(1) [of "q0 + i"] that fit s1 by auto
    qed
    show ?thesis
      using IH m1 s1(1) head tail same_outside_trans [OF m1(2)]
      by (auto simp: in_tile_Suc ts nth_Cons split: nat.splits)
  qed
qed simp

section \<open>The loops over the tiles of the result\<close>

definition reads_apart :: "addr \<Rightarrow> nat \<Rightarrow> addr \<Rightarrow> nat \<Rightarrow> bool" where
  "reads_apart c n a k \<longleftrightarrow> (\<forall>x < 8 * k. 8 * n \<le> unat (a + of_nat x - c))"

lemma load_apart:
  assumes "reads_apart c n a k" "same_outside c n m m'" "q < k"
  shows "load64 m' (a + of_nat (8 * q)) = load64 m (a + of_nat (8 * q))"
proof (rule load64_cong)
  fix i :: nat assume i: "i < 8"
  have e: "a + of_nat (8 * q) + of_nat i = a + of_nat (8 * q + i)" by (simp only: of_nat_add add.assoc)
  have "8 * q + i < 8 * k" using assms(3) i by linarith
  then have "8 * n \<le> unat (a + of_nat (8 * q + i) - c)" using assms(1) unfolding reads_apart_def by blast
  then show "m' (a + of_nat (8 * q) + of_nat i) = m (a + of_nat (8 * q) + of_nat i)"
    using assms(2) unfolding e same_outside_def by blast
qed

lemma mat_apart:
  assumes "same_outside c n m m'"
  shows "reads_apart c n a (R * unat N) \<Longrightarrow> r < R \<Longrightarrow> k < unat N \<Longrightarrow> mat_a m' a N r k = mat_a m a N r k"
    and "reads_apart c n b (Q * unat P) \<Longrightarrow> k < Q \<Longrightarrow> i < unat P \<Longrightarrow> mat_b m' b P k i = mat_b m b P k i"
proof -
  have lt: "x * w + y < R' * w" if "x < R'" "y < w" for x y w R' :: nat
  proof -
    have "x * w + y < Suc x * w" using that by simp
    also have "\<dots> \<le> R' * w" using that by (intro mult_le_mono1) simp
    finally show ?thesis .
  qed
  have ix: "8 * (of_nat x * W + of_nat y) = (of_nat (8 * (x * unat W + y)) :: u64)" for x y and W :: u64 by simp
  show "reads_apart c n a (R * unat N) \<Longrightarrow> r < R \<Longrightarrow> k < unat N \<Longrightarrow> mat_a m' a N r k = mat_a m a N r k"
    unfolding mat_a_def ix by (rule load_apart [OF _ assms]) (auto intro: lt)
  show "reads_apart c n b (Q * unat P) \<Longrightarrow> k < Q \<Longrightarrow> i < unat P \<Longrightarrow> mat_b m' b P k i = mat_b m b P k i"
    unfolding mat_b_def ix by (rule load_apart [OF _ assms]) (auto intro: lt)
qed

lemma chain_apart:
  assumes "same_outside c n m m'" "reads_apart c n a (R * unat N)" "reads_apart c n b (unat N * unat P)" "r < R" "i < unat P"
  shows "k \<le> unat N \<Longrightarrow> chain E m' a b N P k r i = chain E m a b N P k r i"
  by (induction k) (use mat_apart [OF assms(1)] assms in auto)

lemma chain_shift:
  "chain E m (a + 8 * (of_nat i0 * N)) (b + 8 * of_nat p) N P k r i = chain E m a b N P k (i0 + r) (p + i)"
proof (induction k)
  case (Suc k)
  have "mat_a m (a + 8 * (of_nat i0 * N)) N r k = mat_a m a N (i0 + r) k" by (simp add: mat_a_def algebra_simps)
  moreover have "mat_b m (b + 8 * of_nat p) P k i = mat_b m b P k (p + i)" by (simp add: mat_b_def algebra_simps)
  ultimately show ?case by (simp only: chain.simps Suc)
qed simp

text \<open>\<open>m'\<close> is \<open>m\<close> with the result in rows \<open>i0\<close> to \<open>i0 + R - 1\<close> and columns \<open>p\<close> to \<open>p + l - 1\<close>.\<close>

definition tile_done :: "64 word eops \<Rightarrow> addr \<Rightarrow> nat \<Rightarrow> addr \<Rightarrow> addr \<Rightarrow> u64 \<Rightarrow> u64 \<Rightarrow> nat \<Rightarrow> nat \<Rightarrow> nat \<Rightarrow> nat \<Rightarrow> mem \<Rightarrow> mem \<Rightarrow> bool" where
  "tile_done E c n a b N P p l i0 R m m' \<longleftrightarrow> same_outside c n m m' \<and>
     (\<forall>q < n. \<not> in_tile (i0 * unat P + p) (unat P) R l q \<longrightarrow> word_at m' c q = word_at m c q) \<and>
     (\<forall>r < R. \<forall>y < l. word_at m' c ((i0 + r) * unat P + p + y) = chain E m a b N P (unat N) (i0 + r) (p + y))"

lemma tile_doneD:
  assumes "tile_done E c n a b N P p l i0 R m m'"
  shows "same_outside c n m m'"
    and "q < n \<Longrightarrow> \<not> in_tile (i0 * unat P + p) (unat P) R l q \<Longrightarrow> word_at m' c q = word_at m c q"
    and "r < R \<Longrightarrow> y < l \<Longrightarrow> word_at m' c ((i0 + r) * unat P + p + y) = chain E m a b N P (unat N) (i0 + r) (p + y)"
  using assms unfolding tile_done_def by blast+

lemma tile_done_empty: "tile_done E c n a b N P p l i0 0 m m"
  by (simp add: tile_done_def)

lemma in_tile_add: "in_tile q0 P (R1 + R2) l q \<longleftrightarrow> in_tile q0 P R1 l q \<or> in_tile (q0 + R1 * P) P R2 l q"
  by (induction R1 arbitrary: q0) (simp_all add: in_tile_Suc add.assoc)

lemma tile_done_append:
  assumes "tile_done E c n a b N P p l i0 R1 m m1" "tile_done E c n a b N P p l (i0 + R1) R2 m1 m2"
    and "reads_apart c n a (M * unat N)" "reads_apart c n b (unat N * unat P)"
    and "i0 + R1 + R2 \<le> M" "p + l \<le> unat P" "M * unat P \<le> n"
  shows "tile_done E c n a b N P p l i0 (R1 + R2) m m2"
proof -
  have s: "same_outside c n m m1" using assms(1) by (simp add: tile_done_def)
  have ch: "chain E m1 a b N P (unat N) i j = chain E m a b N P (unat N) i j" if "i < M" "j < unat P" for i j
    using chain_apart [OF s assms(3,4) that] by simp
  have lt: "i * unat P + p + y < Suc i * unat P" if "y < l" for i y using that assms(6) by simp
  have idx: "i * unat P + p + y < n" if "i < M" "y < l" for i y
  proof -
    have "Suc i * unat P \<le> M * unat P" using that by (intro mult_le_mono1) simp
    then show ?thesis using lt [OF that(2), of i] assms(7) by linarith
  qed
  have far: "\<not> in_tile ((i0 + R1) * unat P + p) (unat P) R2 l ((i0 + r) * unat P + p + y)" if "r < R1" "y < l" for r y
  proof -
    have "Suc (i0 + r) * unat P \<le> (i0 + R1) * unat P" using that by (intro mult_le_mono1) simp
    then show ?thesis using lt [OF that(2), of "i0 + r"] by (auto simp: in_tile_def)
  qed
  have "word_at m2 c ((i0 + r) * unat P + p + y) = chain E m a b N P (unat N) (i0 + r) (p + y)" if "r < R1 + R2" "y < l" for r y
  proof (cases "r < R1")
    case True
    have "i0 + r < M" using True assms(5) by linarith
    then show ?thesis using tile_doneD(2) [OF assms(2) idx far [OF True that(2)]] tile_doneD(3) [OF assms(1) True that(2)] that(2) by simp
  next
    case False
    define r' where "r' = r - R1"
    have r: "r = R1 + r'" "r' < R2" using False \<open>r < R1 + R2\<close> unfolding r'_def by linarith+
    have "word_at m2 c ((i0 + R1 + r') * unat P + p + y) = chain E m1 a b N P (unat N) (i0 + R1 + r') (p + y)"
      by (rule tile_doneD(3) [OF assms(2) r(2) that(2)])
    moreover have "chain E m1 a b N P (unat N) (i0 + R1 + r') (p + y) = chain E m a b N P (unat N) (i0 + R1 + r') (p + y)"
      by (rule ch) (use r(2) that(2) assms(5,6) in linarith)+
    ultimately show ?thesis unfolding r(1) by (simp only: add.assoc)
  qed
  moreover have "same_outside c n m m2"
    by (rule same_outside_trans [OF s tile_doneD(1) [OF assms(2)]])
  moreover have "word_at m2 c q = word_at m c q" if "q < n" "\<not> in_tile (i0 * unat P + p) (unat P) (R1 + R2) l q" for q
  proof -
    have e: "i0 * unat P + p + R1 * unat P = (i0 + R1) * unat P + p" by (simp add: algebra_simps)
    have "\<not> in_tile (i0 * unat P + p) (unat P) R1 l q" "\<not> in_tile ((i0 + R1) * unat P + p) (unat P) R2 l q"
      using that(2) unfolding in_tile_add e by blast+
    then show ?thesis using tile_doneD(2) [OF assms(1) that(1)] tile_doneD(2) [OF assms(2) that(1)] by simp
  qed
  ultimately show ?thesis unfolding tile_done_def by simp
qed

text \<open>A block of rows.\<close>

lemma slice_init_regs:
  "v_vl (fold (\<lambda>v. vmv_v_i U v 0) vs s) = v_vl s \<and>
   (\<forall>v \<in> set vs. \<forall>i < v_vl s. v_reg (fold (\<lambda>v. vmv_v_i U v 0) vs s) v i = 0)"
proof (induction vs rule: rev_induct)
  case (snoc v vs)
  have "v_reg (vmv_v_i U v 0 s) w i = (if w = v \<and> i < v_vl s then 0 else if w = v then vu_tail U i (v_reg s v i) else v_reg s w i)" for s w i
    by (simp add: vmv_v_i_def v_write_def)
  moreover have "v_vl (vmv_v_i U v 0 s) = v_vl s" for s by (simp add: vmv_v_i_def)
  ultimately show ?case using snoc by auto
qed simp

lemma fmatmul_vec_run:
  assumes K: "block_ok K" and q: "unat N = 2 * q" "0 < q" and l: "v_vl s = l" "p + l \<le> unat P"
    and n: "(i0 + length (bk_rows K)) * unat P \<le> n" "n \<le> 2 ^ 60"
  shows "\<exists>m' s'. fmatmul_vec E U K (c + of_nat (8 * (i0 * unat P + p))) (a + 8 * (of_nat i0 * N)) (b + 8 * of_nat p) N P m (slice_init U K s) =
      Some (m', s') \<and> v_vl s' = l \<and> tile_done E c n a b N P p l i0 (length (bk_rows K)) m m'"
proof -
  let ?R = "length (bk_rows K)" and ?a = "a + 8 * (of_nat i0 * N)" and ?b = "b + 8 * of_nat p"
  have d: "distinct (bk_rows K)" "bk_b1 K \<notin> set (bk_rows K)" "bk_b0 K \<notin> set (bk_rows K)" "bk_rows K \<noteq> []" "bk_b0 K \<noteq> bk_b1 K"
    using K by (auto simp: block_ok_def)
  define s0 where "s0 = vle64 U (bk_b0 K) m ?b (slice_init U K s)"
  define t0 where "t0 = scalars m ?a N ?R"
  have init: "v_vl (slice_init U K s) = l" "\<And>r i. r < ?R \<Longrightarrow> i < l \<Longrightarrow> v_reg (slice_init U K s) (bk_rows K ! r) i = 0"
    using slice_init_regs [of U "bk_rows K" s] l(1) by (auto simp: slice_init_def)
  have ne: "bk_rows K ! r \<noteq> bk_b0 K" if "r < ?R" for r using that d(3) by (metis nth_mem)
  have "block_at E K m ?a ?b N P l (bk_b0 K) (2 * 0) t0 s0"
    using init ne by (auto simp: block_at_def s0_def t0_def vle64_def mat_b_def)
  from fmatmul_loop_run [OF K q(1,2) this, of U]
  obtain t1 s1 where run: "fmatmul_loop E U K m ?a N P 0 (?b + 8 * P) t0 s0 = Some (t1, s1)"
    and at: "block_at E K m ?a ?b N P l (bk_b1 K) (2 * q - 1) t1 s1" by auto
  obtain m' s' where st: "store_rows E U (bk_b1 K) P (zip (bk_rows K) t1) (c + of_nat (8 * (i0 * unat P + p))) m s1 = (m', s')" by fastforce
  have t1: "length t1 = ?R" and v1: "v_vl s1 = l" using at by (simp_all add: block_at_def)
  have R: "0 < ?R" using d(4) by simp
  have "(i0 + ?R) * unat P = i0 * unat P + ((?R - 1) * unat P + unat P)" using R by (cases ?R) (simp_all add: algebra_simps)
  then have fit: "i0 * unat P + p + (?R - 1) * unat P + v_vl s1 \<le> n" using l(2) n(1) v1 by linarith
  have lP: "v_vl s1 \<le> unat P" using v1 l(2) by simp
  note w = store_rows_words [OF d(1,2) t1 d(4) lP fit n(2) st, unfolded v1]
  have last: "unat N = Suc (2 * q - 1)" using q by simp
  have "eo_macc E (v_reg s1 (bk_rows K ! r) y) (t1 ! r) (v_reg s1 (bk_b1 K) y) = chain E m a b N P (unat N) (i0 + r) (p + y)"
    if "r < ?R" "y < l" for r y
    unfolding chain_shift [symmetric] last chain.simps using at that by (simp add: block_at_def scalars_col del: of_nat_diff)
  then have "tile_done E c n a b N P p l i0 ?R m m'" using w unfolding tile_done_def by (auto simp: algebra_simps)
  then show ?thesis using run st w by (auto simp: fmatmul_vec_def s0_def [symmetric] t0_def [symmetric] Let_def)
qed

lemma unat_of_small: "n \<le> 2 ^ 60 \<Longrightarrow> unat (of_nat n :: u64) = n"
  by (simp only: unat_of_nat) (simp add: take_bit_nat_eq_self)

text \<open>The rows from block \<open>j\<close> on, \<open>J\<close> blocks in all.\<close>

lemma fmatmul_rows_run:
  assumes K: "block_ok K" and q: "unat N = 2 * q" "0 < q" and l: "p + l \<le> unat P" "0 < l"
    and J: "length (bk_rows K) * J * unat P \<le> n" "n \<le> 2 ^ 60" "unat M \<le> length (bk_rows K) * J"
      "\<And>j. j < J \<Longrightarrow> length (bk_rows K) * j < unat M"
    and apart: "reads_apart c n a (length (bk_rows K) * J * unat N)" "reads_apart c n b (unat N * unat P)"
    and jJ: "j \<le> J" "v_vl s = l"
  shows "\<exists>m' s'. fmatmul_rows E U K (c + 8 * of_nat p) a (b + 8 * of_nat p) M N P (of_nat (length (bk_rows K) * j)) m s =
      Some (m', s') \<and> v_vl s' = l \<and>
      tile_done E c n a b N P p l (length (bk_rows K) * j) (length (bk_rows K) * J - length (bk_rows K) * j) m m'"
  using jJ
proof (induction "J - j" arbitrary: j m s)
  case 0
  let ?R = "length (bk_rows K)"
  have j: "j = J" using 0 by simp
  have "?R * J \<le> n"
  proof -
    have "?R * J * 1 \<le> ?R * J * unat P" using l by (intro mult_le_mono2) linarith
    then show ?thesis using J(1) by linarith
  qed
  then have "unat (of_nat (?R * J) :: u64) = ?R * J" using J(2) by (intro unat_of_small) linarith
  then have "\<not> of_nat (?R * J) < M" using J(3) unfolding word_less_nat_alt by linarith
  then show ?case using 0(3) tile_done_empty by (subst fmatmul_rows.simps) (simp add: j del: of_nat_mult)
next
  case (Suc r)
  let ?R = "length (bk_rows K)" and ?i = "of_nat (length (bk_rows K) * j) :: u64"
  have jJ: "j < J" using Suc.hyps(2) by linarith
  have RJ: "?R * Suc j \<le> ?R * J" using jJ by (intro mult_le_mono2) simp
  have RJn: "?R * J \<le> n"
  proof -
    have "?R * J * 1 \<le> ?R * J * unat P" using l by (intro mult_le_mono2) linarith
    then show ?thesis using J(1) by linarith
  qed
  have "unat ?i = ?R * j" using RJ RJn J(2) by (intro unat_of_small) (simp add: algebra_simps)
  then have less: "?i < M" using J(4) [OF jJ] unfolding word_less_nat_alt by simp
  have ca: "c + 8 * of_nat p + 8 * (?i * P) = c + of_nat (8 * (?R * j * unat P + p))" by (simp add: algebra_simps)
  have nx: "?i + of_nat ?R = of_nat (?R * Suc j)" by (simp add: algebra_simps)
  have fit: "(?R * j + ?R) * unat P \<le> n"
  proof -
    have "?R * Suc j * unat P \<le> ?R * J * unat P" using RJ by (intro mult_le_mono1)
    then show ?thesis using J(1) by (simp add: algebra_simps)
  qed
  obtain m1 s1 where v: "fmatmul_vec E U K (c + 8 * of_nat p + 8 * (?i * P)) (a + 8 * (?i * N)) (b + 8 * of_nat p) N P m (slice_init U K s) =
      Some (m1, s1)" "v_vl s1 = l" "tile_done E c n a b N P p l (?R * j) ?R m m1"
    using fmatmul_vec_run [OF K q Suc.prems(2) l(1) fit J(2)] unfolding ca by blast
  have step: "fmatmul_rows E U K (c + 8 * of_nat p) a (b + 8 * of_nat p) M N P ?i m s =
      fmatmul_rows E U K (c + 8 * of_nat p) a (b + 8 * of_nat p) M N P (of_nat (?R * Suc j)) m1 s1"
    by (subst fmatmul_rows.simps) (simp only: less if_True v(1) Option.bind.simps prod.case nx)
  have "r = J - Suc j" "Suc j \<le> J" using Suc.hyps(2) jJ by linarith+
  from Suc.hyps(1) [OF this v(2), of m1] obtain m2 s2 where
    t: "fmatmul_rows E U K (c + 8 * of_nat p) a (b + 8 * of_nat p) M N P (of_nat (?R * Suc j)) m1 s1 = Some (m2, s2)" "v_vl s2 = l"
      "tile_done E c n a b N P p l (?R * Suc j) (?R * J - ?R * Suc j) m1 m2" by blast
  have e: "?R * j + ?R = ?R * Suc j" "?R + (?R * J - ?R * Suc j) = ?R * J - ?R * j" "?R * j + ?R + (?R * J - ?R * Suc j) \<le> ?R * J"
    using RJ by simp_all
  have "tile_done E c n a b N P p l (?R * j) (?R + (?R * J - ?R * Suc j)) m m2"
    by (rule tile_done_append [OF v(3) _ apart e(3) l(1) J(1)]) (simp only: e(1) t(3))
  then show ?case unfolding step e(2) using t by blast
qed

text \<open>The columns from \<open>p\<close> on.\<close>

definition cols_done :: "64 word eops \<Rightarrow> addr \<Rightarrow> nat \<Rightarrow> addr \<Rightarrow> addr \<Rightarrow> u64 \<Rightarrow> u64 \<Rightarrow> nat \<Rightarrow> nat \<Rightarrow> mem \<Rightarrow> mem \<Rightarrow> bool" where
  "cols_done E c n a b N P p R m m' \<longleftrightarrow> same_outside c n m m' \<and>
     (\<forall>i < R. \<forall>j < unat P. word_at m' c (i * unat P + j) =
        (if p \<le> j then chain E m a b N P (unat N) i j else word_at m c (i * unat P + j)))"

lemma in_tile_pos:
  assumes "i < R" "j < P" "p + l \<le> P"
  shows "in_tile p P R l (i * P + j) \<longleftrightarrow> p \<le> j \<and> j < p + l"
proof
  assume "in_tile p P R l (i * P + j)"
  then obtain r y where h: "y < l" "i * P + j = p + r * P + y" by (auto simp: in_tile_def)
  have "(i * P + j) mod P = j" "(p + y + r * P) mod P = p + y" using assms h(1) by simp_all
  moreover have "i * P + j = p + y + r * P" using h(2) by simp
  ultimately have "j = p + y" by metis
  then show "p \<le> j \<and> j < p + l" using h(1) by simp
next
  assume h: "p \<le> j \<and> j < p + l"
  then have "p \<le> j" "j < p + l" by simp_all
  then have "i * P + j = p + i * P + (j - p)" "j - p < l" by linarith+
  then show "in_tile p P R l (i * P + j)" using assms(1) unfolding in_tile_def by blast
qed

lemma cols_done_step:
  assumes "tile_done E c n a b N P p l 0 R m m1" "cols_done E c n a b N P (p + l) R m1 m2"
    and "reads_apart c n a (R * unat N)" "reads_apart c n b (unat N * unat P)" "p + l \<le> unat P" "R * unat P \<le> n"
  shows "cols_done E c n a b N P p R m m2"
proof -
  have s: "same_outside c n m m1" by (rule tile_doneD(1) [OF assms(1)])
  have "word_at m2 c (i * unat P + j) = (if p \<le> j then chain E m a b N P (unat N) i j else word_at m c (i * unat P + j))"
    if "i < R" "j < unat P" for i j
  proof -
    have m2: "word_at m2 c (i * unat P + j) = (if p + l \<le> j then chain E m1 a b N P (unat N) i j else word_at m1 c (i * unat P + j))"
      using assms(2) that by (simp add: cols_done_def)
    have "Suc i * unat P \<le> R * unat P" using that by (intro mult_le_mono1) simp
    then have n: "i * unat P + j < n" using that assms(6) by simp
    consider "j < p" | "p \<le> j" "j < p + l" | "p + l \<le> j" by linarith
    then show ?thesis
    proof cases
      case 1
      then have "\<not> in_tile (0 * unat P + p) (unat P) R l (i * unat P + j)" using in_tile_pos [OF that assms(5)] by simp
      then show ?thesis using tile_doneD(2) [OF assms(1) n] 1 m2 by simp
    next
      case 2
      have "word_at m1 c ((0 + i) * unat P + p + (j - p)) = chain E m a b N P (unat N) (0 + i) (p + (j - p))"
        using 2 by (intro tile_doneD(3) [OF assms(1) that(1)]) linarith
      then show ?thesis using 2 m2 by (simp add: add.assoc)
    next
      case 3
      then show ?thesis using m2 chain_apart [OF s assms(3,4) that] by simp
    qed
  qed
  moreover have "same_outside c n m m2" using assms(2) by (intro same_outside_trans [OF s]) (simp add: cols_done_def)
  ultimately show ?thesis unfolding cols_done_def by blast
qed

lemma fmatmul_cols_run:
  assumes K: "block_ok K" and q: "unat N = 2 * q" "0 < q" and set: "rvv_set (vu_set U)"
    and bs: "0 < unat bs" "unat bs \<le> vlmax U (bk_lmul K)" "unat bs \<le> unat P"
    and J: "length (bk_rows K) * J * unat P \<le> n" "n \<le> 2 ^ 60" "unat M \<le> length (bk_rows K) * J"
      "\<And>j. j < J \<Longrightarrow> length (bk_rows K) * j < unat M" "0 < J"
    and apart: "reads_apart c n a (length (bk_rows K) * J * unat N)" "reads_apart c n b (unat N * unat P)" and pP: "p \<le> 2 * unat P"
  shows "\<exists>m' s'. fmatmul_cols E U K c a b M N P bs (of_nat p) m s = Some (m', s') \<and>
      cols_done E c n a b N P p (length (bk_rows K) * J) m m'"
  using pP
proof (induction "unat P - p" arbitrary: p m s rule: less_induct)
  case less
  let ?R = "length (bk_rows K)"
  have R: "0 < ?R" using K by (simp add: block_ok_def)
  have Pn: "unat P \<le> n"
  proof -
    have "1 \<le> ?R * J" using R J(5) by (simp only: Suc_le_eq One_nat_def nat_0_less_mult_iff)
    then have "1 * unat P \<le> ?R * J * unat P" by (intro mult_le_mono1)
    then show ?thesis using J(1) by linarith
  qed
  have up: "unat (of_nat p :: u64) = p"
    by (simp only: unat_of_nat) (use less.prems Pn J(2) in \<open>simp add: take_bit_nat_eq_self\<close>)
  show ?case
  proof (cases "p < unat P")
    case False
    then have "\<not> of_nat p < P" unfolding word_less_nat_alt up .
    then have "fmatmul_cols E U K c a b M N P bs (of_nat p) m s = Some (m, s)" by (subst fmatmul_cols.simps) simp
    then show ?thesis using False by (auto simp: cols_done_def)
  next
    case True
    then have lt: "of_nat p < P" unfolding word_less_nat_alt up .
    define l where "l = min (unat P - p) (unat bs)"
    have l: "p + l \<le> unat P" "0 < l" "l \<le> vlmax U (bk_lmul K)" using True bs by (auto simp: l_def)
    have sub: "unat (P - of_nat p) = unat P - p" using unat_sub [OF less_imp_le [OF lt]] up by simp
    have ul: "unat (min (P - of_nat p) bs) = l" unfolding l_def sub [symmetric] by (simp add: min_def word_le_nat_alt)
    define s1 where "s1 = s\<lparr>v_vl := l\<rparr>"
    have vs: "vsetvli U (bk_lmul K) (min (P - of_nat p) bs) s = (of_nat l, s1)"
      unfolding vsetvli_def ul rvv_set_small [OF set l(3)] s1_def by (simp only: Let_def)
    have v1: "v_vl s1 = l" by (simp add: s1_def)
    obtain m1 s2 where r: "fmatmul_rows E U K (c + 8 * of_nat p) a (b + 8 * of_nat p) M N P 0 m s1 = Some (m1, s2)"
      "tile_done E c n a b N P p l 0 (?R * J) m m1"
      using fmatmul_rows_run [where j = 0 and E = E and U = U and m = m, OF K q l(1,2) J(1-4) apart _ v1] by auto
    have nx: "of_nat p + bs = (of_nat (p + unat bs) :: u64)" by simp
    have step: "fmatmul_cols E U K c a b M N P bs (of_nat p) m s = fmatmul_cols E U K c a b M N P bs (of_nat (p + unat bs)) m1 s2"
      by (subst fmatmul_cols.simps) (simp only: lt if_True Let_def vs prod.case r(1) Option.bind.simps nx)
    have "unat P - (p + unat bs) < unat P - p" "p + unat bs \<le> 2 * unat P" using True bs by linarith+
    from less.hyps [OF this] obtain m2 s3 where
      t: "fmatmul_cols E U K c a b M N P bs (of_nat (p + unat bs)) m1 s2 = Some (m2, s3)" "cols_done E c n a b N P (p + unat bs) (?R * J) m1 m2" by blast
    have "cols_done E c n a b N P (p + l) (?R * J) m1 m2"
      using t(2) by (auto simp: cols_done_def l_def min_def)
    then show ?thesis unfolding step using cols_done_step [OF r(2) _ apart l(1) J(1)] t(1) by blast
  qed
qed

section \<open>The product\<close>

text \<open>The block that \<open>fmatmul\<close> selects.\<close>

definition fmatmul_kernel :: "u64 \<Rightarrow> block" where
  "fmatmul_kernel M = (if M \<le> 4 then block_4x4 else if M \<le> 8 then block_8x8 else if M \<le> 64 then block_16x16
     else if M \<le> 128 then block_8x8 else block_4x4)"

lemma fmatmul_kernel: "fmatmul E U c a b M N P = fmatmul_block E U (fmatmul_kernel M) c a b M N P"
  by (simp add: fmatmul_def fmatmul_kernel_def fmatmul_4x4_def fmatmul_8x8_def fmatmul_16x16_def)

lemma fmatmul_kernel_ok: "block_ok (fmatmul_kernel M)"
  by (simp add: fmatmul_kernel_def blocks_ok)

text \<open>The number of rows of \<open>c\<close> that are written: \<open>M\<close> rounded up to whole blocks.\<close>

definition fmatmul_height :: "u64 \<Rightarrow> nat" where
  "fmatmul_height M = (let R = length (bk_rows (fmatmul_kernel M)) in R * ((unat M + R - 1) div R))"

text \<open>C20. \<open>fmatmul\<close> computes the matrix product: on every vector unit of the standard, for an even and
  positive inner dimension and arrays of \<open>a\<close> and \<open>b\<close> that do not overlap \<open>c\<close>, it returns, every element
  of \<open>c\<close> is the chain of multiply-adds of a row of \<open>a\<close> and a column of \<open>b\<close> in order, starting from zero,
  and nothing is written outside \<open>c\<close>, where \<open>c\<close> needs to have as many rows as whole blocks of the
  selected kernel.\<close>

theorem fmatmul_product:
  assumes "rvv_set (vu_set U)" and "0 < vlmax U (bk_lmul (fmatmul_kernel M))"
    and "even (unat N)" "0 < N" "0 < M" "0 < P"
    and "fmatmul_height M * unat P \<le> 2 ^ 60"
    and "reads_apart c (fmatmul_height M * unat P) a (fmatmul_height M * unat N)"
    and "reads_apart c (fmatmul_height M * unat P) b (unat N * unat P)"
  shows "\<exists>m' s'. fmatmul E U c a b M N P m s = Some (m', s') \<and>
    (\<forall>i < fmatmul_height M. \<forall>j < unat P. word_at m' c (i * unat P + j) = chain E m a b N P (unat N) i j) \<and>
    same_outside c (fmatmul_height M * unat P) m m'"
proof -
  define K where "K = fmatmul_kernel M"
  define R where "R = length (bk_rows K)"
  define J where "J = (unat M + R - 1) div R"
  have K: "block_ok K" by (simp add: K_def fmatmul_kernel_ok)
  have R: "0 < R" using K by (simp add: block_ok_def R_def)
  have h: "fmatmul_height M = R * J" by (simp add: fmatmul_height_def K_def [symmetric] R_def [symmetric] J_def Let_def)
  have pos: "0 < unat M" "0 < unat N" "0 < unat P" using assms(4-6) by (simp_all add: word_less_nat_alt)
  obtain q where q: "unat N = 2 * q" using assms(3) by blast
  have q0: "0 < q" using q pos by simp
  have J: "unat M \<le> R * J" "0 < J" "\<And>j. j < J \<Longrightarrow> R * j < unat M"
  proof -
    have d: "R * J + (unat M + R - 1) mod R = unat M + R - 1" unfolding J_def by (rule mult_div_mod_eq)
    have m: "(unat M + R - 1) mod R < R" using R by simp
    show "unat M \<le> R * J" using d m by linarith
    then show "0 < J" using pos(1) by (cases J) simp_all
    fix j assume "j < J"
    then have "R * Suc j \<le> R * J" by (intro mult_le_mono2) simp
    then show "R * j < unat M" using d R pos(1) by simp
  qed
  define bs where "bs = (of_nat (vu_set U (vlmax U (bk_lmul K)) (unat P)) :: u64)"
  note sb = rvv_set_bounds [OF assms(1), of "vlmax U (bk_lmul K)" "unat P"]
  have uP: "unat P < 2 ^ LENGTH(64)" by (rule unsigned_less)
  have lt: "vu_set U (vlmax U (bk_lmul K)) (unat P) < 2 ^ LENGTH(64)" using sb(1) uP by (rule le_less_trans)
  have ub: "unat bs = vu_set U (vlmax U (bk_lmul K)) (unat P)"
    unfolding bs_def by (simp only: unat_of_nat) (use lt in \<open>simp add: take_bit_nat_eq_self\<close>)
  have bs: "0 < unat bs" "unat bs \<le> vlmax U (bk_lmul K)" "unat bs \<le> unat P"
    unfolding ub using sb assms(2) pos(3) by (simp_all add: K_def)
  have vs: "vsetvli U (bk_lmul K) P s = (bs, s\<lparr>v_vl := unat bs\<rparr>)" by (simp add: vsetvli_def ub bs_def [symmetric] Let_def)
  have "\<exists>m' s'. fmatmul_cols E U K c a b M N P bs (of_nat 0) m (s\<lparr>v_vl := unat bs\<rparr>) = Some (m', s') \<and>
      cols_done E c (R * J * unat P) a b N P 0 (length (bk_rows K) * J) m m'"
    by (rule fmatmul_cols_run [OF K q q0 assms(1) bs, where J = J]) (use J assms(7-9) in \<open>simp_all add: h R_def\<close>)
  then obtain m' s' where run: "fmatmul_cols E U K c a b M N P bs 0 m (s\<lparr>v_vl := unat bs\<rparr>) = Some (m', s')"
    and cd: "cols_done E c (R * J * unat P) a b N P 0 (R * J) m m'" unfolding R_def [symmetric] by auto
  show ?thesis
    using run cd unfolding fmatmul_kernel fmatmul_block_def K_def [symmetric] vs by (auto simp: h cols_done_def)
qed

lemma reads_apart_below:
  assumes "unat a + 8 * k \<le> unat c" "unat c + 8 * n \<le> 2 ^ 64"
  shows "reads_apart c n a k"
  unfolding reads_apart_def
proof (intro allI impI)
  fix x assume x: "x < 8 * k"
  have "unat c < 2 ^ LENGTH(64)" by (rule unsigned_less)
  moreover have "unat a + x < unat c" using x assms(1) by linarith
  ultimately have lt: "unat a + x < 2 ^ LENGTH(64)" by (rule less_trans [rotated])
  have "a + of_nat x = of_nat (unat a + x)" by simp
  then have u: "unat (a + of_nat x) = unat a + x"
    by (simp only: unat_of_nat) (use lt in \<open>simp add: take_bit_nat_eq_self\<close>)
  have "unat (a + of_nat x - c) = unat a + x + 2 ^ 64 - unat c"
    using u x assms(1) by (simp add: unat_sub_if_size word_size)
  then show "8 * n \<le> unat (a + of_nat x - c)" using assms(2) by linarith
qed

text \<open>2 by 2 matrices of equal elements: 4 rows of \<open>c\<close> are written.\<close>

lemma fmatmul_product_witness:
  "\<exists>m' s'. fmatmul int_ops min_unit 0x1000 0 0x100 2 2 2 (\<lambda>_. 1) \<lparr>v_reg = (\<lambda>_ _. 3), v_vl = 0\<rparr> = Some (m', s') \<and>
     word_at m' 0x1000 0 = 2 * 0x0101010101010101 * 0x0101010101010101 \<and>
     word_at m' 0x1000 7 = 2 * 0x0101010101010101 * 0x0101010101010101"
proof -
  let ?s = "\<lparr>v_reg = (\<lambda>_ _. 3), v_vl = 0\<rparr>" and ?m = "\<lambda>_. 1" and ?x = "0x0101010101010101 :: u64"
  have h: "fmatmul_height 2 = 4" "bk_lmul (fmatmul_kernel 2) = 4"
    by (simp_all add: fmatmul_height_def fmatmul_kernel_def block_4x4_def)
  have "load64 ?m a = ?x" for a by (simp add: load64_def)
  then have x: "mat_a ?m a 2 r k = ?x" "mat_b ?m a 2 r k = ?x" for a r k by (simp_all add: mat_a_def mat_b_def)
  have ch: "chain int_ops ?m 0 0x100 2 2 2 r i = 2 * ?x * ?x" for r i by (simp add: x int_ops_def eval_nat_numeral)
  have "\<exists>m' s'. fmatmul int_ops min_unit 0x1000 0 0x100 2 2 2 ?m ?s = Some (m', s') \<and>
    (\<forall>i < fmatmul_height 2. \<forall>j < unat (2 :: u64). word_at m' 0x1000 (i * unat (2 :: u64) + j) = chain int_ops ?m 0 0x100 2 2 (unat (2 :: u64)) i j) \<and>
    same_outside 0x1000 (fmatmul_height 2 * unat (2 :: u64)) ?m m'"
    by (rule fmatmul_product) (simp_all add: h reads_apart_below, simp_all add: min_unit_def rvv_set_min vlmax_def)
  then obtain m' s' where r: "fmatmul int_ops min_unit 0x1000 0 0x100 2 2 2 ?m ?s = Some (m', s')"
    and w: "\<And>i j. i < 4 \<Longrightarrow> j < 2 \<Longrightarrow> word_at m' 0x1000 (i * 2 + j) = 2 * ?x * ?x" by (auto simp: h ch)
  show ?thesis using r w [of 0 0] w [of 3 1] by simp
qed

section \<open>Odd inner dimensions\<close>

lemma fmatmul_loop_odd:
  assumes "odd N" "even n"
  shows "fmatmul_loop E U K m a N P n b t s = None"
proof (rule ccontr)
  assume "\<not> ?thesis"
  then obtain y where "fmatmul_loop E U K m a N P n b t s = Some y" by blast
  then have "case ((((((((((E, U), K), m), a), N), P), n), b), t), s) of
      ((((((((((E, U), K), m), a), N), P), n), b), t), s) \<Rightarrow> odd N \<longrightarrow> even n \<longrightarrow> False"
    by (rule fmatmul_loop.raw_induct [where Pa = "\<lambda>x y. case x of
        ((((((((((E, U), K), m), a), N), P), n), b), t), s) \<Rightarrow> odd N \<longrightarrow> even n \<longrightarrow> False", rotated])
       (fastforce simp: Let_def split: if_splits)+
  then show False using assms by blast
qed

text \<open>C26. For an odd inner dimension \<open>fmatmul\<close> never returns: the loop advances by two columns and tests
  for the end only at even counts, so it runs on beyond both matrices.\<close>

theorem fmatmul_odd_diverges:
  assumes "odd N" "0 < M" "0 < P"
  shows "fmatmul E U c a b M N P m s = None"
proof -
  have v: "fmatmul_vec E U K c a b N P m s = None" for K c a b m s
    using fmatmul_loop_odd [OF assms(1), of 0] by (simp add: fmatmul_vec_def Let_def)
  have r: "fmatmul_rows E U K c a b M N P 0 m s = None" for K c a b m s
    by (subst fmatmul_rows.simps) (simp add: v assms(2))
  have "fmatmul_cols E U K c a b M N P x 0 m s = None" for K x s
    by (subst fmatmul_cols.simps) (simp add: r assms(3) split_beta Let_def)
  then show ?thesis by (simp add: fmatmul_kernel fmatmul_block_def split_beta)
qed

lemma fmatmul_odd_diverges_witness:
  "fmatmul int_ops min_unit 0x1000 0 0x100 4 5 4 (\<lambda>_. 1) \<lparr>v_reg = (\<lambda>_ _. 3), v_vl = 0\<rparr> = None"
  by (rule fmatmul_odd_diverges) simp_all

end
