(* ===== verification/Fmatmul_Test.thy ===== *)
theory Fmatmul_Test
  imports Fmatmul_Spec
begin

text \<open>
  The programs \<open>software/app/fdotproduct/main.c\<close> and \<open>software/app/fmatmul/main.c\<close> over their kernels.
  Floating-point arithmetic is a parameter: the operations of the kernels, of \<open>similarity_check\<close>, the
  conversion of a \<open>float\<close> to a \<open>double\<close>, and the two performance figures that \<open>fmatmul\<close> prints.
\<close>

section \<open>fdotproduct\<close>

definition THRESHOLD_64b :: u64 where "THRESHOLD_64b = 0x3DDB7CDFD9D7BDBB"
definition THRESHOLD_32b :: u64 where "THRESHOLD_32b = 0x3F1A36E2EB1C432D"

partial_function (option) fdotp_check :: "(nat \<Rightarrow> u64) \<Rightarrow> mem \<Rightarrow> u64 fpu \<Rightarrow> (('w :: len) word \<Rightarrow> u64) \<Rightarrow> string \<Rightarrow> u64 \<Rightarrow>
    (u64 \<Rightarrow> 'w word option) \<Rightarrow> (u64 \<Rightarrow> 'w word option) \<Rightarrow> u64 \<Rightarrow> u64 \<Rightarrow> bench app \<Rightarrow> (u32 \<times> bench app) option" where
  "fdotp_check cyc m F dbl head thr vec scalar limit avl s =
     (if avl \<le> limit then
        Option.bind (say m head [avl] s) (\<lambda>s.
        let s = on_dev (start_timer cyc) s
        in Option.bind (vec avl) (\<lambda>res_v.
        let s = on_dev (stop_timer cyc) s
        in Option.bind (say m ''Vector runtime: %ld\<newline>'' [get_timer (ap_dev s)] s) (\<lambda>s.
        let s = on_dev (start_timer cyc) s
        in Option.bind (scalar avl) (\<lambda>res_s.
        let s = on_dev (stop_timer cyc) s
        in Option.bind (say m ''Scalar runtime: %ld\<newline>'' [get_timer (ap_dev s)] s) (\<lambda>s.
           Option.bind (say m ''Checking results: v = %f, s = %f\<newline>'' [dbl res_v, dbl res_s] s) (\<lambda>s.
           if similarity_check F (dbl res_v) (dbl res_s) thr = 0
           then Option.bind (say m ''Error: v = %f, s = %f\<newline>'' [dbl res_v, dbl res_s] s) (\<lambda>s. Some (- 1, s))
           else fdotp_check cyc m F dbl head thr vec scalar limit (avl * 8) s))))))
      else Some (0, s))"

definition fdotproduct_main :: "(nat \<Rightarrow> u64) \<Rightarrow> u64 fpu \<Rightarrow> (u32 \<Rightarrow> u64) \<Rightarrow> 64 word eops \<Rightarrow> 32 word eops \<Rightarrow> 64 word sops \<Rightarrow>
    32 word sops \<Rightarrow> vunits \<Rightarrow> stale \<Rightarrow> mem \<Rightarrow> dotp_data \<Rightarrow> bench app \<Rightarrow> (u32 \<times> bench app) option" where
  "fdotproduct_main cyc F widen E64 E32 S64 S32 U st m c s =
     Option.bind (says m [''\<newline>'', ''===========\<newline>'', ''=  FDOTP  =\<newline>'', ''===========\<newline>'', ''\<newline>'', ''\<newline>''] s) (\<lambda>s.
     Option.bind (fdotp_check cyc m F (\<lambda>x. x) ''Calulating 64b dotp with vectors with length = %lu\<newline>'' THRESHOLD_64b
       (\<lambda>avl. fdotp_v64b E64 (un_64 U) m (dd_v64a c) (dd_v64b c) avl (st_64 st avl)) (fdotp_s64b S64 m (dd_v64a c) (dd_v64b c))
       (drop_bit 3 (dd_vsize c)) 8 s) (\<lambda>rs.
     Option.bind (next_width (fdotp_check cyc m F widen ''Calulating 32b dotp with vectors with length = %lu\<newline>'' THRESHOLD_32b
       (\<lambda>avl. fdotp_v32b E32 (un_32 U) m (dd_v32a c) (dd_v32b c) avl (st_32 st avl)) (fdotp_s32b S32 m (dd_v32a c) (dd_v32b c))
       (drop_bit 2 (dd_vsize c)) 8) rs) (\<lambda>rs.
     next_width (\<lambda>s. map_option (Pair 0) (say m ''SUCCESS.\<newline>'' [] s)) rs)))"

section \<open>fmatmul\<close>

definition THRESHOLD :: u64 where "THRESHOLD = 0x3F50624DD2F1A9FC"

text \<open>The first element that differs, as \<open>-1\<close> for the first one and its index otherwise, cut to an \<open>int\<close>.\<close>

fun verify_from :: "u64 fpu \<Rightarrow> mem \<Rightarrow> addr \<Rightarrow> addr \<Rightarrow> u64 \<Rightarrow> u64 \<Rightarrow> (nat \<times> nat) list \<Rightarrow> u32" where
  "verify_from F m result gold C threshold [] = 0"
| "verify_from F m result gold C threshold ((i, j) # ps) =
     (let idx = of_nat i * C + of_nat j
      in if similarity_check F (load64 m (result + 8 * idx)) (load64 m (gold + 8 * idx)) threshold = 0
         then if i + j = 0 then - 1 else ucast idx
         else verify_from F m result gold C threshold ps)"

definition verify_matrix :: "u64 fpu \<Rightarrow> mem \<Rightarrow> addr \<Rightarrow> addr \<Rightarrow> u64 \<Rightarrow> u64 \<Rightarrow> u64 \<Rightarrow> u32" where
  "verify_matrix F m result gold R C threshold =
     verify_from F m result gold C threshold (List.product [0..<unat R] [0..<unat C])"

record fmatmul_data =
  fd_M :: u64
  fd_a :: addr
  fd_b :: addr
  fd_c :: addr
  fd_g :: addr

definition fmatmul_verdict :: "mem \<Rightarrow> mem \<Rightarrow> u64 fpu \<Rightarrow> fmatmul_data \<Rightarrow> u64 \<Rightarrow> bench app \<Rightarrow> (u32 \<times> bench app) option" where
  "fmatmul_verdict m mm F c n s =
     Option.bind (say m ''Verifying result...\<newline>'' [] s) (\<lambda>s.
       let error = verify_matrix F mm (fd_c c) (fd_g c) n n THRESHOLD
       in if error \<noteq> 0
          then Option.bind (say m ''Error code %d\<newline>'' [scast error] s) (\<lambda>s.
               map_option (Pair error) (say m ''c[%d]=%d\<newline>'' [scast error, load64 mm (fd_c c + 8 * scast error)] s))
          else map_option (Pair 0) (say m ''Passed.\<newline>'' [] s))"

text \<open>The loop over the sizes. \<open>m\<close> holds the string constants, \<open>mm\<close> is the memory with the matrices.\<close>

partial_function (option) fmatmul_sizes :: "(nat \<Rightarrow> u64) \<Rightarrow> (u64 \<Rightarrow> u64 \<Rightarrow> u64 list) \<Rightarrow> u64 fpu \<Rightarrow> 64 word eops \<Rightarrow> 64 word vunit \<Rightarrow>
    mem \<Rightarrow> fmatmul_data \<Rightarrow> u64 \<Rightarrow> mem \<Rightarrow> 64 word vregs \<Rightarrow> bench app \<Rightarrow> (u32 \<times> bench app) option" where
  "fmatmul_sizes cyc perf F E U m c n mm v s =
     (if n \<le> fd_M c then
        Option.bind (says m [''\<newline>'', ''------------------------------------------------------------\<newline>''] s) (\<lambda>s.
        Option.bind (say m ''Calculating a (%d x %d) x (%d x %d) matrix multiplication...\<newline>'' [n, n, n, n] s) (\<lambda>s.
        Option.bind (says m [''------------------------------------------------------------\<newline>'', ''\<newline>'', ''Calculating fmatmul...\<newline>''] s) (\<lambda>s.
        let s = on_dev (start_timer cyc) s
        in Option.bind (fmatmul E U (fd_c c) (fd_a c) (fd_b c) n n n mm v) (\<lambda>(mm, v).
        let s = on_dev (stop_timer cyc) s;
            runtime = get_timer (ap_dev s)
        in Option.bind (say m ''The execution took %d cycles.\<newline>'' [runtime] s) (\<lambda>s.
           Option.bind (say m ''The performance is %f FLOP/cycle (%f%% utilization).\<newline>'' (perf n runtime) s) (\<lambda>s.
           if n = fd_M c
           then Option.bind (fmatmul_verdict m mm F c n s) (\<lambda>(error, s).
                if error \<noteq> 0 then Some (error, s) else fmatmul_sizes cyc perf F E U m c (n * 2) mm v s)
           else fmatmul_sizes cyc perf F E U m c (n * 2) mm v s))))))
      else Some (0, s))"

definition fmatmul_main :: "(nat \<Rightarrow> u64) \<Rightarrow> (u64 \<Rightarrow> u64 \<Rightarrow> u64 list) \<Rightarrow> u64 fpu \<Rightarrow> 64 word eops \<Rightarrow> 64 word vunit \<Rightarrow>
    mem \<Rightarrow> fmatmul_data \<Rightarrow> mem \<Rightarrow> 64 word vregs \<Rightarrow> bench app \<Rightarrow> (u32 \<times> bench app) option" where
  "fmatmul_main cyc perf F E U m c mm v s =
     Option.bind (says m [''\<newline>'', ''=============\<newline>'', ''=  FMATMUL  =\<newline>'', ''=============\<newline>'', ''\<newline>'', ''\<newline>''] s)
       (fmatmul_sizes cyc perf F E U m c 4 mm v)"

text \<open>The matrix check accepts exactly the matrices that are similar everywhere, as long as an index fits
  an \<open>int\<close>.\<close>

lemma verify_from_zero:
  assumes "\<And>i j. (i, j) \<in> set ps \<Longrightarrow> i * unat C + j < 2 ^ 31 \<and> (i + j \<noteq> 0 \<longrightarrow> i * unat C + j \<noteq> 0)"
  shows "verify_from F m result gold C thr ps = 0 \<longleftrightarrow>
    (\<forall>(i, j) \<in> set ps. similarity_check F (word_at m result (i * unat C + j)) (word_at m gold (i * unat C + j)) thr \<noteq> 0)"
  using assms
proof (induction ps)
  case (Cons p ps)
  obtain i j where p: "p = (i, j)" by fastforce
  have h: "i * unat C + j < 2 ^ 31" "i + j \<noteq> 0 \<longrightarrow> i * unat C + j \<noteq> 0" using Cons.prems p by auto
  have idx: "of_nat i * C + of_nat j = (of_nat (i * unat C + j) :: u64)" by simp
  have nz: "(ucast (of_nat (i * unat C + j) :: u64) :: u32) \<noteq> 0" if "i + j \<noteq> 0"
  proof -
    have "unat (of_nat (i * unat C + j) :: u32) = i * unat C + j"
      by (simp only: unat_of_nat) (use h(1) in \<open>simp add: take_bit_nat_eq_self\<close>)
    then show ?thesis using h(2) that unfolding ucast_of_nat_64_32 by (metis unat_0)
  qed
  have w: "8 * of_nat (i * unat C + j) = (of_nat (8 * (i * unat C + j)) :: u64)" by simp
  show ?case
    unfolding p verify_from.simps Let_def idx w word_at_def [symmetric]
    using Cons.IH [OF Cons.prems [OF list.set_intros(2)]] nz by simp
qed simp

lemma verify_matrix_zero:
  assumes "unat R * unat C < 2 ^ 31"
  shows "verify_matrix F m result gold R C thr = 0 \<longleftrightarrow>
    (\<forall>i < unat R. \<forall>j < unat C. similarity_check F (word_at m result (i * unat C + j)) (word_at m gold (i * unat C + j)) thr \<noteq> 0)"
proof -
  have "i * unat C + j < 2 ^ 31 \<and> (i + j \<noteq> 0 \<longrightarrow> i * unat C + j \<noteq> 0)"
    if "(i, j) \<in> set (List.product [0..<unat R] [0..<unat C])" for i j
  proof -
    have ij: "i < unat R" "j < unat C" using that by auto
    then have "Suc i * unat C \<le> unat R * unat C" by (intro mult_le_mono1) simp
    then show ?thesis using ij assms by auto
  qed
  then have "verify_from F m result gold C thr (List.product [0..<unat R] [0..<unat C]) = 0 \<longleftrightarrow>
      (\<forall>(i, j) \<in> set (List.product [0..<unat R] [0..<unat C]).
         similarity_check F (word_at m result (i * unat C + j)) (word_at m gold (i * unat C + j)) thr \<noteq> 0)"
    by (intro verify_from_zero)
  then show ?thesis by (auto simp: verify_matrix_def)
qed

end
