(* ===== verification/Dotproduct_Intrinsics.thy ===== *)
theory Dotproduct_Intrinsics
  imports Dotproduct
begin

text \<open>
  The variants of the dot product kernels for compilers with vector intrinsics (\<open>INTRINSICS\<close>): the
  same loop over vector values instead of registers. Elements beyond the vector length of a result
  are not specified; \<open>junk\<close> is what the compiler leaves there. \<open>dotp_intrinsics\<close> shows that both
  variants are the same function.
\<close>

section \<open>Intrinsics\<close>

definition intr :: "('w :: len) word vunit \<Rightarrow> (nat \<Rightarrow> 'w word) \<Rightarrow> nat \<Rightarrow> (nat \<Rightarrow> 'w word) \<Rightarrow> nat \<Rightarrow> 'w word" where
  "intr U junk vl f = (\<lambda>i. if i < vl then f i else vu_tail U i (junk i))"

definition ivsetvl :: "('w :: len) word vunit \<Rightarrow> nat \<Rightarrow> u64 \<Rightarrow> nat" where
  "ivsetvl U lmul avl = vu_set U (vlmax U lmul) (unat avl)"

definition ivle :: "('w :: len) word vunit \<Rightarrow> (nat \<Rightarrow> 'w word) \<Rightarrow> mem \<Rightarrow> addr \<Rightarrow> nat \<Rightarrow> nat \<Rightarrow> 'w word" where
  "ivle U junk m a vl = intr U junk vl (\<lambda>i. load_elem m (a + of_nat (i * esize TYPE('w))))"

definition ivmul :: "'w word eops \<Rightarrow> ('w :: len) word vunit \<Rightarrow> (nat \<Rightarrow> 'w word) \<Rightarrow> (nat \<Rightarrow> 'w word) \<Rightarrow> (nat \<Rightarrow> 'w word) \<Rightarrow> nat \<Rightarrow> nat \<Rightarrow> 'w word" where
  "ivmul E U junk x y vl = intr U junk vl (\<lambda>i. eo_mul E (x i) (y i))"

definition ivmacc :: "'w word eops \<Rightarrow> ('w :: len) word vunit \<Rightarrow> (nat \<Rightarrow> 'w word) \<Rightarrow> (nat \<Rightarrow> 'w word) \<Rightarrow> (nat \<Rightarrow> 'w word) \<Rightarrow> nat \<Rightarrow> nat \<Rightarrow> 'w word" where
  "ivmacc E U acc x y vl = intr U acc vl (\<lambda>i. eo_macc E (acc i) (x i) (y i))"

definition ivmv_s_x :: "('w :: len) word vunit \<Rightarrow> (nat \<Rightarrow> 'w word) \<Rightarrow> 'w word \<Rightarrow> nat \<Rightarrow> nat \<Rightarrow> 'w word" where
  "ivmv_s_x U red x vl = (if vl = 0 then red else intr U red 1 (\<lambda>_. x))"

definition ivredsum :: "'w word eops \<Rightarrow> ('w :: len) word vunit \<Rightarrow> (nat \<Rightarrow> 'w word) \<Rightarrow> (nat \<Rightarrow> 'w word) \<Rightarrow> (nat \<Rightarrow> 'w word) \<Rightarrow> nat \<Rightarrow> nat \<Rightarrow> 'w word" where
  "ivredsum E U dest x red vl =
     (if vl = 0 then dest else intr U dest 1 (\<lambda>_. eo_red E (red 0) (map x [0..<vl])))"

section \<open>The kernels\<close>

partial_function (option) intr_strip :: "'w word eops \<Rightarrow> ('w :: len) word vunit \<Rightarrow> (nat \<Rightarrow> 'w word) \<Rightarrow> mem \<Rightarrow> u64 \<Rightarrow> addr \<Rightarrow> addr \<Rightarrow> u64 \<Rightarrow>
    nat \<Rightarrow> (nat \<Rightarrow> 'w word) \<Rightarrow> (nat \<times> (nat \<Rightarrow> 'w word)) option" where
  "intr_strip E U junk m orig_avl a b avl vl acc =
     (if 0 < avl then
        let vl = ivsetvl U 8 avl;
            buf_a = ivle U junk m a vl;
            buf_b = ivle U junk m b vl;
            acc = (if avl = orig_avl then ivmul E U junk buf_a buf_b vl else ivmacc E U acc buf_a buf_b vl)
        in intr_strip E U junk m orig_avl (a + of_nat vl * of_nat (esize TYPE('w))) (b + of_nat vl * of_nat (esize TYPE('w)))
             (avl - of_nat vl) vl acc
      else Some (vl, acc))"

definition dotp_intr :: "'w word eops \<Rightarrow> ('w :: len) word vunit \<Rightarrow> (nat \<Rightarrow> 'w word) \<Rightarrow> mem \<Rightarrow> addr \<Rightarrow> addr \<Rightarrow> u64 \<Rightarrow> 'w word option" where
  "dotp_intr E U junk m a b avl =
     (let vl = ivsetvl U 8 avl;
          red = ivmv_s_x U junk 0 vl
      in map_option (\<lambda>(vl, acc). ivredsum E U red acc red vl 0) (intr_strip E U junk m avl a b avl vl junk))"

definition dotp_v64b_intr :: "64 word vunit \<Rightarrow> (nat \<Rightarrow> 64 word) \<Rightarrow> mem \<Rightarrow> addr \<Rightarrow> addr \<Rightarrow> u64 \<Rightarrow> 64 word option" where
  "dotp_v64b_intr = dotp_intr int_ops"
definition dotp_v32b_intr :: "32 word vunit \<Rightarrow> (nat \<Rightarrow> 32 word) \<Rightarrow> mem \<Rightarrow> addr \<Rightarrow> addr \<Rightarrow> u64 \<Rightarrow> 32 word option" where
  "dotp_v32b_intr = dotp_intr int_ops"
definition dotp_v16b_intr :: "16 word vunit \<Rightarrow> (nat \<Rightarrow> 16 word) \<Rightarrow> mem \<Rightarrow> addr \<Rightarrow> addr \<Rightarrow> u64 \<Rightarrow> 16 word option" where
  "dotp_v16b_intr = dotp_intr int_ops"
definition dotp_v8b_intr :: "8 word vunit \<Rightarrow> (nat \<Rightarrow> 8 word) \<Rightarrow> mem \<Rightarrow> addr \<Rightarrow> addr \<Rightarrow> u64 \<Rightarrow> 8 word option" where
  "dotp_v8b_intr = dotp_intr int_ops"
definition fdotp_v64b_intr :: "64 word eops \<Rightarrow> 64 word vunit \<Rightarrow> (nat \<Rightarrow> 64 word) \<Rightarrow> mem \<Rightarrow> addr \<Rightarrow> addr \<Rightarrow> u64 \<Rightarrow> 64 word option" where
  "fdotp_v64b_intr = dotp_intr"
definition fdotp_v32b_intr :: "32 word eops \<Rightarrow> 32 word vunit \<Rightarrow> (nat \<Rightarrow> 32 word) \<Rightarrow> mem \<Rightarrow> addr \<Rightarrow> addr \<Rightarrow> u64 \<Rightarrow> 32 word option" where
  "fdotp_v32b_intr = dotp_intr"
definition fdotp_v16b_intr :: "16 word eops \<Rightarrow> 16 word vunit \<Rightarrow> (nat \<Rightarrow> 16 word) \<Rightarrow> mem \<Rightarrow> addr \<Rightarrow> addr \<Rightarrow> u64 \<Rightarrow> 16 word option" where
  "fdotp_v16b_intr = dotp_intr"

section \<open>Both variants agree\<close>

text \<open>The vector lengths of the strips never increase.\<close>

lemma rvv_set_decreasing:
  assumes "rvv_set f"
  shows "f n (avl - f n avl) \<le> f n avl"
proof -
  consider "avl \<le> n" | "2 * n \<le> avl" | "n < avl" "avl < 2 * n" by linarith
  then show ?thesis
  proof cases
    case 1
    then show ?thesis using rvv_set_small [OF assms 1] rvv_set_small [OF assms, of 0 n] by simp
  next
    case 2
    then show ?thesis using rvv_set_large [OF assms 2] rvv_set_bounds(2) [OF assms] by simp
  next
    case 3
    then have b: "(avl + 1) div 2 \<le> f n avl" "f n avl \<le> n" using assms unfolding rvv_set_def by blast+
    then have "avl - f n avl \<le> f n avl" by linarith
    moreover have "f n (avl - f n avl) \<le> avl - f n avl" by (rule rvv_set_bounds(1) [OF assms])
    ultimately show ?thesis by linarith
  qed
qed

text \<open>The vector values agree with the registers on the elements that later strips and the reduction use.\<close>

definition same_acc :: "('w :: len) word vregs \<Rightarrow> nat \<Rightarrow> (nat \<Rightarrow> 'w word) \<Rightarrow> bool" where
  "same_acc s vl acc \<longleftrightarrow> v_vl s = vl \<and> 0 < vl \<and> (\<forall>i < vl. v_reg s 24 i = acc i) \<and> v_reg s 0 0 = 0"

lemma strips_agree:
  fixes U :: "('w :: len) word vunit"
  assumes set: "rvv_set (vu_set U)" and n: "0 < vlmax U 8"
    and "0 < v_vl s" "v_reg s 0 0 = 0" and "avl \<noteq> orig \<Longrightarrow> same_acc s vl acc \<and> vu_set U (vlmax U 8) (unat avl) \<le> vl"
    and "unat avl \<le> unat orig" "0 < unat orig"
  shows "\<exists>s' vl' acc'. dotp_strip E U m orig a b avl s = Some s' \<and> intr_strip E U junk m orig a b avl vl acc = Some (vl', acc') \<and>
    same_acc s' vl' acc'"
  using assms(3-)
proof (induction "unat avl" arbitrary: avl a b s vl acc rule: less_induct)
  case less
  show ?case
  proof (cases "0 < avl")
    case False
    then have "avl \<noteq> orig" "dotp_strip E U m orig a b avl s = Some s" "intr_strip E U junk m orig a b avl vl acc = Some (vl, acc)"
      using less.prems(5) by (auto simp: word_less_nat_alt dotp_strip.simps intr_strip.simps)
    then show ?thesis using less.prems(3) by blast
  next
    case True
    then have pos: "0 < unat avl" by (simp add: word_less_nat_alt)
    let ?n = "vlmax U 8"
    define l where "l = vu_set U ?n (unat avl)"
    note lb = rvv_set_bounds [OF set, of ?n "unat avl", folded l_def]
    have l: "0 < l" using lb(3) n pos by blast
    have "unat avl < 2 ^ LENGTH(64)" by (rule unsigned_less)
    then have l64: "l < 2 ^ LENGTH(64)" using lb(1) by (rule le_less_trans [rotated])
    have ul: "unat (of_nat l :: u64) = l" by (simp only: unat_of_nat) (use l64 in \<open>simp add: take_bit_nat_eq_self\<close>)
    have le: "of_nat l \<le> avl" unfolding word_le_nat_alt ul by (rule lb(1))
    have rest: "unat (avl - of_nat l) = unat avl - l" unfolding unat_sub [OF le] ul ..
    have smaller: "unat (avl - of_nat l) < unat avl" unfolding rest using l pos by simp
    have mono: "unat avl \<le> unat orig' \<Longrightarrow> avl - of_nat l \<noteq> orig'" for orig' using smaller by auto
    define s1 where "s1 = s\<lparr>v_vl := l\<rparr>"
    define s2 where "s2 = vle U 16 m b (vle U 8 m a s1)"
    define s3 where "s3 = (if avl = orig then vmul_vv E U 24 8 16 s2 else vmacc_vv E U 24 8 16 s2)"
    define ba where "ba = ivle U junk m a l"
    define bb where "bb = ivle U junk m b l"
    define acc' where "acc' = (if avl = orig then ivmul E U junk ba bb l else ivmacc E U acc ba bb l)"
    let ?sz = "of_nat (esize TYPE('w)) :: addr"
    have vs: "vsetvli U 8 avl s = (of_nat l, s1)" by (simp add: vsetvli_def l_def s1_def Let_def)
    have step: "dotp_strip E U m orig a b avl s = dotp_strip E U m orig (a + of_nat l * ?sz) (b + of_nat l * ?sz) (avl - of_nat l) s3"
      "intr_strip E U junk m orig a b avl vl acc = intr_strip E U junk m orig (a + of_nat l * ?sz) (b + of_nat l * ?sz) (avl - of_nat l) l acc'"
      by (subst dotp_strip.simps, simp only: True vs if_True Let_def prod.case s2_def [symmetric] s3_def [symmetric])
         (subst intr_strip.simps, simp only: True if_True ivsetvl_def l_def [symmetric] Let_def ba_def [symmetric] bb_def [symmetric] acc'_def [symmetric])
    have v3: "v_vl s3 = l" "v_reg s3 0 0 = 0" using less.prems(2) by (simp_all add: s3_def s2_def s1_def vmul_vv_def vmacc_vv_def vle_def)
    have acc: "v_reg s3 24 i = acc' i" if i: "i < l" for i
    proof (cases "avl = orig")
      case True
      then show ?thesis using i by (simp add: s3_def acc'_def s2_def s1_def vmul_vv_def ivmul_def intr_def ba_def bb_def ivle_def)
    next
      case False
      then have "v_reg s 24 i = acc i" using less.prems(3) i unfolding same_acc_def l_def by (meson less_le_trans)
      then show ?thesis using i False by (simp add: s3_def acc'_def s2_def s1_def vmacc_vv_def ivmacc_def intr_def ba_def bb_def ivle_def)
    qed
    have sa: "same_acc s3 l acc'" using v3 acc l by (simp add: same_acc_def)
    have dec: "vu_set U ?n (unat (avl - of_nat l)) \<le> l"
      unfolding rest unfolding l_def by (rule rvv_set_decreasing [OF set])
    have ne: "avl - of_nat l \<noteq> orig" "unat (avl - of_nat l) \<le> unat orig" using smaller less.prems(4) by auto
    show ?thesis unfolding step
      by (rule less.hyps [OF smaller]) (use sa dec v3 l ne less.prems(5) in \<open>simp_all add: same_acc_def\<close>)
  qed
qed

text \<open>C21. The assembly and the intrinsics variant of the dot product kernels compute the same value for every
  positive length, whatever the unit and the compiler leave in unspecified elements and whatever the
  registers hold before; in particular they drop the same products where the length does not fit.\<close>

theorem dotp_intrinsics:
  fixes U :: "('w :: len) word vunit"
  assumes "rvv_set (vu_set U)" and "0 < vlmax U 8" and "0 < avl"
  shows "dotp_intr E U junk m a b avl = dotp_vec E U m a b avl s"
proof -
  have pos: "0 < unat avl" using assms(3) by (simp add: word_less_nat_alt)
  define l where "l = vu_set U (vlmax U 8) (unat avl)"
  have l: "0 < l" using rvv_set_bounds(3) [OF assms(1,2) pos] by (simp add: l_def)
  define s1 where "s1 = vmv_s_x U 0 0 (s\<lparr>v_vl := l\<rparr>)"
  have s1: "0 < v_vl s1" "v_reg s1 0 0 = 0" using l by (simp_all add: s1_def vmv_s_x_def)
  obtain s2 vl acc where r: "dotp_strip E U m avl a b avl s1 = Some s2" "intr_strip E U junk m avl a b avl l junk = Some (vl, acc)"
    "same_acc s2 vl acc"
    using strips_agree [OF assms(1,2) s1, of avl avl l junk E m a b junk] pos by auto
  have e: "map (v_reg s2 24) [0..<v_vl s2] = map acc [0..<vl]" "v_vl s2 = vl" "0 < vl" "v_reg s2 0 0 = 0"
    using r(3) by (auto simp: same_acc_def)
  have "vmv_x_s 0 (vredsum_vs E U 0 24 0 s2) = eo_red E 0 (map acc [0..<vl])"
    unfolding vmv_x_s_def vredsum_vs_def e(1,4) using e(2,3) by simp
  moreover have "ivredsum E U (ivmv_s_x U junk 0 l) acc (ivmv_s_x U junk 0 l) vl 0 = eo_red E 0 (map acc [0..<vl])"
    using e(3) l by (simp add: ivredsum_def ivmv_s_x_def intr_def)
  ultimately show ?thesis
    by (simp add: dotp_vec_def dotp_intr_def vsetvli_def ivsetvl_def l_def [symmetric] s1_def [symmetric] r Let_def)
qed

lemma dotp_intrinsics_witness:
  "dotp_v8b_intr \<lparr>vu_vlen = 64, vu_set = min, vu_tail = (\<lambda>_ x. x)\<rparr> (\<lambda>_. 9) (\<lambda>_. 1) 0 4096 8 = Some 8"
proof -
  let ?U = "\<lparr>vu_vlen = 64, vu_set = min, vu_tail = (\<lambda>_ x. x)\<rparr> :: 8 word vunit" and ?s = "\<lparr>v_reg = (\<lambda>_ _. 0), v_vl = 0\<rparr> :: 8 word vregs"
  have max: "vlmax ?U 8 = 64" by (simp add: vlmax_def)
  have "elem_at (\<lambda>_. 1) a i = (1 :: 8 word)" for a i by (simp add: elem_at_def load_elem_def esize_def)
  then have "dotp_vec int_ops ?U (\<lambda>_. 1) 0 4096 8 ?s = Some 8"
    using dotp_vec_int [where U = ?U and avl = 8 and m = "\<lambda>_. 1" and a = 0 and b = 4096 and s = ?s] by (simp add: max rvv_set_min dotprod_def)
  moreover have "dotp_intr int_ops ?U (\<lambda>_. 9) (\<lambda>_. 1) 0 4096 8 = dotp_vec int_ops ?U (\<lambda>_. 1) 0 4096 8 ?s"
    by (rule dotp_intrinsics) (simp_all add: max rvv_set_min)
  ultimately show ?thesis by (simp add: dotp_v8b_intr_def)
qed

end
