(* ===== verification/Hook.thy ===== *)
theory Hook
  imports Uart Plic Clint Soc_Ctrl Dma
begin

text \<open>
  The hooks around \<open>main\<close>, \<open>pre_main\<close> and \<open>post_main\<close> of \<open>software/common/src/hook.c\<close>, on the driver
  objects of the platform, with \<open>CSR_SET_BITS\<close> of \<open>software/sdk/include/csr.h\<close>.
\<close>

section \<open>The driver objects\<close>

record ('p, 'c) drivers =
  g_uart0 :: uart
  g_plic0 :: "'p plic"
  g_clint0 :: "'c clint"
  g_soc_ctrl0 :: soc_ctrl
  g_dma_desc64_0 :: dma_desc64
  g_dma_reg64_1d_0 :: dma_reg64_1d

text \<open>As the start code leaves them: the section of the uninitialised objects is cleared.\<close>

definition drivers_zero :: "('p, 'c) drivers" where
  "drivers_zero = \<lparr>g_uart0 = uart_zero, g_plic0 = plic_zero, g_clint0 = clint_zero, g_soc_ctrl0 = soc_ctrl_zero,
     g_dma_desc64_0 = \<lparr>d6_regs = 0, d6_bound = False\<rparr>, g_dma_reg64_1d_0 = \<lparr>r6_regs = 0, r6_bound = False\<rparr>\<rparr>"

definition MSTATUS_FS_VS_DIRTY_MASK :: u32 where [c_const]: "MSTATUS_FS_VS_DIRTY_MASK = 0x6600"

definition CSR_SET_BITS :: "u64 \<Rightarrow> u32 \<Rightarrow> u64" where
  "CSR_SET_BITS csr msk = csr OR ucast msk"

definition pre_main :: "target \<Rightarrow> 'd bus \<Rightarrow> ('p, 'c) drivers \<Rightarrow> u64 \<Rightarrow> 'd \<Rightarrow> ('p, 'c) drivers \<times> u64 \<times> 'd" where
  "pre_main T B g mstatus d =
     (let u = uart_bind (g_uart0 g);
          (u, d) = uart_op_init B UART_BASE (SYS_CLK_HZ T) (BAUD_RATE T) u d;
          p = plic_bind (g_plic0 g);
          (p, d) = plic_op_init B PLIC_BASE p d;
          c = clint_bind (g_clint0 g);
          (c, d) = clint_op_init B CLINT_BASE c d;
          s = soc_ctrl_bind (g_soc_ctrl0 g);
          (s, d) = soc_ctrl_op_init B SOC_CTRL_BASE s d;
          e = dma_desc64_bind (g_dma_desc64_0 g);
          e = dma_desc64_op_init DMA_BASE e
      in (g\<lparr>g_uart0 := u, g_plic0 := p, g_clint0 := c, g_soc_ctrl0 := s, g_dma_desc64_0 := e\<rparr>,
          CSR_SET_BITS mstatus MSTATUS_FS_VS_DIRTY_MASK, d))"

text \<open>\<open>uart0.flush(&uart0)\<close>.\<close>

definition post_main :: "'d bus \<Rightarrow> ('p, 'c) drivers \<Rightarrow> 'd \<Rightarrow> 'd option" where
  "post_main B g d = (if u_bound (g_uart0 g) then uart_op_flush B (g_uart0 g) d else None)"

section \<open>The objects after \<open>pre_main\<close>\<close>

text \<open>Every object is bound and points to its registers, the interrupt tables hold no null pointer; the
  register front end of the DMA is left out.\<close>

lemma pre_main_drivers:
  assumes "pre_main T B g mstatus d = (g', mstatus', d')"
  shows "u_bound (g_uart0 g') \<and> u_regs (g_uart0 g') = UART_BASE"
    and "p_bound (g_plic0 g') \<and> p_regs (g_plic0 g') = PLIC_BASE"
    and "i < PLIC_NUM_SOURCES \<Longrightarrow> p_table (g_plic0 g') i = (Default_isr, 0)"
    and "c_bound (g_clint0 g') \<and> c_regs (g_clint0 g') = CLINT_BASE"
    and "c_timer (g_clint0 g') = (Default_cb, 0) \<and> c_ipi (g_clint0 g') = (Default_cb, 0)"
    and "sc_bound (g_soc_ctrl0 g') \<and> sc_regs (g_soc_ctrl0 g') = SOC_CTRL_BASE"
    and "d6_bound (g_dma_desc64_0 g') \<and> d6_regs (g_dma_desc64_0 g') = DMA_BASE"
    and "g_dma_reg64_1d_0 g' = g_dma_reg64_1d_0 g"
  using assms
  by (auto simp: pre_main_def uart_op_init_def uart_bind_def plic_op_init_def plic_bind_def clint_op_init_def clint_bind_def
      soc_ctrl_op_init_def soc_ctrl_bind_def dma_desc64_op_init_def dma_desc64_bind_def Let_def)

section \<open>The accesses of \<open>pre_main\<close>\<close>

text \<open>A bus that records the size and the address of every access.\<close>

definition traced :: "'d bus \<Rightarrow> ((nat \<times> addr) list \<times> 'd) bus" where
  "traced B =
     \<lparr>bus_rd = (\<lambda>n a (t, d). let (v, d) = bus_rd B n a d in (v, (t @ [(n, a)], d))),
      bus_wr = (\<lambda>n a v (t, d). (t @ [(n, a)], bus_wr B n a v d)),
      bus_idle = (\<lambda>n (t, d). (t, bus_idle B n d))\<rparr>"

text \<open>An aligned access of \<open>w\<close> bytes in a register block.\<close>

definition in_block :: "addr \<Rightarrow> nat \<Rightarrow> nat \<Rightarrow> nat \<times> addr \<Rightarrow> bool" where
  "in_block base bytes w acc \<longleftrightarrow>
     fst acc = w \<and> unat (snd acc - base) mod w = 0 \<and> unat (snd acc - base) + w \<le> bytes"

definition SIZEOF_UART_REGS :: nat where "SIZEOF_UART_REGS = 0x1C + 4"
definition SIZEOF_PLIC_REGS :: nat where "SIZEOF_PLIC_REGS = TARGET_OFF + PLIC_NUM_TARGETS * TARGET_STRIDE"
definition SIZEOF_CLINT_REGS :: nat where "SIZEOF_CLINT_REGS = MTIME_OFF + 8"
definition SIZEOF_SOC_CTRL_REGS :: nat where "SIZEOF_SOC_CTRL_REGS = 0x28"

definition register_access :: "nat \<times> addr \<Rightarrow> bool" where
  "register_access acc \<longleftrightarrow>
     in_block UART_BASE SIZEOF_UART_REGS 4 acc \<or> in_block PLIC_BASE SIZEOF_PLIC_REGS 4 acc \<or>
     in_block CLINT_BASE SIZEOF_CLINT_REGS 4 acc \<or> in_block SOC_CTRL_BASE SIZEOF_SOC_CTRL_REGS 8 acc"

definition logs :: "((nat \<times> addr) list \<times> 'd \<Rightarrow> (nat \<times> addr) list \<times> 'd) \<Rightarrow> ('d \<Rightarrow> 'd) \<Rightarrow> bool" where
  "logs f f0 \<longleftrightarrow> (\<forall>t d. \<exists>l. f (t, d) = (t @ l, f0 d) \<and> (\<forall>acc \<in> set l. register_access acc))"

lemma logs_comp:
  assumes "logs f f0" and "logs h h0"
  shows "logs (\<lambda>s. f (h s)) (\<lambda>d. f0 (h0 d))"
  unfolding logs_def
proof (intro allI)
  fix t d
  obtain l where l: "h (t, d) = (t @ l, h0 d)" "\<forall>acc \<in> set l. register_access acc"
    using assms(2) unfolding logs_def by blast
  obtain k where k: "f (t @ l, h0 d) = ((t @ l) @ k, f0 (h0 d))" "\<forall>acc \<in> set k. register_access acc"
    using assms(1) unfolding logs_def by blast
  show "\<exists>l. f (h (t, d)) = (t @ l, f0 (h0 d)) \<and> (\<forall>acc \<in> set l. register_access acc)"
    by (rule exI [of _ "l @ k"]) (use l k in auto)
qed

lemma logs_fold: "(\<And>i. i \<in> set is \<Longrightarrow> logs (f i) (f0 i)) \<Longrightarrow> logs (fold f is) (fold f0 is)"
proof (induction "is")
  case (Cons i js)
  have "logs (fold f js) (fold f0 js)" "logs (f i) (f0 i)" using Cons by simp_all
  then have "logs (\<lambda>s. fold f js (f i s)) (\<lambda>d. fold f0 js (f0 i d))" by (rule logs_comp)
  then show ?case by (simp add: comp_def)
qed (simp add: logs_def)

lemma logs_wr32: "register_access (4, a) \<Longrightarrow> logs (wr32 (traced B) a v) (wr32 B a v)"
  by (simp add: logs_def wr32_def traced_def)

lemma logs_wr64: "register_access (8, a) \<Longrightarrow> logs (wr64 (traced B) a v) (wr64 B a v)"
  by (simp add: logs_def wr64_def traced_def)

lemmas logs_wr32_then = logs_comp [OF logs_wr32] and logs_wr64_then = logs_comp [OF logs_wr64]
  and logs_fold_then = logs_comp [OF logs_fold]

lemma logs_uart:
  "logs (\<lambda>s. snd (uart_op_init (traced B) UART_BASE c b u s)) (\<lambda>d. snd (uart_op_init B UART_BASE c b u d))"
proof -
  have a: "register_access (4, UART_BASE + off)" if "off \<in> {IER_DLM, LCR, RBR_THR_DLL, FCR_IIR}" for off
    using that by (auto simp: register_access_def in_block_def SIZEOF_UART_REGS_def c_const)
  then have r: "register_access (4, UART_BASE + IER_DLM)" "register_access (4, UART_BASE + LCR)"
    "register_access (4, UART_BASE + RBR_THR_DLL)" "register_access (4, UART_BASE + FCR_IIR)" by auto
  show ?thesis unfolding uart_op_init_def uart_set_divisor_def Let_def snd_conv
    by (rule logs_wr32_then [OF r(4) logs_wr32_then [OF r(2) logs_wr32_then [OF r(1) logs_wr32_then [OF r(3)
          logs_wr32_then [OF r(2) logs_wr32 [OF r(1)]]]]]])
qed

lemma logs_ctrl:
  "logs (\<lambda>s. snd (soc_ctrl_op_init (traced B) SOC_CTRL_BASE c s)) (\<lambda>d. snd (soc_ctrl_op_init B SOC_CTRL_BASE c d))"
  unfolding soc_ctrl_op_init_def Let_def snd_conv
  by (rule logs_wr64_then [OF _ logs_wr64]) (simp_all add: register_access_def in_block_def SIZEOF_SOC_CTRL_REGS_def c_const)

lemma logs_clint:
  "logs (\<lambda>s. snd (clint_op_init (traced B) CLINT_BASE c s)) (\<lambda>d. snd (clint_op_init B CLINT_BASE c d))"
  unfolding clint_op_init_def snd_conv
  by (rule logs_fold, rule logs_wr32) (auto simp: register_access_def in_block_def SIZEOF_CLINT_REGS_def msip_reg_def c_const)

lemma plic_access:
  assumes "k mod 4 = 0" and "k + 4 \<le> SIZEOF_PLIC_REGS"
  shows "register_access (4, PLIC_BASE + of_nat k)"
proof -
  have "unat (of_nat k :: addr) = k" by (rule unat_of_nat64) (use assms(2) in \<open>simp add: SIZEOF_PLIC_REGS_def c_const\<close>)
  then show ?thesis using assms by (simp add: register_access_def in_block_def)
qed

lemma logs_plic:
  "logs (\<lambda>s. snd (plic_op_init (traced B) PLIC_BASE p s)) (\<lambda>d. snd (plic_op_init B PLIC_BASE p d))"
proof -
  have t: "logs (plic_init_target (traced B) PLIC_BASE t) (plic_init_target B PLIC_BASE t)" if "t < PLIC_NUM_TARGETS" for t
    unfolding plic_init_target_def
  proof (rule logs_wr32_then)
    show "register_access (4, threshold_reg PLIC_BASE t)"
      unfolding threshold_reg_def by (rule plic_access) (use that in \<open>auto simp: SIZEOF_PLIC_REGS_def c_const less_Suc_eq numeral_2_eq_2\<close>)
    show "logs (fold (\<lambda>w. wr32 (traced B) (enable_reg PLIC_BASE t w) 0) [0..<32]) (fold (\<lambda>w. wr32 B (enable_reg PLIC_BASE t w) 0) [0..<32])"
      unfolding enable_reg_def by (rule logs_fold, rule logs_wr32, rule plic_access) (use that in \<open>auto simp: SIZEOF_PLIC_REGS_def c_const less_Suc_eq numeral_2_eq_2\<close>)
  qed
  have p: "logs (\<lambda>s. fold (\<lambda>i. wr32 (traced B) (priority_reg PLIC_BASE i) 0) [0..<PLIC_NUM_SOURCES] s)
      (\<lambda>d. fold (\<lambda>i. wr32 B (priority_reg PLIC_BASE i) 0) [0..<PLIC_NUM_SOURCES] d)"
    unfolding priority_reg_def by (rule logs_fold, rule logs_wr32, rule plic_access) (auto simp: SIZEOF_PLIC_REGS_def c_const)
  show ?thesis unfolding plic_op_init_def Let_def snd_conv
    by (rule logs_fold_then [OF _ p], rule t) auto
qed

definition drivers_ok :: "('p, 'c) drivers \<Rightarrow> bool" where
  "drivers_ok g \<longleftrightarrow> u_bound (g_uart0 g) \<and> u_regs (g_uart0 g) = UART_BASE \<and>
     p_bound (g_plic0 g) \<and> p_regs (g_plic0 g) = PLIC_BASE \<and> (\<forall>i < PLIC_NUM_SOURCES. fst (p_table (g_plic0 g) i) \<noteq> Null_isr) \<and>
     c_bound (g_clint0 g) \<and> c_regs (g_clint0 g) = CLINT_BASE \<and> fst (c_timer (g_clint0 g)) \<noteq> Null_cb \<and> fst (c_ipi (g_clint0 g)) \<noteq> Null_cb \<and>
     sc_bound (g_soc_ctrl0 g) \<and> sc_regs (g_soc_ctrl0 g) = SOC_CTRL_BASE \<and>
     d6_bound (g_dma_desc64_0 g) \<and> d6_regs (g_dma_desc64_0 g) = DMA_BASE"

lemma pre_main_state:
  "snd (snd (pre_main T B g mstatus d)) =
     snd (soc_ctrl_op_init B SOC_CTRL_BASE (soc_ctrl_bind (g_soc_ctrl0 g))
       (snd (clint_op_init B CLINT_BASE (clint_bind (g_clint0 g))
         (snd (plic_op_init B PLIC_BASE (plic_bind (g_plic0 g))
           (snd (uart_op_init B UART_BASE (SYS_CLK_HZ T) (BAUD_RATE T) (uart_bind (g_uart0 g)) d)))))))"
  by (simp add: pre_main_def Let_def split_def)



end
