(* ===== verification/Irq_Wait.thy ===== *)
theory Irq_Wait
  imports Prelude
begin

text \<open>
  Waiting for an interrupt. The wait loops of the programs as sequences of instructions: \<open>WFI_WAIT\<close> of
  \<open>software/sdk/include/wfi.h\<close> and \<open>wait_for_dma_irq\<close> of \<open>app/mxu_idma_gbuf_test\<close>; the loop of
  \<open>app/dma_desc64_test\<close> is in theory Dma_Test. A step of the machine is an event of the devices, an interrupt or an
  instruction, in any order that the rules allow. \<open>wfi\<close> stalls until an
  interrupt is pending, also with MIE clear, and an enabled interrupt is then taken behind it, as the
  privileged specification has it; one that is pending before is taken first, and returns to the
  \<open>wfi\<close>. An interrupt leaves the stack pointer in \<open>t0\<close> (theory Trap). The register that the compiler
  chooses for a loop is a parameter.
\<close>

section \<open>The machine\<close>

datatype winsn = Lw nat | Beqz nat nat | Bnez nat nat | Wfi | Nop | Csrc_MIE | Csrs_MIE | Jump nat

text \<open>The interrupt as a loop sees it: pending or not, the service of it from entry to \<open>mret\<close>, the flag
  that the loop tests, and the next event of the devices, if they have any work.\<close>

record 'd irq_port =
  ip_pending :: "'d \<Rightarrow> bool"
  ip_serve :: "'d \<Rightarrow> 'd option"
  ip_flag :: "'d \<Rightarrow> u64"
  ip_event :: "'d \<Rightarrow> 'd option"

record 'd waiting =
  w_pc :: nat
  w_x :: "nat \<Rightarrow> u64"
  w_mie :: bool
  w_stall :: bool
  w_dev :: 'd

fun wexec :: "'d irq_port \<Rightarrow> winsn \<Rightarrow> 'd waiting \<Rightarrow> 'd waiting" where
  "wexec I (Lw r) s = s\<lparr>w_pc := Suc (w_pc s), w_x := (w_x s)(r := ip_flag I (w_dev s))\<rparr>"
| "wexec I (Beqz r k) s = s\<lparr>w_pc := (if w_x s r = 0 then k else Suc (w_pc s))\<rparr>"
| "wexec I (Bnez r k) s = s\<lparr>w_pc := (if w_x s r \<noteq> 0 then k else Suc (w_pc s))\<rparr>"
| "wexec I Wfi s = s\<lparr>w_stall := True\<rparr>"
| "wexec I Nop s = s\<lparr>w_pc := Suc (w_pc s)\<rparr>"
| "wexec I Csrc_MIE s = s\<lparr>w_pc := Suc (w_pc s), w_mie := False\<rparr>"
| "wexec I Csrs_MIE s = s\<lparr>w_pc := Suc (w_pc s), w_mie := True\<rparr>"
| "wexec I (Jump k) s = s\<lparr>w_pc := k\<rparr>"

inductive wstep :: "'d irq_port \<Rightarrow> winsn list \<Rightarrow> 'd waiting \<Rightarrow> 'd waiting \<Rightarrow> bool" for I P where
  Device: "w_pc s < length P \<Longrightarrow> ip_event I (w_dev s) = Some d \<Longrightarrow> wstep I P s (s\<lparr>w_dev := d\<rparr>)"
| Interrupt: "w_pc s < length P \<Longrightarrow> \<not> w_stall s \<Longrightarrow> w_mie s \<Longrightarrow> ip_pending I (w_dev s) \<Longrightarrow> ip_serve I (w_dev s) = Some d \<Longrightarrow>
    wstep I P s (s\<lparr>w_dev := d, w_x := (w_x s)(5 := w_x s 2)\<rparr>)"
| Execute: "w_pc s < length P \<Longrightarrow> \<not> w_stall s \<Longrightarrow> \<not> (w_mie s \<and> ip_pending I (w_dev s)) \<Longrightarrow> wstep I P s (wexec I (P ! w_pc s) s)"
| Wake: "w_pc s < length P \<Longrightarrow> w_stall s \<Longrightarrow> ip_pending I (w_dev s) \<Longrightarrow> wstep I P s (s\<lparr>w_stall := False, w_pc := Suc (w_pc s)\<rparr>)"

text \<open>The loops; each leaves at the end of its program.\<close>

definition wfi_wait :: "nat \<Rightarrow> winsn list" where
  "wfi_wait r = [Lw r, Bnez r 8, Csrc_MIE, Lw r, Bnez r 6, Wfi, Csrs_MIE, Jump 0]"

definition wait_for_dma_irq :: "winsn list" where
  "wait_for_dma_irq = [Wfi, Lw 5, Beqz 5 0]"

section \<open>An interrupt that comes\<close>

locale irq_source =
  fixes I :: "'d irq_port" and ok :: "'d \<Rightarrow> bool" and left :: "'d \<Rightarrow> nat"
  assumes serve: "ok d \<Longrightarrow> ip_pending I d \<Longrightarrow>
      \<exists>d'. ip_serve I d = Some d' \<and> ok d' \<and> left d' \<le> left d \<and> \<not> ip_pending I d' \<and> ip_flag I d' \<noteq> 0"
    and event: "ok d \<Longrightarrow> ip_event I d = Some d' \<Longrightarrow> ok d' \<and> left d' < left d \<and> ip_flag I d' = ip_flag I d"
    and awaited: "ok d \<Longrightarrow> ip_flag I d = 0 \<Longrightarrow> \<not> ip_pending I d \<Longrightarrow> ip_event I d \<noteq> None"
begin

definition wfi_inv :: "nat \<Rightarrow> 'd waiting \<Rightarrow> bool" where
  "wfi_inv r s \<longleftrightarrow> ok (w_dev s) \<and> w_pc s \<le> 8 \<and> (w_mie s \<longleftrightarrow> w_pc s \<notin> {3, 4, 5, 6}) \<and> (w_stall s \<longrightarrow> w_pc s = 5) \<and>
     (w_pc s = 5 \<longrightarrow> ip_flag I (w_dev s) = 0) \<and> (w_pc s = 8 \<longrightarrow> ip_flag I (w_dev s) \<noteq> 0) \<and>
     (w_pc s = 4 \<longrightarrow> (w_x s r = 0 \<longleftrightarrow> ip_flag I (w_dev s) = 0)) \<and>
     (w_pc s = 1 \<longrightarrow> w_x s r \<noteq> 0 \<longrightarrow> ip_flag I (w_dev s) \<noteq> 0)"

text \<open>The steps that a round still takes: with the flag set up to the exit, otherwise up to the \<open>wfi\<close>
  or up to the point where the pending interrupt is taken.\<close>

definition wfi_rank :: "bool \<Rightarrow> bool \<Rightarrow> bool \<Rightarrow> bool \<Rightarrow> nat \<Rightarrow> nat" where
  "wfi_rank f pend z stall pc =
     (if f then (if pc = 1 \<and> z then 8 else [2, 1, 7, 6, 5, 0, 4, 3, 0] ! pc)
      else if pend then (if stall then 2 else [0, 0, 0, 5, 4, 3, 1, 0, 0] ! pc)
      else if stall then 0 else [6, 5, 4, 3, 2, 1, 8, 7, 0] ! pc)"

definition wfi_measure :: "nat \<Rightarrow> 'd waiting \<Rightarrow> nat \<times> nat \<times> nat" where
  "wfi_measure r s = (left (w_dev s), of_bool (ip_pending I (w_dev s)),
     wfi_rank (ip_flag I (w_dev s) \<noteq> 0) (ip_pending I (w_dev s)) (w_x s r = 0) (w_stall s) (w_pc s))"

abbreviation lex3 :: "((nat \<times> nat \<times> nat) \<times> nat \<times> nat \<times> nat) set" where
  "lex3 \<equiv> less_than <*lex*> less_than <*lex*> less_than"

lemma upto8: "(n :: nat) \<le> 8 \<longleftrightarrow> n \<in> {0, 1, 2, 3, 4, 5, 6, 7, 8}"
  by auto

lemma wfi_step:
  assumes "wstep I (wfi_wait r) s s'" and "wfi_inv r s"
  shows "wfi_inv r s' \<and> (wfi_measure r s', wfi_measure r s) \<in> lex3"
  using assms(1)
proof cases
  case (Device d)
  then show ?thesis using assms(2) event [of "w_dev s" d]
    by (auto simp: wfi_inv_def wfi_measure_def)
next
  case (Interrupt d)
  then have "ok d \<and> left d \<le> left (w_dev s) \<and> \<not> ip_pending I d \<and> ip_flag I d \<noteq> 0"
    using assms(2) serve [of "w_dev s"] by (auto simp: wfi_inv_def)
  then show ?thesis using Interrupt assms(2) by (auto simp: wfi_inv_def wfi_measure_def)
next
  case Execute
  have "w_pc s \<in> {0, 1, 2, 3, 4, 5, 6, 7}" using Execute(2) by (auto simp: wfi_wait_def)
  then show ?thesis using Execute assms(2)
    by (elim insertE; simp add: wfi_wait_def wfi_inv_def wfi_measure_def wfi_rank_def split: if_splits)
next
  case Wake
  then show ?thesis using assms(2) by (simp add: wfi_inv_def wfi_measure_def wfi_rank_def)
qed

lemma wfi_progress:
  assumes "wfi_inv r s" and "w_pc s < 8"
  shows "\<exists>s'. wstep I (wfi_wait r) s s'"
proof -
  have l: "w_pc s < length (wfi_wait r)" using assms(2) by (simp add: wfi_wait_def)
  consider "w_stall s" "ip_pending I (w_dev s)" | "w_stall s" "\<not> ip_pending I (w_dev s)"
    | "\<not> w_stall s" "w_mie s" "ip_pending I (w_dev s)" | "\<not> w_stall s" "\<not> (w_mie s \<and> ip_pending I (w_dev s))"
    by blast
  then show ?thesis
  proof cases
    case 1
    then show ?thesis using Wake [OF l] by blast
  next
    case 2
    then have "ip_event I (w_dev s) \<noteq> None" using assms(1) awaited [of "w_dev s"] by (simp add: wfi_inv_def)
    then show ?thesis using Device [OF l] by blast
  next
    case 3
    then show ?thesis using Interrupt [OF l] serve [of "w_dev s"] assms(1) by (auto simp: wfi_inv_def)
  next
    case 4
    then show ?thesis using Execute [OF l] by blast
  qed
qed

lemma wfi_reach: "(wstep I (wfi_wait r))\<^sup>*\<^sup>* s s' \<Longrightarrow> wfi_inv r s \<Longrightarrow> wfi_inv r s'"
  by (induction rule: rtranclp_induct) (auto dest: wfi_step)

text \<open>Every run ends, and it ends at the exit with the flag set and interrupts enabled.\<close>

lemma wfi_wait_returns:
  assumes "wfi_inv r s"
  shows "\<not> (\<exists>f. f 0 = s \<and> (\<forall>i. wstep I (wfi_wait r) (f i) (f (Suc i))))"
    and "(wstep I (wfi_wait r))\<^sup>*\<^sup>* s s' \<Longrightarrow> (\<exists>t. wstep I (wfi_wait r) s' t) \<or>
       w_pc s' = 8 \<and> w_mie s' \<and> ok (w_dev s') \<and> ip_flag I (w_dev s') \<noteq> 0"
proof -
  show "\<not> (\<exists>f. f 0 = s \<and> (\<forall>i. wstep I (wfi_wait r) (f i) (f (Suc i))))"
  proof
    assume "\<exists>f. f 0 = s \<and> (\<forall>i. wstep I (wfi_wait r) (f i) (f (Suc i)))"
    then obtain f where f: "f 0 = s" "\<And>i. wstep I (wfi_wait r) (f i) (f (Suc i))" by blast
    have "wfi_inv r (f i)" for i by (induction i) (use f assms wfi_step in blast)+
    then have "(wfi_measure r (f (Suc i)), wfi_measure r (f i)) \<in> lex3" for i using f(2) wfi_step by blast
    moreover have "wf lex3" by (intro wf_lex_prod wf_less_than)
    ultimately show False unfolding wf_iff_no_infinite_down_chain by fastforce
  qed
  assume "(wstep I (wfi_wait r))\<^sup>*\<^sup>* s s'"
  then have i: "wfi_inv r s'" using assms by (rule wfi_reach)
  then consider "w_pc s' < 8" | "w_pc s' = 8" by (force simp: wfi_inv_def)
  then show "(\<exists>t. wstep I (wfi_wait r) s' t) \<or> w_pc s' = 8 \<and> w_mie s' \<and> ok (w_dev s') \<and> ip_flag I (w_dev s') \<noteq> 0"
    by cases (use i wfi_progress in \<open>auto simp: wfi_inv_def\<close>)
qed

text \<open>The devices can always bring the interrupt.\<close>

lemma event_pending:
  assumes "ok d" and "ip_flag I d = 0" and "\<not> ip_pending I d"
  shows "\<exists>d'. (\<lambda>d d'. ip_event I d = Some d')\<^sup>*\<^sup>* d d' \<and> ok d' \<and> ip_pending I d' \<and> ip_flag I d' = 0"
  using assms
proof (induction "left d" arbitrary: d rule: less_induct)
  case less
  obtain d1 where d1: "ip_event I d = Some d1" using awaited [OF less.prems] by blast
  note e = event [OF less.prems(1) d1]
  show ?case
  proof (cases "ip_pending I d1")
    case True
    then show ?thesis using r_into_rtranclp [of "\<lambda>d d'. ip_event I d = Some d'", OF d1] e less.prems(2) by auto
  next
    case False
    then obtain d' where "(\<lambda>d d'. ip_event I d = Some d')\<^sup>*\<^sup>* d1 d'" "ok d'" "ip_pending I d'" "ip_flag I d' = 0"
      using less.hyps [of d1] e less.prems(2) by auto
    then show ?thesis using converse_rtranclp_into_rtranclp [of "\<lambda>d d'. ip_event I d = Some d'", OF d1] by blast
  qed
qed

end

lemma device_steps:
  assumes "(\<lambda>d d'. ip_event I d = Some d')\<^sup>*\<^sup>* d d'" and "w_pc s < length P" and "w_dev s = d"
  shows "(wstep I P)\<^sup>*\<^sup>* s (s\<lparr>w_dev := d'\<rparr>)"
  using assms(1)
proof (induction rule: rtranclp_induct)
  case base
  then show ?case using assms(3) by auto
next
  case (step d1 d2)
  have "wstep I P (s\<lparr>w_dev := d1\<rparr>) (s\<lparr>w_dev := d1\<rparr>\<lparr>w_dev := d2\<rparr>)"
    by (rule wstep.Device) (use step.hyps(2) assms(2) in auto)
  then show ?case using step.IH by simp
qed

section \<open>An interrupt that comes once\<close>

locale irq_once = irq_source I ok left for I :: "'d irq_port" and ok :: "'d \<Rightarrow> bool" and left :: "'d \<Rightarrow> nat" +
  assumes once: "ok d \<Longrightarrow> ip_flag I d \<noteq> 0 \<Longrightarrow> \<not> ip_pending I d \<Longrightarrow> ip_event I d = Some d' \<Longrightarrow> \<not> ip_pending I d'"
begin

text \<open>A hart in this state never leaves it.\<close>

definition asleep :: "nat \<Rightarrow> 'd waiting \<Rightarrow> bool" where
  "asleep k s \<longleftrightarrow> w_pc s = k \<and> w_stall s \<and> ok (w_dev s) \<and> ip_flag I (w_dev s) \<noteq> 0 \<and> \<not> ip_pending I (w_dev s)"

lemma asleep_forever: "(wstep I P)\<^sup>*\<^sup>* s s' \<Longrightarrow> asleep k s \<Longrightarrow> asleep k s'"
proof (induction rule: rtranclp_induct)
  case (step t u)
  then have t: "asleep k t" by simp
  show ?case using step.hyps(2)
  proof cases
    case (Device d)
    then show ?thesis using t event [of "w_dev t" d] once [of "w_dev t" d] by (simp add: asleep_def)
  qed (use t in \<open>simp_all add: asleep_def\<close>)
qed

text \<open>When the loop has found the flag clear and the interrupt comes before the \<open>wfi\<close>, the hart sleeps
  although the flag is set.\<close>

lemma wakeup_lost:
  assumes "k < length P" and "P ! k = Wfi" and "w_pc s = k" and "\<not> w_stall s" and "w_mie s"
    and "ok (w_dev s)" and "ip_flag I (w_dev s) = 0" and "\<not> ip_pending I (w_dev s)"
  shows "\<exists>s'. (wstep I P)\<^sup>*\<^sup>* s s' \<and> asleep k s'"
proof -
  obtain d1 where d1: "(\<lambda>d d'. ip_event I d = Some d')\<^sup>*\<^sup>* (w_dev s) d1" "ok d1" "ip_pending I d1"
    using event_pending [OF assms(6-8)] by blast
  obtain d2 where d2: "ip_serve I d1 = Some d2" "ok d2" "\<not> ip_pending I d2" "ip_flag I d2 \<noteq> 0"
    using serve [OF d1(2,3)] by blast
  let ?s1 = "s\<lparr>w_dev := d1\<rparr>" and ?x = "(w_x s)(5 := w_x s 2)"
  let ?s2 = "?s1\<lparr>w_dev := d2, w_x := ?x\<rparr>"
  have "(wstep I P)\<^sup>*\<^sup>* s ?s1" by (rule device_steps [OF d1(1)]) (use assms in simp_all)
  moreover have "wstep I P ?s1 ?s2"
    using wstep.Interrupt [of ?s1 P I d2] assms d1 d2 by simp
  moreover have "wstep I P ?s2 (wexec I (P ! w_pc ?s2) ?s2)"
    by (rule wstep.Execute) (use assms d2 in simp_all)
  moreover have "asleep k (wexec I (P ! w_pc ?s2) ?s2)" using assms d2 by (simp add: asleep_def)
  ultimately show ?thesis by (auto intro: rtranclp.rtrancl_into_rtrancl)
qed

end

end
