(* ===== verification/Soc_Irq.thy ===== *)
theory Soc_Irq
  imports Plic Dma Irq_Wait
begin

text \<open>
  The DMA engine behind the interrupt controller, as the programs with interrupts see them: one bus
  with the controller, the descriptor front end and plain registers, the interrupt line of the
  engine as a pulse on source \<open>n\<close>, and the handler \<open>dma_isr\<close> that sets a flag. The locale of theory
  Irq_Wait is interpreted on them.
\<close>

section \<open>The devices\<close>

record soc_dev = desc_dev +
  so_plic :: plic_dev
  so_done :: u32
  so_regs :: "addr \<Rightarrow> u64"

text \<open>The line of source \<open>n\<close> is up for one sample.\<close>

definition plic_pulse :: "nat \<Rightarrow> plic_dev \<Rightarrow> plic_dev" where
  "plic_pulse n p = (plic_sample (p\<lparr>pd_src := set_bit n (pd_src p)\<rparr>))\<lparr>pd_src := pd_src p\<rparr>"

definition soc_irq :: "nat \<Rightarrow> 'e soc_dev_scheme \<Rightarrow> 'e soc_dev_scheme \<Rightarrow> 'e soc_dev_scheme" where
  "soc_irq n d0 d1 = (if de_irqs d0 < de_irqs d1 then d1\<lparr>so_plic := plic_pulse n (so_plic d1)\<rparr> else d1)"

definition soc_tick :: "(nat \<Rightarrow> nat) \<Rightarrow> nat \<Rightarrow> 'e soc_dev_scheme \<Rightarrow> 'e soc_dev_scheme" where
  "soc_tick lat n d = soc_irq n d (desc_tick lat d)"

definition in_plic :: "addr \<Rightarrow> bool" where "in_plic a \<longleftrightarrow> unat (a - PLIC_BASE) < 0x4000000"
definition in_dma :: "addr \<Rightarrow> bool" where "in_dma a \<longleftrightarrow> unat (a - DMA_BASE) < 0x1000"

definition soc_bus :: "(nat \<Rightarrow> nat) \<Rightarrow> nat \<Rightarrow> 'e soc_dev_scheme bus" where
  "soc_bus lat n =
     \<lparr>bus_rd = (\<lambda>k a d.
        if in_plic a then let (v, p) = bus_rd plic_bus k a (so_plic d) in (v, soc_tick lat n (d\<lparr>so_plic := p\<rparr>))
        else if in_dma a then let (v, d') = bus_rd (desc_bus lat) k a d in (v, soc_irq n d d')
        else (so_regs d a, soc_tick lat n d)),
      bus_wr = (\<lambda>k a v d.
        if in_plic a then soc_tick lat n (d\<lparr>so_plic := bus_wr plic_bus k a v (so_plic d)\<rparr>)
        else if in_dma a then soc_irq n d (bus_wr (desc_bus lat) k a v d)
        else soc_tick lat n (d\<lparr>so_regs := (so_regs d)(a := v)\<rparr>)),
      bus_idle = (\<lambda>k d. (soc_tick lat n ^^ k) d)\<rparr>"

section \<open>The handler and the interrupt\<close>

datatype handler = Dma_isr

definition dma_isr :: "u32 \<Rightarrow> addr \<Rightarrow> 'e soc_dev_scheme \<Rightarrow> 'e soc_dev_scheme" where
  "dma_isr irq arg d = d\<lparr>so_done := 1\<rparr>"

fun run_isr :: "handler \<Rightarrow> u32 \<Rightarrow> addr \<Rightarrow> 'e soc_dev_scheme \<Rightarrow> 'e soc_dev_scheme option" where
  "run_isr Dma_isr irq arg d = Some (dma_isr irq arg d)"

definition dma_port :: "(nat \<Rightarrow> nat) \<Rightarrow> nat \<Rightarrow> ('e soc_dev_scheme \<Rightarrow> 'e soc_dev_scheme option) \<Rightarrow> handler plic \<Rightarrow>
    'e soc_dev_scheme irq_port" where
  "dma_port lat n spurious plic0 =
     \<lparr>ip_pending = (\<lambda>d. plic_irq_id (so_plic d) 0 \<noteq> 0),
      ip_serve = plic_handle_m_ext_irq (soc_bus lat n) run_isr spurious plic0,
      ip_flag = (\<lambda>d. scast (so_done d)),
      ip_event = (\<lambda>d. if desc_busy d then Some (soc_tick lat n d) else None)\<rparr>"

section \<open>One source\<close>

text \<open>The controller as the programs set it up for source \<open>n\<close>, with the source pending or not.\<close>

definition wired :: "nat \<Rightarrow> bool \<Rightarrow> plic_dev \<Rightarrow> bool" where
  "wired n pend p \<longleftrightarrow> n \<in> {1..30} \<and> pd_thr p 0 = 0 \<and> pd_prio p n = 1 \<and> bit (pd_ie p 0) n \<and> pd_src p = 0 \<and>
     pd_ip p = (if pend then irq_bit n else 0) \<and> pd_ia p = pd_ip p"

lemma wired_pick: "wired n pend p \<Longrightarrow> plic_irq_id p 0 = (if pend then n else 0)"
proof -
  assume w: "wired n pend p"
  then have n: "1 \<le> n" "n \<le> 30" by (auto simp: wired_def)
  have e: "eligible p 0 i \<longleftrightarrow> pend \<and> i = n" for i
    using w n by (auto simp: wired_def eligible_def bit_simps bit_irq_bit)
  show ?thesis
  proof (cases pend)
    case True
    have "plic_irq_id p 0 \<noteq> 0"
      using plic_irq_id_spec(1) [of p 0] w n e True by (auto simp: wired_def N_SOURCE_def)
    then show ?thesis using plic_irq_id_spec(2) [of p 0] e True by simp
  next
    case False
    then show ?thesis using plic_irq_id_spec(1) [of p 0] e by simp
  qed
qed

lemma irq_bit_exp: "1 \<le> n \<Longrightarrow> irq_bit n = 2 ^ n"
  by (simp add: irq_bit_def)

lemma pulse_wired: "wired n False p \<Longrightarrow> wired n True (plic_pulse n p)"
  by (auto simp: wired_def plic_pulse_def plic_sample_def irq_bit_exp)

text \<open>The engine has nothing to do: time passes, nothing else happens.\<close>

lemma idle_tick:
  assumes "\<not> desc_busy d"
  shows "soc_tick lat n d = d\<lparr>de_wait := de_wait d - 1\<rparr>"
proof -
  have "desc_tick lat d = d\<lparr>de_wait := de_wait d - 1\<rparr>"
    using assms by (auto simp: desc_tick_def desc_busy_def)
  then show ?thesis by (simp add: soc_tick_def soc_irq_def)
qed

lemma busy_so [simp]:
  "desc_busy (d\<lparr>so_plic := p\<rparr>) = desc_busy d" "desc_busy (d\<lparr>so_done := b\<rparr>) = desc_busy d"
  "desc_busy (d\<lparr>de_wait := w\<rparr>) = desc_busy d" "desc_busy (d\<lparr>de_mem := m\<rparr>) = desc_busy d"
  "desc_busy (d\<lparr>so_regs := r\<rparr>) = desc_busy d"
  by (simp_all add: desc_busy_def)

text \<open>One descriptor with an interrupt is queued, or its interrupt is pending, or has been served; \<open>m\<close> is
  the memory after the transfer.\<close>

definition dma_ok :: "nat \<Rightarrow> mem \<Rightarrow> 'e soc_dev_scheme \<Rightarrow> bool" where
  "dma_ok n m d \<longleftrightarrow> de_next d = END_OF_CHAIN \<and>
     ((\<exists>a. wired n False (so_plic d) \<and> so_done d = 0 \<and> de_fifo d = [a] \<and> next_desc (load_desc (de_mem d) a) = END_OF_CHAIN \<and>
         bit (flags_and_length (load_desc (de_mem d) a)) 32 \<and> m = desc_exec (de_mem d) a) \<or>
      wired n True (so_plic d) \<and> so_done d = 0 \<and> de_fifo d = [] \<and> de_mem d = m \<or>
      wired n False (so_plic d) \<and> so_done d = 1 \<and> de_fifo d = [] \<and> de_mem d = m)"

definition dma_left :: "'e soc_dev_scheme \<Rightarrow> nat" where
  "dma_left d = (if desc_busy d then Suc (de_wait d) else 0)"

definition handled :: "handler plic \<Rightarrow> nat \<Rightarrow> bool" where
  "handled p n \<longleftrightarrow> p_regs p = PLIC_BASE \<and> p_bound p \<and> fst (p_table p n) = Isr Dma_isr"

lemma dma_ok_cases:
  assumes "dma_ok n m d"
  obtains (come) a where "de_next d = END_OF_CHAIN" "wired n False (so_plic d)" "so_done d = 0" "de_fifo d = [a]"
      "next_desc (load_desc (de_mem d) a) = END_OF_CHAIN" "bit (flags_and_length (load_desc (de_mem d) a)) 32" "m = desc_exec (de_mem d) a"
  | (pend) "\<not> desc_busy d" "de_next d = END_OF_CHAIN" "de_fifo d = []" "wired n True (so_plic d)" "so_done d = 0" "de_mem d = m"
  | (served) "\<not> desc_busy d" "wired n False (so_plic d)" "so_done d = 1" "de_mem d = m"
  using assms by (auto simp: dma_ok_def desc_busy_def)

lemma in_plic_claim: "in_plic (claim_reg PLIC_BASE 0)"
  by (simp add: in_plic_def claim_reg_def c_const)

lemma soc_plic_wr: "in_plic a \<Longrightarrow> wr32 (soc_bus lat n) a v d = soc_tick lat n (d\<lparr>so_plic := wr32 plic_bus a v (so_plic d)\<rparr>)"
  by (simp add: wr32_def soc_bus_def)

lemma soc_plic_rd: "in_plic a \<Longrightarrow> rd32 (soc_bus lat n) a d =
    (let (v, p) = rd32 plic_bus a (so_plic d) in (v, soc_tick lat n (d\<lparr>so_plic := p\<rparr>)))"
  by (simp add: rd32_def soc_bus_def Let_def split_def)

lemma dma_serve:
  assumes "handled plic0 n" and "wired n True (so_plic d)" and "\<not> desc_busy d"
  shows "\<exists>p. ip_serve (dma_port lat n sp plic0) d = Some (d\<lparr>so_plic := p, so_done := 1, de_wait := de_wait d - 2\<rparr>) \<and> wired n False p"
proof -
  let ?p = "so_plic d"
  define p1 where "p1 = ?p\<lparr>pd_ip := pd_ip ?p AND NOT (irq_bit n)\<rparr>"
  define p2 where "p2 = p1\<lparr>pd_ia := pd_ia p1 AND NOT (irq_bit n)\<rparr>"
  have n: "1 \<le> n" "n \<le> 30" "n \<noteq> 0" using assms(2) by (auto simp: wired_def)
  have u: "unat (of_nat n :: u32) = n" using n by (simp add: unat_of_nat take_bit_nat_eq_self)
  have "rd32 plic_bus (claim_reg PLIC_BASE 0) ?p = (of_nat n, p1)"
    using wired_pick [OF assms(2)] by (simp add: dev_simps p1_def)
  then have c: "rd32 (soc_bus lat n) (claim_reg PLIC_BASE 0) d = (of_nat n, d\<lparr>so_plic := p1, de_wait := de_wait d - 1\<rparr>)"
    using assms(3) by (simp add: soc_plic_rd in_plic_claim idle_tick)
  have a: "unat (of_nat n AND 31 :: u32) = n" using u n by (simp add: unat_and_31)
  have w: "wr32 (soc_bus lat n) (claim_reg PLIC_BASE 0) (of_nat n) (d\<lparr>so_plic := p1, de_wait := v, so_done := 1\<rparr>) =
      d\<lparr>so_plic := p2, so_done := 1, de_wait := v - 1\<rparr>" for v
    using assms(3) by (simp add: soc_plic_wr in_plic_claim idle_tick dev_simps a p2_def)
  obtain arg where e: "p_table plic0 n = (Isr Dma_isr, arg)" using assms(1) by (cases "p_table plic0 n") (auto simp: handled_def)
  have "(of_nat n :: u32) \<noteq> 0" using u n by auto
  then have "ip_serve (dma_port lat n sp plic0) d = Some (d\<lparr>so_plic := p2, so_done := 1, de_wait := de_wait d - 2\<rparr>)"
    using assms(1) n(2) u e c w
    by (simp add: dma_port_def plic_handle_m_ext_irq_def plic_op_handle_m_ext_def handled_def plic_op_claim_M0
        plic_op_complete_M0 PLIC_NUM_SOURCES_def dma_isr_def numeral_2_eq_2)
  moreover have "wired n False p2" using assms(2) n by (auto simp: wired_def p2_def p1_def)
  ultimately show ?thesis by blast
qed

lemma dma_event:
  assumes "dma_ok n m d" and "desc_busy d"
  shows "dma_ok n m (soc_tick lat n d) \<and> dma_left (soc_tick lat n d) < dma_left d \<and>
    so_done (soc_tick lat n d) = so_done d"
  using assms(1)
proof (cases rule: dma_ok_cases)
  case (come a)
  show ?thesis
  proof (cases "de_wait d")
    case 0
    have "desc_tick lat d = d\<lparr>de_mem := m, de_fifo := [], de_irqs := Suc (de_irqs d),
        de_done := Suc (de_done d), de_wait := lat (Suc (de_done d))\<rparr>"
      using come 0 by (simp add: desc_tick_def desc_step_def)
    then have "soc_tick lat n d = d\<lparr>de_mem := m, de_fifo := [], de_irqs := Suc (de_irqs d),
        de_done := Suc (de_done d), de_wait := lat (Suc (de_done d)), so_plic := plic_pulse n (so_plic d)\<rparr>"
      by (simp add: soc_tick_def soc_irq_def)
    then show ?thesis using come pulse_wired by (simp add: dma_ok_def dma_left_def desc_busy_def)
  next
    case (Suc w)
    then have "soc_tick lat n d = d\<lparr>de_wait := w\<rparr>" by (simp add: soc_tick_def soc_irq_def desc_tick_def)
    then show ?thesis using come Suc by (simp add: dma_ok_def dma_left_def desc_busy_def)
  qed
qed (use assms(2) in simp_all)

interpretation dma: irq_once "dma_port lat n sp plic0" "\<lambda>d. dma_ok n m d \<and> handled plic0 n" dma_left
proof unfold_locales
  fix d d' :: "'a soc_dev_scheme"
  assume ok: "dma_ok n m d \<and> handled plic0 n"
  then have "dma_ok n m d" by blast
  then show "ip_pending (dma_port lat n sp plic0) d \<Longrightarrow>
      \<exists>d'. ip_serve (dma_port lat n sp plic0) d = Some d' \<and> (dma_ok n m d' \<and> handled plic0 n) \<and>
        dma_left d' \<le> dma_left d \<and> \<not> ip_pending (dma_port lat n sp plic0) d' \<and> ip_flag (dma_port lat n sp plic0) d' \<noteq> 0"
  proof (cases rule: dma_ok_cases)
    case pend
    obtain p where "ip_serve (dma_port lat n sp plic0) d = Some (d\<lparr>so_plic := p, so_done := 1, de_wait := de_wait d - 2\<rparr>)" "wired n False p"
      using dma_serve [of plic0 n d lat sp] pend ok by blast
    then show ?thesis using ok pend wired_pick [of n False p] by (simp add: dma_ok_def dma_port_def dma_left_def)
  qed (simp_all add: dma_port_def wired_pick)
  show "ip_event (dma_port lat n sp plic0) d = Some d' \<Longrightarrow> (dma_ok n m d' \<and> handled plic0 n) \<and>
      dma_left d' < dma_left d \<and> ip_flag (dma_port lat n sp plic0) d' = ip_flag (dma_port lat n sp plic0) d"
    using dma_event [of n m d lat] ok by (auto simp: dma_port_def split: if_splits)
  show "ip_flag (dma_port lat n sp plic0) d = 0 \<Longrightarrow> \<not> ip_pending (dma_port lat n sp plic0) d \<Longrightarrow>
      ip_event (dma_port lat n sp plic0) d \<noteq> None"
    using \<open>dma_ok n m d\<close> wired_pick [of n True "so_plic d"]
    by (cases rule: dma_ok_cases) (auto simp: dma_port_def desc_busy_def wired_def [of _ True])
  show "ip_flag (dma_port lat n sp plic0) d \<noteq> 0 \<Longrightarrow> \<not> ip_pending (dma_port lat n sp plic0) d \<Longrightarrow>
      ip_event (dma_port lat n sp plic0) d = Some d' \<Longrightarrow> \<not> ip_pending (dma_port lat n sp plic0) d'"
    using \<open>dma_ok n m d\<close> by (cases rule: dma_ok_cases) (auto simp: dma_port_def split: if_splits)
qed

end
