(* ===== verification/Dma_Test.thy ===== *)
theory Dma_Test
  imports Hook Soc_Irq Minlibc Console
begin

text \<open>
  The DMA tests \<open>software/app/dma_reg64_1d_test\<close> (polling) and \<open>software/app/dma_desc64_test\<close>
  (interrupt). The addresses of the static buffers and of the descriptor are parameters, as the linker
  places them. The second program is a relation between its start and its results: its wait loop runs
  on the machine of theory Irq_Wait, and so many of its runs exist as interleavings; the \<open>printf\<close>
  before the loop, during which the transfer goes on, is the \<open>Nop\<close> in front of it.
\<close>

section \<open>Buffers\<close>

definition XFER_LEN :: u32 where [c_const]: "XFER_LEN = 1024"

definition fill_pattern :: "addr \<Rightarrow> u32 \<Rightarrow> mem \<Rightarrow> mem" where
  "fill_pattern buf len m = fold (\<lambda>i m. m(buf + of_nat i := ucast (of_nat i * 7 + 0x13 :: u32))) [0..<unat len] m"

fun verify_bytes :: "mem \<Rightarrow> mem \<Rightarrow> addr \<Rightarrow> addr \<Rightarrow> nat list \<Rightarrow> 'd app \<Rightarrow> (u32 \<times> 'd app) option" where
  "verify_bytes ms m a b [] s = Some (0, s)"
| "verify_bytes ms m a b (i # is) s =
     (if m (a + of_nat i) \<noteq> m (b + of_nat i)
      then map_option (Pair (- 1)) (say ms ''MISMATCH @ %u: got 0x%02x, exp 0x%02x\<newline>''
             [of_nat i, ucast (m (b + of_nat i)), ucast (m (a + of_nat i))] s)
      else verify_bytes ms m a b is s)"

definition verify :: "mem \<Rightarrow> mem \<Rightarrow> addr \<Rightarrow> addr \<Rightarrow> u32 \<Rightarrow> 'd app \<Rightarrow> (u32 \<times> 'd app) option" where
  "verify ms m a b len s = verify_bytes ms m a b [0..<unat len] s"

text \<open>The end of both programs.\<close>

definition dma_verdict :: "mem \<Rightarrow> mem \<Rightarrow> addr \<Rightarrow> addr \<Rightarrow> 'd app \<Rightarrow> (u32 \<times> 'd app) option" where
  "dma_verdict ms m src_buf dst_buf s =
     Option.bind (verify ms m src_buf dst_buf XFER_LEN s) (\<lambda>(r, s).
       if r \<noteq> 0 then map_option (Pair 1) (say ms ''FAIL\<newline>'' [] s) else map_option (Pair 0) (say ms ''PASS\<newline>'' [] s))"

section \<open>dma_reg64_1d_test\<close>

definition dma_reg64_1d_test_main :: "(nat \<Rightarrow> nat) \<Rightarrow> mem \<Rightarrow> addr \<Rightarrow> addr \<Rightarrow> dma_reg64_1d \<Rightarrow> reg_dev app \<Rightarrow> (u32 \<times> reg_dev app) option" where
  "dma_reg64_1d_test_main lat ms src_buf dst_buf c s =
     Option.bind (say ms ''=== iDMA reg64_1d memcpy demo (polling) ===\<newline>'' [] s) (\<lambda>s.
     Option.bind (say ms ''src = %p  dst = %p  len = %u\<newline>'' [src_buf, dst_buf, ucast XFER_LEN] s) (\<lambda>s.
     let s = on_dev (\<lambda>d. d\<lparr>re_mem := snd (memset dst_buf 0 (ucast XFER_LEN) (fill_pattern src_buf XFER_LEN (re_mem d)))\<rparr>) s
     in if \<not> r6_bound c then None
        else
          let (xid, s) = from_dev (dma_reg64_1d_op_submit (reg_bus lat) c dst_buf src_buf (ucast XFER_LEN)) s
          in Option.bind (say ms ''submitted id=%u\<newline>'' [ucast xid] s) (\<lambda>s.
             Option.bind (dma_reg64_1d_op_wait (reg_bus lat) c xid (ap_dev s)) (\<lambda>d.
             let s = s\<lparr>ap_dev := d\<rparr>;
                 (done_id, s) = from_dev (dma_reg64_1d_op_done_id (reg_bus lat) c) s;
                 (busy, s) = from_dev (dma_reg64_1d_op_busy (reg_bus lat) c) s
             in Option.bind (say ms ''done_id=%u busy=%d\<newline>'' [ucast done_id, of_bool busy] s) (\<lambda>s.
                dma_verdict ms (re_mem (ap_dev s)) src_buf dst_buf s)))))"

section \<open>dma_desc64_test\<close>

definition dma_desc64_before :: "(nat \<Rightarrow> nat) \<Rightarrow> mem \<Rightarrow> addr \<Rightarrow> addr \<Rightarrow> addr \<Rightarrow> handler plic \<Rightarrow> dma_desc64 \<Rightarrow> soc_dev app \<Rightarrow>
    (handler plic \<times> soc_dev app) option" where
  "dma_desc64_before lat ms src_buf dst_buf desc p c s =
     Option.bind (say ms ''=== iDMA desc64 memcpy demo (IRQ) ===\<newline>'' [] s) (\<lambda>s.
     Option.bind (say ms ''src = %p  dst = %p  len = %u\<newline>'' [src_buf, dst_buf, ucast XFER_LEN] s) (\<lambda>s.
     if \<not> p_bound p then None
     else
       let B = soc_bus lat (unat IRQn_DMA);
           p = plic_op_register_handler p IRQn_DMA (Some Dma_isr) 0;
           s = on_dev (plic_op_set_priority B p IRQn_DMA 1) s;
           s = on_dev (plic_op_set_threshold B p PLIC_CTX_M0 0) s;
           s = on_dev (plic_op_enable B p PLIC_CTX_M0 IRQn_DMA) s;
           s = on_dev (\<lambda>d. d\<lparr>de_mem := snd (memset dst_buf 0 (ucast XFER_LEN) (fill_pattern src_buf XFER_LEN (de_mem d)))\<rparr>) s;
           s = on_dev (\<lambda>d. d\<lparr>de_mem := store_desc (de_mem d) desc
                 \<lparr>flags_and_length = dma_desc64_pack XFER_LEN (FLAG_SRC_INCR OR FLAG_DST_INCR OR FLAG_IRQ),
                  next_desc = END_OF_CHAIN, src_addr = src_buf, dst_addr = dst_buf\<rparr>\<rparr>) s
       in if \<not> d6_bound c then None
          else Option.bind (dma_desc64_op_submit B c desc (ap_dev s)) (\<lambda>d.
               map_option (Pair p) (say ms ''submitted descriptor, waiting for IRQ...\<newline>'' [] (s\<lparr>ap_dev := d\<rparr>)))))"

definition dma_desc64_wait :: "nat \<Rightarrow> winsn list" where
  "dma_desc64_wait r = [Nop, Lw r, Bnez r 5, Wfi, Jump 1]"

definition dma_desc64_after :: "(nat \<Rightarrow> nat) \<Rightarrow> mem \<Rightarrow> addr \<Rightarrow> addr \<Rightarrow> dma_desc64 \<Rightarrow> soc_dev app \<Rightarrow> (u32 \<times> soc_dev app) option" where
  "dma_desc64_after lat ms src_buf dst_buf c s =
     (let (busy, s) = from_dev (dma_desc64_op_busy (soc_bus lat (unat IRQn_DMA)) c) s
      in Option.bind (say ms ''IRQ received, busy=%d\<newline>'' [of_bool busy] s) (\<lambda>s.
         dma_verdict ms (de_mem (ap_dev s)) src_buf dst_buf s))"

text \<open>The hart at the start of a wait loop, with interrupts enabled.\<close>

definition awake :: "(nat \<Rightarrow> u64) \<Rightarrow> 'd \<Rightarrow> 'd waiting" where
  "awake x d = \<lparr>w_pc = 0, w_x = x, w_mie = True, w_stall = False, w_dev = d\<rparr>"

inductive dma_desc64_test_main :: "(nat \<Rightarrow> nat) \<Rightarrow> (soc_dev \<Rightarrow> soc_dev option) \<Rightarrow> nat \<Rightarrow> (nat \<Rightarrow> u64) \<Rightarrow> mem \<Rightarrow> addr \<Rightarrow> addr \<Rightarrow> addr \<Rightarrow>
    handler plic \<Rightarrow> dma_desc64 \<Rightarrow> soc_dev app \<Rightarrow> u32 \<times> soc_dev app \<Rightarrow> bool" for lat sp r x ms src_buf dst_buf desc p c s where
  "dma_desc64_before lat ms src_buf dst_buf desc p c s = Some (p', s1) \<Longrightarrow>
   (wstep (dma_port lat (unat IRQn_DMA) sp p') (dma_desc64_wait r))\<^sup>*\<^sup>* (awake x (ap_dev s1)) w \<Longrightarrow>
   w_pc w = length (dma_desc64_wait r) \<Longrightarrow>
   dma_desc64_after lat ms src_buf dst_buf c (s1\<lparr>ap_dev := w_dev w\<rparr>) = Some res \<Longrightarrow>
   dma_desc64_test_main lat sp r x ms src_buf dst_buf desc p c s res"

section \<open>The buffers\<close>

lemma fill_pattern_put:
  "fill_pattern buf len m = mem_put m buf (unat len) (\<lambda>o'. ucast (ucast o' * 7 + 0x13 :: u32))"
proof -
  have *: "fold (\<lambda>i m. m(buf + of_nat i := ucast (of_nat i * 7 + 0x13 :: u32))) [0..<n] m =
      mem_put m buf n (\<lambda>o'. ucast (ucast o' * 7 + 0x13 :: u32))" if "n < 2 ^ 32" for n
    using that
  proof (induction n)
    case (Suc n)
    have u: "unat (of_nat n :: addr) = n" by (rule unat_of_nat64) (use Suc.prems in simp)
    have c: "ucast (of_nat n :: addr) = (of_nat n :: u32)" by (simp add: unsigned_of_nat)
    have eq: "x = buf + of_nat n \<longleftrightarrow> unat (x - buf) = n" for x
      using u by (metis add.commute diff_add_cancel eq_of_nat_unat add_diff_cancel_left')
    show ?case using Suc by (auto simp: fun_eq_iff mem_put_def eq less_Suc_eq u c)
  qed simp
  show ?thesis unfolding fill_pattern_def by (rule *) (use unat_lt32 [of len] in simp)
qed

lemma verify_same:
  "\<forall>i \<in> set is. m (a + of_nat i) = m (b + of_nat i) \<Longrightarrow> verify_bytes ms m a b is s = Some (0, s)"
  by (induction "is") auto

lemma dma_verdict_pass:
  assumes "bytes_at m src_buf 1024 = bytes_at m dst_buf 1024"
  shows "dma_verdict ms m src_buf dst_buf s = Some (0, s\<lparr>ap_out := ap_out s @ str ''PASS\<newline>''\<rparr>)"
proof -
  have "\<forall>i \<in> set [0..<1024]. m (src_buf + of_nat i) = m (dst_buf + of_nat i)"
    using assms by (auto simp: bytes_at_def)
  from verify_same [OF this, of ms s] have "verify ms m src_buf dst_buf XFER_LEN s = Some (0, s)"
    by (simp only: verify_def XFER_LEN_def) simp
  then show ?thesis by (simp add: dma_verdict_def say_plain)
qed

lemma copied:
  assumes "apart src_buf n dst_buf n" and "n < 2 ^ 32"
  shows "bytes_at (mem_put m dst_buf n (\<lambda>o'. m (src_buf + o'))) src_buf n =
    bytes_at (mem_put m dst_buf n (\<lambda>o'. m (src_buf + o'))) dst_buf n"
  using assms by (simp add: bytes_at_apart bytes_at_copy less_trans [of n])

section \<open>The polling test\<close>

lemma report_text:
  "text_of m ''src = %p  dst = %p  len = %u\<newline>'' [a, b, c] \<noteq> None"
  "text_of m ''submitted id=%u\<newline>'' [a] \<noteq> None"
  "text_of m ''done_id=%u busy=%d\<newline>'' [a, b] \<noteq> None"
  "text_of m ''IRQ received, busy=%d\<newline>'' [a] \<noteq> None"
  by (simp_all add: text_of_def parse_spec_def parse_width_def parse_precision_def parse_length_def cur_def is_digit_def
      conv_acts_def int_specs_def Let_def split: prod.splits)

lemma reg_idle_tick: "re_queue d = [] \<Longrightarrow> re_mem (reg_tick lat d) = re_mem d \<and> re_queue (reg_tick lat d) = []"
  by (simp add: reg_tick_def Let_def)

lemma dma_reg64_test_passes:
  assumes "reg_inv (ap_dev s)" and "re_queue (ap_dev s) = []" and "r6_regs c = DMA_BASE" and "r6_bound c"
    and "apart src_buf 1024 dst_buf 1024"
  shows "\<exists>s' t. dma_reg64_1d_test_main lat ms src_buf dst_buf c s = Some (0, s') \<and> ap_out s' = ap_out s @ t @ str ''PASS\<newline>''"
proof -
  let ?m1 = "snd (memset dst_buf 0 (ucast XFER_LEN) (fill_pattern src_buf XFER_LEN (re_mem (ap_dev s))))"
  let ?d = "(ap_dev s)\<lparr>re_mem := ?m1\<rparr>"
  have inv: "reg_inv ?d" "length (re_queue ?d) < 2 ^ 31 - 5" using assms(1,2) by (simp_all add: reg_inv_def)
  obtain i d1 d2 where sub: "dma_reg64_1d_op_submit (reg_bus lat) c dst_buf src_buf (ucast XFER_LEN) ?d = (i, d1)"
    and wt: "dma_reg64_1d_op_wait (reg_bus lat) c i d1 = Some d2" and q: "re_queue d2 = []"
    and mm: "re_mem d2 = dma_copy (queued ?d) src_buf dst_buf (ucast XFER_LEN)"
    using reg64_transfer [OF assms(3) inv, of lat dst_buf src_buf "ucast XFER_LEN"] by blast
  have m2: "re_mem d2 = mem_put ?m1 dst_buf 1024 (\<lambda>o'. ?m1 (src_buf + o'))"
    using assms(2) by (simp add: mm queued_def dma_copy_def XFER_LEN_def)
  have same: "bytes_at (re_mem d2) src_buf 1024 = bytes_at (re_mem d2) dst_buf 1024"
    unfolding m2 by (rule copied [OF assms(5)]) simp
  obtain v d3 where r1: "dma_reg64_1d_op_done_id (reg_bus lat) c d2 = (v, d3)" "re_mem d3 = re_mem d2" "re_queue d3 = []"
    using reg_idle_tick [OF q, of lat] by (simp add: dma_reg64_1d_op_done_id_def assms(3) dev_simps reg_rd_def)
  obtain b d4 where r2: "dma_reg64_1d_op_busy (reg_bus lat) c d3 = (b, d4)" "re_mem d4 = re_mem d2"
    using reg_idle_tick [OF r1(3), of lat] r1(2) by (simp add: dma_reg64_1d_op_busy_def assms(3) dev_simps reg_rd_def)
  have same4: "bytes_at (re_mem d4) src_buf 1024 = bytes_at (re_mem d4) dst_buf 1024" using same r2(2) by simp
  show ?thesis using assms(4)
    by (simp add: dma_reg64_1d_test_main_def say_plain say_said report_text on_dev_def from_dev_def sub wt r1(1) r2(1)
        dma_verdict_pass [OF same4] del: str_Cons)
qed

text \<open>C18. As it stands, the polling test calls \<open>submit\<close> through a null pointer: no code binds
  \<open>dma_reg64_1d_0\<close>, since the two lines of \<open>pre_main\<close> that did are commented out. With these two lines
  the test returns 0 and prints PASS, on an idle engine of any speed and in any state of its id counters.\<close>

theorem dma_reg64_test_unbound:
  assumes "pre_main T B (drivers_zero :: ('p, 'c) drivers) mstatus d = (g, mstatus', d')" and "c = g_dma_reg64_1d_0 g"
    and "dma_reg64_1d_op_init (reg_bus lat) DMA_BASE (dma_reg64_1d_bind c) (ap_dev s) = (c1, d1)"
    and "reg_inv (ap_dev s)" and "re_queue (ap_dev s) = []" and "apart src_buf 1024 dst_buf 1024"
  shows "dma_reg64_1d_test_main lat ms src_buf dst_buf c s = None \<and>
    (\<exists>s' t. dma_reg64_1d_test_main lat ms src_buf dst_buf c1 (s\<lparr>ap_dev := d1\<rparr>) = Some (0, s') \<and>
       ap_out s' = ap_out s @ t @ str ''PASS\<newline>'')"
proof -
  have "c = g_dma_reg64_1d_0 (drivers_zero :: ('p, 'c) drivers)" using pre_main_drivers(8) [OF assms(1)] assms(2) by simp
  then have "\<not> r6_bound c" by (simp add: drivers_zero_def)
  then have "dma_reg64_1d_test_main lat ms src_buf dst_buf c s = None"
    by (simp add: dma_reg64_1d_test_main_def say_plain say_said report_text on_dev_def)
  moreover have c1: "r6_regs c1 = DMA_BASE" "r6_bound c1"
    and d1: "d1 = reg_tick lat ((ap_dev s)\<lparr>re_conf := 0\<rparr>)"
    using assms(3) by (auto simp: dma_reg64_1d_op_init_def dma_reg64_1d_bind_def dev_simps reg_wr_def CONF_DEFAULT_def)
  have "reg_inv d1" "re_queue d1 = []"
    using reg_inv_tick [of "(ap_dev s)\<lparr>re_conf := 0\<rparr>" lat] reg_idle_tick [of "(ap_dev s)\<lparr>re_conf := 0\<rparr>" lat] assms(4,5)
    by (simp_all add: d1 reg_inv_def)
  then have "\<exists>s' t. dma_reg64_1d_test_main lat ms src_buf dst_buf c1 (s\<lparr>ap_dev := d1\<rparr>) = Some (0, s') \<and>
      ap_out s' = ap_out (s\<lparr>ap_dev := d1\<rparr>) @ t @ str ''PASS\<newline>''"
    by (intro dma_reg64_test_passes c1 assms(6)) simp_all
  ultimately show ?thesis by simp
qed

lemma dma_reg64_test_unbound_witness:
  "\<exists>s' t. dma_reg64_1d_test_main (\<lambda>n. n) (\<lambda>_. 0) 0x80001000 0x80002000
      (fst (dma_reg64_1d_op_init (reg_bus (\<lambda>n. n)) DMA_BASE (dma_reg64_1d_bind \<lparr>r6_regs = 0, r6_bound = False\<rparr>) (re_reset (\<lambda>_. 0))))
      \<lparr>ap_dev = snd (dma_reg64_1d_op_init (reg_bus (\<lambda>n. n)) DMA_BASE (dma_reg64_1d_bind \<lparr>r6_regs = 0, r6_bound = False\<rparr>) (re_reset (\<lambda>_. 0))),
       ap_out = []\<rparr> = Some (0, s') \<and> ap_out s' = t @ str ''PASS\<newline>''"
proof -
  let ?c = "\<lparr>r6_regs = 0, r6_bound = False\<rparr>" and ?s = "\<lparr>ap_dev = re_reset (\<lambda>_. 0), ap_out = []\<rparr> :: reg_dev app"
  obtain g ms' d' where g: "pre_main Fpga (uart_bus (\<lambda>n. n)) (drivers_zero :: (unit, unit) drivers) 0 uart_reset = (g, ms', d')"
    by (metis prod_cases3)
  have c: "?c = g_dma_reg64_1d_0 g" using pre_main_drivers(8) [OF g] by (simp add: drivers_zero_def)
  have inv: "reg_inv (ap_dev ?s)" by (simp add: reg_inv_def re_reset_def id_pos_def ID_PERIOD_def)
  have q: "re_queue (ap_dev ?s) = []" by (simp add: re_reset_def)
  have ap: "apart 0x80001000 1024 0x80002000 1024"
    by (rule apart_offsets [where j = 0 and k = "0x1000" and a = "0x80001000", simplified]) simp_all
  show ?thesis using dma_reg64_test_unbound [OF g c prod.collapse [symmetric] inv q ap] by auto
qed

end
