(* ===== verification/Dma_Irq_Test.thy ===== *)
theory Dma_Irq_Test
  imports Dma_Test
begin

text \<open>
  The wait of \<open>dma_desc64_test\<close>: what the set-up leaves in the controller and the engine, that every run
  that leaves the loop passes, and that some runs never leave it.
\<close>

section \<open>Setting up the interrupt\<close>

text \<open>No source is pending or active, the engine has nothing to do.\<close>

definition quiet :: "'e soc_dev_scheme \<Rightarrow> bool" where
  "quiet d \<longleftrightarrow> pd_ip (so_plic d) = 0 \<and> pd_ia (so_plic d) = 0 \<and> pd_src (so_plic d) = 0 \<and> \<not> desc_busy d"

lemma quiet_tick: "quiet d \<Longrightarrow> soc_tick lat n d = d\<lparr>de_wait := de_wait d - 1\<rparr>"
  by (simp add: quiet_def idle_tick)

lemma in_plic_regs:
  "i \<le> 30 \<Longrightarrow> in_plic (priority_reg PLIC_BASE i)" "in_plic (threshold_reg PLIC_BASE 0)" "in_plic (enable_reg PLIC_BASE 0 0)"
proof -
  show "i \<le> 30 \<Longrightarrow> in_plic (priority_reg PLIC_BASE i)"
    unfolding in_plic_def priority_reg_def PRIORITY_OFF_def using plic_off [of "0 + 4 * i"] by simp
qed (simp_all add: in_plic_def threshold_reg_def enable_reg_def c_const)

lemma rd_enable: "rd32 plic_bus (enable_reg PLIC_BASE 0 0) p = (pd_ie p 0, p)"
  by (simp add: rd32_def plic_bus_def plic_reg_rd_def enable_reg_def c_const Let_def)

lemma set_priority_quiet:
  assumes "quiet d" and "p_regs p = PLIC_BASE" and "1 \<le> n" and "n \<le> 30"
  shows "plic_op_set_priority (soc_bus lat n) p (of_nat n) 1 d =
    d\<lparr>so_plic := (so_plic d)\<lparr>pd_prio := (pd_prio (so_plic d))(n := 1)\<rparr>, de_wait := de_wait d - 1\<rparr>"
proof -
  have u: "unat (of_nat n :: u32) = n" using assms(4) by (simp add: unat_of_nat take_bit_nat_eq_self)
  show ?thesis using assms
    by (simp add: plic_op_set_priority_def u PLIC_NUM_SOURCES_def soc_plic_wr in_plic_regs dev_simps quiet_tick quiet_def desc_busy_def)
qed

lemma set_threshold_quiet:
  assumes "quiet d" and "p_regs p = PLIC_BASE"
  shows "plic_op_set_threshold (soc_bus lat n) p PLIC_CTX_M0 0 d =
    d\<lparr>so_plic := (so_plic d)\<lparr>pd_thr := (pd_thr (so_plic d))(0 := 0)\<rparr>, de_wait := de_wait d - 1\<rparr>"
  using assms by (simp add: plic_op_set_threshold_def PLIC_NUM_TARGETS_def PLIC_CTX_M0_def soc_plic_wr in_plic_regs dev_simps quiet_tick quiet_def
      desc_busy_def)

lemma enable_quiet:
  assumes "quiet d" and "p_regs p = PLIC_BASE" and "1 \<le> n" and "n \<le> 30"
  shows "\<exists>e. plic_op_enable (soc_bus lat n) p PLIC_CTX_M0 (of_nat n) d =
    d\<lparr>so_plic := (so_plic d)\<lparr>pd_ie := (pd_ie (so_plic d))(0 := e)\<rparr>, de_wait := de_wait d - 1 - 1\<rparr> \<and> bit e n"
proof -
  have u: "unat (of_nat n :: u32) = n" using assms(4) by (simp add: unat_of_nat take_bit_nat_eq_self)
  have a: "unat (of_nat n AND 31 :: u32) = n" using assms(4) u by (simp add: unat_and_31)
  let ?e = "(pd_ie (so_plic d) 0 OR push_bit n 1) AND 0x7FFFFFFE"
  have e: "(0x7FFFFFFE :: u32) = mask 31 AND NOT 1" by (simp add: mask_eq_exp_minus_1)
  have "bit (mask 31 AND NOT 1 :: u32) n" using assms(3,4) unfolding bit_and_iff bit_mask_iff bit_not_iff bit_1_iff by simp
  then have "bit ?e n" using assms(4) unfolding e bit_and_iff bit_or_iff bit_push_bit_iff by simp
  moreover have "plic_op_enable (soc_bus lat n) p PLIC_CTX_M0 (of_nat n) d =
    d\<lparr>so_plic := (so_plic d)\<lparr>pd_ie := (pd_ie (so_plic d))(0 := ?e)\<rparr>, de_wait := de_wait d - 1 - 1\<rparr>"
    using assms
    by (simp add: plic_op_enable_def PLIC_NUM_TARGETS_def PLIC_NUM_SOURCES_def PLIC_CTX_M0_def u a soc_plic_rd soc_plic_wr in_plic_regs
        rd_enable quiet_tick quiet_def desc_busy_def wr_enable)
  ultimately show ?thesis by blast
qed

lemma apart_less: "apart p n q k \<Longrightarrow> j \<le> k \<Longrightarrow> apart p n q j"
  by (auto simp: apart_def)

text \<open>A descriptor queued on an engine that has nothing to do.\<close>

lemma desc_work:
  fixes d :: "'e soc_dev_scheme" and len flags :: u32
  assumes "\<not> desc_busy d" and "bit flags 0"
    and "de_mem d = store_desc m1 a \<lparr>flags_and_length = dma_desc64_pack len flags, next_desc = END_OF_CHAIN, src_addr = src, dst_addr = dst\<rparr>"
    and "apart src (unat len) dst (unat len)" and "apart src (unat len) a 32" and "apart dst (unat len) a 32"
  obtains m where "m = desc_exec (de_mem d) a" and "next_desc (load_desc (de_mem d) a) = END_OF_CHAIN"
    and "bit (flags_and_length (load_desc (de_mem d) a)) 32" and "bytes_at m src (unat len) = bytes_at m1 src (unat len)"
    and "bytes_at m dst (unat len) = bytes_at m1 src (unat len)"
proof
  let ?m = "desc_exec (de_mem d) a" and ?n = "unat len"
  have ld: "load_desc (de_mem d) a = \<lparr>flags_and_length = dma_desc64_pack len flags, next_desc = END_OF_CHAIN, src_addr = src, dst_addr = dst\<rparr>"
    unfolding assms(3) by (rule load_store_desc)
  show "?m = desc_exec (de_mem d) a" by (rule refl)
  show "next_desc (load_desc (de_mem d) a) = END_OF_CHAIN" "bit (flags_and_length (load_desc (de_mem d) a)) 32"
    using assms(2) by (simp_all add: ld pack_fields)
  have n32: "?n < 2 ^ 32" using unat_lt32 [of len] by simp
  have "?n < 2 ^ 64" by (rule less_trans [OF n32]) simp
  note n = n32 this
  have e: "?m = store64 (mem_put (de_mem d) dst ?n (\<lambda>o'. de_mem d (src + o'))) a (- 1)"
    by (simp add: desc_exec_def ld dma_copy_def pack_fields)
  have s0: "bytes_at (de_mem d) src ?n = bytes_at m1 src ?n"
    unfolding assms(3) by (rule store_desc_apart) (use assms(5) n in simp_all)
  have ap: "apart src ?n a 8" "apart dst ?n a 8" using assms(5,6) by (auto intro: apart_less)
  show "bytes_at ?m src ?n = bytes_at m1 src ?n"
    using ap assms(4) s0 by (simp add: e store64_def bytes_at_apart)
  show "bytes_at ?m dst ?n = bytes_at m1 src ?n"
    using ap s0 n by (simp add: e store64_def bytes_at_apart bytes_at_copy)
qed

lemma soc_status:
  "rd64 (soc_bus lat n) (DMA_BASE + STATUS_OFF) d = (desc_status d, soc_tick lat n d)"
proof -
  have "\<not> in_plic (DMA_BASE + STATUS_OFF)" "in_dma (DMA_BASE + STATUS_OFF)"
    by (simp_all add: in_plic_def in_dma_def c_const)
  then show ?thesis by (simp add: rd64_def soc_bus_def soc_tick_def desc_bus_def) (simp add: c_const)
qed

lemma soc_enqueue:
  assumes "de_fifo d = []"
  shows "wr64 (soc_bus lat n) (DMA_BASE + DESC_ADDR_OFF) a d = soc_tick lat n (d\<lparr>de_fifo := [a]\<rparr>)"
proof -
  have "\<not> in_plic (DMA_BASE + DESC_ADDR_OFF)" "in_dma (DMA_BASE + DESC_ADDR_OFF)"
    by (simp_all add: in_plic_def in_dma_def c_const)
  moreover have "INPUT_FIFO_DEPTH > 0" "take_bit 4 (DMA_BASE + DESC_ADDR_OFF) = 0" by (simp_all add: c_const)
  ultimately show ?thesis using assms by (simp add: wr64_def soc_bus_def soc_tick_def soc_irq_def desc_bus_def)
qed

lemma submit_quiet:
  assumes "quiet d" and "d6_regs c = DMA_BASE"
  shows "dma_desc64_op_submit (soc_bus lat n) c a d = Some (soc_tick lat n (d\<lparr>de_wait := de_wait d - 1, de_fifo := [a]\<rparr>))"
proof -
  have f: "de_fifo d = []" using assms(1) by (simp add: quiet_def desc_busy_def)
  then have "\<not> 8 \<le> length (de_fifo d)" by simp
  then have "status_step (soc_bus lat n) DMA_BASE STATUS_FIFO_FULL d = (False, d\<lparr>de_wait := de_wait d - 1\<rparr>)"
    using desc_status_bits(2) [of d] by (simp add: status_step_def soc_status quiet_tick [OF assms(1)])
  then have "poll (status_step (soc_bus lat n) DMA_BASE STATUS_FIFO_FULL) d = Some (d\<lparr>de_wait := de_wait d - 1\<rparr>)"
    by (rule poll_stop)
  then show ?thesis using assms(2) f by (auto simp: dma_desc64_op_submit_def soc_enqueue)
qed

text \<open>Submitting the descriptor: from here on the interrupt is on its way.\<close>

lemma transfer_started:
  fixes d :: "soc_dev" and len flags :: u32
  assumes "quiet d" and "d6_regs c = DMA_BASE" and "wired n False (so_plic d)" and "so_done d = 0" and "bit flags 0"
    and "de_mem d = store_desc m1 a \<lparr>flags_and_length = dma_desc64_pack len flags, next_desc = END_OF_CHAIN, src_addr = src, dst_addr = dst\<rparr>"
    and "apart src (unat len) dst (unat len)" and "apart src (unat len) a 32" and "apart dst (unat len) a 32"
  obtains m d' where "dma_desc64_op_submit (soc_bus lat n) c a d = Some d'" and "dma_ok n m d'"
    and "bytes_at m src (unat len) = bytes_at m1 src (unat len)" and "bytes_at m dst (unat len) = bytes_at m1 src (unat len)"
    and "1 < de_wait d \<Longrightarrow> desc_busy d'"
proof -
  have busy: "\<not> desc_busy d" using assms(1) by (simp add: quiet_def)
  obtain m where m: "m = desc_exec (de_mem d) a" "next_desc (load_desc (de_mem d) a) = END_OF_CHAIN"
    "bit (flags_and_length (load_desc (de_mem d) a)) 32"
    "bytes_at m src (unat len) = bytes_at m1 src (unat len)" "bytes_at m dst (unat len) = bytes_at m1 src (unat len)"
    using desc_work [OF busy assms(5-9)] .
  let ?d = "d\<lparr>de_wait := de_wait d - 1, de_fifo := [a]\<rparr>"
  have ok: "dma_ok n m ?d" "desc_busy ?d"
    using busy m assms(3,4) by (simp_all add: dma_ok_def desc_busy_def)
  have "dma_ok n m (soc_tick lat n ?d)" using dma_event [OF ok] by blast
  moreover have "desc_busy (soc_tick lat n ?d)" if "1 < de_wait d"
    using that ok(2) by (simp add: soc_tick_def soc_irq_def desc_tick_def desc_busy_def)
  ultimately show ?thesis using that submit_quiet [OF assms(1,2), of lat n a] m(4,5) by blast
qed

text \<open>Every run that leaves a loop has the flag set, and then the transfer is complete.\<close>

lemma dma_reach:
  assumes "(wstep (dma_port lat n sp p) P)\<^sup>*\<^sup>* s s'" and "dma_ok n m (w_dev s)" and "handled p n"
  shows "dma_ok n m (w_dev s')"
  using assms(1,2)
proof (induction rule: rtranclp_induct)
  case (step t u)
  then have ok: "dma_ok n m (w_dev t) \<and> handled p n" using assms(3) by blast
  show ?case using step.hyps(2)
  proof cases
    case (Device d)
    then show ?thesis using dma.event [OF ok, of lat sp d] by simp
  next
    case (Interrupt d)
    then show ?thesis using dma.serve [OF ok, of lat sp] by auto
  next
    case Execute
    then show ?thesis using ok by (cases "P ! w_pc t") simp_all
  next
    case Wake
    then show ?thesis using ok by simp
  qed
qed simp

lemma dma_done: "dma_ok n m d \<Longrightarrow> so_done d \<noteq> 0 \<Longrightarrow> quiet d \<and> wired n False (so_plic d) \<and> de_mem d = m"
  by (erule dma_ok_cases) (auto simp: quiet_def wired_def)

section \<open>The loop of dma_desc64_test\<close>

definition desc64_inv :: "nat \<Rightarrow> nat \<Rightarrow> mem \<Rightarrow> soc_dev waiting \<Rightarrow> bool" where
  "desc64_inv n r m s \<longleftrightarrow> dma_ok n m (w_dev s) \<and> w_pc s \<le> 5 \<and>
     (w_pc s = 2 \<longrightarrow> w_x s r \<noteq> 0 \<longrightarrow> so_done (w_dev s) \<noteq> 0) \<and> (w_pc s = 5 \<longrightarrow> so_done (w_dev s) \<noteq> 0) \<and>
     (w_stall s \<longrightarrow> w_pc s = 3)"

lemma served_flag:
  assumes "ip_serve (dma_port lat n sp p) d = Some d'" and "dma_ok n m d" and "handled p n" and "ip_pending (dma_port lat n sp p) d"
  shows "dma_ok n m d' \<and> so_done d' \<noteq> 0"
  using dma.serve [of n m d p lat sp] assms by (auto simp: dma_port_def)

lemma event_flag:
  assumes "ip_event (dma_port lat n sp p) d = Some d'" and "dma_ok n m d"
  shows "dma_ok n m d' \<and> so_done d' = so_done d"
  using dma_event [OF assms(2)] assms(1) by (auto simp: dma_port_def split: if_splits)

lemma port_flag [simp]: "ip_flag (dma_port lat n sp p) d = scast (so_done d)"
  by (simp add: dma_port_def)

lemma scast_eq_0 [simp]: "(scast (v :: u32) :: u64) = 0 \<longleftrightarrow> v = 0"
proof
  assume "(scast v :: u64) = 0"
  then have "sint (scast v :: u64) = 0" by simp
  then have "sint v = 0" by (simp add: sint_up_scast is_up)
  then have "(word_of_int (sint v) :: u32) = 0" by simp
  then show "v = 0" by simp
qed simp

lemma desc64_inv_step:
  assumes "wstep (dma_port lat n sp p) (dma_desc64_wait r) s s'" and "desc64_inv n r m s" and "handled p n"
  shows "desc64_inv n r m s'"
  using assms(1)
proof cases
  case (Device d)
  then show ?thesis using assms(2) event_flag [of lat n sp p "w_dev s" d m] by (auto simp: desc64_inv_def)
next
  case (Interrupt d)
  then show ?thesis using assms(2,3) served_flag [of lat n sp p "w_dev s" d m] by (auto simp: desc64_inv_def)
next
  case Execute
  have "w_pc s \<in> {0, 1, 2, 3, 4}" using Execute(2) by (auto simp: dma_desc64_wait_def)
  then show ?thesis using Execute assms(2)
    by (elim insertE; simp add: dma_desc64_wait_def desc64_inv_def split: if_splits)
next
  case Wake
  then show ?thesis using assms(2) by (simp add: desc64_inv_def)
qed

lemma desc64_inv_reach:
  "(wstep (dma_port lat n sp p) (dma_desc64_wait r))\<^sup>*\<^sup>* s s' \<Longrightarrow> desc64_inv n r m s \<Longrightarrow> handled p n \<Longrightarrow> desc64_inv n r m s'"
  by (induction rule: rtranclp_induct) (auto intro: desc64_inv_step)

text \<open>The interrupt can come at once.\<close>

lemma interrupted:
  fixes s :: "soc_dev waiting"
  assumes "dma_ok n m (w_dev s)" and "handled p n" and "so_done (w_dev s) = 0" and "w_pc s < length P" and "w_mie s" and "\<not> w_stall s"
  shows "\<exists>s'. (wstep (dma_port lat n sp p) P)\<^sup>*\<^sup>* s s' \<and> dma_ok n m (w_dev s') \<and> so_done (w_dev s') \<noteq> 0 \<and>
    \<not> ip_pending (dma_port lat n sp p) (w_dev s') \<and> w_pc s' = w_pc s \<and> w_mie s' \<and> \<not> w_stall s'"
proof -
  let ?I = "dma_port lat n sp p"
  have ok: "dma_ok n m (w_dev s) \<and> handled p n" using assms(1,2) by blast
  obtain d1 where d1: "(\<lambda>d d'. ip_event ?I d = Some d')\<^sup>*\<^sup>* (w_dev s) d1" "dma_ok n m d1 \<and> handled p n" "ip_pending ?I d1"
  proof (cases "ip_pending ?I (w_dev s)")
    case True
    then show ?thesis using that ok by blast
  next
    case False
    then show ?thesis using that dma.event_pending [OF ok] assms(3) by auto
  qed
  obtain d2 where d2: "ip_serve ?I d1 = Some d2" "dma_ok n m d2" "\<not> ip_pending ?I d2" "ip_flag ?I d2 \<noteq> 0"
    using dma.serve [OF d1(2,3)] by blast
  let ?s1 = "s\<lparr>w_dev := d1\<rparr>"
  let ?s2 = "?s1\<lparr>w_dev := d2, w_x := (w_x ?s1)(5 := w_x ?s1 2)\<rparr>"
  have "(wstep ?I P)\<^sup>*\<^sup>* s ?s1" by (rule device_steps [OF d1(1)]) (use assms in simp_all)
  moreover have "wstep ?I P ?s1 ?s2" using wstep.Interrupt [of ?s1 P ?I d2] assms d1 d2 by simp
  ultimately have "(wstep ?I P)\<^sup>*\<^sup>* s ?s2" by (rule rtranclp.rtrancl_into_rtrancl)
  then show ?thesis using assms d2 by (intro exI [of _ ?s2]) simp
qed

lemma irq_set_up:
  fixes d :: soc_dev
  assumes "quiet d" and "p_regs p = PLIC_BASE" and "1 \<le> n" and "n \<le> 30"
  obtains q where "plic_op_enable (soc_bus lat n) p PLIC_CTX_M0 (of_nat n)
      (plic_op_set_threshold (soc_bus lat n) p PLIC_CTX_M0 0 (plic_op_set_priority (soc_bus lat n) p (of_nat n) 1 d)) =
      d\<lparr>so_plic := q, de_wait := de_wait d - 4\<rparr>" and "wired n False q"
proof -
  let ?q1 = "(so_plic d)\<lparr>pd_prio := (pd_prio (so_plic d))(n := 1)\<rparr>"
  let ?q2 = "?q1\<lparr>pd_thr := (pd_thr (so_plic d))(0 := 0)\<rparr>"
  let ?d1 = "d\<lparr>so_plic := ?q1, de_wait := de_wait d - 1\<rparr>" and ?d2 = "d\<lparr>so_plic := ?q2, de_wait := de_wait d - 2\<rparr>"
  note d1 = set_priority_quiet [OF assms, of lat]
  have "quiet ?d1" using assms(1) by (simp add: quiet_def)
  from set_threshold_quiet [OF this assms(2), of lat n] have
    d2: "plic_op_set_threshold (soc_bus lat n) p PLIC_CTX_M0 0 ?d1 = ?d2" by (simp add: numeral_2_eq_2)
  have "quiet ?d2" using assms(1) by (simp add: quiet_def)
  from enable_quiet [OF this assms(2-4), of lat] obtain e where
    d3: "plic_op_enable (soc_bus lat n) p PLIC_CTX_M0 (of_nat n) ?d2 =
      d\<lparr>so_plic := ?q2\<lparr>pd_ie := (pd_ie (so_plic d))(0 := e)\<rparr>, de_wait := de_wait d - 4\<rparr>" "bit e n" by auto
  have "wired n False (?q2\<lparr>pd_ie := (pd_ie (so_plic d))(0 := e)\<rparr>)"
    using assms d3(2) by (simp add: wired_def quiet_def)
  then show ?thesis using that d1 d2 d3(1) by simp
qed

text \<open>Where the linker may place the buffers.\<close>

definition placed :: "nat \<Rightarrow> addr \<Rightarrow> addr \<Rightarrow> addr \<Rightarrow> bool" where
  "placed len src dst desc \<longleftrightarrow> apart src len dst len \<and> apart src len desc 32 \<and> apart dst len desc 32"

lemma desc64_before:
  assumes "quiet (ap_dev s)" and "so_done (ap_dev s) = 0" and "p_regs p = PLIC_BASE" and "p_bound p"
    and "d6_regs c = DMA_BASE" and "d6_bound c" and "placed 1024 src_buf dst_buf desc"
  obtains p' s1 m t where "dma_desc64_before lat ms src_buf dst_buf desc p c s = Some (p', s1)" and "handled p' 3"
    and "dma_ok 3 m (ap_dev s1)" and "bytes_at m src_buf 1024 = bytes_at m dst_buf 1024" and "ap_out s1 = ap_out s @ t"
    and "5 < de_wait (ap_dev s) \<Longrightarrow> desc_busy (ap_dev s1)"
proof -
  have i: "unat IRQn_DMA = 3" "IRQn_DMA = of_nat 3" by (simp_all add: IRQn_DMA_def)
  define p' where "p' = plic_op_register_handler p IRQn_DMA (Some Dma_isr) 0"
  have p': "p_regs p' = PLIC_BASE" "handled p' 3"
    using assms(3,4) by (simp_all add: p'_def plic_op_register_handler_def i(1) handled_def PLIC_NUM_SOURCES_def)
  have n: "1 \<le> (3 :: nat)" "(3 :: nat) \<le> 30" by simp_all
  obtain q where "plic_op_enable (soc_bus lat 3) p' PLIC_CTX_M0 (of_nat 3)
      (plic_op_set_threshold (soc_bus lat 3) p' PLIC_CTX_M0 0 (plic_op_set_priority (soc_bus lat 3) p' (of_nat 3) 1 (ap_dev s))) =
      (ap_dev s)\<lparr>so_plic := q, de_wait := de_wait (ap_dev s) - 4\<rparr>" and wired: "wired 3 False q"
    by (rule irq_set_up [OF assms(1) p'(1) n])
  note d3 = this(1) [folded i(2)] wired
  define flags where "flags = FLAG_SRC_INCR OR FLAG_DST_INCR OR FLAG_IRQ"
  define m1 where "m1 = snd (memset dst_buf 0 (ucast XFER_LEN) (fill_pattern src_buf XFER_LEN (de_mem (ap_dev s))))"
  define d4 where "d4 = (ap_dev s)\<lparr>so_plic := q, de_wait := de_wait (ap_dev s) - 4, de_mem := store_desc m1 desc \<lparr>flags_and_length = dma_desc64_pack XFER_LEN flags,
      next_desc = END_OF_CHAIN, src_addr = src_buf, dst_addr = dst_buf\<rparr>\<rparr>"
  have len: "unat XFER_LEN = 1024" by (simp add: XFER_LEN_def)
  have f: "bit flags 0" by (simp add: flags_def c_const)
  have q4: "quiet d4" and w4: "wired 3 False (so_plic d4)" and z4: "so_done d4 = 0"
    using assms(1,2) d3(2) by (simp_all add: d4_def quiet_def desc_busy_def wired_def)
  have mem: "de_mem d4 = store_desc m1 desc \<lparr>flags_and_length = dma_desc64_pack XFER_LEN flags,
      next_desc = END_OF_CHAIN, src_addr = src_buf, dst_addr = dst_buf\<rparr>" by (simp add: d4_def)
  have ap: "apart src_buf (unat XFER_LEN) dst_buf (unat XFER_LEN)" "apart src_buf (unat XFER_LEN) desc 32"
    "apart dst_buf (unat XFER_LEN) desc 32" using assms(7) unfolding len placed_def by simp_all
  from transfer_started [OF q4 assms(5) w4 z4 f mem ap, of lat] obtain m d5 where
    d5: "dma_desc64_op_submit (soc_bus lat 3) c desc d4 = Some d5" "dma_ok 3 m d5"
      "bytes_at m src_buf 1024 = bytes_at m dst_buf 1024" "1 < de_wait d4 \<Longrightarrow> desc_busy d5" unfolding len by metis
  have "5 < de_wait (ap_dev s) \<Longrightarrow> desc_busy d5" using d5(4) by (simp add: d4_def)
  have d4': "(ap_dev s)\<lparr>so_plic := q, de_wait := de_wait (ap_dev s) - 4, de_mem := m1\<rparr>\<lparr>de_mem := store_desc m1 desc
      \<lparr>flags_and_length = dma_desc64_pack XFER_LEN flags, next_desc = END_OF_CHAIN, src_addr = src_buf, dst_addr = dst_buf\<rparr>\<rparr> = d4"
    by (simp add: d4_def)
  have "dma_desc64_before lat ms src_buf dst_buf desc p c s = Some (p', s\<lparr>ap_dev := d5, ap_out := ap_out s @
      str ''=== iDMA desc64 memcpy demo (IRQ) ===\<newline>'' @ said ms ''src = %p  dst = %p  len = %u\<newline>'' [src_buf, dst_buf, ucast XFER_LEN] @
      str ''submitted descriptor, waiting for IRQ...\<newline>''\<rparr>)"
    using assms(4,6) d3(1) d5(1) d4' unfolding dma_desc64_before_def i(1) p'_def [symmetric] flags_def [symmetric]
    by (simp add: say_plain say_said report_text on_dev_def Let_def m1_def [symmetric] del: str_Cons)
  with \<open>5 < de_wait (ap_dev s) \<Longrightarrow> desc_busy d5\<close> show ?thesis using that p'(2) d5(2,3) by simp
qed

lemma soc_busy:
  assumes "d6_regs c = DMA_BASE" and "quiet d"
  shows "dma_desc64_op_busy (soc_bus lat n) c d = (False, d\<lparr>de_wait := de_wait d - 1\<rparr>)"
  using assms desc_status_bits(1) [of d]
  by (simp add: dma_desc64_op_busy_def soc_status quiet_tick) (simp add: quiet_def)

lemma desc64_after:
  assumes "quiet (ap_dev s)" and "de_mem (ap_dev s) = m" and "bytes_at m src_buf 1024 = bytes_at m dst_buf 1024" and "d6_regs c = DMA_BASE"
  shows "\<exists>d. dma_desc64_after lat ms src_buf dst_buf c s =
    Some (0, s\<lparr>ap_dev := d, ap_out := ap_out s @ said ms ''IRQ received, busy=%d\<newline>'' [0] @ str ''PASS\<newline>''\<rparr>)"
  using assms
  by (simp add: dma_desc64_after_def from_dev_def soc_busy say_said report_text dma_verdict_pass del: str_Cons)
     (rule exI, rule refl)

text \<open>A run through the loop in which the interrupt comes during the \<open>printf\<close>.\<close>

lemma desc64_leaves:
  fixes d :: soc_dev
  assumes "dma_ok n m d" and "handled p n"
  shows "\<exists>w. (wstep (dma_port lat n sp p) (dma_desc64_wait r))\<^sup>*\<^sup>* (awake x d) w \<and> w_pc w = 5"
proof -
  let ?I = "dma_port lat n sp p" and ?P = "dma_desc64_wait r"
  have steps: "\<exists>w. (wstep ?I ?P)\<^sup>*\<^sup>* s w \<and> w_pc w = 5"
    if "w_pc s = 0" "w_mie s" "\<not> w_stall s" "so_done (w_dev s) \<noteq> 0" "\<not> ip_pending ?I (w_dev s)" for s :: "soc_dev waiting"
  proof -
    let ?s1 = "wexec ?I Nop s" and ?s2 = "wexec ?I (Lw r) (wexec ?I Nop s)"
    let ?s3 = "wexec ?I (Bnez r 5) ?s2"
    have "wstep ?I ?P s ?s1" using wstep.Execute [of s ?P ?I] that by (simp add: dma_desc64_wait_def)
    moreover have "wstep ?I ?P ?s1 ?s2" using wstep.Execute [of ?s1 ?P ?I] that by (simp add: dma_desc64_wait_def)
    moreover have "wstep ?I ?P ?s2 ?s3" using wstep.Execute [of ?s2 ?P ?I] that by (simp add: dma_desc64_wait_def)
    ultimately have "(wstep ?I ?P)\<^sup>*\<^sup>* s ?s3" by (meson converse_rtranclp_into_rtranclp rtranclp.rtrancl_refl)
    moreover have "w_pc ?s3 = 5" using that by simp
    ultimately show ?thesis by blast
  qed
  show ?thesis
  proof (cases "so_done d = 0")
    case True
    obtain s where s: "(wstep ?I ?P)\<^sup>*\<^sup>* (awake x d) s" "so_done (w_dev s) \<noteq> 0" "\<not> ip_pending ?I (w_dev s)"
      "w_pc s = 0" "w_mie s" "\<not> w_stall s"
      using interrupted [of n m "awake x d" p ?P lat sp] assms True by (auto simp: awake_def dma_desc64_wait_def)
    then show ?thesis using steps [of s] by (meson rtranclp_trans)
  next
    case False
    have "\<not> ip_pending ?I d"
      using assms(1) by (cases rule: dma_ok_cases) (use False in \<open>simp_all add: dma_port_def wired_pick\<close>)
    then show ?thesis using steps [of "awake x d"] False by (simp add: awake_def)
  qed
qed

text \<open>A run in which it comes between the test of the flag and the \<open>wfi\<close>.\<close>

lemma desc64_hangs:
  fixes d :: soc_dev
  assumes "dma_ok n m d" and "handled p n" and "desc_busy d"
  shows "\<exists>w. (wstep (dma_port lat n sp p) (dma_desc64_wait r))\<^sup>*\<^sup>* (awake x d) w \<and>
    (\<forall>w'. (wstep (dma_port lat n sp p) (dma_desc64_wait r))\<^sup>*\<^sup>* w w' \<longrightarrow> w_pc w' = 3 \<and> so_done (w_dev w') \<noteq> 0)"
proof -
  let ?I = "dma_port lat n sp p" and ?P = "dma_desc64_wait r" and ?s = "awake x d"
  have z: "so_done d = 0" "\<not> ip_pending ?I d"
    using assms(1,3) by (cases rule: dma_ok_cases; simp add: dma_port_def wired_pick)+
  let ?s1 = "wexec ?I Nop ?s" and ?s2 = "wexec ?I (Lw r) (wexec ?I Nop ?s)"
  let ?s3 = "wexec ?I (Bnez r 5) ?s2"
  have "wstep ?I ?P ?s ?s1" using wstep.Execute [of ?s ?P ?I] z by (simp add: dma_desc64_wait_def awake_def)
  moreover have "wstep ?I ?P ?s1 ?s2" using wstep.Execute [of ?s1 ?P ?I] z by (simp add: dma_desc64_wait_def awake_def)
  moreover have "wstep ?I ?P ?s2 ?s3" using wstep.Execute [of ?s2 ?P ?I] z by (simp add: dma_desc64_wait_def awake_def)
  ultimately have a: "(wstep ?I ?P)\<^sup>*\<^sup>* ?s ?s3" by (meson converse_rtranclp_into_rtranclp rtranclp.rtrancl_refl)
  have k: "3 < length ?P" "?P ! 3 = Wfi" by (simp_all add: dma_desc64_wait_def)
  have "\<exists>w. (wstep ?I ?P)\<^sup>*\<^sup>* ?s3 w \<and> dma.asleep lat n sp p m 3 w"
    by (rule dma.wakeup_lost [OF k]) (use z assms in \<open>simp_all add: awake_def\<close>)
  then obtain w where w: "(wstep ?I ?P)\<^sup>*\<^sup>* ?s3 w" "dma.asleep lat n sp p m 3 w" by blast
  have "w_pc w' = 3 \<and> so_done (w_dev w') \<noteq> 0" if "(wstep ?I ?P)\<^sup>*\<^sup>* w w'" for w'
    using dma.asleep_forever [OF that w(2)] by (simp add: dma.asleep_def)
  then show ?thesis using a w(1) by (meson rtranclp_trans)
qed

text \<open>C13. The descriptor test, started with a controller and an engine that have nothing pending: whatever
  the interleaving, a run that ends returns 0 and prints PASS, with the destination equal to the source,
  and there are such runs; but on an engine that takes more than five accesses to begin, there are also runs
  in which the interrupt is served between the test of the flag and the \<open>wfi\<close>, and the hart then sleeps
  for ever with the flag set.\<close>

theorem dma_desc64_test_race:
  assumes "quiet (ap_dev s)" and "so_done (ap_dev s) = 0" and "p_regs p = PLIC_BASE" and "p_bound p"
    and "d6_regs c = DMA_BASE" and "d6_bound c" and "placed 1024 src_buf dst_buf desc"
  shows "(\<exists>res. dma_desc64_test_main lat sp r x ms src_buf dst_buf desc p c s res) \<and>
    (\<forall>res. dma_desc64_test_main lat sp r x ms src_buf dst_buf desc p c s res \<longrightarrow> fst res = 0 \<and>
       bytes_at (de_mem (ap_dev (snd res))) dst_buf 1024 = bytes_at (de_mem (ap_dev (snd res))) src_buf 1024 \<and>
       (\<exists>t. ap_out (snd res) = ap_out s @ t @ str ''PASS\<newline>'')) \<and>
    (\<exists>p' s1. dma_desc64_before lat ms src_buf dst_buf desc p c s = Some (p', s1) \<and>
       (5 < de_wait (ap_dev s) \<longrightarrow>
         (\<exists>w. (wstep (dma_port lat (unat IRQn_DMA) sp p') (dma_desc64_wait r))\<^sup>*\<^sup>* (awake x (ap_dev s1)) w \<and>
            (\<forall>w'. (wstep (dma_port lat (unat IRQn_DMA) sp p') (dma_desc64_wait r))\<^sup>*\<^sup>* w w' \<longrightarrow>
               w_pc w' = 3 \<and> so_done (w_dev w') \<noteq> 0))))"
proof (intro conjI)
  have i: "unat IRQn_DMA = 3" by (simp add: IRQn_DMA_def)
  obtain p' s1 m t where b: "dma_desc64_before lat ms src_buf dst_buf desc p c s = Some (p', s1)" "handled p' 3"
    "dma_ok 3 m (ap_dev s1)" "bytes_at m src_buf 1024 = bytes_at m dst_buf 1024" "ap_out s1 = ap_out s @ t"
    "5 < de_wait (ap_dev s) \<Longrightarrow> desc_busy (ap_dev s1)"
    by (rule desc64_before [OF assms, of lat ms]) blast
  have inv: "desc64_inv 3 r m (awake x (ap_dev s1))" using b(3) by (simp add: desc64_inv_def awake_def)
  have fin: "\<exists>d. dma_desc64_after lat ms src_buf dst_buf c (s1\<lparr>ap_dev := w_dev w\<rparr>) = Some (0, s1\<lparr>ap_dev := d, ap_out := ap_out s1 @
      said ms ''IRQ received, busy=%d\<newline>'' [0] @ str ''PASS\<newline>''\<rparr>) \<and> de_mem d = m"
    if "(wstep (dma_port lat 3 sp p') (dma_desc64_wait r))\<^sup>*\<^sup>* (awake x (ap_dev s1)) w" "w_pc w = 5" for w
  proof -
    have "desc64_inv 3 r m w" by (rule desc64_inv_reach [OF that(1) inv b(2)])
    then have "quiet (w_dev w) \<and> de_mem (w_dev w) = m" using that(2) dma_done [of 3 m "w_dev w"] by (simp add: desc64_inv_def)
    then show ?thesis using b(4) assms(5)
      by (simp add: dma_desc64_after_def from_dev_def soc_busy say_said report_text dma_verdict_pass del: str_Cons)
         (rule exI, rule conjI, rule refl, simp)
  qed
  show "\<exists>res. dma_desc64_test_main lat sp r x ms src_buf dst_buf desc p c s res"
  proof -
    obtain w where w: "(wstep (dma_port lat 3 sp p') (dma_desc64_wait r))\<^sup>*\<^sup>* (awake x (ap_dev s1)) w" "w_pc w = 5"
      using desc64_leaves [OF b(3,2)] by blast
    then obtain res where res: "dma_desc64_after lat ms src_buf dst_buf c (s1\<lparr>ap_dev := w_dev w\<rparr>) = Some res" using fin by blast
    have "dma_desc64_test_main lat sp r x ms src_buf dst_buf desc p c s res"
      by (rule dma_desc64_test_main.intros [OF b(1) _ _ res]) (use w in \<open>simp_all add: i dma_desc64_wait_def\<close>)
    then show ?thesis by blast
  qed
  show "\<forall>res. dma_desc64_test_main lat sp r x ms src_buf dst_buf desc p c s res \<longrightarrow> fst res = 0 \<and>
       bytes_at (de_mem (ap_dev (snd res))) dst_buf 1024 = bytes_at (de_mem (ap_dev (snd res))) src_buf 1024 \<and>
       (\<exists>t. ap_out (snd res) = ap_out s @ t @ str ''PASS\<newline>'')"
  proof (intro allI impI)
    fix res assume "dma_desc64_test_main lat sp r x ms src_buf dst_buf desc p c s res"
    then obtain w where w: "(wstep (dma_port lat 3 sp p') (dma_desc64_wait r))\<^sup>*\<^sup>* (awake x (ap_dev s1)) w" "w_pc w = 5"
      "dma_desc64_after lat ms src_buf dst_buf c (s1\<lparr>ap_dev := w_dev w\<rparr>) = Some res"
      by cases (use b(1) i in \<open>auto simp: dma_desc64_wait_def\<close>)
    then show "fst res = 0 \<and>
       bytes_at (de_mem (ap_dev (snd res))) dst_buf 1024 = bytes_at (de_mem (ap_dev (snd res))) src_buf 1024 \<and>
       (\<exists>t. ap_out (snd res) = ap_out s @ t @ str ''PASS\<newline>'')"
      using fin [OF w(1,2)] b(4,5) by (auto simp del: str_Cons)
  qed
  show "\<exists>p' s1. dma_desc64_before lat ms src_buf dst_buf desc p c s = Some (p', s1) \<and>
       (5 < de_wait (ap_dev s) \<longrightarrow>
         (\<exists>w. (wstep (dma_port lat (unat IRQn_DMA) sp p') (dma_desc64_wait r))\<^sup>*\<^sup>* (awake x (ap_dev s1)) w \<and>
            (\<forall>w'. (wstep (dma_port lat (unat IRQn_DMA) sp p') (dma_desc64_wait r))\<^sup>*\<^sup>* w w' \<longrightarrow>
               w_pc w' = 3 \<and> so_done (w_dev w') \<noteq> 0)))"
    using b(1,6) desc64_hangs [OF b(3,2), of lat sp r x] by (auto simp: i)
qed

definition demo_plic0 :: "handler plic" where
  "demo_plic0 = \<lparr>p_regs = PLIC_BASE, p_table = (\<lambda>_. (Default_isr, 0)), p_bound = True\<rparr>"

definition demo_soc :: "soc_dev app" where
  "demo_soc = \<lparr>ap_dev = \<lparr>de_mem = (\<lambda>_. 0), de_fifo = [], de_next = END_OF_CHAIN, de_wait = 9, de_done = 0, de_irqs = 0,
     so_plic = \<lparr>pd_prio = (\<lambda>_. 0), pd_thr = (\<lambda>_. 0), pd_ie = (\<lambda>_. 0), pd_ip = 0, pd_ia = 0, pd_src = 0, pd_err = 0\<rparr>,
     so_done = 0, so_regs = (\<lambda>_. 0)\<rparr>, ap_out = []\<rparr>"

lemma demo_placed: "placed 1024 0x80001000 0x80002000 0x80003000"
  unfolding placed_def
  using apart_offsets [where j = 0 and k = "0x1000" and a = "0x80001000" and n = 1024 and l = 1024, simplified]
    apart_offsets [where j = 0 and k = "0x2000" and a = "0x80001000" and n = 1024 and l = 32, simplified]
    apart_offsets [where j = 0 and k = "0x1000" and a = "0x80002000" and n = 1024 and l = 32, simplified]
  by simp

lemma dma_desc64_test_race_witness:
  "\<exists>p' s1 w. dma_desc64_before (\<lambda>n. n) (\<lambda>_. 0) 0x80001000 0x80002000 0x80003000 demo_plic0 \<lparr>d6_regs = DMA_BASE, d6_bound = True\<rparr> demo_soc = Some (p', s1) \<and>
     (wstep (dma_port (\<lambda>n. n) (unat IRQn_DMA) Some p') (dma_desc64_wait 15))\<^sup>*\<^sup>* (awake (\<lambda>_. 0) (ap_dev s1)) w \<and> so_done (w_dev w) \<noteq> 0 \<and> w_pc w = 3 \<and>
     (\<exists>res. dma_desc64_test_main (\<lambda>n. n) Some 15 (\<lambda>_. 0) (\<lambda>_. 0) 0x80001000 0x80002000 0x80003000 demo_plic0
        \<lparr>d6_regs = DMA_BASE, d6_bound = True\<rparr> demo_soc res \<and> fst res = 0)"
proof -
  have a: "quiet (ap_dev demo_soc)" "so_done (ap_dev demo_soc) = 0" "5 < de_wait (ap_dev demo_soc)"
    by (simp_all add: demo_soc_def quiet_def desc_busy_def)
  have p: "p_regs demo_plic0 = PLIC_BASE" "p_bound demo_plic0" by (simp_all add: demo_plic0_def)
  have c: "d6_regs \<lparr>d6_regs = DMA_BASE, d6_bound = True\<rparr> = DMA_BASE" "d6_bound \<lparr>d6_regs = DMA_BASE, d6_bound = True\<rparr>" by simp_all
  from dma_desc64_test_race [OF a(1,2) p c demo_placed, of "\<lambda>n. n" Some 15 "\<lambda>_. 0" "\<lambda>_. 0"] a(3)
  show ?thesis by (meson rtranclp.rtrancl_refl)
qed

section \<open>The wait that does not lose it\<close>

text \<open>C6. \<open>WFI_WAIT\<close> on the same interrupt, with the hart at its start and a transfer on the way, pending
  or served: no run goes on for ever, and every run that cannot go on has left the loop, with interrupts
  enabled, the flag set and the transfer complete.\<close>

theorem wfi_wait_wakes:
  fixes d :: soc_dev
  assumes "dma_ok n m d" and "handled p n"
  shows "\<not> (\<exists>f. f 0 = awake x d \<and> (\<forall>i. wstep (dma_port lat n sp p) (wfi_wait r) (f i) (f (Suc i)))) \<and>
    (\<forall>w. (wstep (dma_port lat n sp p) (wfi_wait r))\<^sup>*\<^sup>* (awake x d) w \<longrightarrow>
       (\<exists>w'. wstep (dma_port lat n sp p) (wfi_wait r) w w') \<or>
       w_pc w = length (wfi_wait r) \<and> w_mie w \<and> so_done (w_dev w) \<noteq> 0 \<and> de_mem (w_dev w) = m)"
proof -
  have inv: "dma.wfi_inv lat n sp p m r (awake x d)"
    unfolding dma.wfi_inv_def awake_def using assms by simp
  show ?thesis
  proof (intro conjI allI impI)
    show "\<not> (\<exists>f. f 0 = awake x d \<and> (\<forall>i. wstep (dma_port lat n sp p) (wfi_wait r) (f i) (f (Suc i))))"
      by (rule dma.wfi_wait_returns(1) [OF inv])
    fix w assume "(wstep (dma_port lat n sp p) (wfi_wait r))\<^sup>*\<^sup>* (awake x d) w"
    from dma.wfi_wait_returns(2) [OF inv this]
    show "(\<exists>w'. wstep (dma_port lat n sp p) (wfi_wait r) w w') \<or>
       w_pc w = length (wfi_wait r) \<and> w_mie w \<and> so_done (w_dev w) \<noteq> 0 \<and> de_mem (w_dev w) = m"
      using dma_done by (auto simp: wfi_wait_def)
  qed
qed

lemma wfi_wait_wakes_witness:
  "\<exists>d :: soc_dev. dma_ok 3 (desc_exec (de_mem d) 0x80003000) d \<and> handled (demo_plic0\<lparr>p_table := (\<lambda>_. (Isr Dma_isr, 0))\<rparr>) 3 \<and>
     \<not> (\<exists>f. f 0 = awake (\<lambda>_. 0) d \<and>
         (\<forall>i. wstep (dma_port (\<lambda>n. n) 3 Some (demo_plic0\<lparr>p_table := (\<lambda>_. (Isr Dma_isr, 0))\<rparr>)) (wfi_wait 15) (f i) (f (Suc i))))"
proof -
  let ?desc = "\<lparr>flags_and_length = dma_desc64_pack 1 FLAG_IRQ, next_desc = END_OF_CHAIN, src_addr = 0x80001000, dst_addr = 0x80002000\<rparr>"
  let ?d = "(ap_dev demo_soc)\<lparr>de_mem := store_desc (\<lambda>_. 0) 0x80003000 ?desc, de_fifo := [0x80003000],
     so_plic := (so_plic (ap_dev demo_soc))\<lparr>pd_prio := (\<lambda>_. 1), pd_ie := (\<lambda>_. 8)\<rparr>\<rparr>"
  let ?p = "demo_plic0\<lparr>p_table := (\<lambda>_. (Isr Dma_isr, 0))\<rparr>"
  have "wired 3 False (so_plic ?d)" by (simp add: wired_def demo_soc_def bit_numeral_rec)
  then have ok: "dma_ok 3 (desc_exec (de_mem ?d) 0x80003000) ?d"
    by (simp add: dma_ok_def demo_soc_def load_store_desc pack_fields FLAG_IRQ_def)
  have h: "handled ?p 3" by (simp add: handled_def demo_plic0_def)
  show ?thesis using wfi_wait_wakes [OF ok h, of "\<lambda>_. 0" "\<lambda>n. n" Some 15] ok h by blast
qed

end
