(* ===== verification/Mxu_Idma_Test.thy ===== *)
theory Mxu_Idma_Test
  imports Dma_Irq_Test Mxu
begin

text \<open>
  The test \<open>software/app/mxu_idma_gbuf_test\<close>: the DMA engine copies words from the global buffer to the
  weight buffer of the MXU and back. Both buffers are memory, as they are while the ports of the weight
  buffer belong to the bus; the registers of the MXU are plain registers of the bus. The interrupt of
  the engine is source 8 on this system, and the wait loop is the assembly of \<open>wait_for_dma_irq\<close>. As the
  runs are interleavings, \<open>idma_memcpy\<close> and \<open>main\<close> are relations.
\<close>

section \<open>The program\<close>

definition IRQn_IDMA_DESC64 :: u32 where [c_const]: "IRQn_IDMA_DESC64 = 8"
definition TEST_WORDS :: u32 where [c_const]: "TEST_WORDS = 16"
definition TEST_BYTES :: u64 where [c_const]: "TEST_BYTES = ucast TEST_WORDS * 8"
definition GBUF_RETURN_WORD_OFFSET :: u32 where [c_const]: "GBUF_RETURN_WORD_OFFSET = 64"

definition gbuf_word :: "u32 \<Rightarrow> addr" where
  "gbuf_word word_idx = global_buffer_word_addr word_idx"

definition mxu_wgt_word :: "u32 \<Rightarrow> addr" where
  "mxu_wgt_word word_idx = MY_MXU_WGT_BASE + ucast word_idx * 8"

definition pattern_word :: "u32 \<Rightarrow> u64" where
  "pattern_word idx = 0x5A5A000000000000 OR push_bit 32 (ucast idx) OR ucast (idx * 0x1021 + 0x33)"

definition enable_dma_irq :: "'d bus \<Rightarrow> handler plic \<Rightarrow> 'd \<Rightarrow> (handler plic \<times> 'd) option" where
  "enable_dma_irq B p d =
     (if \<not> p_bound p then None
      else
        let d = plic_op_set_threshold B p PLIC_CTX_M0 0 d;
            p = plic_op_register_handler p IRQn_IDMA_DESC64 (Some Dma_isr) 0;
            d = plic_op_set_priority B p IRQn_IDMA_DESC64 1 d
        in Some (p, plic_op_enable B p PLIC_CTX_M0 IRQn_IDMA_DESC64 d))"

definition fill_words :: "(u32 \<Rightarrow> addr) \<Rightarrow> (u32 \<Rightarrow> u64) \<Rightarrow> mem \<Rightarrow> mem" where
  "fill_words word_at f m = fold (\<lambda>i m. store64 m (word_at (of_nat i)) (f (of_nat i))) [0..<unat TEST_WORDS] m"

definition fill_global_buffer_source :: "mem \<Rightarrow> mem" where
  "fill_global_buffer_source = fill_words gbuf_word pattern_word"

definition poison_mxu_wgt_buffer :: "mem \<Rightarrow> mem" where
  "poison_mxu_wgt_buffer = fill_words mxu_wgt_word (\<lambda>i. 0xDEADBEEF00000000 OR ucast i)"

definition poison_global_buffer_return_area :: "mem \<Rightarrow> mem" where
  "poison_global_buffer_return_area = fill_words (\<lambda>i. gbuf_word (GBUF_RETURN_WORD_OFFSET + i)) (\<lambda>i. 0xBAD0000000000000 OR ucast i)"

fun verify_words :: "mem \<Rightarrow> string \<Rightarrow> mem \<Rightarrow> (u32 \<Rightarrow> addr) \<Rightarrow> nat list \<Rightarrow> 'd app \<Rightarrow> (u32 \<times> 'd app) option" where
  "verify_words ms msg m word_at [] s = Some (0, s)"
| "verify_words ms msg m word_at (i # is) s =
     (let got = load64 m (word_at (of_nat i)); exp = pattern_word (of_nat i)
      in if got \<noteq> exp then map_option (Pair (- 1)) (say ms msg [of_nat i, got, exp] s)
         else verify_words ms msg m word_at is s)"

definition verify_mxu_wgt_buffer :: "mem \<Rightarrow> mem \<Rightarrow> 'd app \<Rightarrow> (u32 \<times> 'd app) option" where
  "verify_mxu_wgt_buffer ms m =
     verify_words ms ''WGT_MISMATCH word=%u got=0x%016lx exp=0x%016lx\<newline>'' m mxu_wgt_word [0..<unat TEST_WORDS]"

definition verify_global_buffer_return_area :: "mem \<Rightarrow> mem \<Rightarrow> 'd app \<Rightarrow> (u32 \<times> 'd app) option" where
  "verify_global_buffer_return_area ms m =
     verify_words ms ''GBUF_RETURN_MISMATCH word=%u got=0x%016lx exp=0x%016lx\<newline>'' m
       (\<lambda>i. gbuf_word (GBUF_RETURN_WORD_OFFSET + i)) [0..<unat TEST_WORDS]"

text \<open>\<open>idma_memcpy\<close> up to its wait, and with it.\<close>

definition idma_submit :: "(nat \<Rightarrow> nat) \<Rightarrow> dma_desc64 \<Rightarrow> addr \<Rightarrow> u64 \<Rightarrow> u64 \<Rightarrow> u32 \<Rightarrow> soc_dev \<Rightarrow> soc_dev option" where
  "idma_submit lat c desc src dst nbytes d =
     (let d = d\<lparr>so_done := 0\<rparr>;
          d = d\<lparr>de_mem := store_desc (de_mem d) desc
                \<lparr>flags_and_length = dma_desc64_pack nbytes (FLAG_SRC_INCR OR FLAG_DST_INCR OR FLAG_IRQ),
                 next_desc = END_OF_CHAIN, src_addr = src, dst_addr = dst\<rparr>\<rparr>
      in if d6_bound c then dma_desc64_op_submit (soc_bus lat (unat IRQn_IDMA_DESC64)) c desc d else None)"

inductive idma_memcpy :: "(nat \<Rightarrow> nat) \<Rightarrow> (soc_dev \<Rightarrow> soc_dev option) \<Rightarrow> handler plic \<Rightarrow> dma_desc64 \<Rightarrow> addr \<Rightarrow> u64 \<Rightarrow> u64 \<Rightarrow> u32 \<Rightarrow>
    soc_dev \<Rightarrow> soc_dev \<Rightarrow> bool" for lat sp p c desc src dst nbytes d where
  "idma_submit lat c desc src dst nbytes d = Some d1 \<Longrightarrow>
   (wstep (dma_port lat (unat IRQn_IDMA_DESC64) sp p) wait_for_dma_irq)\<^sup>*\<^sup>* (awake x d1) w \<Longrightarrow>
   w_pc w = length wait_for_dma_irq \<Longrightarrow> idma_memcpy lat sp p c desc src dst nbytes d (w_dev w)"

text \<open>\<open>main\<close> before the first transfer.\<close>

definition mxu_idma_before :: "(nat \<Rightarrow> nat) \<Rightarrow> mem \<Rightarrow> handler plic \<Rightarrow> my_mxu_drv \<Rightarrow> soc_dev app \<Rightarrow> (handler plic \<times> soc_dev app) option" where
  "mxu_idma_before lat ms p x s =
     Option.bind (say ms ''MXU_IDMA_GBUF_TEST_BEGIN\<newline>'' [] s) (\<lambda>s.
     Option.bind (say ms ''gbuf=0x%lx wgt=0x%lx bytes=%u\<newline>'' [GLOBAL_BUFFER_BASE, MY_MXU_WGT_BASE, TEST_BYTES] s) (\<lambda>s.
     let B = soc_bus lat (unat IRQn_IDMA_DESC64);
         x = my_mxu_bind x;
         (x, d) = my_mxu_op_init B MY_MXU_CFG_BASE MY_MXU_WGT_BASE MY_MXU_ACT_BASE MY_MXU_OUT_BASE x (ap_dev s);
         d = my_mxu_op_set_wgtbuf_ports B x 0 0 d
     in map_option (\<lambda>(p, d).
          let d = d\<lparr>de_mem := fill_global_buffer_source (de_mem d)\<rparr>;
              d = d\<lparr>de_mem := poison_mxu_wgt_buffer (de_mem d)\<rparr>;
              d = d\<lparr>de_mem := poison_global_buffer_return_area (de_mem d)\<rparr>
          in (p, s\<lparr>ap_dev := d\<rparr>)) (enable_dma_irq B p d)))"

definition mxu_idma_fail :: "mem \<Rightarrow> u32 \<Rightarrow> soc_dev app \<Rightarrow> (u32 \<times> soc_dev app) option" where
  "mxu_idma_fail ms code s =
     Option.bind (say ms ''MXU_IDMA_GBUF_FAIL\<newline>'' [] s) (\<lambda>s.
     map_option (Pair code) (say ms ''MXU_IDMA_GBUF_TEST_END\<newline>'' [] s))"

definition mxu_idma_pass :: "mem \<Rightarrow> soc_dev app \<Rightarrow> (u32 \<times> soc_dev app) option" where
  "mxu_idma_pass ms s =
     Option.bind (say ms ''MXU_IDMA_GBUF_PASS\<newline>'' [] s) (\<lambda>s.
     map_option (Pair 0) (say ms ''MXU_IDMA_GBUF_TEST_END\<newline>'' [] s))"

inductive mxu_idma_gbuf_main :: "(nat \<Rightarrow> nat) \<Rightarrow> (soc_dev \<Rightarrow> soc_dev option) \<Rightarrow> mem \<Rightarrow> addr \<Rightarrow> handler plic \<Rightarrow> dma_desc64 \<Rightarrow> my_mxu_drv \<Rightarrow>
    soc_dev app \<Rightarrow> u32 \<times> soc_dev app \<Rightarrow> bool" for lat sp ms desc p c x s where
  First_bad: "mxu_idma_before lat ms p x s = Some (p', s1) \<Longrightarrow>
   idma_memcpy lat sp p' c desc (gbuf_word 0) (mxu_wgt_word 0) (ucast TEST_BYTES) (ap_dev s1) d1 \<Longrightarrow>
   verify_mxu_wgt_buffer ms (de_mem d1) (s1\<lparr>ap_dev := d1\<rparr>) = Some (v, s2) \<Longrightarrow> v \<noteq> 0 \<Longrightarrow>
   mxu_idma_fail ms 1 s2 = Some res \<Longrightarrow> mxu_idma_gbuf_main lat sp ms desc p c x s res"
| Second_bad: "mxu_idma_before lat ms p x s = Some (p', s1) \<Longrightarrow>
   idma_memcpy lat sp p' c desc (gbuf_word 0) (mxu_wgt_word 0) (ucast TEST_BYTES) (ap_dev s1) d1 \<Longrightarrow>
   verify_mxu_wgt_buffer ms (de_mem d1) (s1\<lparr>ap_dev := d1\<rparr>) = Some (0, s2) \<Longrightarrow>
   idma_memcpy lat sp p' c desc (mxu_wgt_word 0) (gbuf_word GBUF_RETURN_WORD_OFFSET) (ucast TEST_BYTES) (ap_dev s2) d2 \<Longrightarrow>
   verify_global_buffer_return_area ms (de_mem d2) (s2\<lparr>ap_dev := d2\<rparr>) = Some (v, s3) \<Longrightarrow> v \<noteq> 0 \<Longrightarrow>
   mxu_idma_fail ms 2 s3 = Some res \<Longrightarrow> mxu_idma_gbuf_main lat sp ms desc p c x s res"
| Passed: "mxu_idma_before lat ms p x s = Some (p', s1) \<Longrightarrow>
   idma_memcpy lat sp p' c desc (gbuf_word 0) (mxu_wgt_word 0) (ucast TEST_BYTES) (ap_dev s1) d1 \<Longrightarrow>
   verify_mxu_wgt_buffer ms (de_mem d1) (s1\<lparr>ap_dev := d1\<rparr>) = Some (0, s2) \<Longrightarrow>
   idma_memcpy lat sp p' c desc (mxu_wgt_word 0) (gbuf_word GBUF_RETURN_WORD_OFFSET) (ucast TEST_BYTES) (ap_dev s2) d2 \<Longrightarrow>
   verify_global_buffer_return_area ms (de_mem d2) (s2\<lparr>ap_dev := d2\<rparr>) = Some (0, s3) \<Longrightarrow>
   mxu_idma_pass ms s3 = Some res \<Longrightarrow> mxu_idma_gbuf_main lat sp ms desc p c x s res"

section \<open>The wait\<close>

definition wait_inv :: "nat \<Rightarrow> mem \<Rightarrow> soc_dev waiting \<Rightarrow> bool" where
  "wait_inv n m s \<longleftrightarrow> dma_ok n m (w_dev s) \<and> w_pc s \<le> 3 \<and>
     (w_pc s = 2 \<longrightarrow> w_x s 5 \<noteq> 0 \<longrightarrow> so_done (w_dev s) \<noteq> 0) \<and> (w_pc s = 3 \<longrightarrow> so_done (w_dev s) \<noteq> 0) \<and>
     (w_stall s \<longrightarrow> w_pc s = 0)"

lemma wait_inv_step:
  assumes "wstep (dma_port lat n sp p) wait_for_dma_irq s s'" and "wait_inv n m s" and "handled p n"
  shows "wait_inv n m s'"
  using assms(1)
proof cases
  case (Device d)
  then show ?thesis using assms(2) event_flag [of lat n sp p "w_dev s" d m] by (auto simp: wait_inv_def)
next
  case (Interrupt d)
  then show ?thesis using assms(2,3) served_flag [of lat n sp p "w_dev s" d m] by (auto simp: wait_inv_def)
next
  case Execute
  have "w_pc s \<in> {0, 1, 2}" using Execute(2) by (auto simp: wait_for_dma_irq_def)
  then show ?thesis using Execute assms(2)
    by (elim insertE; simp add: wait_for_dma_irq_def wait_inv_def split: if_splits)
next
  case Wake
  then show ?thesis using assms(2) by (simp add: wait_inv_def)
qed

lemma wait_inv_reach:
  "(wstep (dma_port lat n sp p) wait_for_dma_irq)\<^sup>*\<^sup>* s s' \<Longrightarrow> wait_inv n m s \<Longrightarrow> handled p n \<Longrightarrow> wait_inv n m s'"
  by (induction rule: rtranclp_induct) (auto intro: wait_inv_step)

text \<open>A transfer under way raises its interrupt; the engine then pauses for the latency of the next one.\<close>

lemma dma_comes:
  fixes d :: soc_dev
  assumes "dma_ok n m d" and "desc_busy d"
  shows "\<exists>d1. (\<lambda>d d'. ip_event (dma_port lat n sp p) d = Some d')\<^sup>*\<^sup>* d d1 \<and> dma_ok n m d1 \<and> wired n True (so_plic d1) \<and>
    \<not> desc_busy d1 \<and> de_wait d1 = lat (Suc (de_done d))"
  using assms
proof (induction "de_wait d" arbitrary: d)
  case 0
  obtain a where a: "de_next d = END_OF_CHAIN" "wired n False (so_plic d)" "so_done d = 0" "de_fifo d = [a]"
    "next_desc (load_desc (de_mem d) a) = END_OF_CHAIN" "bit (flags_and_length (load_desc (de_mem d) a)) 32" "m = desc_exec (de_mem d) a"
    using 0(2)
  proof (cases rule: dma_ok_cases)
    case (come a)
    then show ?thesis by (rule that)
  next
    case pend
    from pend(1) 0(3) show ?thesis by (rule notE)
  next
    case served
    from served(1) 0(3) show ?thesis by (rule notE)
  qed
  let ?t = "soc_tick lat n d"
  have "desc_tick lat d = d\<lparr>de_mem := m, de_fifo := [], de_irqs := Suc (de_irqs d),
      de_done := Suc (de_done d), de_wait := lat (Suc (de_done d))\<rparr>"
    using a 0(1) by (simp add: desc_tick_def desc_step_def)
  then have t: "?t = d\<lparr>de_mem := m, de_fifo := [], de_irqs := Suc (de_irqs d),
      de_done := Suc (de_done d), de_wait := lat (Suc (de_done d)), so_plic := plic_pulse n (so_plic d)\<rparr>"
    by (simp add: soc_tick_def soc_irq_def)
  have "dma_ok n m ?t" using dma_event [OF 0(2,3)] by blast
  moreover have "wired n True (so_plic ?t)" "\<not> desc_busy ?t" "de_wait ?t = lat (Suc (de_done d))"
    using a(1,2) pulse_wired by (simp_all add: t desc_busy_def)
  moreover have "ip_event (dma_port lat n sp p) d = Some ?t" using 0(3) by (simp add: dma_port_def)
  ultimately show ?case by blast
next
  case (Suc v)
  have t: "soc_tick lat n d = d\<lparr>de_wait := v\<rparr>"
    using Suc.hyps(2) by (simp add: soc_tick_def soc_irq_def desc_tick_def Suc.hyps(2) [symmetric])
  have "dma_ok n m (soc_tick lat n d)" using dma_event [OF Suc.prems] by blast
  then obtain d1 where d1: "(\<lambda>d d'. ip_event (dma_port lat n sp p) d = Some d')\<^sup>*\<^sup>* (soc_tick lat n d) d1" "dma_ok n m d1"
    "wired n True (so_plic d1)" "\<not> desc_busy d1" "de_wait d1 = lat (Suc (de_done d))"
    using Suc.hyps(1) [of "soc_tick lat n d"] Suc.prems by (auto simp: t)
  have "ip_event (dma_port lat n sp p) d = Some (soc_tick lat n d)" using Suc.prems(2) by (simp add: dma_port_def)
  then have "(\<lambda>d d'. ip_event (dma_port lat n sp p) d = Some d')\<^sup>*\<^sup>* d d1"
    by (rule converse_rtranclp_into_rtranclp [of "\<lambda>d d'. ip_event (dma_port lat n sp p) d = Some d'", OF _ d1(1)])
  then show ?case using d1 by blast
qed

text \<open>The run in which the hart is stalled when it comes.\<close>

lemma wait_leaves:
  fixes d :: soc_dev
  assumes "dma_ok n m d" and "handled p n" and "desc_busy d"
  shows "\<exists>w. (wstep (dma_port lat n sp p) wait_for_dma_irq)\<^sup>*\<^sup>* (awake x d) w \<and> w_pc w = 3 \<and>
    de_wait (w_dev w) = lat (Suc (de_done d)) - 2"
proof -
  let ?I = "dma_port lat n sp p" and ?P = wait_for_dma_irq
  obtain d1 where d1: "(\<lambda>d d'. ip_event ?I d = Some d')\<^sup>*\<^sup>* d d1" "dma_ok n m d1" "wired n True (so_plic d1)"
    "\<not> desc_busy d1" "de_wait d1 = lat (Suc (de_done d))" using dma_comes [OF assms(1,3)] by blast
  obtain q where d2: "ip_serve ?I d1 = Some (d1\<lparr>so_plic := q, so_done := 1, de_wait := de_wait d1 - 2\<rparr>)" "wired n False q"
    using dma_serve [OF assms(2) d1(3,4)] by blast
  let ?d2 = "d1\<lparr>so_plic := q, so_done := 1, de_wait := de_wait d1 - 2\<rparr>"
  have z: "\<not> ip_pending ?I d" using assms(1) by (cases rule: dma_ok_cases) (use assms(3) in \<open>simp_all add: dma_port_def wired_pick\<close>)
  have pd: "ip_pending ?I d1" "\<not> ip_pending ?I ?d2"
    using d1(3) d2(2) by (simp_all add: dma_port_def wired_pick) (auto simp: wired_def)
  let ?s0 = "awake x d"
  let ?s1 = "?s0\<lparr>w_stall := True\<rparr>"
  let ?s2 = "?s1\<lparr>w_dev := d1\<rparr>"
  let ?s3 = "?s0\<lparr>w_dev := d1, w_pc := 1\<rparr>"
  let ?s4 = "?s3\<lparr>w_dev := ?d2, w_x := (w_x ?s3)(5 := w_x ?s3 2)\<rparr>"
  let ?s5 = "wexec ?I (Lw 5) ?s4" and ?s6 = "wexec ?I (Beqz 5 0) (wexec ?I (Lw 5) ?s4)"
  have "wstep ?I ?P ?s0 ?s1" using wstep.Execute [of ?s0 ?P ?I] z by (simp add: wait_for_dma_irq_def awake_def)
  then have "(wstep ?I ?P)\<^sup>*\<^sup>* ?s0 ?s1" by blast
  also have "(wstep ?I ?P)\<^sup>*\<^sup>* ?s1 ?s2" by (rule device_steps [OF d1(1)]) (simp_all add: wait_for_dma_irq_def awake_def)
  also have "wstep ?I ?P ?s2 ?s3" using wstep.Wake [of ?s2 ?P ?I] pd by (simp add: wait_for_dma_irq_def awake_def)
  also have "wstep ?I ?P ?s3 ?s4"
    using wstep.Interrupt [of ?s3 ?P ?I] pd d2(1) by (simp add: wait_for_dma_irq_def awake_def)
  also have "wstep ?I ?P ?s4 ?s5" using wstep.Execute [of ?s4 ?P ?I] pd by (simp add: wait_for_dma_irq_def awake_def)
  also have "wstep ?I ?P ?s5 ?s6" using wstep.Execute [of ?s5 ?P ?I] pd by (simp add: wait_for_dma_irq_def awake_def)
  finally have "(wstep ?I ?P)\<^sup>*\<^sup>* ?s0 ?s6" .
  moreover have "w_pc ?s6 = 3" "de_wait (w_dev ?s6) = lat (Suc (de_done d)) - 2" using d1(5) by (simp_all add: awake_def)
  ultimately show ?thesis by blast
qed

text \<open>The runs in which it comes before the \<open>wfi\<close>.\<close>

lemma wait_hangs:
  fixes d :: soc_dev
  assumes "dma_ok n m d" and "handled p n" and "so_done d = 0"
  shows "\<exists>w. (wstep (dma_port lat n sp p) wait_for_dma_irq)\<^sup>*\<^sup>* (awake x d) w \<and>
    (\<forall>w'. (wstep (dma_port lat n sp p) wait_for_dma_irq)\<^sup>*\<^sup>* w w' \<longrightarrow> w_pc w' = 0 \<and> so_done (w_dev w') \<noteq> 0)"
proof -
  let ?I = "dma_port lat n sp p" and ?P = wait_for_dma_irq
  obtain s where s: "(wstep ?I ?P)\<^sup>*\<^sup>* (awake x d) s" "dma_ok n m (w_dev s)" "so_done (w_dev s) \<noteq> 0" "\<not> ip_pending ?I (w_dev s)"
      "w_pc s = 0" "w_mie s" "\<not> w_stall s"
    using interrupted [of n m "awake x d" p ?P lat sp] assms by (auto simp: awake_def wait_for_dma_irq_def)
  have "wstep ?I ?P s (s\<lparr>w_stall := True\<rparr>)" using wstep.Execute [of s ?P ?I] s by (simp add: wait_for_dma_irq_def)
  then have a: "(wstep ?I ?P)\<^sup>*\<^sup>* (awake x d) (s\<lparr>w_stall := True\<rparr>)" using s(1) by simp
  have sl: "dma.asleep lat n sp p m 0 (s\<lparr>w_stall := True\<rparr>)"
    unfolding dma.asleep_def using s assms(2) by simp
  have "w_pc w' = 0 \<and> so_done (w_dev w') \<noteq> 0" if "(wstep ?I ?P)\<^sup>*\<^sup>* (s\<lparr>w_stall := True\<rparr>) w'" for w'
    using dma.asleep_forever [OF that sl] by (simp add: dma.asleep_def)
  then show ?thesis using a by blast
qed

section \<open>The buffers\<close>

lemma word_addresses:
  "\<forall>i < 16. mxu_wgt_word (of_nat i) = MY_MXU_WGT_BASE + of_nat (8 * i)"
  "\<forall>i < 16. gbuf_word (of_nat i) = GLOBAL_BUFFER_BASE + of_nat (8 * i)"
  "\<forall>i < 16. gbuf_word (GBUF_RETURN_WORD_OFFSET + of_nat i) = GLOBAL_BUFFER_BASE + 512 + of_nat (8 * i)"
proof -
  have "\<forall>i \<in> set [0..<16]. mxu_wgt_word (of_nat i) = MY_MXU_WGT_BASE + of_nat (8 * i) \<and>
      gbuf_word (of_nat i) = GLOBAL_BUFFER_BASE + of_nat (8 * i) \<and>
      gbuf_word (GBUF_RETURN_WORD_OFFSET + of_nat i) = GLOBAL_BUFFER_BASE + 512 + of_nat (8 * i)"
    by code_simp
  then show "\<forall>i < 16. mxu_wgt_word (of_nat i) = MY_MXU_WGT_BASE + of_nat (8 * i)"
    "\<forall>i < 16. gbuf_word (of_nat i) = GLOBAL_BUFFER_BASE + of_nat (8 * i)"
    "\<forall>i < 16. gbuf_word (GBUF_RETURN_WORD_OFFSET + of_nat i) = GLOBAL_BUFFER_BASE + 512 + of_nat (8 * i)" by auto
qed

lemma fill_stores:
  assumes "\<forall>i < 16. word_at (of_nat i) = a + of_nat (8 * i)"
  shows "fill_words word_at f m = stores m a (map (\<lambda>i. (8 * i, f (of_nat i))) [0..<16])"
proof -
  have "unat TEST_WORDS = 16" by (simp add: TEST_WORDS_def)
  then show ?thesis unfolding fill_words_def stores_def fold_map
    by (simp only:, intro fold_cong refl ext) (simp add: assms del: of_nat_mult)
qed

lemma fill_at:
  assumes "\<forall>i < 16. word_at (of_nat i) = a + of_nat (8 * i)" and "i < 16"
  shows "load64 (fill_words word_at f m) (a + of_nat (8 * i)) = f (of_nat i)"
  unfolding fill_stores [OF assms(1)]
  by (rule load64_stores) (use assms(2) in \<open>auto simp: spaced_def distinct_map inj_on_def\<close>)

lemma fill_apart:
  assumes "\<forall>i < 16. word_at (of_nat i) = a + of_nat (8 * i)" and "apart p 8 a 128"
  shows "load64 (fill_words word_at f m) p = load64 m p"
  unfolding fill_stores [OF assms(1)]
proof (rule load64_cong)
  fix k :: nat assume "k < 8"
  then have "128 \<le> unat (p + of_nat k - a)" using assms(2) by (simp add: apart_def)
  then show "stores m a (map (\<lambda>i. (8 * i, f (of_nat i))) [0..<16]) (p + of_nat k) = m (p + of_nat k)"
    by (intro stores_outside [where n = 128]) auto
qed

lemma bytes_load64:
  assumes "bytes_at m a n = bytes_at m' a' n" and "8 * i + 8 \<le> n"
  shows "load64 m (a + of_nat (8 * i)) = load64 m' (a' + of_nat (8 * i))"
proof (rule word_eq_by_bytes)
  fix k :: nat assume k: "k < 8"
  have "bytes_at m a n ! (8 * i + k) = bytes_at m' a' n ! (8 * i + k)" by (simp only: assms(1))
  then have "m (a + of_nat (8 * i + k)) = m' (a' + of_nat (8 * i + k))" using assms(2) k by (simp add: bytes_at_def)
  then show "byte_of (load64 m (a + of_nat (8 * i))) k = byte_of (load64 m' (a' + of_nat (8 * i))) k"
    using k by (simp add: byte_of_load64 add.assoc)
qed

text \<open>The memory before the first transfer holds the pattern in the global buffer.\<close>

definition prepared :: "mem \<Rightarrow> mem" where
  "prepared m = poison_global_buffer_return_area (poison_mxu_wgt_buffer (fill_global_buffer_source m))"

lemma prepared_pattern:
  assumes "i < 16"
  shows "load64 (prepared m) (GLOBAL_BUFFER_BASE + of_nat (8 * i)) = pattern_word (of_nat i)"
proof -
  have G: "(GLOBAL_BUFFER_BASE :: addr) = MY_MXU_WGT_BASE + of_nat 0x38000" by (simp add: c_const)
  have "GLOBAL_BUFFER_BASE + of_nat (8 * i) = MY_MXU_WGT_BASE + of_nat (0x38000 + 8 * i)"
    unfolding G of_nat_add by (simp only: add.assoc)
  then have a1: "apart (GLOBAL_BUFFER_BASE + of_nat (8 * i)) 8 MY_MXU_WGT_BASE 128"
    using apart_offsets [where j = "0x38000 + 8 * i" and k = 0 and a = MY_MXU_WGT_BASE and n = 8 and l = 128] assms
    by (simp del: of_nat_mult of_nat_add)
  have a2: "apart (GLOBAL_BUFFER_BASE + of_nat (8 * i)) 8 (GLOBAL_BUFFER_BASE + 512) 128"
    using apart_offsets [where j = "8 * i" and k = 512 and a = GLOBAL_BUFFER_BASE and n = 8 and l = 128] assms
    by (simp del: of_nat_mult of_nat_add)
  show ?thesis unfolding prepared_def poison_global_buffer_return_area_def poison_mxu_wgt_buffer_def fill_global_buffer_source_def
    unfolding fill_apart [OF word_addresses(3) a2] fill_apart [OF word_addresses(1) a1]
    by (rule fill_at [OF word_addresses(2) assms])
qed


section \<open>One transfer\<close>

lemma idma_source: "unat IRQn_IDMA_DESC64 = 8" "IRQn_IDMA_DESC64 = of_nat 8"
  by (simp_all add: IRQn_IDMA_DESC64_def)

lemma test_length: "unat (ucast TEST_BYTES :: u32) = 128"
  by (simp add: c_const)

lemma idma_submitted:
  fixes d :: soc_dev
  assumes "quiet d" and "wired 8 False (so_plic d)" and "d6_regs c = DMA_BASE" and "d6_bound c" and "placed 128 src dst desc"
  obtains m d1 where "idma_submit lat c desc src dst (ucast TEST_BYTES) d = Some d1" and "dma_ok 8 m d1"
    and "bytes_at m dst 128 = bytes_at (de_mem d) src 128" and "1 < de_wait d \<Longrightarrow> desc_busy d1"
proof -
  define flags where "flags = FLAG_SRC_INCR OR FLAG_DST_INCR OR FLAG_IRQ"
  define d0 where "d0 = d\<lparr>so_done := 0, de_mem := store_desc (de_mem d) desc \<lparr>flags_and_length = dma_desc64_pack (ucast TEST_BYTES) flags,
      next_desc = END_OF_CHAIN, src_addr = src, dst_addr = dst\<rparr>\<rparr>"
  have f: "bit flags 0" by (simp add: flags_def c_const)
  have q: "quiet d0" "wired 8 False (so_plic d0)" "so_done d0 = 0" using assms(1,2) by (simp_all add: d0_def quiet_def)
  have mem: "de_mem d0 = store_desc (de_mem d) desc \<lparr>flags_and_length = dma_desc64_pack (ucast TEST_BYTES) flags,
      next_desc = END_OF_CHAIN, src_addr = src, dst_addr = dst\<rparr>" by (simp add: d0_def)
  have ap: "apart src (unat (ucast TEST_BYTES :: u32)) dst (unat (ucast TEST_BYTES :: u32))" "apart src (unat (ucast TEST_BYTES :: u32)) desc 32"
    "apart dst (unat (ucast TEST_BYTES :: u32)) desc 32" using assms(5) unfolding test_length placed_def by simp_all
  from transfer_started [OF q(1) assms(3) q(2,3) f mem ap, of lat] obtain m d1 where
    d1: "dma_desc64_op_submit (soc_bus lat 8) c desc d0 = Some d1" "dma_ok 8 m d1"
      "bytes_at m dst 128 = bytes_at (de_mem d) src 128" "1 < de_wait d0 \<Longrightarrow> desc_busy d1" unfolding test_length by blast
  have "idma_submit lat c desc src dst (ucast TEST_BYTES) d = Some d1"
    using d1(1) assms(4) by (simp add: idma_submit_def idma_source d0_def flags_def)
  moreover have "1 < de_wait d \<Longrightarrow> desc_busy d1" using d1(4) by (simp add: d0_def)
  ultimately show ?thesis using that d1(2,3) by blast
qed

lemma idma_arrived:
  fixes d1 :: soc_dev
  assumes "(wstep (dma_port lat 8 sp p) wait_for_dma_irq)\<^sup>*\<^sup>* (awake x d1) w" and "w_pc w = 3" and "dma_ok 8 m d1" and "handled p 8"
  shows "quiet (w_dev w) \<and> wired 8 False (so_plic (w_dev w)) \<and> de_mem (w_dev w) = m"
proof -
  have "wait_inv 8 m (awake x d1)" using assms(3) by (simp add: wait_inv_def awake_def)
  from wait_inv_reach [OF assms(1) this assms(4)] show ?thesis
    using assms(2) dma_done [of 8 m "w_dev w"] by (simp add: wait_inv_def)
qed

lemma idma_result:
  assumes "idma_memcpy lat sp p c desc src dst (ucast TEST_BYTES) d d'" and "quiet d" and "wired 8 False (so_plic d)"
    and "handled p 8" and "d6_regs c = DMA_BASE" and "d6_bound c" and "placed 128 src dst desc"
  shows "quiet d' \<and> wired 8 False (so_plic d') \<and> bytes_at (de_mem d') dst 128 = bytes_at (de_mem d) src 128"
proof -
  obtain m d1 where s: "idma_submit lat c desc src dst (ucast TEST_BYTES) d = Some d1" "dma_ok 8 m d1"
    "bytes_at m dst 128 = bytes_at (de_mem d) src 128"
    by (rule idma_submitted [OF assms(2,3,5-7), of lat]) blast
  from assms(1) obtain x w where w: "(wstep (dma_port lat 8 sp p) wait_for_dma_irq)\<^sup>*\<^sup>* (awake x d1) w" "w_pc w = 3" "d' = w_dev w"
    by cases (use s(1) in \<open>auto simp: idma_source wait_for_dma_irq_def\<close>)
  show ?thesis using idma_arrived [OF w(1,2) s(2) assms(4)] s(3) w(3) by simp
qed

lemma idma_returns:
  assumes "quiet d" and "wired 8 False (so_plic d)" and "handled p 8" and "d6_regs c = DMA_BASE" and "d6_bound c"
    and "placed 128 src dst desc" and "1 < de_wait d"
  shows "\<exists>d' k. idma_memcpy lat sp p c desc src dst (ucast TEST_BYTES) d d' \<and> de_wait d' = lat k - 2"
proof -
  obtain m d1 where s: "idma_submit lat c desc src dst (ucast TEST_BYTES) d = Some d1" "dma_ok 8 m d1" "desc_busy d1"
    by (rule idma_submitted [OF assms(1,2,4-6), of lat]) (use assms(7) in blast)
  obtain w where w: "(wstep (dma_port lat 8 sp p) wait_for_dma_irq)\<^sup>*\<^sup>* (awake (\<lambda>_. 0) d1) w" "w_pc w = 3"
    "de_wait (w_dev w) = lat (Suc (de_done d1)) - 2" using wait_leaves [OF s(2) assms(3) s(3)] by blast
  have "idma_memcpy lat sp p c desc src dst (ucast TEST_BYTES) d (w_dev w)"
    by (rule idma_memcpy.intros [OF s(1)]) (use w in \<open>simp_all add: idma_source wait_for_dma_irq_def\<close>)
  then show ?thesis using w(3) by blast
qed

lemma idma_hangs:
  fixes d :: soc_dev
  assumes "quiet d" and "wired 8 False (so_plic d)" and "handled p 8" and "d6_regs c = DMA_BASE" and "d6_bound c"
    and "placed 128 src dst desc" and "1 < de_wait d"
  shows "\<exists>d1 w. idma_submit lat c desc src dst (ucast TEST_BYTES) d = Some d1 \<and>
    (wstep (dma_port lat 8 sp p) wait_for_dma_irq)\<^sup>*\<^sup>* (awake x d1) w \<and>
    (\<forall>w'. (wstep (dma_port lat 8 sp p) wait_for_dma_irq)\<^sup>*\<^sup>* w w' \<longrightarrow> w_pc w' = 0 \<and> so_done (w_dev w') \<noteq> 0)"
proof -
  obtain m d1 where s: "idma_submit lat c desc src dst (ucast TEST_BYTES) d = Some d1" "dma_ok 8 m d1" "desc_busy d1"
    by (rule idma_submitted [OF assms(1,2,4-6), of lat]) (use assms(7) in blast)
  have "so_done d1 = 0" using s(2,3) by (cases rule: dma_ok_cases) simp_all
  from wait_hangs [OF s(2) assms(3) this, of lat sp x] s(1) show ?thesis by blast
qed

section \<open>The set-up\<close>

lemma soc_reg_wr:
  assumes "\<not> in_plic a" and "\<not> in_dma a" and "quiet d"
  shows "wr64 (soc_bus lat n) a v d = d\<lparr>so_regs := (so_regs d)(a := v), de_wait := de_wait d - 1\<rparr>"
  using assms by (simp add: wr64_def soc_bus_def quiet_tick quiet_def desc_busy_def)

lemma mxu_not_irq:
  "\<not> in_plic (MY_MXU_CFG_BASE + MY_MXU_REG_IRQ_MASK_OFF)" "\<not> in_dma (MY_MXU_CFG_BASE + MY_MXU_REG_IRQ_MASK_OFF)"
  "\<not> in_plic (MY_MXU_CFG_BASE + MY_MXU_REG_IRQ_STAT_OFF)" "\<not> in_dma (MY_MXU_CFG_BASE + MY_MXU_REG_IRQ_STAT_OFF)"
  "\<not> in_plic (MY_MXU_CFG_BASE + MY_MXU_REG_CTRL_OFF)" "\<not> in_dma (MY_MXU_CFG_BASE + MY_MXU_REG_CTRL_OFF)"
  "\<not> in_plic (MY_MXU_CFG_BASE + MY_MXU_REG_WGT_BUF_CTRL_OFF)" "\<not> in_dma (MY_MXU_CFG_BASE + MY_MXU_REG_WGT_BUF_CTRL_OFF)"
  by (simp_all add: in_plic_def in_dma_def c_const)

lemma mxu_set_up:
  fixes d :: soc_dev
  assumes "quiet d"
  shows "\<exists>r. (case my_mxu_op_init (soc_bus lat n) MY_MXU_CFG_BASE a b o' x d of (x, d) \<Rightarrow> my_mxu_op_set_wgtbuf_ports (soc_bus lat n) x 0 0 d) =
      d\<lparr>so_regs := r, de_wait := de_wait d - 4\<rparr> \<and> r (MY_MXU_CFG_BASE + MY_MXU_REG_WGT_BUF_CTRL_OFF) = 0"
proof -
  have e: "de_wait d - 4 = de_wait d - Suc (Suc (Suc (Suc 0)))" by simp
  show ?thesis using assms unfolding e
    by (simp add: my_mxu_op_init_def my_mxu_op_set_wgtbuf_ports_def mxu_ports_def soc_reg_wr mxu_not_irq quiet_def desc_busy_def)
       (intro exI conjI, rule refl, simp)
qed

lemma enable_dma_irq_quiet:
  fixes d :: soc_dev
  assumes "quiet d" and "p_regs p = PLIC_BASE" and "p_bound p"
  obtains q p' where "enable_dma_irq (soc_bus lat 8) p d = Some (p', d\<lparr>so_plic := q, de_wait := de_wait d - 4\<rparr>)"
    and "wired 8 False q" and "handled p' 8"
proof -
  define p' where "p' = plic_op_register_handler p IRQn_IDMA_DESC64 (Some Dma_isr) 0"
  have p'8: "plic_op_register_handler p (of_nat 8) (Some Dma_isr) 0 = p'" by (simp only: p'_def idma_source(2))
  have p': "p_regs p' = PLIC_BASE" "handled p' 8"
    using assms(2,3) by (simp_all add: p'_def plic_op_register_handler_def idma_source(1) handled_def PLIC_NUM_SOURCES_def)
  have n: "1 \<le> (8 :: nat)" "(8 :: nat) \<le> 30" by simp_all
  let ?q1 = "(so_plic d)\<lparr>pd_thr := (pd_thr (so_plic d))(0 := 0)\<rparr>"
  let ?q2 = "?q1\<lparr>pd_prio := (pd_prio (so_plic d))(8 := 1)\<rparr>"
  let ?d1 = "d\<lparr>so_plic := ?q1, de_wait := de_wait d - 1\<rparr>" and ?d2 = "d\<lparr>so_plic := ?q2, de_wait := de_wait d - 2\<rparr>"
  note d1 = set_threshold_quiet [OF assms(1,2), of lat 8]
  have "quiet ?d1" using assms(1) by (simp add: quiet_def)
  from set_priority_quiet [OF this p'(1) n, of lat] have
    d2: "plic_op_set_priority (soc_bus lat 8) p' (of_nat 8) 1 ?d1 = ?d2" by (simp add: numeral_2_eq_2)
  have "quiet ?d2" using assms(1) by (simp add: quiet_def)
  from enable_quiet [OF this p'(1) n, of lat] obtain e where
    d3: "plic_op_enable (soc_bus lat 8) p' PLIC_CTX_M0 (of_nat 8) ?d2 =
      d\<lparr>so_plic := ?q2\<lparr>pd_ie := (pd_ie (so_plic d))(0 := e)\<rparr>, de_wait := de_wait d - 4\<rparr>" "bit e 8" by auto
  let ?q = "?q2\<lparr>pd_ie := (pd_ie (so_plic d))(0 := e)\<rparr>"
  have "wired 8 False ?q" using assms d3(2) by (simp add: wired_def quiet_def)
  moreover have "enable_dma_irq (soc_bus lat 8) p d = Some (p', d\<lparr>so_plic := ?q, de_wait := de_wait d - 4\<rparr>)"
    using assms(3) d1 d2 d3(1) by (simp only: enable_dma_irq_def Let_def p'8 idma_source(2) simp_thms if_False)
  ultimately show ?thesis using that p'(2) by blast
qed

lemma banner_text:
  "text_of m ''gbuf=0x%lx wgt=0x%lx bytes=%u\<newline>'' [a, b, c] \<noteq> None"
  by (simp add: text_of_def parse_spec_def parse_width_def parse_precision_def parse_length_def cur_def is_digit_def
      conv_acts_def int_specs_def Let_def split: prod.splits)

lemma mxu_idma_ready:
  fixes s :: "soc_dev app"
  assumes "quiet (ap_dev s)" and "p_regs p = PLIC_BASE" and "p_bound p"
  obtains p' s1 t where "mxu_idma_before lat ms p x s = Some (p', s1)" and "handled p' 8" and "quiet (ap_dev s1)"
    and "wired 8 False (so_plic (ap_dev s1))" and "de_mem (ap_dev s1) = prepared (de_mem (ap_dev s))"
    and "de_wait (ap_dev s1) = de_wait (ap_dev s) - 8" and "ap_out s1 = ap_out s @ t"
    and "so_regs (ap_dev s1) (MY_MXU_CFG_BASE + MY_MXU_REG_WGT_BUF_CTRL_OFF) = 0"
proof -
  let ?B = "soc_bus lat 8 :: soc_dev bus"
  obtain r where r: "(case my_mxu_op_init ?B MY_MXU_CFG_BASE MY_MXU_WGT_BASE MY_MXU_ACT_BASE MY_MXU_OUT_BASE (my_mxu_bind x) (ap_dev s) of
      (x, d) \<Rightarrow> my_mxu_op_set_wgtbuf_ports ?B x 0 0 d) = (ap_dev s)\<lparr>so_regs := r, de_wait := de_wait (ap_dev s) - 4\<rparr>"
    "r (MY_MXU_CFG_BASE + MY_MXU_REG_WGT_BUF_CTRL_OFF) = 0" using mxu_set_up [OF assms(1)] by blast
  let ?d = "(ap_dev s)\<lparr>so_regs := r, de_wait := de_wait (ap_dev s) - 4\<rparr>"
  have q: "quiet ?d" using assms(1) by (simp add: quiet_def desc_busy_def)
  obtain q p' where e: "enable_dma_irq ?B p ?d = Some (p', ?d\<lparr>so_plic := q, de_wait := de_wait ?d - 4\<rparr>)" "wired 8 False q" "handled p' 8"
    by (rule enable_dma_irq_quiet [OF q assms(2,3), of lat]) blast
  let ?d1 = "?d\<lparr>so_plic := q, de_wait := de_wait ?d - 4, de_mem := prepared (de_mem (ap_dev s))\<rparr>"
  let ?t = "str ''MXU_IDMA_GBUF_TEST_BEGIN\<newline>'' @ said ms ''gbuf=0x%lx wgt=0x%lx bytes=%u\<newline>'' [GLOBAL_BUFFER_BASE, MY_MXU_WGT_BASE, TEST_BYTES]"
  have "mxu_idma_before lat ms p x s = Some (p', s\<lparr>ap_dev := ?d1, ap_out := ap_out s @ ?t\<rparr>)"
    using r(1) e(1) unfolding mxu_idma_before_def idma_source(1)
    by (simp add: say_plain say_said banner_text Let_def prepared_def del: str_Cons split: prod.splits)
  moreover have "quiet ?d1" "wired 8 False (so_plic ?d1)" "so_regs ?d1 (MY_MXU_CFG_BASE + MY_MXU_REG_WGT_BUF_CTRL_OFF) = 0"
    using q e(2) r(2) by (simp_all add: quiet_def desc_busy_def wired_def)
  ultimately show ?thesis using that e(3) by simp
qed

section \<open>The verdict\<close>

lemma verify_words_same:
  "\<forall>i \<in> set is. load64 m (word_at (of_nat i)) = pattern_word (of_nat i) \<Longrightarrow> verify_words ms msg m word_at is s = Some (0, s)"
  by (induction "is") auto

lemma buffer_starts:
  "mxu_wgt_word 0 = MY_MXU_WGT_BASE" "gbuf_word 0 = GLOBAL_BUFFER_BASE" "gbuf_word GBUF_RETURN_WORD_OFFSET = GLOBAL_BUFFER_BASE + 512"
  using word_addresses(1) [rule_format, of 0] word_addresses(2) [rule_format, of 0] word_addresses(3) [rule_format, of 0] by simp_all

text \<open>Where the linker may place the descriptor.\<close>

definition desc_placed :: "addr \<Rightarrow> bool" where
  "desc_placed desc \<longleftrightarrow> apart (gbuf_word 0) 128 desc 32 \<and> apart (mxu_wgt_word 0) 128 desc 32 \<and>
     apart (gbuf_word GBUF_RETURN_WORD_OFFSET) 128 desc 32"

lemma transfers_placed:
  assumes "desc_placed desc"
  shows "placed 128 (gbuf_word 0) (mxu_wgt_word 0) desc"
    and "placed 128 (mxu_wgt_word 0) (gbuf_word GBUF_RETURN_WORD_OFFSET) desc"
proof -
  have G: "(GLOBAL_BUFFER_BASE :: addr) = MY_MXU_WGT_BASE + of_nat 0x38000" "GLOBAL_BUFFER_BASE + 512 = MY_MXU_WGT_BASE + of_nat 0x38200"
    by (simp_all add: c_const)
  have "apart (MY_MXU_WGT_BASE + of_nat 0x38000) 128 (MY_MXU_WGT_BASE + of_nat 0) 128"
    "apart (MY_MXU_WGT_BASE + of_nat 0) 128 (MY_MXU_WGT_BASE + of_nat 0x38200) 128"
    by (rule apart_offsets; simp)+
  then show "placed 128 (gbuf_word 0) (mxu_wgt_word 0) desc" "placed 128 (mxu_wgt_word 0) (gbuf_word GBUF_RETURN_WORD_OFFSET) desc"
    using assms unfolding placed_def desc_placed_def buffer_starts G by (simp_all add: add.commute)
qed

lemma wgt_verified:
  assumes "bytes_at m (mxu_wgt_word 0) 128 = bytes_at (prepared m0) (gbuf_word 0) 128"
  shows "verify_mxu_wgt_buffer ms m s = Some (0, s)"
  unfolding verify_mxu_wgt_buffer_def
proof (intro verify_words_same ballI)
  fix i assume "i \<in> set [0..<unat TEST_WORDS]"
  then have i: "i < 16" "8 * i + 8 \<le> 128" by (simp_all add: TEST_WORDS_def)
  show "load64 m (mxu_wgt_word (of_nat i)) = pattern_word (of_nat i)"
    using bytes_load64 [OF assms i(2)] prepared_pattern [OF i(1), of m0] word_addresses(1) i(1) by (simp add: buffer_starts)
qed

definition returned :: "mem \<Rightarrow> bool" where
  "returned m \<longleftrightarrow> (\<forall>i < 16. load64 m (gbuf_word (GBUF_RETURN_WORD_OFFSET + of_nat i)) = pattern_word (of_nat i))"

lemma both_ways:
  assumes "bytes_at m (mxu_wgt_word 0) 128 = bytes_at (prepared m0) (gbuf_word 0) 128"
    and "bytes_at m' (gbuf_word GBUF_RETURN_WORD_OFFSET) 128 = bytes_at m (mxu_wgt_word 0) 128"
  shows "returned m'"
  unfolding returned_def
proof (intro allI impI)
  fix i :: nat assume i: "i < 16"
  then have i8: "8 * i + 8 \<le> 128" by simp
  have e: "bytes_at m' (gbuf_word GBUF_RETURN_WORD_OFFSET) 128 = bytes_at (prepared m0) (gbuf_word 0) 128" using assms by simp
  show "load64 m' (gbuf_word (GBUF_RETURN_WORD_OFFSET + of_nat i)) = pattern_word (of_nat i)"
    using bytes_load64 [OF e i8] prepared_pattern [OF i, of m0] word_addresses(3) i by (simp add: buffer_starts)
qed

lemma return_verified: "returned m \<Longrightarrow> verify_global_buffer_return_area ms m s = Some (0, s)"
  unfolding verify_global_buffer_return_area_def
  by (intro verify_words_same ballI) (simp add: returned_def TEST_WORDS_def)

definition pass_text :: "byte list" where
  "pass_text = str ''MXU_IDMA_GBUF_PASS\<newline>'' @ str ''MXU_IDMA_GBUF_TEST_END\<newline>''"

lemma mxu_idma_pass_text: "mxu_idma_pass ms s = Some (0, s\<lparr>ap_out := ap_out s @ pass_text\<rparr>)"
  by (simp add: mxu_idma_pass_def say_plain pass_text_def del: str_Cons)

text \<open>Every run of \<open>main\<close> passes both checks.\<close>

lemma mxu_idma_passes:
  assumes "mxu_idma_gbuf_main lat sp ms desc p c x s res" and "mxu_idma_before lat ms p x s = Some (p', s1)" and "handled p' 8"
    and "quiet (ap_dev s1)" and "wired 8 False (so_plic (ap_dev s1))" and "de_mem (ap_dev s1) = prepared m0"
    and "d6_regs c = DMA_BASE" and "d6_bound c" and "desc_placed desc"
  shows "fst res = 0 \<and> returned (de_mem (ap_dev (snd res))) \<and> ap_out (snd res) = ap_out s1 @ pass_text"
proof -
  note pl = transfers_placed [OF assms(9)]
  have first: "quiet d1 \<and> wired 8 False (so_plic d1) \<and> bytes_at (de_mem d1) (mxu_wgt_word 0) 128 = bytes_at (prepared m0) (gbuf_word 0) 128"
    if "idma_memcpy lat sp p' c desc (gbuf_word 0) (mxu_wgt_word 0) (ucast TEST_BYTES) (ap_dev s1) d1" for d1
    using idma_result [OF that assms(4,5,3,7,8) pl(1)] assms(6) by simp
  have wgt: "verify_mxu_wgt_buffer ms (de_mem d1) t = Some (0, t)"
    if "idma_memcpy lat sp p' c desc (gbuf_word 0) (mxu_wgt_word 0) (ucast TEST_BYTES) (ap_dev s1) d1" for d1 and t :: "soc_dev app"
    using first [OF that] wgt_verified by blast
  have second: "returned (de_mem d2)"
    if "idma_memcpy lat sp p' c desc (gbuf_word 0) (mxu_wgt_word 0) (ucast TEST_BYTES) (ap_dev s1) d1"
      "idma_memcpy lat sp p' c desc (mxu_wgt_word 0) (gbuf_word GBUF_RETURN_WORD_OFFSET) (ucast TEST_BYTES) d1 d2" for d1 d2
    using first [OF that(1)] idma_result [OF that(2) _ _ assms(3,7,8) pl(2)] both_ways by blast
  show ?thesis using assms(1)
  proof cases
    case (First_bad p'' s1' d1 v s2)
    then show ?thesis using assms(2) wgt [of d1] by simp
  next
    case (Second_bad p'' s1' d1 s2 d2 v s3)
    then show ?thesis using assms(2) wgt [of d1 "s1'\<lparr>ap_dev := d1\<rparr>"] second [of d1 d2] return_verified [of "de_mem d2" ms "s2\<lparr>ap_dev := d2\<rparr>"] by auto
  next
    case (Passed p'' s1' d1 s2 d2 s3)
    then show ?thesis using assms(2) wgt [of d1 "s1'\<lparr>ap_dev := d1\<rparr>"] second [of d1 d2] return_verified [of "de_mem d2" ms "s2\<lparr>ap_dev := d2\<rparr>"]
      by (auto simp: mxu_idma_pass_text)
  qed
qed

text \<open>C11. The MXU transfer test, started with a controller and an engine that have nothing pending and the
  descriptor apart from the buffers: a run that ends returns 0 and prints PASS, with the sixteen words of
  the pattern in the return area; on an engine that is slow enough there are such runs, but there also
  is one in which the first interrupt is served before the \<open>wfi\<close> that opens \<open>wait_for_dma_irq\<close>: the
  hart then sleeps for ever with the flag set, as the loop only tests it behind the \<open>wfi\<close>.\<close>

theorem mxu_idma_gbuf_verdict:
  assumes "quiet (ap_dev s)" and "p_regs p = PLIC_BASE" and "p_bound p" and "d6_regs c = DMA_BASE" and "d6_bound c"
    and "desc_placed desc"
  shows "(\<forall>res. mxu_idma_gbuf_main lat sp ms desc p c x s res \<longrightarrow> fst res = 0 \<and> returned (de_mem (ap_dev (snd res))) \<and>
       (\<exists>t. ap_out (snd res) = ap_out s @ t @ pass_text)) \<and>
    (9 < de_wait (ap_dev s) \<and> (\<forall>k. 3 < lat k) \<longrightarrow> (\<exists>res. mxu_idma_gbuf_main lat sp ms desc p c x s res)) \<and>
    (9 < de_wait (ap_dev s) \<longrightarrow>
       (\<exists>p' s1 d1 w. mxu_idma_before lat ms p x s = Some (p', s1) \<and>
          idma_submit lat c desc (gbuf_word 0) (mxu_wgt_word 0) (ucast TEST_BYTES) (ap_dev s1) = Some d1 \<and>
          (wstep (dma_port lat (unat IRQn_IDMA_DESC64) sp p') wait_for_dma_irq)\<^sup>*\<^sup>* (awake y d1) w \<and>
          (\<forall>w'. (wstep (dma_port lat (unat IRQn_IDMA_DESC64) sp p') wait_for_dma_irq)\<^sup>*\<^sup>* w w' \<longrightarrow>
             w_pc w' = 0 \<and> so_done (w_dev w') \<noteq> 0)))"
proof -
  note pl = transfers_placed [OF assms(6)]
  obtain p' s1 t where b: "mxu_idma_before lat ms p x s = Some (p', s1)" "handled p' 8" "quiet (ap_dev s1)"
    "wired 8 False (so_plic (ap_dev s1))" "de_mem (ap_dev s1) = prepared (de_mem (ap_dev s))"
    "de_wait (ap_dev s1) = de_wait (ap_dev s) - 8" "ap_out s1 = ap_out s @ t"
    by (rule mxu_idma_ready [OF assms(1-3), of lat ms x]) blast
  note pass = mxu_idma_passes [OF _ b(1-5) assms(4-6)]
  have ret: "\<exists>res. mxu_idma_gbuf_main lat sp ms desc p c x s res" if "9 < de_wait (ap_dev s)" "\<forall>k. 3 < lat k"
  proof -
    have "1 < de_wait (ap_dev s1)" using that(1) b(6) by simp
    from idma_returns [OF b(3,4,2) assms(4,5) pl(1) this] obtain d1 k where
      m1: "idma_memcpy lat sp p' c desc (gbuf_word 0) (mxu_wgt_word 0) (ucast TEST_BYTES) (ap_dev s1) d1" "de_wait d1 = lat k - 2" by blast
    from idma_result [OF m1(1) b(3,4,2) assms(4,5) pl(1)] have
      d1: "quiet d1" "wired 8 False (so_plic d1)" "bytes_at (de_mem d1) (mxu_wgt_word 0) 128 = bytes_at (prepared (de_mem (ap_dev s))) (gbuf_word 0) 128"
      by (simp_all add: b(5))
    have "1 < de_wait d1" using that(2) [rule_format, of k] m1(2) by simp
    from idma_returns [OF d1(1,2) b(2) assms(4,5) pl(2) this] obtain d2 where
      m2: "idma_memcpy lat sp p' c desc (mxu_wgt_word 0) (gbuf_word GBUF_RETURN_WORD_OFFSET) (ucast TEST_BYTES) d1 d2" by blast
    have "returned (de_mem d2)" using both_ways [OF d1(3)] idma_result [OF m2 d1(1,2) b(2) assms(4,5) pl(2)] by blast
    note v = wgt_verified [OF d1(3), of ms "s1\<lparr>ap_dev := d1\<rparr>"] return_verified [OF this, of ms "s1\<lparr>ap_dev := d1\<rparr>\<lparr>ap_dev := d2\<rparr>"]
    show ?thesis by (rule exI, rule Passed [OF b(1) m1(1) v(1) _ v(2) mxu_idma_pass_text]) (simp add: m2)
  qed
  have hang: "\<exists>d1 w. idma_submit lat c desc (gbuf_word 0) (mxu_wgt_word 0) (ucast TEST_BYTES) (ap_dev s1) = Some d1 \<and>
      (wstep (dma_port lat 8 sp p') wait_for_dma_irq)\<^sup>*\<^sup>* (awake y d1) w \<and>
      (\<forall>w'. (wstep (dma_port lat 8 sp p') wait_for_dma_irq)\<^sup>*\<^sup>* w w' \<longrightarrow> w_pc w' = 0 \<and> so_done (w_dev w') \<noteq> 0)"
    if "9 < de_wait (ap_dev s)"
    by (rule idma_hangs [OF b(3,4,2) assms(4,5) pl(1)]) (use that b(6) in simp)
  show ?thesis unfolding idma_source(1) using pass b(1,7) ret hang by simp
qed

lemma mxu_idma_gbuf_verdict_witness:
  "\<exists>res. mxu_idma_gbuf_main (\<lambda>_. 10) Some (\<lambda>_. 0) 0x80003000 demo_plic0 \<lparr>d6_regs = DMA_BASE, d6_bound = True\<rparr>
      \<lparr>mx_regs = 0, mx_wgtbuf = 0, mx_actbuf = 0, mx_outbuf = 0, mx_bound = False\<rparr>
      (demo_soc\<lparr>ap_dev := (ap_dev demo_soc)\<lparr>de_wait := 20\<rparr>\<rparr>) res \<and> fst res = 0 \<and> returned (de_mem (ap_dev (snd res)))"
proof -
  let ?s = "demo_soc\<lparr>ap_dev := (ap_dev demo_soc)\<lparr>de_wait := 20\<rparr>\<rparr>"
  have a: "quiet (ap_dev ?s)" "9 < de_wait (ap_dev ?s)" by (simp_all add: demo_soc_def quiet_def desc_busy_def)
  have p: "p_regs demo_plic0 = PLIC_BASE" "p_bound demo_plic0" by (simp_all add: demo_plic0_def)
  have c: "d6_regs \<lparr>d6_regs = DMA_BASE, d6_bound = True\<rparr> = DMA_BASE" "d6_bound \<lparr>d6_regs = DMA_BASE, d6_bound = True\<rparr>" by simp_all
  have "desc_placed 0x80003000"
    unfolding desc_placed_def buffer_starts
    using apart_offsets [where j = "0x40000" and k = "0x10003000" and a = "0x70000000" and n = 128 and l = 32, simplified]
      apart_offsets [where j = "0x8000" and k = "0x10003000" and a = "0x70000000" and n = 128 and l = 32, simplified]
      apart_offsets [where j = "0x40200" and k = "0x10003000" and a = "0x70000000" and n = 128 and l = 32, simplified]
    by (simp add: c_const)
  from mxu_idma_gbuf_verdict [OF a(1) p c this, of "\<lambda>_. 10" Some "\<lambda>_. 0"
      "\<lparr>mx_regs = 0, mx_wgtbuf = 0, mx_actbuf = 0, mx_outbuf = 0, mx_bound = False\<rparr>" "\<lambda>_. 0"] a(2)
  show ?thesis by auto
qed

end
