(* ===== verification/Trap_Test.thy ===== *)
theory Trap_Test
  imports Trap Console
begin

text \<open>
  The test \<open>software/app/trap_test\<close> from the C code down to the trap handlers: a system call and two
  illegal instructions, each of which traps, is handled on the frame below the stack pointer and
  resumes behind it. The state is the whole system of theory Syscalls with the UART as its device;
  the registers that the compiler leaves around an instruction are arbitrary.
\<close>

section \<open>The program\<close>

text \<open>The instructions of the program that trap: the cause and the length in bytes, from the bytes in memory.\<close>

definition insn_trap :: "mem \<Rightarrow> addr \<Rightarrow> (u64 \<times> u64) option" where
  "insn_trap m pc =
     (if m pc AND 3 = 3
      then let w = [m pc, m (pc + 1), m (pc + 2), m (pc + 3)]
           in if w = [0x73, 0, 0, 0] then Some (EXCEPTION_ECALL_M, 4)
              else if w = [0xFF, 0xFF, 0xFF, 0xFF] then Some (EXCEPTION_ILLEGAL_INSN, 4) else None
      else if m pc = 0 \<and> m (pc + 1) = 0 then Some (EXCEPTION_ILLEGAL_INSN, 2) else None)"

record 'd env =
  e_libc :: newlib
  e_uart_bus :: "'d bus"
  e_ctrl_bus :: "'d bus"
  e_uart :: uart
  e_ctrl :: soc_ctrl
  e_lit :: "string \<Rightarrow> addr"
  e_junk :: "nat \<Rightarrow> u64"

text \<open>One such instruction; a trap that does not come back behind it is a fault.\<close>

definition issue :: "'d env \<Rightarrow> hart \<Rightarrow> 'd sys \<Rightarrow> (hart \<times> 'd sys) outcome option" where
  "issue E h s =
     Option.bind (insn_trap (s_mem s) (h_pc h)) (\<lambda>(cause, len).
       Option.bind (u_sw_irq_handler (e_libc E) (e_uart_bus E) (e_ctrl_bus E) (e_uart E) (e_ctrl E) (e_lit E) (e_junk E)
           (trap_enter cause h, s)) (\<lambda>r.
         case r of
           Halted p \<Rightarrow> Some (Halted p)
         | Returned (h', s') \<Rightarrow> if h_pc h' = h_pc h + len \<and> h_x h' 2 = h_x h 2 then Some (Returned (h', s')) else None))"

definition do_ecall :: "'d env \<Rightarrow> hart \<Rightarrow> u64 \<Rightarrow> 'd sys \<Rightarrow> (u64 \<times> 'd sys) outcome option" where
  "do_ecall E h i s =
     map_option (\<lambda>r. case r of Returned (h, s) \<Rightarrow> Returned (h_x h REG_A0, s) | Halted (h, s) \<Rightarrow> Halted (0, s))
       (issue E (h\<lparr>h_x := (h_x h)(REG_A7 := i)\<rparr>) s)"

definition do_illegal :: "'d env \<Rightarrow> hart \<Rightarrow> 'd sys \<Rightarrow> 'd sys option" where
  "do_illegal E h s =
     Option.bind (issue E h s) (\<lambda>r. case r of Returned (h, s) \<Rightarrow> Some s | Halted (h, s) \<Rightarrow> None)"

definition print_sys :: "'d env \<Rightarrow> string \<Rightarrow> u64 list \<Rightarrow> 'd sys \<Rightarrow> 'd sys option" where
  "print_sys E f va s = map_option (\<lambda>(r, d). s\<lparr>s_dev := d\<rparr>) (uart_printf (e_uart_bus E) (e_uart E) (s_mem s) (str f) va (s_dev s))"

text \<open>\<open>a\<close>, \<open>b\<close> and \<open>c\<close> are the hart at the three instructions.\<close>

definition trap_test_main :: "'d env \<Rightarrow> hart \<Rightarrow> hart \<Rightarrow> hart \<Rightarrow> 'd sys \<Rightarrow> (u32 \<times> 'd sys) outcome option" where
  "trap_test_main E a b c s =
     Option.bind (print_sys E ''=== BSP trap test ===\<newline>'' [] s) (\<lambda>s.
     Option.bind (print_sys E ''[A] issuing ecall (SYS_getpid=172)...\<newline>'' [] s) (\<lambda>s.
     Option.bind (do_ecall E a 172 s) (\<lambda>r. case r of Halted (v, s) \<Rightarrow> Some (Halted (0, s)) | Returned (ret, s) \<Rightarrow>
     Option.bind (print_sys E ''[A] returned from ecall, a0 = %ld\<newline>'' [ret] s) (\<lambda>s.
     Option.bind (print_sys E ''[B] executing illegal 32-bit insn (.word 0xffffffff)...\<newline>'' [] s) (\<lambda>s.
     Option.bind (do_illegal E b s) (\<lambda>s.
     Option.bind (print_sys E ''[B] resumed after illegal 32-bit insn\<newline>'' [] s) (\<lambda>s.
     Option.bind (print_sys E ''[C] executing illegal RVC insn  (.2byte 0x0000)...\<newline>'' [] s) (\<lambda>s.
     Option.bind (do_illegal E c s) (\<lambda>s.
     Option.bind (print_sys E ''[C] resumed after illegal RVC insn\<newline>'' [] s) (\<lambda>s.
     Option.bind (print_sys E ''=== ALL TRAP TESTS PASSED ===\<newline>'' [] s) (\<lambda>s.
     Some (Returned (0, s)))))))))))))"

section \<open>The three traps\<close>

definition illegal_msg :: string where
  "illegal_msg = ''BSP: illegal instruction exception handler entered\<newline>''"

text \<open>The system as the start code leaves it, for a stack whose next trap frame is at \<open>f\<close>.\<close>

definition sys_ok :: "(nat \<Rightarrow> nat) \<Rightarrow> uart_dev env \<Rightarrow> addr \<Rightarrow> uart_dev sys \<Rightarrow> bool" where
  "sys_ok lat E f s \<longleftrightarrow> e_uart_bus E = uart_bus lat \<and> u_bound (e_uart E) \<and> u_regs (e_uart E) = UART_BASE \<and> tx_ready (s_dev s) \<and>
     cstr_at (s_mem s) (e_lit E illegal_msg) (str illegal_msg) \<and> apart (e_lit E illegal_msg) (Suc (length (str illegal_msg))) f CTX_SIZE"

definition outside_same :: "addr \<Rightarrow> mem \<Rightarrow> mem \<Rightarrow> bool" where
  "outside_same f m m' \<longleftrightarrow> (\<forall>y. CTX_SIZE \<le> unat (y - f) \<longrightarrow> m' y = m y)"

lemma outside_same_trans: "outside_same f m m' \<Longrightarrow> outside_same f m' m'' \<Longrightarrow> outside_same f m m''"
  by (simp add: outside_same_def)

lemma outside_same_refl [simp]: "outside_same f m m"
  by (simp add: outside_same_def)

lemma outside_frame: "outside_same f m (stores m f (frame h))"
  by (simp add: outside_same_def frame_outside)

lemma outside_store: "k + 8 \<le> CTX_SIZE \<Longrightarrow> outside_same f m (store64 m (f + of_nat k) v)"
  by (simp add: outside_same_def frame_store_outside)

lemma outside_bytes: "outside_same f m m' \<Longrightarrow> apart p n f CTX_SIZE \<Longrightarrow> bytes_at m' p n = bytes_at m p n"
  by (rule bytes_at_same) (simp add: outside_same_def apart_def)

lemma outside_cstr: "outside_same f m m' \<Longrightarrow> apart p (Suc (length cs)) f CTX_SIZE \<Longrightarrow> cstr_at m' p cs = cstr_at m p cs"
  by (simp add: cstr_at_def outside_bytes)

lemma outside_insn:
  assumes "outside_same f m m'" and "apart pc 4 f CTX_SIZE"
  shows "insn_trap m' pc = insn_trap m pc"
proof -
  have "m' (pc + of_nat i) = m (pc + of_nat i)" if "i < 4" for i
    using assms that by (simp add: outside_same_def apart_def)
  from this [of 0] this [of 1] this [of 2] this [of 3] show ?thesis by (simp add: insn_trap_def)
qed

lemma sys_ok_step: "sys_ok lat E f s \<Longrightarrow> tx_ready d \<Longrightarrow> outside_same f (s_mem s) m \<Longrightarrow> sys_ok lat E f (s\<lparr>s_mem := m, s_dev := d\<rparr>)"
  by (simp add: sys_ok_def outside_cstr)

lemma insn_trap_len:
  assumes "insn_trap m pc = Some (cause, len)"
  shows "len = (if m pc AND 3 = 3 then 4 else 2)"
  using assms by (auto simp: insn_trap_def Let_def split: if_splits)

lemma puts_sys_wire:
  assumes "u_bound u" and "u_regs u = UART_BASE" and "tx_ready (s_dev s)" and "cstr_at (s_mem s) (lit msg) cs"
  obtains d where "puts_sys (uart_bus lat) u lit msg s = Some (s\<lparr>s_dev := d\<rparr>)" and "tx_ready d" and "wire d = wire (s_dev s) @ cs @ [10]"
proof -
  obtain d1 where d1: "uart_op_puts (uart_bus lat) u (s_mem s) (lit msg) (s_dev s) = Some d1" "tx_ready d1" "wire d1 = wire (s_dev s) @ cs"
    using uart_op_puts_wire [OF assms(1-4), of lat] by blast
  obtain d2 where d2: "uart_op_putc (uart_bus lat) u 10 d1 = Some d2" "tx_ready d2" "wire d2 = wire d1 @ [10]"
    using uart_op_putc_wire [OF d1(2) assms(2)] .
  show ?thesis using that [of d2] d1 d2 assms(1) by (simp add: puts_sys_def puts_def uart_puts_def uart_putc_def)
qed

text \<open>Advancing the saved program counter over the instruction.\<close>

lemma advanced:
  assumes "load64 m (f + of_nat CTX_MEPC_OFF) = pc" and "insn_trap m pc = Some (cause, len)"
  shows "ctx_advance_mepc f m = store64 m (f + of_nat CTX_MEPC_OFF) (pc + len)"
  using assms insn_trap_len [OF assms(2)] by (simp add: ctx_advance_mepc_def trap_context_layout Let_def)

lemma illegal_returns:
  assumes "sys_ok lat E f s" and "f = h_x h 2 - of_nat CTX_SIZE"
    and "insn_trap (s_mem s) (h_pc h) = Some (EXCEPTION_ILLEGAL_INSN, len)" and "apart (h_pc h) 4 f CTX_SIZE"
  shows "\<exists>m d. do_illegal E h s = Some (s\<lparr>s_mem := m, s_dev := d\<rparr>) \<and> sys_ok lat E f (s\<lparr>s_mem := m, s_dev := d\<rparr>) \<and>
    outside_same f (s_mem s) m \<and> wire d = wire (s_dev s) @ str illegal_msg @ [10]"
proof -
  let ?h = "trap_enter EXCEPTION_ILLEGAL_INSN h"
  let ?m1 = "stores (s_mem s) f (frame ?h)"
  have x: "h_csr ?h Mepc = h_pc h" "h_csr ?h Mcause = EXCEPTION_ILLEGAL_INSN" by (simp_all add: trap_enter_def Let_def)
  have o1: "outside_same f (s_mem s) ?m1" by (rule outside_frame)
  note u = assms(1) [unfolded sys_ok_def]
  have "cstr_at ?m1 (e_lit E illegal_msg) (str illegal_msg)" using u outside_cstr [OF o1] by blast
  then obtain d where d: "puts_sys (uart_bus lat) (e_uart E) (e_lit E) illegal_msg (s\<lparr>s_mem := ?m1\<rparr>) = Some (s\<lparr>s_mem := ?m1, s_dev := d\<rparr>)"
    "tx_ready d" "wire d = wire (s_dev s) @ str illegal_msg @ [10]"
    using puts_sys_wire [of "e_uart E" "s\<lparr>s_mem := ?m1\<rparr>" "e_lit E" illegal_msg "str illegal_msg" lat] u by auto
  let ?m2 = "store64 ?m1 (f + of_nat CTX_MEPC_OFF) (h_pc h + len)"
  have i1: "insn_trap ?m1 (h_pc h) = Some (EXCEPTION_ILLEGAL_INSN, len)" using assms(3) outside_insn [OF o1 assms(4)] by simp
  have "ctx_advance_mepc f ?m1 = ?m2" by (rule advanced [OF _ i1]) (simp only: frame_loads x)
  define t where "t = s\<lparr>s_mem := ?m2, s_dev := d\<rparr>"
  have b: "exception_body L (uart_bus lat) BC (e_uart E) c (e_lit E) f (s\<lparr>s_mem := ?m1\<rparr>) = Some (Returned t)" for L BC c
    using d(1) \<open>ctx_advance_mepc f ?m1 = ?m2\<close> by (simp add: t_def exception_body_def Let_def frame_loads(2) x(2) advance_def illegal_msg_def [symmetric] del: str_Cons)
  obtain h' where h': "u_sw_irq_handler (e_libc E) (uart_bus lat) (e_ctrl_bus E) (e_uart E) (e_ctrl E) (e_lit E) (e_junk E) (?h, s) =
      Some (Returned (h', t))" "h_pc h' = load64 (s_mem t) (f + of_nat CTX_MEPC_OFF)" "h_x h' 2 = h_x h 2"
    using exception_returns [OF b [unfolded assms(2)], of "e_libc E" "e_ctrl_bus E" "e_ctrl E" "e_junk E"] unfolding assms(2) by blast
  have "do_illegal E h s = Some (s\<lparr>s_mem := ?m2, s_dev := d\<rparr>)"
    using h' u assms(3) by (simp add: do_illegal_def issue_def load64_store64 t_def)
  moreover have o2: "outside_same f (s_mem s) ?m2"
    by (rule outside_same_trans [OF o1 outside_store]) (simp add: c_const)
  ultimately show ?thesis using sys_ok_step [OF assms(1) d(2) o2] d(3) by blast
qed

lemma ecall_getpid_returns:
  assumes "sys_ok lat E f s" and "f = h_x h 2 - of_nat CTX_SIZE"
    and "insn_trap (s_mem s) (h_pc h) = Some (EXCEPTION_ECALL_M, len)" and "apart (h_pc h) 4 f CTX_SIZE"
    and "n_sysno (e_libc E) i = Some SYS_getpid"
  shows "\<exists>m. do_ecall E h i s = Some (Returned (1, s\<lparr>s_mem := m\<rparr>)) \<and> sys_ok lat E f (s\<lparr>s_mem := m\<rparr>) \<and> outside_same f (s_mem s) m"
proof -
  let ?g = "h\<lparr>h_x := (h_x h)(REG_A7 := i)\<rparr>"
  let ?h = "trap_enter EXCEPTION_ECALL_M ?g"
  let ?m1 = "stores (s_mem s) f (frame ?h)"
  have x: "h_csr ?h Mepc = h_pc h" "h_csr ?h Mcause = EXCEPTION_ECALL_M" "h_x ?h REG_A7 = i" "f = h_x ?g 2 - of_nat CTX_SIZE"
    using assms(2) by (simp_all add: trap_enter_def Let_def c_const)
  have o1: "outside_same f (s_mem s) ?m1" by (rule outside_frame)
  note u = assms(1) [unfolded sys_ok_def]
  have a7: "load64 ?m1 (ctx_gpr f REG_A7) = i"
    unfolding trap_context_layout using x(3) by (subst frame_loads(1)) (simp_all add: c_const)
  let ?m2 = "store64 ?m1 (f + of_nat (CTX_GPR_OFF 10)) 1"
  let ?m3 = "store64 ?m2 (f + of_nat CTX_MEPC_OFF) (h_pc h + len)"
  have st: "store64 ?m1 (ctx_gpr f REG_A0) 1 = ?m2" by (simp add: trap_context_layout REG_A0_def)
  have hs: "handle_syscall (e_libc E) (uart_bus lat) BC (e_uart E) c (e_lit E) f (s\<lparr>s_mem := ?m1\<rparr>) = Some (Returned (s\<lparr>s_mem := ?m2\<rparr>))" for BC c
    by (simp add: handle_syscall_def Let_def a7 assms(5) widen_def sys_getpid_def st)
  have o2: "outside_same f (s_mem s) ?m2"
    by (rule outside_same_trans [OF o1 outside_store]) (simp add: c_const)
  have pc: "load64 ?m2 (f + of_nat CTX_MEPC_OFF) = h_pc h"
  proof -
    have "load64 ?m2 (f + of_nat CTX_MEPC_OFF) = load64 ?m1 (f + of_nat CTX_MEPC_OFF)"
      by (rule load64_store64_offset) (simp_all add: c_const)
    then show ?thesis by (simp only: frame_loads x)
  qed
  have i2: "insn_trap ?m2 (h_pc h) = Some (EXCEPTION_ECALL_M, len)" using assms(3) outside_insn [OF o2 assms(4)] by simp
  have ne: "EXCEPTION_ECALL_M \<noteq> EXCEPTION_ILLEGAL_INSN" by (simp add: c_const)
  have "ctx_advance_mepc f ?m2 = ?m3" by (rule advanced [OF pc i2])
  define t where "t = s\<lparr>s_mem := ?m3\<rparr>"
  have b: "exception_body (e_libc E) (uart_bus lat) BC (e_uart E) c (e_lit E) f (s\<lparr>s_mem := ?m1\<rparr>) = Some (Returned t)" for BC c
    using hs ne \<open>ctx_advance_mepc f ?m2 = ?m3\<close> by (simp add: t_def exception_body_def Let_def frame_loads(2) x(2) advance_def)
  obtain h' where h': "u_sw_irq_handler (e_libc E) (uart_bus lat) (e_ctrl_bus E) (e_uart E) (e_ctrl E) (e_lit E) (e_junk E) (?h, s) =
      Some (Returned (h', t))" "h_pc h' = load64 (s_mem t) (f + of_nat CTX_MEPC_OFF)" "h_x h' 2 = h_x ?g 2"
    and r: "\<forall>r \<in> {1..<32} - {2}. h_x h' r = load64 (s_mem t) (f + of_nat (CTX_GPR_OFF r))"
    using exception_returns [OF b [unfolded x(4)], of "e_ctrl_bus E" "e_ctrl E" "e_junk E"] unfolding x(4) by blast
  have "load64 ?m3 (f + of_nat (CTX_GPR_OFF 10)) = load64 ?m2 (f + of_nat (CTX_GPR_OFF 10))"
    by (rule load64_store64_offset) (simp_all add: c_const)
  then have "h_x h' REG_A0 = 1" using r by (simp add: load64_store64 REG_A0_def t_def)
  then have "do_ecall E h i s = Some (Returned (1, s\<lparr>s_mem := ?m3\<rparr>))"
    using h' u assms(3) by (simp add: do_ecall_def issue_def load64_store64 t_def)
  moreover have o3: "outside_same f (s_mem s) ?m3"
    by (rule outside_same_trans [OF o2 outside_store]) (simp add: c_const)
  ultimately show ?thesis using u o3 by (auto simp: sys_ok_def outside_cstr [OF o3])
qed

section \<open>The test\<close>

lemma print_sys_wire:
  assumes "sys_ok lat E f s" and "text_of (s_mem s) msg va = Some t"
  obtains d where "print_sys E msg va s = Some (s\<lparr>s_dev := d\<rparr>)" and "sys_ok lat E f (s\<lparr>s_dev := d\<rparr>)" and "wire d = wire (s_dev s) @ t"
proof -
  obtain r d where "uart_printf (uart_bus lat) (e_uart E) (s_mem s) (str msg) va (s_dev s) = Some (r, d)" "tx_ready d" "wire d = wire (s_dev s) @ t"
    using uart_printf_wire [OF assms(2), of "s_dev s" "e_uart E" lat] assms(1) by (auto simp: sys_ok_def)
  then show ?thesis using that [of d] assms(1) by (simp add: print_sys_def sys_ok_def)
qed

lemma text_one: "conv_int_text 100 FLAGS_LONG 0 0 1 = [49]"
  by code_simp

lemma returned_text: "text_of m ''[A] returned from ecall, a0 = %ld\<newline>'' [1] = Some (str ''[A] returned from ecall, a0 = 1\<newline>'')"
  by (simp add: text_of_def parse_spec_def parse_width_def parse_precision_def parse_length_def cur_def is_digit_def
      conv_acts_def int_specs_def Let_def text_one)

text \<open>The program in memory and the harts at its three instructions, on one stack.\<close>

definition trap_code :: "mem \<Rightarrow> addr \<Rightarrow> hart \<Rightarrow> hart \<Rightarrow> hart \<Rightarrow> bool" where
  "trap_code m f a b c \<longleftrightarrow>
     insn_trap m (h_pc a) = Some (EXCEPTION_ECALL_M, 4) \<and> insn_trap m (h_pc b) = Some (EXCEPTION_ILLEGAL_INSN, 4) \<and>
     insn_trap m (h_pc c) = Some (EXCEPTION_ILLEGAL_INSN, 2) \<and>
     (\<forall>h \<in> {a, b, c}. f = h_x h 2 - of_nat CTX_SIZE \<and> apart (h_pc h) 4 f CTX_SIZE)"

definition trap_test_text :: "byte list" where
  "trap_test_text = str ''=== BSP trap test ===\<newline>'' @ str ''[A] issuing ecall (SYS_getpid=172)...\<newline>'' @
     str ''[A] returned from ecall, a0 = 1\<newline>'' @ str ''[B] executing illegal 32-bit insn (.word 0xffffffff)...\<newline>'' @
     (str illegal_msg @ [10]) @ str ''[B] resumed after illegal 32-bit insn\<newline>'' @
     str ''[C] executing illegal RVC insn  (.2byte 0x0000)...\<newline>'' @ (str illegal_msg @ [10]) @
     str ''[C] resumed after illegal RVC insn\<newline>'' @ str ''=== ALL TRAP TESTS PASSED ===\<newline>''"

text \<open>What has been sent since memory was \<open>m0\<close> and the wire \<open>w0\<close>, and the rules for one statement.\<close>

definition sent :: "(nat \<Rightarrow> nat) \<Rightarrow> uart_dev env \<Rightarrow> addr \<Rightarrow> mem \<Rightarrow> byte list \<Rightarrow> byte list \<Rightarrow> uart_dev sys \<Rightarrow> bool" where
  "sent lat E f m0 w0 t s \<longleftrightarrow> sys_ok lat E f s \<and> outside_same f m0 (s_mem s) \<and> wire (s_dev s) = w0 @ t"

definition ends :: "('a \<Rightarrow> bool) \<Rightarrow> 'a option \<Rightarrow> bool" where
  "ends Q r \<longleftrightarrow> (\<exists>x. r = Some x \<and> Q x)"

lemma after_print:
  assumes "sent lat E f m0 w0 t s" and "text_of (s_mem s) msg va = Some t'"
    and "\<And>s. sent lat E f m0 w0 (t @ t') s \<Longrightarrow> ends Q (k s)"
  shows "ends Q (Option.bind (print_sys E msg va s) k)"
proof -
  have ok: "sys_ok lat E f s" using assms(1) by (simp add: sent_def)
  obtain d where "print_sys E msg va s = Some (s\<lparr>s_dev := d\<rparr>)" "sys_ok lat E f (s\<lparr>s_dev := d\<rparr>)" "wire d = wire (s_dev s) @ t'"
    by (rule print_sys_wire [OF ok assms(2)])
  then show ?thesis using assms(1,3) by (simp add: sent_def)
qed

lemmas after_plain = after_print [OF _ plain_text]

lemma after_illegal:
  assumes "sent lat E f m0 w0 t s" and "f = h_x h 2 - of_nat CTX_SIZE"
    and "insn_trap m0 (h_pc h) = Some (EXCEPTION_ILLEGAL_INSN, len)" and "apart (h_pc h) 4 f CTX_SIZE"
    and "\<And>s. sent lat E f m0 w0 (t @ str illegal_msg @ [10]) s \<Longrightarrow> ends Q (k s)"
  shows "ends Q (Option.bind (do_illegal E h s) k)"
proof -
  have ok: "sys_ok lat E f s" and o1: "outside_same f m0 (s_mem s)" using assms(1) by (simp_all add: sent_def)
  obtain m d where r: "do_illegal E h s = Some (s\<lparr>s_mem := m, s_dev := d\<rparr>)" "sys_ok lat E f (s\<lparr>s_mem := m, s_dev := d\<rparr>)"
    "outside_same f (s_mem s) m" "wire d = wire (s_dev s) @ str illegal_msg @ [10]"
    using illegal_returns [OF ok assms(2)] assms(3,4) outside_insn [OF o1 assms(4)] by metis
  have "sent lat E f m0 w0 (t @ str illegal_msg @ [10]) (s\<lparr>s_mem := m, s_dev := d\<rparr>)"
    using assms(1) r(2,4) outside_same_trans [OF o1 r(3)] by (simp add: sent_def)
  then show ?thesis using r(1) assms(5) by simp
qed

lemma after_getpid:
  assumes "sent lat E f m0 w0 t s" and "f = h_x h 2 - of_nat CTX_SIZE"
    and "insn_trap m0 (h_pc h) = Some (EXCEPTION_ECALL_M, len)" and "apart (h_pc h) 4 f CTX_SIZE"
    and "n_sysno (e_libc E) i = Some SYS_getpid" and "\<And>s. sent lat E f m0 w0 t s \<Longrightarrow> ends Q (k (Returned (1, s)))"
  shows "ends Q (Option.bind (do_ecall E h i s) k)"
proof -
  have ok: "sys_ok lat E f s" and o1: "outside_same f m0 (s_mem s)" using assms(1) by (simp_all add: sent_def)
  obtain m where r: "do_ecall E h i s = Some (Returned (1, s\<lparr>s_mem := m\<rparr>))" "sys_ok lat E f (s\<lparr>s_mem := m\<rparr>)" "outside_same f (s_mem s) m"
    using ecall_getpid_returns [OF ok assms(2) _ assms(4,5)] assms(3) outside_insn [OF o1 assms(4)] by metis
  have "sent lat E f m0 w0 t (s\<lparr>s_mem := m\<rparr>)" using assms(1) r(2) outside_same_trans [OF o1 r(3)] by (simp add: sent_def)
  then show ?thesis using r(1) assms(6) by simp
qed

text \<open>C8. The trap test on a UART of any speed returns 0: the system call comes back behind the \<open>ecall\<close>
  with the process id in \<open>a0\<close>, each illegal instruction is skipped by its own length, 4 or 2 bytes,
  and the UART sends the messages of the test and of the handlers in order. Memory outside of the
  trap frame is as before.\<close>

theorem trap_test_passes:
  assumes "sys_ok lat E f s" and "trap_code (s_mem s) f a b c" and "n_sysno (e_libc E) 172 = Some SYS_getpid"
  shows "\<exists>s'. trap_test_main E a b c s = Some (Returned (0, s')) \<and>
    tx_out (s_dev s') @ tx_fifo (s_dev s') = tx_out (s_dev s) @ tx_fifo (s_dev s) @ trap_test_text \<and>
    outside_same f (s_mem s) (s_mem s')"
proof -
  have a: "f = h_x a 2 - of_nat CTX_SIZE" "insn_trap (s_mem s) (h_pc a) = Some (EXCEPTION_ECALL_M, 4)" "apart (h_pc a) 4 f CTX_SIZE"
    and b: "f = h_x b 2 - of_nat CTX_SIZE" "insn_trap (s_mem s) (h_pc b) = Some (EXCEPTION_ILLEGAL_INSN, 4)" "apart (h_pc b) 4 f CTX_SIZE"
    and c: "f = h_x c 2 - of_nat CTX_SIZE" "insn_trap (s_mem s) (h_pc c) = Some (EXCEPTION_ILLEGAL_INSN, 2)" "apart (h_pc c) 4 f CTX_SIZE"
    using assms(2) unfolding trap_code_def by blast+
  let ?w = "wire (s_dev s)"
  have "sent lat E f (s_mem s) ?w [] s" using assms(1) by (simp add: sent_def)
  then have "ends (\<lambda>r. \<exists>s'. r = Returned (0, s') \<and> sent lat E f (s_mem s) ?w trap_test_text s') (trap_test_main E a b c s)"
    unfolding trap_test_main_def
    apply (rule after_plain, simp, simp)
    apply (erule after_plain, simp, simp)
    apply (erule after_getpid [OF _ a assms(3)])
    apply simp
    apply (erule after_print [OF _ returned_text])
    apply (erule after_plain, simp, simp)
    apply (erule after_illegal [OF _ b])
    apply (erule after_plain, simp, simp)
    apply (erule after_plain, simp, simp)
    apply (erule after_illegal [OF _ c])
    apply (erule after_plain, simp, simp)
    apply (erule after_plain, simp, simp)
    apply (simp add: ends_def trap_test_text_def)
    done
  then show ?thesis by (auto simp: ends_def sent_def wire_def)
qed

definition demo_trap_env :: "uart_dev env" where
  "demo_trap_env = \<lparr>e_libc = demo_libc\<lparr>n_sysno := (\<lambda>n. if n = 172 then Some SYS_getpid else None)\<rparr>, e_uart_bus = uart_bus (\<lambda>n. n),
     e_ctrl_bus = uart_bus (\<lambda>n. n), e_uart = uart_bind (uart_zero\<lparr>u_regs := UART_BASE\<rparr>), e_ctrl = soc_ctrl_zero,
     e_lit = (\<lambda>_. 0x80000100), e_junk = (\<lambda>_. 0)\<rparr>"

definition demo_trap_mem :: mem where
  "demo_trap_mem = mem_put (mem_put (mem_put (\<lambda>_. 0) 0x80000000 4 (\<lambda>o'. if o' = 0 then 0x73 else 0)) 0x80000004 4 (\<lambda>_. 0xFF))
     0x80000100 (Suc (length (str illegal_msg))) (\<lambda>o'. (str illegal_msg @ [0]) ! unat o')"

definition demo_at :: "addr \<Rightarrow> hart" where
  "demo_at pc = demo_hart\<lparr>h_pc := pc\<rparr>"

lemma trap_test_passes_witness:
  "\<exists>s'. trap_test_main demo_trap_env (demo_at 0x80000000) (demo_at 0x80000004) (demo_at 0x80000008)
      (demo_sys\<lparr>s_mem := demo_trap_mem\<rparr>) = Some (Returned (0, s')) \<and> tx_out (s_dev s') @ tx_fifo (s_dev s') = trap_test_text"
proof -
  let ?f = "0x80010000 - of_nat CTX_SIZE" and ?s = "demo_sys\<lparr>s_mem := demo_trap_mem\<rparr>"
  have l: "length illegal_msg = 51" by (simp add: illegal_msg_def)
  have m1: "unat (- 1 :: addr) = 2 ^ 64 - 1" by (simp add: unsigned_minus_1_eq_mask mask_eq_exp_minus_1)
  have nz: "0 \<notin> set (str illegal_msg)" by (simp add: illegal_msg_def)
  have b: "bytes_at demo_trap_mem 0x80000100 (Suc (length (str illegal_msg))) = str illegal_msg @ [0]"
  proof (rule nth_equalityI)
    fix i assume "i < length (bytes_at demo_trap_mem 0x80000100 (Suc (length (str illegal_msg))))"
    then have i: "i < 52" by (simp add: l)
    have "unat (of_nat i :: addr) = i" by (rule unat_of_nat64) (use i in simp)
    then show "bytes_at demo_trap_mem 0x80000100 (Suc (length (str illegal_msg))) ! i = (str illegal_msg @ [0]) ! i"
      using i by (simp add: l demo_trap_mem_def mem_put_def)
  qed simp
  have ap: "apart 0x80000100 (Suc (length (str illegal_msg))) ?f CTX_SIZE" "apart (0x80000000 + of_nat k) 4 ?f CTX_SIZE" if "k \<le> 8" for k
    using apart_offsets [where j = "0x100" and k = "0xFEE0" and a = "0x80000000" and n = 52 and l = 288]
      apart_offsets [where j = k and k = "0xFEE0" and a = "0x80000000" and n = 4 and l = 288] that
    by (simp_all add: l c_const)
  have "sys_ok (\<lambda>n. n) demo_trap_env ?f ?s"
    using nz b ap(1) [of 0] by (simp add: sys_ok_def demo_trap_env_def demo_sys_def cstr_at_def uart_bind_def uart_zero_def uart_reset_def tx_ready_def dlab_def)
  moreover have "trap_code (s_mem ?s) ?f (demo_at 0x80000000) (demo_at 0x80000004) (demo_at 0x80000008)"
    using ap(2) [of 0] ap(2) [of 4] ap(2) [of 8]
    by (simp add: trap_code_def demo_at_def demo_hart_def insn_trap_def demo_trap_mem_def mem_put_def l Let_def m1)
  moreover have "n_sysno (e_libc demo_trap_env) 172 = Some SYS_getpid" by (simp add: demo_trap_env_def)
  ultimately show ?thesis using trap_test_passes by (force simp: demo_sys_def uart_reset_def)
qed

end
