(* ===== verification/Irq_Prog.thy ===== *)
theory Irq_Prog
  imports Irq_Wait Console
begin

text \<open>
  Programs that are interrupted: a list of statements on a state \<open>'d app\<close>, in which an enabled interrupt
  that is pending is taken between any two accesses to the devices or characters of output, and the
  devices may do something at any time. An interrupt runs to its end, since it is entered with
  interrupts disabled. It is the model of the programs that test interrupts, \<open>app/clint_test\<close> and
  \<open>app/default_slave\<close>.
\<close>

section \<open>Statements\<close>

text \<open>An access to the devices, the instructions that enable interrupts, a \<open>printf\<close> whose arguments may
  read the devices, one character of its output, and \<open>while (!flag) nop\<close>.\<close>

datatype 'd stmt = Access "'d app \<Rightarrow> 'd app" | Enable | Print string "'d app \<Rightarrow> u64 list \<times> 'd app" | Emit byte | Spin "'d app \<Rightarrow> u32"

record 'd irq_prog =
  q_ops :: "'d stmt list"
  q_mie :: bool
  q_app :: "'d app"

fun stmt_step :: "mem \<Rightarrow> 'd stmt \<Rightarrow> 'd irq_prog \<Rightarrow> 'd irq_prog option" where
  "stmt_step ms (Access f) s = Some (s\<lparr>q_app := f (q_app s)\<rparr>)"
| "stmt_step ms Enable s = Some (s\<lparr>q_mie := True\<rparr>)"
| "stmt_step ms (Print f args) s =
     (let (va, a) = args (q_app s)
      in map_option (\<lambda>t. s\<lparr>q_ops := map Emit t @ q_ops s, q_app := a\<rparr>) (text_of ms f va))"
| "stmt_step ms (Emit c) s = Some (s\<lparr>q_app := (q_app s)\<lparr>ap_out := ap_out (q_app s) @ [c]\<rparr>\<rparr>)"
| "stmt_step ms (Spin flag) s = Some (if flag (q_app s) \<noteq> 0 then s else s\<lparr>q_ops := Spin flag # q_ops s\<rparr>)"

inductive pstep :: "mem \<Rightarrow> 'd app irq_port \<Rightarrow> 'd irq_prog \<Rightarrow> 'd irq_prog \<Rightarrow> bool" for ms I where
  Happen: "q_ops s \<noteq> [] \<Longrightarrow> ip_event I (q_app s) = Some a \<Longrightarrow> pstep ms I s (s\<lparr>q_app := a\<rparr>)"
| Take: "q_ops s \<noteq> [] \<Longrightarrow> q_mie s \<Longrightarrow> ip_pending I (q_app s) \<Longrightarrow> ip_serve I (q_app s) = Some a \<Longrightarrow> pstep ms I s (s\<lparr>q_app := a\<rparr>)"
| Stmt: "q_ops s = x # xs \<Longrightarrow> \<not> (q_mie s \<and> ip_pending I (q_app s)) \<Longrightarrow> stmt_step ms x (s\<lparr>q_ops := xs\<rparr>) = Some s' \<Longrightarrow> pstep ms I s s'"

text \<open>A bus of the devices as seen from the program, and \<open>printf\<close> inside of a handler.\<close>

definition app_bus :: "'d bus \<Rightarrow> 'd app bus" where
  "app_bus B =
     \<lparr>bus_rd = (\<lambda>n a s. let (v, d) = bus_rd B n a (ap_dev s) in (v, s\<lparr>ap_dev := d\<rparr>)),
      bus_wr = (\<lambda>n a v s. s\<lparr>ap_dev := bus_wr B n a v (ap_dev s)\<rparr>),
      bus_idle = (\<lambda>n s. s\<lparr>ap_dev := bus_idle B n (ap_dev s)\<rparr>)\<rparr>"

lemma app_wr32: "wr32 (app_bus B) a v s = s\<lparr>ap_dev := wr32 B a v (ap_dev s)\<rparr>"
  by (simp add: app_bus_def wr32_def)

lemma app_rd32: "rd32 (app_bus B) a s = (let (v, d) = rd32 B a (ap_dev s) in (v, s\<lparr>ap_dev := d\<rparr>))"
  by (simp add: app_bus_def rd32_def Let_def split_def)

lemma app_wr64: "wr64 (app_bus B) a v s = s\<lparr>ap_dev := wr64 B a v (ap_dev s)\<rparr>"
  by (simp add: app_bus_def wr64_def)

lemma app_rd64: "rd64 (app_bus B) a s = (let (v, d) = rd64 B a (ap_dev s) in (v, s\<lparr>ap_dev := d\<rparr>))"
  by (simp add: app_bus_def rd64_def Let_def split_def)

section \<open>Runs\<close>

text \<open>One statement, and the characters of a \<open>printf\<close>, while no interrupt is taken.\<close>

abbreviation runs :: "mem \<Rightarrow> 'd app irq_port \<Rightarrow> 'd irq_prog \<Rightarrow> 'd irq_prog \<Rightarrow> bool" where
  "runs ms I \<equiv> (pstep ms I)\<^sup>*\<^sup>*"

definition calm :: "'d app irq_port \<Rightarrow> bool \<Rightarrow> 'd app \<Rightarrow> bool" where
  "calm I mie a \<longleftrightarrow> \<not> (mie \<and> ip_pending I a)"

text \<open>Interrupts do not depend on the output.\<close>

definition out_free :: "'d app irq_port \<Rightarrow> bool" where
  "out_free I \<longleftrightarrow> (\<forall>a t. ip_pending I (a\<lparr>ap_out := t\<rparr>) = ip_pending I a)"

lemma run_stmt:
  assumes "calm I mie a" and "stmt_step ms x \<lparr>q_ops = xs, q_mie = mie, q_app = a\<rparr> = Some s'"
  shows "runs ms I \<lparr>q_ops = x # xs, q_mie = mie, q_app = a\<rparr> s'"
  by (rule r_into_rtranclp, rule Stmt [of _ x xs]) (use assms in \<open>simp_all add: calm_def\<close>)

lemma run_emit:
  assumes "out_free I" and "calm I mie a"
  shows "runs ms I \<lparr>q_ops = map Emit t @ xs, q_mie = mie, q_app = a\<rparr> \<lparr>q_ops = xs, q_mie = mie, q_app = a\<lparr>ap_out := ap_out a @ t\<rparr>\<rparr>"
  using assms(2)
proof (induction t arbitrary: a)
  case (Cons c t)
  let ?a = "a\<lparr>ap_out := ap_out a @ [c]\<rparr>"
  have "runs ms I \<lparr>q_ops = map Emit (c # t) @ xs, q_mie = mie, q_app = a\<rparr> \<lparr>q_ops = map Emit t @ xs, q_mie = mie, q_app = ?a\<rparr>"
    using run_stmt [OF Cons.prems, of ms "Emit c" "map Emit t @ xs"] by simp
  also have "calm I mie ?a" using Cons.prems assms(1) by (simp add: calm_def out_free_def)
  from Cons.IH [OF this] have "runs ms I \<lparr>q_ops = map Emit t @ xs, q_mie = mie, q_app = ?a\<rparr>
      \<lparr>q_ops = xs, q_mie = mie, q_app = a\<lparr>ap_out := ap_out a @ c # t\<rparr>\<rparr>" by simp
  finally show ?case .
qed simp

lemma run_print:
  assumes "out_free I" and "calm I mie a" and "args a = (va, a')" and "text_of ms f va = Some t" and "calm I mie a'"
  shows "runs ms I \<lparr>q_ops = Print f args # xs, q_mie = mie, q_app = a\<rparr> \<lparr>q_ops = xs, q_mie = mie, q_app = a'\<lparr>ap_out := ap_out a' @ t\<rparr>\<rparr>"
proof -
  have "runs ms I \<lparr>q_ops = Print f args # xs, q_mie = mie, q_app = a\<rparr> \<lparr>q_ops = map Emit t @ xs, q_mie = mie, q_app = a'\<rparr>"
    by (rule run_stmt [OF assms(2)]) (simp add: assms(3,4))
  also have "runs ms I \<lparr>q_ops = map Emit t @ xs, q_mie = mie, q_app = a'\<rparr> \<lparr>q_ops = xs, q_mie = mie, q_app = a'\<lparr>ap_out := ap_out a' @ t\<rparr>\<rparr>"
    by (rule run_emit [OF assms(1,5)])
  finally show ?thesis .
qed

lemma run_access:
  "calm I mie a \<Longrightarrow> runs ms I \<lparr>q_ops = Access f # xs, q_mie = mie, q_app = a\<rparr> \<lparr>q_ops = xs, q_mie = mie, q_app = f a\<rparr>"
  by (rule run_stmt) simp_all

lemma run_accesses:
  "runs ms I \<lparr>q_ops = map Access fs @ xs, q_mie = False, q_app = a\<rparr> \<lparr>q_ops = xs, q_mie = False, q_app = fold (\<lambda>f. f) fs a\<rparr>"
proof (induction fs arbitrary: a)
  case (Cons f fs)
  have "runs ms I \<lparr>q_ops = map Access (f # fs) @ xs, q_mie = False, q_app = a\<rparr> \<lparr>q_ops = map Access fs @ xs, q_mie = False, q_app = f a\<rparr>"
    using run_access [of I False a ms f "map Access fs @ xs"] by (simp add: calm_def)
  then show ?case using Cons.IH [of "f a"] by simp
qed simp


lemma run_enable:
  "runs ms I \<lparr>q_ops = Enable # xs, q_mie = False, q_app = a\<rparr> \<lparr>q_ops = xs, q_mie = True, q_app = a\<rparr>"
  by (rule run_stmt) (simp_all add: calm_def)

lemma run_spin:
  "calm I mie a \<Longrightarrow> flag a \<noteq> 0 \<Longrightarrow> runs ms I \<lparr>q_ops = Spin flag # xs, q_mie = mie, q_app = a\<rparr> \<lparr>q_ops = xs, q_mie = mie, q_app = a\<rparr>"
  by (rule run_stmt) simp_all

lemma run_irq:
  "ip_pending I a \<Longrightarrow> ip_serve I a = Some a' \<Longrightarrow> xs \<noteq> [] \<Longrightarrow>
   runs ms I \<lparr>q_ops = xs, q_mie = True, q_app = a\<rparr> \<lparr>q_ops = xs, q_mie = True, q_app = a'\<rparr>"
  by (rule r_into_rtranclp) (use Take [of "\<lparr>q_ops = xs, q_mie = True, q_app = a\<rparr>" I a' ms] in simp)

text \<open>When the devices do nothing by themselves, there is only one run, and all of it leads to its end.\<close>

lemma pstep_det:
  assumes "pstep ms I s t" and "pstep ms I s t'" and "\<And>a. ip_event I a = None"
  shows "t = t'"
  using assms by (auto elim!: pstep.cases)

lemma runs_to_end:
  assumes "runs ms I s u" and "runs ms I s t" and "q_ops t = []" and "\<And>a. ip_event I a = None"
  shows "runs ms I u t"
  using assms(1)
proof (induction rule: rtranclp_induct)
  case base
  then show ?case by (rule assms(2))
next
  case (step u v)
  show ?case using step.IH
  proof (cases rule: converse_rtranclpE)
    case base
    then show ?thesis using step.hyps(2) assms(3) by (auto elim: pstep.cases)
  next
    case (step w)
    then show ?thesis using pstep_det [OF \<open>pstep ms I u v\<close> _ assms(4)] by auto
  qed
qed

end
