(* ===== verification/Default_Slave.thy ===== *)
theory Default_Slave
  imports Irq_Prog Dma_Irq_Test
begin

text \<open>
  The test \<open>software/app/default_slave\<close>: a store to the doorbell of \<open>hardware/user_ip/default_slave\<close> raises
  the line of source 2 of the interrupt controller, the handler lowers it. The line, the gateway and
  the target react within the access, and the interrupt is taken before the next statement. As nothing else happens by itself, the program has one run.
\<close>

section \<open>The device\<close>

text \<open>The sixteen words of the memory, the line, and the variable \<open>irq_hit\<close> of the program.\<close>

record ds_dev =
  ds_plic :: plic_dev
  ds_line :: bool
  ds_words :: "nat \<Rightarrow> u64"
  ds_hit :: u32

definition ds_sample :: "ds_dev \<Rightarrow> ds_dev" where
  "ds_sample d = d\<lparr>ds_plic := plic_sample ((ds_plic d)\<lparr>pd_src := if ds_line d then irq_bit 2 else 0\<rparr>)\<rparr>"

definition in_slave :: "addr \<Rightarrow> bool" where "in_slave a \<longleftrightarrow> unat (a - DEFAULT_SLAVE_BASE) < 0x1000"

definition slave_wr :: "addr \<Rightarrow> u64 \<Rightarrow> ds_dev \<Rightarrow> ds_dev" where
  "slave_wr a v d =
     (let d = d\<lparr>ds_words := (ds_words d)(unat (take_bit 4 (drop_bit 3 a)) := v)\<rparr>
      in if take_bit 12 a = 0x000 then d\<lparr>ds_line := True\<rparr>
         else if take_bit 12 a = 0x010 then d\<lparr>ds_line := False\<rparr> else d)"

definition ds_bus :: "ds_dev bus" where
  "ds_bus =
     \<lparr>bus_rd = (\<lambda>k a d.
        if in_plic a then let (v, p) = bus_rd plic_bus k a (ds_plic d) in (v, ds_sample (d\<lparr>ds_plic := p\<rparr>))
        else (if in_slave a then ds_words d (unat (take_bit 4 (drop_bit 3 a))) else 0, ds_sample d)),
      bus_wr = (\<lambda>k a v d.
        ds_sample (if in_plic a then d\<lparr>ds_plic := bus_wr plic_bus k a v (ds_plic d)\<rparr>
          else if in_slave a then slave_wr a v d else d)),
      bus_idle = (\<lambda>k d. ds_sample d)\<rparr>"

section \<open>The program\<close>

datatype ds_handler = Default_slave_isr

definition default_slave_isr :: "mem \<Rightarrow> u32 \<Rightarrow> addr \<Rightarrow> ds_dev app \<Rightarrow> ds_dev app option" where
  "default_slave_isr ms irq arg s =
     (let s = on_dev (wr32 ds_bus (DEFAULT_SLAVE_BASE + DEFAULT_SLAVE_IRQ_ACK_OFF) 1) s;
          s = on_dev (\<lambda>d. d\<lparr>ds_hit := irq\<rparr>) s
      in say ms ''exit default_slave_isr\<newline>'' [] s)"

fun run_ds :: "mem \<Rightarrow> ds_handler \<Rightarrow> u32 \<Rightarrow> addr \<Rightarrow> ds_dev app \<Rightarrow> ds_dev app option" where
  "run_ds ms Default_slave_isr irq arg s = default_slave_isr ms irq arg s"

text \<open>The table of \<open>plic0\<close> after \<open>register_handler\<close>, and the statements behind it.\<close>

definition default_slave_table :: "ds_handler plic \<Rightarrow> ds_handler plic" where
  "default_slave_table p = plic_op_register_handler p IRQn_DEFAULT_SLAVE (Some Default_slave_isr) 0"

definition default_slave_main :: "ds_handler plic \<Rightarrow> ds_dev stmt list" where
  "default_slave_main p =
     [Print ''=== default_slave IRQ demo ===\<newline>'' (Pair []),
      Access (on_dev (plic_op_set_priority ds_bus p IRQn_DEFAULT_SLAVE 1)),
      Access (on_dev (plic_op_set_threshold ds_bus p PLIC_CTX_M0 0)),
      Access (on_dev (plic_op_enable ds_bus p PLIC_CTX_M0 IRQn_DEFAULT_SLAVE)),
      Enable,
      Print ''arming default_slave doorbell...\<newline>'' (Pair []),
      Access (on_dev (wr32 ds_bus (DEFAULT_SLAVE_BASE + DEFAULT_SLAVE_IRQ_SET_OFF) 1)),
      Spin (\<lambda>s. ds_hit (ap_dev s)),
      Print ''IRQ %d serviced -- PASS\<newline>'' (\<lambda>s. ([scast (ds_hit (ap_dev s))], s))]"

definition ds_port :: "mem \<Rightarrow> (ds_dev app \<Rightarrow> ds_dev app option) \<Rightarrow> ds_handler plic \<Rightarrow> ds_dev app irq_port" where
  "ds_port ms spurious p =
     \<lparr>ip_pending = (\<lambda>s. plic_irq_id (ds_plic (ap_dev s)) 0 \<noteq> 0),
      ip_serve = plic_handle_m_ext_irq (app_bus ds_bus) (run_ds ms) spurious p,
      ip_flag = (\<lambda>s. scast (ds_hit (ap_dev s))),
      ip_event = (\<lambda>_. None)\<rparr>"

section \<open>The accesses\<close>

lemma ds_plic_wr: "in_plic a \<Longrightarrow> wr32 ds_bus a v d = ds_sample (d\<lparr>ds_plic := wr32 plic_bus a v (ds_plic d)\<rparr>)"
  by (simp add: wr32_def ds_bus_def)

lemma ds_plic_rd: "in_plic a \<Longrightarrow> rd32 ds_bus a d =
    (let (v, p) = rd32 plic_bus a (ds_plic d) in (v, ds_sample (d\<lparr>ds_plic := p\<rparr>)))"
  by (simp add: rd32_def ds_bus_def Let_def split_def)

lemma slave_offsets:
  "\<not> in_plic (DEFAULT_SLAVE_BASE + DEFAULT_SLAVE_IRQ_SET_OFF)" "in_slave (DEFAULT_SLAVE_BASE + DEFAULT_SLAVE_IRQ_SET_OFF)"
  "\<not> in_plic (DEFAULT_SLAVE_BASE + DEFAULT_SLAVE_IRQ_ACK_OFF)" "in_slave (DEFAULT_SLAVE_BASE + DEFAULT_SLAVE_IRQ_ACK_OFF)"
  by (simp_all add: in_plic_def in_slave_def c_const)

lemma ring:
  "\<exists>w. wr32 ds_bus (DEFAULT_SLAVE_BASE + DEFAULT_SLAVE_IRQ_SET_OFF) v d = ds_sample (d\<lparr>ds_words := w, ds_line := True\<rparr>)"
  "\<exists>w. wr32 ds_bus (DEFAULT_SLAVE_BASE + DEFAULT_SLAVE_IRQ_ACK_OFF) v d = ds_sample (d\<lparr>ds_words := w, ds_line := False\<rparr>)"
  by (simp_all add: wr32_def ds_bus_def slave_offsets slave_wr_def Let_def) (auto simp: c_const)

lemma ds_sample_quiet:
  assumes "pd_ip (ds_plic d) = 0" and "pd_ia (ds_plic d) = 0" and "\<not> ds_line d"
  shows "ds_sample d = d\<lparr>ds_plic := (ds_plic d)\<lparr>pd_src := 0\<rparr>\<rparr>"
  using assms by (simp add: ds_sample_def plic_sample_def)

text \<open>The set-up by the three calls.\<close>

lemma ds_set_up:
  assumes "pd_ip (ds_plic d) = 0" and "pd_ia (ds_plic d) = 0" and "\<not> ds_line d" and "p_regs p = PLIC_BASE"
  shows "\<exists>q. plic_op_enable ds_bus p PLIC_CTX_M0 IRQn_DEFAULT_SLAVE (plic_op_set_threshold ds_bus p PLIC_CTX_M0 0
      (plic_op_set_priority ds_bus p IRQn_DEFAULT_SLAVE 1 d)) = d\<lparr>ds_plic := q\<rparr> \<and> wired 2 False q"
proof -
  let ?q1 = "(ds_plic d)\<lparr>pd_prio := (pd_prio (ds_plic d))(2 := 1), pd_src := 0\<rparr>"
  let ?q2 = "?q1\<lparr>pd_thr := (pd_thr (ds_plic d))(0 := 0)\<rparr>"
  let ?e = "(pd_ie (ds_plic d) 0 OR push_bit 2 1) AND 0x7FFFFFFE"
  have 1: "plic_op_set_priority ds_bus p IRQn_DEFAULT_SLAVE 1 d = d\<lparr>ds_plic := ?q1\<rparr>"
    using assms in_plic_regs(1) [of 2]
    by (simp add: plic_op_set_priority_def IRQn_DEFAULT_SLAVE_def PLIC_NUM_SOURCES_def ds_plic_wr dev_simps ds_sample_quiet)
  have 2: "plic_op_set_threshold ds_bus p PLIC_CTX_M0 0 (d\<lparr>ds_plic := ?q1\<rparr>) = d\<lparr>ds_plic := ?q2\<rparr>"
    using assms by (simp add: plic_op_set_threshold_def PLIC_NUM_TARGETS_def PLIC_CTX_M0_def ds_plic_wr in_plic_regs dev_simps ds_sample_quiet)
  have 3: "plic_op_enable ds_bus p PLIC_CTX_M0 IRQn_DEFAULT_SLAVE (d\<lparr>ds_plic := ?q2\<rparr>) =
      d\<lparr>ds_plic := ?q2\<lparr>pd_ie := (pd_ie (ds_plic d))(0 := ?e)\<rparr>\<rparr>"
    using assms
    by (simp add: plic_op_enable_def PLIC_NUM_TARGETS_def PLIC_NUM_SOURCES_def PLIC_CTX_M0_def IRQn_DEFAULT_SLAVE_def ds_plic_rd ds_plic_wr
        in_plic_regs rd_enable wr_enable ds_sample_quiet unat_and_31)
  have "bit ?e 2" by (simp add: bit_simps)
  then have "wired 2 False (?q2\<lparr>pd_ie := (pd_ie (ds_plic d))(0 := ?e)\<rparr>)" using assms by (simp add: wired_def)
  then show ?thesis unfolding 1 2 3 by blast
qed

lemma irq_id_src: "plic_irq_id (p\<lparr>pd_src := v\<rparr>) t = plic_irq_id p t"
proof -
  have "plic_pick (plic_dev.truncate (p\<lparr>pd_src := v\<rparr>)) t = plic_pick (plic_dev.truncate p) t"
    by (auto simp: fun_eq_iff plic_pick_def plic_dev.truncate_def)
  then show ?thesis by (simp add: plic_irq_id_def del: upt_Suc)
qed

text \<open>The line is up: the source is pending, and its handler takes it down.\<close>

definition rung :: "plic_dev \<Rightarrow> plic_dev" where
  "rung q = q\<lparr>pd_src := 4, pd_ip := 4, pd_ia := 4\<rparr>"

lemma rung_pick: "wired 2 False q \<Longrightarrow> plic_irq_id (rung q) 0 = 2"
proof -
  assume "wired 2 False q"
  then have "wired 2 True ((rung q)\<lparr>pd_src := 0\<rparr>)" by (simp add: wired_def rung_def irq_bit_exp)
  then show ?thesis using wired_pick irq_id_src by metis
qed

lemma ds_serve:
  assumes "wired 2 False q" and "ds_plic (ap_dev s) = rung q" and "ds_line (ap_dev s)"
    and "p_regs p = PLIC_BASE" and "p_bound p" and "fst (p_table p 2) = Isr Default_slave_isr"
  shows "\<exists>d. ip_serve (ds_port ms sp p) s = Some (s\<lparr>ap_dev := d, ap_out := ap_out s @ str ''exit default_slave_isr\<newline>''\<rparr>) \<and>
    wired 2 False (ds_plic d) \<and> \<not> ds_line d \<and> ds_hit d = 2"
proof -
  obtain arg where e: "p_table p 2 = (Isr Default_slave_isr, arg)" using assms(6) by (cases "p_table p 2") auto
  let ?d = "ap_dev s"
  let ?d1 = "?d\<lparr>ds_plic := (rung q)\<lparr>pd_ip := 0\<rparr>\<rparr>"
  have c: "rd32 (app_bus ds_bus) (claim_reg PLIC_BASE 0) s = (2, s\<lparr>ap_dev := ?d1\<rparr>)"
    using assms(2,3) rung_pick [OF assms(1)]
    by (simp add: app_rd32 ds_plic_rd in_plic_claim dev_simps ds_sample_def plic_sample_def rung_def irq_bit_exp)
  obtain w where "wr32 ds_bus (DEFAULT_SLAVE_BASE + DEFAULT_SLAVE_IRQ_ACK_OFF) 1 ?d1 = ds_sample (?d1\<lparr>ds_words := w, ds_line := False\<rparr>)"
    using ring(2) by blast
  then have a: "wr32 ds_bus (DEFAULT_SLAVE_BASE + DEFAULT_SLAVE_IRQ_ACK_OFF) 1 ?d1 =
      ?d1\<lparr>ds_words := w, ds_line := False, ds_plic := q\<lparr>pd_src := 0, pd_ip := 0, pd_ia := 4\<rparr>\<rparr>"
    by (simp add: ds_sample_def plic_sample_def rung_def)
  let ?d2 = "?d\<lparr>ds_words := w, ds_line := False, ds_plic := q\<lparr>pd_src := 0, pd_ip := 0, pd_ia := 4\<rparr>, ds_hit := 2\<rparr>"
  let ?d3 = "?d2\<lparr>ds_plic := q\<lparr>pd_src := 0, pd_ip := 0, pd_ia := 0\<rparr>\<rparr>"
  have i: "default_slave_isr ms 2 arg (s\<lparr>ap_dev := ?d1\<rparr>) = Some (s\<lparr>ap_dev := ?d2, ap_out := ap_out s @ str ''exit default_slave_isr\<newline>''\<rparr>)"
    using a by (simp add: default_slave_isr_def on_dev_def say_plain Let_def del: str_Cons)
  have f: "wr32 (app_bus ds_bus) (claim_reg PLIC_BASE 0) 2 (s\<lparr>ap_dev := ?d2, ap_out := t\<rparr>) = s\<lparr>ap_dev := ?d3, ap_out := t\<rparr>" for t
    by (simp add: app_wr32 ds_plic_wr in_plic_claim dev_simps ds_sample_def plic_sample_def irq_bit_exp)
  have "ip_serve (ds_port ms sp p) s = Some (s\<lparr>ap_dev := ?d3, ap_out := ap_out s @ str ''exit default_slave_isr\<newline>''\<rparr>)"
    using assms(4,5) e c i f
    by (simp add: ds_port_def plic_handle_m_ext_irq_def plic_op_handle_m_ext_def plic_op_claim_M0 plic_op_complete_M0 PLIC_NUM_SOURCES_def del: str_Cons)
  moreover have "wired 2 False (ds_plic ?d3)" using assms(1) by (simp add: wired_def)
  moreover have "\<not> ds_line ?d3" "ds_hit ?d3 = 2" by simp_all
  ultimately show ?thesis by blast
qed

section \<open>The run\<close>

lemma ds_out_free: "out_free (ds_port ms sp p)"
  by (simp add: out_free_def ds_port_def)

lemma ds_calm: "wired 2 False (ds_plic (ap_dev s)) \<Longrightarrow> calm (ds_port ms sp p) mie s"
  by (simp add: calm_def ds_port_def wired_pick)

lemma ds_two: "conv_int_text 100 0 0 0 2 = [50]"
  by code_simp

lemma ds_texts:
  "text_of ms ''=== default_slave IRQ demo ===\<newline>'' [] = Some (str ''=== default_slave IRQ demo ===\<newline>'')"
  "text_of ms ''arming default_slave doorbell...\<newline>'' [] = Some (str ''arming default_slave doorbell...\<newline>'')"
  by (simp_all add: plain_text del: str_Cons)

lemma ds_passed: "text_of ms ''IRQ %d serviced -- PASS\<newline>'' [2] = Some (str ''IRQ 2 serviced -- PASS\<newline>'')"
  by (simp add: text_of_def parse_spec_def parse_width_def parse_precision_def parse_length_def cur_def is_digit_def
      conv_acts_def int_specs_def Let_def ds_two)

definition default_slave_text :: "byte list" where
  "default_slave_text = str ''=== default_slave IRQ demo ===\<newline>'' @ str ''arming default_slave doorbell...\<newline>'' @
     str ''exit default_slave_isr\<newline>'' @ str ''IRQ 2 serviced -- PASS\<newline>''"

text \<open>Started with a bound controller that has nothing pending and the line down, the doorbell test
  always comes to its end: from every state it can reach, the run continues to the same final state,
  in which the program has printed its messages, with that of the handler between the arming and the
  verdict, \<open>irq_hit\<close> is the id of the source, the line is down and the source is out of service.\<close>

lemma default_slave_ends:
  assumes "pd_ip (ds_plic (ap_dev s)) = 0" and "pd_ia (ds_plic (ap_dev s)) = 0" and "\<not> ds_line (ap_dev s)"
    and "p_regs p = PLIC_BASE" and "p_bound p" and "fst (p_table p 2) = Isr Default_slave_isr"
  shows "\<exists>d. runs ms (ds_port ms sp p) \<lparr>q_ops = default_slave_main p, q_mie = False, q_app = s\<rparr>
      \<lparr>q_ops = [], q_mie = True, q_app = s\<lparr>ap_dev := d, ap_out := ap_out s @ default_slave_text\<rparr>\<rparr> \<and>
    ds_hit d = 2 \<and> \<not> ds_line d \<and> wired 2 False (ds_plic d)"
proof -
  let ?I = "ds_port ms sp p" and ?d = "ap_dev s"
  obtain q where q: "plic_op_enable ds_bus p PLIC_CTX_M0 IRQn_DEFAULT_SLAVE (plic_op_set_threshold ds_bus p PLIC_CTX_M0 0
      (plic_op_set_priority ds_bus p IRQn_DEFAULT_SLAVE 1 ?d)) = ?d\<lparr>ds_plic := q\<rparr>" "wired 2 False q"
    using ds_set_up [OF assms(1-4)] by blast
  obtain w where w: "wr32 ds_bus (DEFAULT_SLAVE_BASE + DEFAULT_SLAVE_IRQ_SET_OFF) 1 (?d\<lparr>ds_plic := q\<rparr>) =
      ds_sample (?d\<lparr>ds_plic := q, ds_words := w, ds_line := True\<rparr>)" using ring(1) [of 1 "?d\<lparr>ds_plic := q\<rparr>"] by auto
  define d1 where "d1 = ?d\<lparr>ds_plic := rung q, ds_words := w, ds_line := True\<rparr>"
  have "pd_ip q = 0" "pd_ia q = 0" using q(2) by (simp_all add: wired_def)
  then have d1: "wr32 ds_bus (DEFAULT_SLAVE_BASE + DEFAULT_SLAVE_IRQ_SET_OFF) 1 (?d\<lparr>ds_plic := q\<rparr>) = d1"
    using w by (simp add: d1_def ds_sample_def plic_sample_def rung_def irq_bit_exp)
  define t1 where "t1 = str ''=== default_slave IRQ demo ===\<newline>''"
  define t2 where "t2 = str ''arming default_slave doorbell...\<newline>''"
  define t3 where "t3 = str ''exit default_slave_isr\<newline>''"
  define t4 where "t4 = str ''IRQ 2 serviced -- PASS\<newline>''"
  have cf: "calm ?I False a" for a by (simp add: calm_def)
  define sq where "sq = s\<lparr>ap_dev := ?d\<lparr>ds_plic := q\<rparr>, ap_out := ap_out s @ t1\<rparr>"
  define s1 where "s1 = s\<lparr>ap_dev := d1, ap_out := ap_out s @ t1 @ t2\<rparr>"
  have s1: "ds_plic (ap_dev s1) = rung q" "ds_line (ap_dev s1)" by (simp_all add: s1_def d1_def)
  obtain d2 where d2: "ip_serve ?I s1 = Some (s1\<lparr>ap_dev := d2, ap_out := ap_out s1 @ t3\<rparr>)" "wired 2 False (ds_plic d2)"
    "\<not> ds_line d2" "ds_hit d2 = 2" using ds_serve [OF q(2) s1 assms(4-6)] unfolding t3_def by blast
  define s2 where "s2 = s1\<lparr>ap_dev := d2, ap_out := ap_out s1 @ t3\<rparr>"
  have cq: "calm ?I True sq" "calm ?I True (sq\<lparr>ap_out := t\<rparr>)" for t by (rule ds_calm; simp add: sq_def q(2))+
  have c2: "calm ?I True s2" by (rule ds_calm) (simp add: s2_def d2(2))
  have pend: "ip_pending ?I s1" using rung_pick [OF q(2)] s1(1) by (simp add: ds_port_def)
  define b where "b = on_dev (wr32 ds_bus (DEFAULT_SLAVE_BASE + DEFAULT_SLAVE_IRQ_SET_OFF) 1)"
  have b: "b (sq\<lparr>ap_out := ap_out sq @ t2\<rparr>) = s1" using d1 by (simp add: b_def sq_def s1_def on_dev_def)
  define fs where "fs = [on_dev (plic_op_set_priority ds_bus p IRQn_DEFAULT_SLAVE 1),
      on_dev (plic_op_set_threshold ds_bus p PLIC_CTX_M0 0), on_dev (plic_op_enable ds_bus p PLIC_CTX_M0 IRQn_DEFAULT_SLAVE)]"
  have fs: "fold (\<lambda>f. f) fs (s\<lparr>ap_out := ap_out s @ t1\<rparr>) = sq"
    unfolding fs_def sq_def using q(1) by (cases s) (simp add: on_dev_def)
  define v where "v = Print ''IRQ %d serviced -- PASS\<newline>'' (\<lambda>s :: ds_dev app. ([scast (ds_hit (ap_dev s))], s))"
  define a where "a = Print ''arming default_slave doorbell...\<newline>'' (Pair [] :: ds_dev app \<Rightarrow> u64 list \<times> ds_dev app)"
  let ?w = "Spin (\<lambda>s :: ds_dev app. ds_hit (ap_dev s))"
  have main: "default_slave_main p = Print ''=== default_slave IRQ demo ===\<newline>'' (Pair []) # map Access fs @ Enable # a # Access b # ?w # [v]"
    by (simp add: default_slave_main_def fs_def a_def b_def v_def)
  have "runs ms ?I \<lparr>q_ops = default_slave_main p, q_mie = False, q_app = s\<rparr>
      \<lparr>q_ops = map Access fs @ Enable # a # Access b # ?w # [v], q_mie = False, q_app = s\<lparr>ap_out := ap_out s @ t1\<rparr>\<rparr>"
    unfolding main t1_def by (rule run_print [OF ds_out_free cf _ ds_texts(1) cf]) simp
  also have "runs ms ?I \<dots> \<lparr>q_ops = Enable # a # Access b # ?w # [v], q_mie = False, q_app = sq\<rparr>"
    unfolding fs [symmetric] by (rule run_accesses)
  also have "runs ms ?I \<dots> \<lparr>q_ops = a # Access b # ?w # [v], q_mie = True, q_app = sq\<rparr>" by (rule run_enable)
  also have "runs ms ?I \<dots> \<lparr>q_ops = Access b # ?w # [v], q_mie = True, q_app = sq\<lparr>ap_out := ap_out sq @ t2\<rparr>\<rparr>"
    unfolding a_def t2_def by (rule run_print [OF ds_out_free cq(1) _ ds_texts(2) cq(1)]) simp
  also have "runs ms ?I \<dots> \<lparr>q_ops = ?w # [v], q_mie = True, q_app = s1\<rparr>"
    unfolding b [symmetric] by (rule run_access [OF cq(2)])
  also have "runs ms ?I \<dots> \<lparr>q_ops = ?w # [v], q_mie = True, q_app = s2\<rparr>"
    unfolding s2_def by (rule run_irq [OF pend d2(1)]) simp
  also have "runs ms ?I \<dots> \<lparr>q_ops = [v], q_mie = True, q_app = s2\<rparr>"
    by (rule run_spin [OF c2]) (simp add: s2_def d2(4))
  also have "runs ms ?I \<dots> \<lparr>q_ops = [], q_mie = True, q_app = s2\<lparr>ap_out := ap_out s2 @ t4\<rparr>\<rparr>"
    unfolding v_def t4_def by (rule run_print [OF ds_out_free c2 _ ds_passed c2]) (simp add: s2_def d2(4))
  also have "s2\<lparr>ap_out := ap_out s2 @ t4\<rparr> = s\<lparr>ap_dev := d2, ap_out := ap_out s @ default_slave_text\<rparr>"
    unfolding default_slave_text_def t1_def [symmetric] t2_def [symmetric] t3_def [symmetric] t4_def [symmetric]
    by (simp add: s2_def s1_def)
  finally show ?thesis using d2(2-4) by blast
qed


definition demo_ds :: "ds_dev app" where
  "demo_ds = \<lparr>ap_dev = \<lparr>ds_plic = so_plic (ap_dev demo_soc), ds_line = False, ds_words = (\<lambda>_. 0), ds_hit = 0\<rparr>, ap_out = []\<rparr>"

definition demo_ds_plic0 :: "ds_handler plic" where
  "demo_ds_plic0 = \<lparr>p_regs = PLIC_BASE, p_table = (\<lambda>_. (Default_isr, 0)), p_bound = True\<rparr>"


end
