(* ===== verification/Clint_Test.thy ===== *)
theory Clint_Test
  imports Irq_Prog Clint
begin

text \<open>
  The test \<open>software/app/clint_test\<close> on the CLINT of theory Clint: the timer and the software interrupt
  with their callbacks, the real-time clock advancing at any time. The software interrupt has priority
  over the timer interrupt, as the privileged specification has it.
\<close>

section \<open>The program\<close>

definition TIMER_CYCLES :: u64 where [c_const]: "TIMER_CYCLES = 1000"

text \<open>The device with the variables \<open>timer_hit\<close> and \<open>ipi_hit\<close>.\<close>

record ct_dev = clint_dev +
  timer_hit :: u32
  ipi_hit :: u32

datatype ct_handler = On_timer | On_ipi

definition on_timer :: "(ct_dev \<Rightarrow> nat) \<Rightarrow> mem \<Rightarrow> ct_handler clint \<Rightarrow> addr \<Rightarrow> ct_dev app \<Rightarrow> ct_dev app option" where
  "on_timer rtc ms c arg s =
     (let s = on_dev (clint_op_set_mtimecmp (clint_bus rtc) c 0 (- 1)) s;
          s = on_dev (\<lambda>d. d\<lparr>timer_hit := 1\<rparr>) s;
          (now, s) = from_dev (clint_op_get_mtime (clint_bus rtc) c) s
      in say ms ''on_timer fired, mtime=%lu\<newline>'' [now] s)"

definition on_ipi :: "mem \<Rightarrow> addr \<Rightarrow> ct_dev app \<Rightarrow> ct_dev app option" where
  "on_ipi ms arg s =
     (let s = on_dev (\<lambda>d. d\<lparr>ipi_hit := 1\<rparr>) s
      in say ms ''on_ipi fired\<newline>'' [] s)"

fun run_ct :: "(ct_dev \<Rightarrow> nat) \<Rightarrow> mem \<Rightarrow> ct_handler clint \<Rightarrow> ct_handler \<Rightarrow> addr \<Rightarrow> ct_dev app \<Rightarrow> ct_dev app option" where
  "run_ct rtc ms c On_timer arg s = on_timer rtc ms c arg s"
| "run_ct rtc ms c On_ipi arg s = on_ipi ms arg s"

text \<open>\<open>clint0\<close> after the two registrations.\<close>

definition clint_test_table :: "ct_handler clint \<Rightarrow> ct_handler clint" where
  "clint_test_table c =
     (let c = clint_op_register_timer_cb c (Some On_timer) 0
      in clint_op_register_ipi_cb c (Some On_ipi) 0)"

text \<open>\<open>main\<close> up to the two \<open>csrs\<close>, to the end of the timer part, and the rest.\<close>

definition clint_test_timer :: "(ct_dev \<Rightarrow> nat) \<Rightarrow> ct_handler clint \<Rightarrow> ct_dev stmt list" where
  "clint_test_timer rtc c =
     [Print ''arming mtimer (now=%lu, +%lu cycles)...\<newline>''
        (\<lambda>s. let (now, s) = from_dev (clint_op_get_mtime (clint_bus rtc) c) s in ([now, TIMER_CYCLES], s)),
      Access (on_dev (clint_op_schedule_after (clint_bus rtc) c 0 TIMER_CYCLES)),
      Spin (\<lambda>s. timer_hit (ap_dev s)),
      Print ''timer IRQ serviced -- PASS\<newline>'' (Pair [])]"

definition clint_test_ipi :: "(ct_dev \<Rightarrow> nat) \<Rightarrow> ct_handler clint \<Rightarrow> ct_dev stmt list" where
  "clint_test_ipi rtc c =
     [Print ''raising MSIP to hart 0...\<newline>'' (Pair []),
      Access (on_dev (clint_op_send_ipi (clint_bus rtc) c 0)),
      Spin (\<lambda>s. ipi_hit (ap_dev s)),
      Print ''IPI serviced -- PASS\<newline>'' (Pair [])]"

definition clint_test_main :: "(ct_dev \<Rightarrow> nat) \<Rightarrow> ct_handler clint \<Rightarrow> ct_dev stmt list" where
  "clint_test_main rtc c =
     Print ''=== CLINT timer + IPI demo ===\<newline>'' (Pair []) # Enable # clint_test_timer rtc c @ clint_test_ipi rtc c"

text \<open>The interrupts of the hart; an edge of the clock can come at any time.\<close>

definition ct_port :: "(ct_dev \<Rightarrow> nat) \<Rightarrow> mem \<Rightarrow> (ct_dev app \<Rightarrow> ct_dev app option) \<Rightarrow> ct_handler clint \<Rightarrow> ct_dev app irq_port" where
  "ct_port rtc ms unhandled c =
     \<lparr>ip_pending = (\<lambda>s. cd_msip (ap_dev s) \<or> timer_irq (ap_dev s)),
      ip_serve = (\<lambda>s. if cd_msip (ap_dev s) then clint_handle_m_sw_irq (app_bus (clint_bus rtc)) (run_ct rtc ms c) unhandled c s
        else clint_handle_m_timer_irq (run_ct rtc ms c) unhandled c s),
      ip_flag = (\<lambda>s. scast (timer_hit (ap_dev s))),
      ip_event = (\<lambda>s. Some (on_dev (clint_tick 1) s))\<rparr>"

definition ready :: "ct_handler clint \<Rightarrow> bool" where
  "ready c \<longleftrightarrow> c_regs c = CLINT_BASE \<and> fst (c_timer c) = Cb On_timer \<and> fst (c_ipi c) = Cb On_ipi"

section \<open>The interrupts\<close>

lemma text_said: "text_of ms f va \<noteq> None \<Longrightarrow> text_of ms f va = Some (said ms f va)"
  by (auto simp: said_def)

lemma ct_texts:
  "text_of ms ''on_timer fired, mtime=%lu\<newline>'' [a] \<noteq> None"
  "text_of ms ''arming mtimer (now=%lu, +%lu cycles)...\<newline>'' [a, b] \<noteq> None"
  by (simp_all add: text_of_def parse_spec_def parse_width_def parse_precision_def parse_length_def cur_def is_digit_def
      conv_acts_def int_specs_def Let_def split: prod.splits)

text \<open>The timer interrupt puts the comparator out of reach, the software interrupt clears its bit.\<close>

lemma serve_timer:
  assumes "ready c" and "\<not> cd_msip (ap_dev s)"
  shows "\<exists>d. ip_serve (ct_port rtc ms un c) s =
      Some (s\<lparr>ap_dev := d, ap_out := ap_out s @ said ms ''on_timer fired, mtime=%lu\<newline>'' [cd_mtime d]\<rparr>) \<and>
    timer_hit d = 1 \<and> cd_mtimecmp d = - 1 \<and> cd_msip d = cd_msip (ap_dev s) \<and> ipi_hit d = ipi_hit (ap_dev s) \<and>
    (\<exists>n. cd_mtime d = cd_mtime (ap_dev s) + of_nat n \<and> (rtc = (\<lambda>_. 0) \<longrightarrow> n = 0))"
proof -
  obtain arg where e: "c_timer c = (Cb On_timer, arg)" using assms(1) by (cases "c_timer c") (auto simp: ready_def)
  let ?d1 = "(clint_tick (rtc (ap_dev s)) (ap_dev s))\<lparr>cd_mtimecmp := - 1, timer_hit := 1\<rparr>"
  let ?d2 = "clint_tick (rtc ?d1) ?d1"
  have "ip_serve (ct_port rtc ms un c) s = on_timer rtc ms c arg s"
    using assms(2) e by (simp add: ct_port_def clint_handle_m_timer_irq_def)
  also have "\<dots> = say ms ''on_timer fired, mtime=%lu\<newline>'' [cd_mtime ?d1 + of_nat (rtc ?d1)] (s\<lparr>ap_dev := ?d2\<rparr>)"
    using assms(1) by (simp add: on_timer_def on_dev_def from_dev_def clint_op_set_mtimecmp_def CLINT_NUM_HARTS_def clint_op_get_mtime_def
        ready_def dev_simps)
  finally have v: "ip_serve (ct_port rtc ms un c) s = Some (s\<lparr>ap_dev := ?d2, ap_out := ap_out s @
      said ms ''on_timer fired, mtime=%lu\<newline>'' [cd_mtime ?d2]\<rparr>)"
    by (simp only: say_said [OF ct_texts(1)]) (simp add: clint_tick_def)
  have "cd_mtime ?d2 = cd_mtime (ap_dev s) + of_nat (rtc (ap_dev s) + rtc ?d1)" by (simp add: clint_tick_def)
  then have "\<exists>n. cd_mtime ?d2 = cd_mtime (ap_dev s) + of_nat n \<and> (rtc = (\<lambda>_. 0) \<longrightarrow> n = 0)"
    by (intro exI [of _ "rtc (ap_dev s) + rtc ?d1"]) auto
  moreover have "timer_hit ?d2 = 1" "cd_mtimecmp ?d2 = - 1" "cd_msip ?d2 = cd_msip (ap_dev s)" "ipi_hit ?d2 = ipi_hit (ap_dev s)"
    by (simp_all add: clint_tick_def)
  ultimately show ?thesis using v by blast
qed

lemma serve_ipi:
  assumes "ready c" and "cd_msip (ap_dev s)"
  shows "ip_serve (ct_port rtc ms un c) s =
    Some (s\<lparr>ap_dev := (clint_tick (rtc (ap_dev s)) (ap_dev s))\<lparr>cd_msip := False, ipi_hit := 1\<rparr>, ap_out := ap_out s @ str ''on_ipi fired\<newline>''\<rparr>)"
proof -
  obtain arg where e: "c_ipi c = (Cb On_ipi, arg)" using assms(1) by (cases "c_ipi c") (auto simp: ready_def)
  then show ?thesis using assms
    by (simp add: ct_port_def clint_handle_m_sw_irq_def ready_def app_wr32 dev_simps on_ipi_def on_dev_def say_plain Let_def del: str_Cons)
qed

section \<open>The timer interrupt comes first\<close>

text \<open>A statement that leaves \<open>timer_hit\<close> alone.\<close>

definition keeps_hit :: "mem \<Rightarrow> ct_dev stmt \<Rightarrow> bool" where
  "keeps_hit ms x \<longleftrightarrow> (\<forall>s s'. stmt_step ms x s = Some s' \<longrightarrow>
     timer_hit (ap_dev (q_app s')) = timer_hit (ap_dev (q_app s)) \<and> (q_mie s \<longrightarrow> q_mie s') \<and>
     set (q_ops s') \<subseteq> insert x (set (q_ops s) \<union> range Emit))"

lemma keeps_hit_basic: "keeps_hit ms (Emit b)" "keeps_hit ms (Spin g)" "keeps_hit ms (Print f (Pair va))" "keeps_hit ms Enable"
  by (auto simp: keeps_hit_def)

lemma keeps_hit_rest:
  assumes "x \<in> set (clint_test_timer rtc c @ clint_test_ipi rtc c)"
  shows "keeps_hit ms x"
proof -
  have "keeps_hit ms (Print f (\<lambda>s. let (now, s) = from_dev (clint_op_get_mtime (clint_bus rtc) c) s in ([now, TIMER_CYCLES], s)))" for f
    by (auto simp: keeps_hit_def from_dev_def clint_op_get_mtime_def rd64_def clint_bus_def clint_tick_def Let_def split: if_splits)
  moreover have "keeps_hit ms (Access (on_dev (clint_op_schedule_after (clint_bus rtc) c 0 TIMER_CYCLES)))"
    by (auto simp: keeps_hit_def on_dev_def clint_op_schedule_after_def rd64_def wr64_def clint_bus_def clint_reg_wr_def clint_tick_def Let_def)
  moreover have "keeps_hit ms (Access (on_dev (clint_op_send_ipi (clint_bus rtc) c 0)))"
    by (auto simp: keeps_hit_def on_dev_def clint_op_send_ipi_def wr32_def clint_bus_def clint_reg_wr_def clint_tick_def Let_def)
  ultimately show ?thesis using assms keeps_hit_basic by (auto simp: clint_test_timer_def clint_test_ipi_def)
qed

text \<open>Before interrupts are enabled the comparator is untouched; afterwards the program is still at its
  first access, with the line up, or \<open>timer_hit\<close> is set for good.\<close>

definition ct_inv :: "mem \<Rightarrow> (ct_dev \<Rightarrow> nat) \<Rightarrow> ct_handler clint \<Rightarrow> ct_dev irq_prog \<Rightarrow> bool" where
  "ct_inv ms rtc c s \<longleftrightarrow>
     (let rest = clint_test_timer rtc c @ clint_test_ipi rtc c; d = ap_dev (q_app s)
      in if q_mie s then timer_hit d \<noteq> 0 \<and> (\<forall>x \<in> set (q_ops s). keeps_hit ms x) \<or> cd_mtimecmp d = 0 \<and> q_ops s = rest
         else cd_mtimecmp d = 0 \<and> (q_ops s = clint_test_main rtc c \<or> (\<exists>t. q_ops s = map Emit t @ Enable # rest)))"

lemma ct_serve_cases:
  assumes "ready c" and "ip_pending (ct_port rtc ms un c) a" and "ip_serve (ct_port rtc ms un c) a = Some b"
  shows "timer_hit (ap_dev b) = 1 \<or> timer_hit (ap_dev b) = timer_hit (ap_dev a) \<and> cd_mtimecmp (ap_dev b) = cd_mtimecmp (ap_dev a)"
proof (cases "cd_msip (ap_dev a)")
  case True
  then show ?thesis using assms(3) serve_ipi [OF assms(1) True, of rtc ms un] by (auto simp: clint_tick_def)
next
  case False
  then show ?thesis using assms(3) serve_timer [OF assms(1) False, of rtc ms un] by auto
qed

lemma ct_inv_stmt:
  assumes "ct_inv ms rtc c s" and "q_ops s = x # xs" and "\<not> (q_mie s \<and> ip_pending (ct_port rtc ms un c) (q_app s))"
    and "stmt_step ms x (s\<lparr>q_ops := xs\<rparr>) = Some s'"
  shows "ct_inv ms rtc c s'"
proof (cases "q_mie s")
  case True
  then have "\<not> timer_irq (ap_dev (q_app s))" using assms(3) by (simp add: ct_port_def)
  then have h: "timer_hit (ap_dev (q_app s)) \<noteq> 0" "\<forall>y \<in> set (q_ops s). keeps_hit ms y"
    using assms(1) True by (auto simp: ct_inv_def Let_def timer_irq_def)
  then have "keeps_hit ms x" using assms(2) by simp
  then have "timer_hit (ap_dev (q_app s')) = timer_hit (ap_dev (q_app s))" "q_mie s'" "set (q_ops s') \<subseteq> insert x (set xs \<union> range Emit)"
    using assms(4) True unfolding keeps_hit_def by force+
  then show ?thesis using h assms(2) keeps_hit_basic(1) by (auto simp: ct_inv_def Let_def)
next
  case False
  then have z: "cd_mtimecmp (ap_dev (q_app s)) = 0" and o: "q_ops s = clint_test_main rtc c \<or>
      (\<exists>t. q_ops s = map Emit t @ Enable # clint_test_timer rtc c @ clint_test_ipi rtc c)"
    using assms(1) by (simp_all add: ct_inv_def Let_def)
  from o show ?thesis
  proof
    assume "q_ops s = clint_test_main rtc c"
    then show ?thesis using assms(2,4) False z by (auto simp: ct_inv_def clint_test_main_def Let_def simp del: str_Cons)
  next
    assume "\<exists>t. q_ops s = map Emit t @ Enable # clint_test_timer rtc c @ clint_test_ipi rtc c"
    then obtain t where t: "q_ops s = map Emit t @ Enable # clint_test_timer rtc c @ clint_test_ipi rtc c" ..
    then show ?thesis using assms(2,4) False z by (cases t) (auto simp: ct_inv_def Let_def)
  qed
qed

lemma ct_inv_step:
  assumes "pstep ms (ct_port rtc ms un c) s s'" and "ready c" and "ct_inv ms rtc c s"
  shows "ct_inv ms rtc c s'"
  using assms(1)
proof cases
  case (Happen a)
  then show ?thesis using assms(3) by (auto simp: ct_inv_def ct_port_def on_dev_def clint_tick_def Let_def)
next
  case (Take a)
  then show ?thesis using assms(3) ct_serve_cases [OF assms(2) Take(4,5)] keeps_hit_rest by (auto simp: ct_inv_def Let_def)
next
  case (Stmt x xs)
  then show ?thesis using ct_inv_stmt [OF assms(3)] by blast
qed

lemma ct_inv_runs:
  assumes "runs ms (ct_port rtc ms un c) s u" and "ready c" and "ct_inv ms rtc c s"
  shows "ct_inv ms rtc c u"
  using assms(1) by (induction rule: rtranclp_induct) (simp_all add: assms(3) ct_inv_step [OF _ assms(2)])

section \<open>A run in which the scheduled timer stays silent\<close>

lemma ct_out_free: "out_free (ct_port rtc ms un c)"
  by (simp add: out_free_def ct_port_def)

lemma tick_0 [simp]: "clint_tick 0 d = d"
  by (simp add: clint_tick_def)

lemma ct_calm: "\<not> cd_msip (ap_dev a) \<Longrightarrow> cd_mtime (ap_dev a) < cd_mtimecmp (ap_dev a) \<Longrightarrow> calm (ct_port rtc ms un c) mie a"
  by (simp add: calm_def ct_port_def timer_irq_def not_le)

text \<open>The output of the two parts, when the clock stands at \<open>m\<close>.\<close>

definition clint_timer_text :: "mem \<Rightarrow> u64 \<Rightarrow> byte list" where
  "clint_timer_text ms m = str ''=== CLINT timer + IPI demo ===\<newline>'' @ said ms ''on_timer fired, mtime=%lu\<newline>'' [m] @
     said ms ''arming mtimer (now=%lu, +%lu cycles)...\<newline>'' [m, TIMER_CYCLES] @ str ''timer IRQ serviced -- PASS\<newline>''"

definition clint_ipi_text :: "byte list" where
  "clint_ipi_text = str ''raising MSIP to hart 0...\<newline>'' @ str ''on_ipi fired\<newline>'' @ str ''IPI serviced -- PASS\<newline>''"

lemma ct_plain:
  "text_of ms ''=== CLINT timer + IPI demo ===\<newline>'' [] = Some (str ''=== CLINT timer + IPI demo ===\<newline>'')"
  "text_of ms ''timer IRQ serviced -- PASS\<newline>'' [] = Some (str ''timer IRQ serviced -- PASS\<newline>'')"
  "text_of ms ''raising MSIP to hart 0...\<newline>'' [] = Some (str ''raising MSIP to hart 0...\<newline>'')"
  "text_of ms ''IPI serviced -- PASS\<newline>'' [] = Some (str ''IPI serviced -- PASS\<newline>'')"
  by (simp_all add: plain_text del: str_Cons)

lemma clint_test_run_ipi:
  assumes "ready c" and "\<not> cd_msip (ap_dev s)" and "cd_mtime (ap_dev s) < cd_mtimecmp (ap_dev s)"
  shows "runs ms (ct_port (\<lambda>_. 0) ms un c) \<lparr>q_ops = clint_test_ipi (\<lambda>_. 0) c, q_mie = True, q_app = s\<rparr>
      \<lparr>q_ops = [], q_mie = True, q_app = s\<lparr>ap_dev := (ap_dev s)\<lparr>cd_msip := False, ipi_hit := 1\<rparr>, ap_out := ap_out s @ clint_ipi_text\<rparr>\<rparr>"
proof -
  let ?I = "ct_port (\<lambda>_. 0) ms un c"
  define t1 where "t1 = str ''raising MSIP to hart 0...\<newline>''"
  define t2 where "t2 = str ''on_ipi fired\<newline>''"
  define t3 where "t3 = str ''IPI serviced -- PASS\<newline>''"
  define s1 where "s1 = s\<lparr>ap_dev := (ap_dev s)\<lparr>cd_msip := True\<rparr>, ap_out := ap_out s @ t1\<rparr>"
  define s2 where "s2 = s\<lparr>ap_dev := (ap_dev s)\<lparr>cd_msip := False, ipi_hit := 1\<rparr>, ap_out := ap_out s @ t1 @ t2\<rparr>"
  have c: "calm ?I True s" "calm ?I True (s\<lparr>ap_out := t\<rparr>)" "calm ?I True s2" for t
    by (rule ct_calm; use assms(2,3) in \<open>simp add: s2_def\<close>)+
  have m: "cd_msip (ap_dev s1)" by (simp add: s1_def)
  have serve: "ip_serve ?I s1 = Some s2" unfolding serve_ipi [OF assms(1) m] t2_def [symmetric] by (simp add: s1_def s2_def)
  define b where "b = on_dev (clint_op_send_ipi (clint_bus (\<lambda>_. 0)) c 0 :: ct_dev \<Rightarrow> ct_dev)"
  have b: "b (s\<lparr>ap_out := ap_out s @ t1\<rparr>) = s1" using assms(1)
    by (simp add: b_def s1_def on_dev_def clint_op_send_ipi_def CLINT_NUM_HARTS_def ready_def dev_simps)
  let ?k3 = "[Print ''IPI serviced -- PASS\<newline>'' (Pair [] :: ct_dev app \<Rightarrow> u64 list \<times> ct_dev app)]"
  let ?k2 = "Spin (\<lambda>s. ipi_hit (ap_dev s)) # ?k3" and ?st = "\<lambda>ops a. \<lparr>q_ops = ops, q_mie = True, q_app = a\<rparr>"
  have r1: "runs ms ?I (?st (clint_test_ipi (\<lambda>_. 0) c) s) (?st (Access b # ?k2) (s\<lparr>ap_out := ap_out s @ t1\<rparr>))"
    unfolding clint_test_ipi_def b_def t1_def by (rule run_print [OF ct_out_free c(1) _ ct_plain(3) c(1)]) simp
  have r2: "runs ms ?I (?st (Access b # ?k2) (s\<lparr>ap_out := ap_out s @ t1\<rparr>)) (?st ?k2 s1)"
    unfolding b [symmetric] by (rule run_access [OF c(2)])
  have r3: "runs ms ?I (?st ?k2 s1) (?st ?k2 s2)" by (rule run_irq [OF _ serve]) (simp_all add: ct_port_def m)
  have r4: "runs ms ?I (?st ?k2 s2) (?st ?k3 s2)" by (rule run_spin [OF c(3)]) (simp add: s2_def)
  have r5: "runs ms ?I (?st ?k3 s2) (?st [] (s2\<lparr>ap_out := ap_out s2 @ t3\<rparr>))"
    unfolding t3_def by (rule run_print [OF ct_out_free c(3) _ ct_plain(4) c(3)]) simp
  have "s2\<lparr>ap_out := ap_out s2 @ t3\<rparr> = s\<lparr>ap_dev := (ap_dev s)\<lparr>cd_msip := False, ipi_hit := 1\<rparr>, ap_out := ap_out s @ clint_ipi_text\<rparr>"
    unfolding clint_ipi_text_def t1_def [symmetric] t2_def [symmetric] t3_def [symmetric] by (simp add: s2_def)
  with rtranclp_trans [OF r1 rtranclp_trans [OF r2 rtranclp_trans [OF r3 rtranclp_trans [OF r4 r5]]]] show ?thesis by (simp only:)
qed

lemma clint_test_run_timer:
  assumes "ready c" and "\<not> cd_msip (ap_dev s)" and "cd_mtimecmp (ap_dev s) = 0" and "unat (cd_mtime (ap_dev s)) + 1000 < 2 ^ 64"
    and "m = cd_mtime (ap_dev s)"
  shows "\<exists>d. runs ms (ct_port (\<lambda>_. 0) ms un c) \<lparr>q_ops = clint_test_main (\<lambda>_. 0) c, q_mie = False, q_app = s\<rparr>
      \<lparr>q_ops = clint_test_ipi (\<lambda>_. 0) c, q_mie = True, q_app = s\<lparr>ap_dev := d, ap_out := ap_out s @ clint_timer_text ms m\<rparr>\<rparr> \<and>
    cd_mtime d = m \<and> cd_mtimecmp d = m + 1000 \<and> \<not> cd_msip d \<and> timer_hit d = 1"
proof -
  let ?I = "ct_port (\<lambda>_. 0) ms un c"
  have lt: "m < m + 1000" "m < - 1"
    using assms(4,5) by (simp_all add: word_less_nat_alt unat_word_ariths unsigned_minus_1_eq_mask mask_eq_exp_minus_1)
  define t1 where "t1 = str ''=== CLINT timer + IPI demo ===\<newline>''"
  define t2 where "t2 = said ms ''on_timer fired, mtime=%lu\<newline>'' [m]"
  define t3 where "t3 = said ms ''arming mtimer (now=%lu, +%lu cycles)...\<newline>'' [m, TIMER_CYCLES]"
  define t4 where "t4 = str ''timer IRQ serviced -- PASS\<newline>''"
  have cf: "calm ?I False a" for a by (simp add: calm_def)
  define s1 where "s1 = s\<lparr>ap_out := ap_out s @ t1\<rparr>"
  obtain d1 where d: "ip_serve ?I s1 = Some (s1\<lparr>ap_dev := d1, ap_out := ap_out s1 @ said ms ''on_timer fired, mtime=%lu\<newline>'' [cd_mtime d1]\<rparr>)"
    and h: "timer_hit d1 = 1" "cd_mtimecmp d1 = - 1" "cd_msip d1 = cd_msip (ap_dev s1)" "cd_mtime d1 = cd_mtime (ap_dev s1)"
    using serve_timer [OF assms(1), of s1 "\<lambda>_. 0" ms un] assms(2) by (auto simp: s1_def)
  have d1: "timer_hit d1 = 1" "cd_mtimecmp d1 = - 1" "\<not> cd_msip d1" "cd_mtime d1 = m"
    using h assms(2,5) by (simp_all add: s1_def)
  define s2 where "s2 = s1\<lparr>ap_dev := d1, ap_out := ap_out s1 @ t2\<rparr>"
  have serve: "ip_serve ?I s1 = Some s2" using d by (simp only: d1(4) s2_def t2_def)
  have pend: "ip_pending ?I s1" using assms(3) by (simp add: ct_port_def timer_irq_def s1_def)
  define s3 where "s3 = s\<lparr>ap_dev := d1\<lparr>cd_mtimecmp := m + 1000\<rparr>, ap_out := ap_out s @ t1 @ t2 @ t3\<rparr>"
  have c: "calm ?I True s2" "calm ?I True (s2\<lparr>ap_out := t\<rparr>)" "calm ?I True s3" for t
    by (rule ct_calm; simp add: s2_def s3_def d1 lt)+
  define arm where "arm = Print ''arming mtimer (now=%lu, +%lu cycles)...\<newline>''
        (\<lambda>s :: ct_dev app. let (now, s) = from_dev (clint_op_get_mtime (clint_bus (\<lambda>_. 0)) c) s in ([now, TIMER_CYCLES], s))"
  define a where "a = on_dev (clint_op_schedule_after (clint_bus (\<lambda>_. 0)) c 0 TIMER_CYCLES :: ct_dev \<Rightarrow> ct_dev)"
  have a: "a (s2\<lparr>ap_out := ap_out s2 @ t3\<rparr>) = s3" using assms(1)
    by (simp add: a_def s2_def s1_def s3_def on_dev_def clint_op_schedule_after_def CLINT_NUM_HARTS_def ready_def dev_simps TIMER_CYCLES_def d1)
  have t3: "text_of ms ''arming mtimer (now=%lu, +%lu cycles)...\<newline>'' [m, TIMER_CYCLES] = Some t3"
    unfolding t3_def by (rule text_said [OF ct_texts(2)])
  let ?k4 = "clint_test_ipi (\<lambda>_. 0) c" and ?st = "\<lambda>ops mie a. \<lparr>q_ops = ops, q_mie = mie, q_app = a\<rparr>"
  let ?k3 = "Print ''timer IRQ serviced -- PASS\<newline>'' (Pair []) # ?k4"
  let ?k2 = "Spin (\<lambda>s. timer_hit (ap_dev s)) # ?k3"
  let ?k1 = "arm # Access a # ?k2"
  have r1: "runs ms ?I (?st (clint_test_main (\<lambda>_. 0) c) False s) (?st (Enable # ?k1) False s1)"
    unfolding clint_test_main_def clint_test_timer_def append.simps arm_def a_def s1_def t1_def
    by (rule run_print [OF ct_out_free cf _ ct_plain(1) cf]) simp
  have r2: "runs ms ?I (?st (Enable # ?k1) False s1) (?st ?k1 True s1)" by (rule run_enable)
  have r3: "runs ms ?I (?st ?k1 True s1) (?st ?k1 True s2)" by (rule run_irq [OF pend serve]) simp
  have r4: "runs ms ?I (?st ?k1 True s2) (?st (Access a # ?k2) True (s2\<lparr>ap_out := ap_out s2 @ t3\<rparr>))"
    unfolding arm_def by (rule run_print [OF ct_out_free c(1) _ t3 c(1)])
      (use assms(1) in \<open>simp add: from_dev_def clint_op_get_mtime_def ready_def dev_simps s2_def d1\<close>)
  have r5: "runs ms ?I (?st (Access a # ?k2) True (s2\<lparr>ap_out := ap_out s2 @ t3\<rparr>)) (?st ?k2 True s3)"
    unfolding a [symmetric] by (rule run_access [OF c(2)])
  have r6: "runs ms ?I (?st ?k2 True s3) (?st ?k3 True s3)" by (rule run_spin [OF c(3)]) (simp add: s3_def d1)
  have r7: "runs ms ?I (?st ?k3 True s3) (?st ?k4 True (s3\<lparr>ap_out := ap_out s3 @ t4\<rparr>))"
    unfolding t4_def by (rule run_print [OF ct_out_free c(3) _ ct_plain(2) c(3)]) simp
  note run = rtranclp_trans [OF r1 rtranclp_trans [OF r2 rtranclp_trans [OF r3 rtranclp_trans [OF r4
    rtranclp_trans [OF r5 rtranclp_trans [OF r6 r7]]]]]]
  have fin: "s3\<lparr>ap_out := ap_out s3 @ t4\<rparr> = s\<lparr>ap_dev := d1\<lparr>cd_mtimecmp := m + 1000\<rparr>, ap_out := ap_out s @ clint_timer_text ms m\<rparr>"
    unfolding clint_timer_text_def t1_def [symmetric] t2_def [symmetric] t3_def [symmetric] t4_def [symmetric] by (simp add: s3_def)
  show ?thesis using run unfolding fin by (intro exI [of _ "d1\<lparr>cd_mtimecmp := m + 1000\<rparr>"]) (simp add: d1)
qed

section \<open>The theorem\<close>

definition clint_test_start :: "(ct_dev \<Rightarrow> nat) \<Rightarrow> ct_handler clint \<Rightarrow> ct_dev app \<Rightarrow> ct_dev irq_prog" where
  "clint_test_start rtc c s = \<lparr>q_ops = clint_test_main rtc c, q_mie = False, q_app = s\<rparr>"

text \<open>C15. The timer part of the test does not test the scheduled timer. With the comparator at its reset value,
  which \<open>init\<close> leaves, the line is up before the program arms anything, and the callback has set
  \<open>timer_hit\<close> before the first statement behind the enabling: in every reachable state, whatever the
  clock does, the flag is set or no such statement has begun. So the loop never waits: with the
  clock standing still the test prints all of its verdicts, although the time it scheduled never comes.\<close>

theorem clint_test_vacuous:
  assumes "c_regs c = CLINT_BASE" and "cd_mtimecmp (ap_dev s) = 0" and "\<not> cd_msip (ap_dev s)"
    and "unat (cd_mtime (ap_dev s)) + 1000 < 2 ^ 64" and "c' = clint_test_table c"
  shows "(\<forall>rtc u. runs ms (ct_port rtc ms un c') (clint_test_start rtc c' s) u \<and> q_mie u \<longrightarrow>
        timer_hit (ap_dev (q_app u)) \<noteq> 0 \<or> q_ops u = clint_test_timer rtc c' @ clint_test_ipi rtc c') \<and>
      (\<exists>t. runs ms (ct_port (\<lambda>_. 0) ms un c') (clint_test_start (\<lambda>_. 0) c' s) t \<and> q_ops t = [] \<and> q_mie t \<and>
        ap_out (q_app t) = ap_out s @ clint_timer_text ms (cd_mtime (ap_dev s)) @ clint_ipi_text \<and>
        cd_mtime (ap_dev (q_app t)) = cd_mtime (ap_dev s) \<and> \<not> timer_irq (ap_dev (q_app t)))"
proof (intro conjI allI impI)
  have r: "ready c'"
    using assms(1) unfolding assms(5)
    by (simp add: ready_def clint_test_table_def clint_op_register_timer_cb_def clint_op_register_ipi_cb_def)
  have "ct_inv ms rtc c' (clint_test_start rtc c' s)" for rtc
    using assms(2) by (simp add: ct_inv_def clint_test_start_def)
  then show "timer_hit (ap_dev (q_app u)) \<noteq> 0 \<or> q_ops u = clint_test_timer rtc c' @ clint_test_ipi rtc c'"
    if "runs ms (ct_port rtc ms un c') (clint_test_start rtc c' s) u \<and> q_mie u" for rtc u
    using ct_inv_runs [OF _ r] that by (fastforce simp: ct_inv_def Let_def)
  let ?I = "ct_port (\<lambda>_. 0) ms un c'" and ?m = "cd_mtime (ap_dev s)"
  obtain d where t: "runs ms ?I (clint_test_start (\<lambda>_. 0) c' s)
      \<lparr>q_ops = clint_test_ipi (\<lambda>_. 0) c', q_mie = True, q_app = s\<lparr>ap_dev := d, ap_out := ap_out s @ clint_timer_text ms ?m\<rparr>\<rparr>"
    and d: "cd_mtime d = ?m" "cd_mtimecmp d = ?m + 1000" "\<not> cd_msip d"
    using clint_test_run_timer [OF r assms(3,2,4) refl] unfolding clint_test_start_def by blast
  have l: "?m < ?m + 1000" using assms(4) by (simp add: word_less_nat_alt unat_word_ariths)
  let ?s = "s\<lparr>ap_dev := d, ap_out := ap_out s @ clint_timer_text ms ?m\<rparr>"
  have "\<not> cd_msip (ap_dev ?s)" "cd_mtime (ap_dev ?s) < cd_mtimecmp (ap_dev ?s)" using d l by simp_all
  note fin = rtranclp_trans [OF t clint_test_run_ipi [OF r this]]
  show "\<exists>t. runs ms ?I (clint_test_start (\<lambda>_. 0) c' s) t \<and> q_ops t = [] \<and> q_mie t \<and>
        ap_out (q_app t) = ap_out s @ clint_timer_text ms ?m @ clint_ipi_text \<and>
        cd_mtime (ap_dev (q_app t)) = ?m \<and> \<not> timer_irq (ap_dev (q_app t))"
    by (rule exI, intro conjI, rule fin) (use d l in \<open>simp_all add: timer_irq_def not_le\<close>)
qed

definition demo_ct :: "ct_dev app" where
  "demo_ct = \<lparr>ap_dev = \<lparr>cd_mtime = 0, cd_mtimecmp = 0, cd_msip = False, timer_hit = 0, ipi_hit = 0\<rparr>, ap_out = []\<rparr>"

definition demo_clint0 :: "ct_handler clint" where
  "demo_clint0 = clint_test_table (fst (clint_op_init (clint_bus (\<lambda>_. 0)) CLINT_BASE clint_zero (ap_dev demo_ct)))"

lemma clint_test_vacuous_witness:
  "\<exists>t. runs (\<lambda>_. 0) (ct_port (\<lambda>_. 0) (\<lambda>_. 0) Some demo_clint0) (clint_test_start (\<lambda>_. 0) demo_clint0 demo_ct) t \<and>
    q_ops t = [] \<and> \<not> timer_irq (ap_dev (q_app t)) \<and> timer_hit (ap_dev (q_app t)) \<noteq> 0"
proof -
  let ?c0 = "fst (clint_op_init (clint_bus (\<lambda>_. 0)) CLINT_BASE clint_zero (ap_dev demo_ct)) :: ct_handler clint"
  have a: "c_regs ?c0 = CLINT_BASE" "cd_mtimecmp (ap_dev demo_ct) = 0" "\<not> cd_msip (ap_dev demo_ct)"
    "unat (cd_mtime (ap_dev demo_ct)) + 1000 < 2 ^ 64" by (simp_all add: demo_ct_def clint_op_init_def)
  have "clint_test_timer (\<lambda>_. 0) demo_clint0 \<noteq> []" by (simp add: clint_test_timer_def)
  then show ?thesis using clint_test_vacuous [OF a demo_clint0_def, of "\<lambda>_. 0" Some] by fastforce
qed

end
