(* ===== verification/Bus_View.thy ===== *)
theory Bus_View
  imports Console
begin

text \<open>
  A device behind an address decoder. The locale says when a bus shows one device at the addresses
  of a block, as the bus of that device alone would: what a driver does on the bus is then what it
  does on the device. It is interpreted on the devices of the board in theory Boot.
\<close>

lemma poll_inv:
  assumes "poll step d = Some d'" and "P d" and "\<And>d. P d \<Longrightarrow> P (snd (step d))"
  shows "P d'"
proof -
  have "step = step \<longrightarrow> P d \<longrightarrow> P d'"
    by (rule poll.raw_induct [where P = "\<lambda>step' d d'. step' = step \<longrightarrow> P d \<longrightarrow> P d'", OF _ assms(1)])
       (use assms(3) in \<open>force split: if_splits prod.splits\<close>)
  then show ?thesis using assms(2) by blast
qed

text \<open>A polling loop on the part \<open>view d\<close> of the state and the same loop on all of it.\<close>

lemma poll_sim:
  assumes "poll g (view d) = Some e" and "\<And>d. g (view d) = map_prod id view (f d)"
  shows "\<exists>d'. poll f d = Some d' \<and> view d' = e"
proof -
  let ?P = "\<lambda>step a e. step = g \<longrightarrow> (\<forall>d. view d = a \<longrightarrow> (\<exists>d'. poll f d = Some d' \<and> view d' = e))"
  have "?P g (view d) e"
  proof (rule poll.raw_induct [where P = ?P, OF _ assms(1)], intro impI allI)
    fix rec step a e d
    assume ih: "\<And>step a e. rec step a = Some e \<Longrightarrow> ?P step a e"
      and eq: "(let (again, a') = step a in if again then rec step a' else Some a') = Some e" and s: "step = g" "view d = a"
    obtain b d1 where f: "f d = (b, d1)" by fastforce
    then have g: "step a = (b, view d1)" using assms(2) [of d] s by simp
    show "\<exists>d'. poll f d = Some d' \<and> view d' = e"
    proof (cases b)
      case True
      then have "rec step (view d1) = Some e" using eq g by simp
      with ih [of g "view d1" e] s(1) have "\<exists>d'. poll f d1 = Some d' \<and> view d' = e" by blast
      then show ?thesis using poll_again [of f d d1] f True by simp
    next
      case False
      then show ?thesis using eq g f poll_stop [of f d d1] by auto
    qed
  qed
  then show ?thesis by blast
qed

locale bus_view =
  fixes B :: "'d bus" and C :: "'e bus" and view :: "'d \<Rightarrow> 'e" and own :: "addr \<Rightarrow> bool"
  assumes rd_own: "own a \<Longrightarrow> bus_rd C n a (view d) = map_prod id view (bus_rd B n a d)"
    and wr_own: "own a \<Longrightarrow> view (bus_wr B n a v d) = bus_wr C n a v (view d)"
    and wr_other: "\<not> own a \<Longrightarrow> view (bus_wr B n a v d) = bus_idle C 1 (view d)"
    and idle: "view (bus_idle B k d) = bus_idle C k (view d)"
begin

lemma rd32_view: "own a \<Longrightarrow> rd32 C a (view d) = map_prod id view (rd32 B a d)"
  by (simp add: rd32_def rd_own map_prod_def split_def Let_def)

lemma wr32_view: "own a \<Longrightarrow> view (wr32 B a v d) = wr32 C a v (view d)"
  by (simp add: wr32_def wr_own)

lemma wr64_view: "own a \<Longrightarrow> view (wr64 B a v d) = wr64 C a v (view d)"
  by (simp add: wr64_def wr_own)

text \<open>Accesses to other devices, when the device has nothing to do.\<close>

definition rests :: "('d \<Rightarrow> 'd) \<Rightarrow> bool" where
  "rests f \<longleftrightarrow> (\<forall>d. bus_idle C 1 (view d) = view d \<longrightarrow> view (f d) = view d)"

lemma rests_wr32: "\<not> own a \<Longrightarrow> rests (wr32 B a v)"
  by (simp add: rests_def wr32_def wr_other)

lemma rests_wr64: "\<not> own a \<Longrightarrow> rests (wr64 B a v)"
  by (simp add: rests_def wr64_def wr_other)

lemma rests_comp: "rests f \<Longrightarrow> rests h \<Longrightarrow> rests (\<lambda>d. f (h d))"
  by (simp add: rests_def)

lemma rests_fold: "(\<And>i. i \<in> set is \<Longrightarrow> rests (f i)) \<Longrightarrow> rests (fold f is)"
  by (induction "is") (simp_all add: rests_def)

text \<open>The UART driver.\<close>

lemma thre_view: "own (r + LSR) \<Longrightarrow> thre_step C r (view d) = map_prod id view (thre_step B r d)"
  by (simp add: thre_step_def rd32_view Let_def split_def)

lemma putc_view:
  assumes "uart_putc C u c (view d) = Some e" and "own (u_regs u + LSR)" and "own (u_regs u + RBR_THR_DLL)"
  shows "\<exists>d'. uart_putc B u c d = Some d' \<and> view d' = e"
proof -
  obtain e1 where b: "u_bound u" and p: "poll (thre_step C (u_regs u)) (view d) = Some e1"
    and e: "e = wr32 C (u_regs u + RBR_THR_DLL) (ucast c) e1"
    using assms(1) by (auto simp: uart_putc_def uart_op_putc_def split: if_splits)
  obtain d1 where "poll (thre_step B (u_regs u)) d = Some d1" "view d1 = e1"
    using poll_sim [OF p thre_view [OF assms(2)]] by blast
  then show ?thesis using b e wr32_view [OF assms(3)] by (simp add: uart_putc_def uart_op_putc_def)
qed

lemma fold_view:
  assumes "own (u_regs u + LSR)" and "own (u_regs u + RBR_THR_DLL)"
  shows "fold (\<lambda>c s. Option.bind s (put_char C u c)) cs (Some (view d)) = Some e \<Longrightarrow>
    \<exists>d'. fold (\<lambda>c s. Option.bind s (put_char B u c)) cs (Some d) = Some d' \<and> view d' = e"
proof (induction cs arbitrary: d)
  case (Cons c cs)
  have none: "fold (\<lambda>c s. Option.bind s (put_char C u c)) cs None = None" by (induction cs) simp_all
  then obtain e1 where e1: "put_char C u c (view d) = Some e1"
    using Cons.prems by (cases "put_char C u c (view d)") auto
  then obtain d1 where "put_char B u c d = Some d1" "view d1 = e1"
    using putc_view [OF _ assms] unfolding put_char_def by blast
  then show ?case using Cons e1 by simp
qed simp

lemma printf_view:
  assumes "uart_printf C u m f va (view d) = Some (r, e)" and "own (u_regs u + LSR)" and "own (u_regs u + RBR_THR_DLL)"
  shows "\<exists>d'. uart_printf B u m f va d = Some (r, d') \<and> view d' = e"
proof -
  obtain as where "vsn_acts m f va = Inr as" and r: "r = ucast (play_idx as 0)"
    and "fold (\<lambda>c s. Option.bind s (put_char C u c)) (act_chars as) (Some (view d)) = Some e"
    using assms(1) by (cases "vsn_acts m f va") (auto simp: uart_printf_def printf_chars split: option.splits)
  with fold_view [OF assms(2,3), of "act_chars as" d e] show ?thesis by (auto simp: uart_printf_def printf_chars)
qed

lemma flush_view:
  assumes "uart_op_flush C u (view d) = Some e" and "own (u_regs u + LSR)"
  shows "\<exists>d'. uart_op_flush B u d = Some d' \<and> view d' = e"
proof -
  obtain e1 where p: "poll (thre_step C (u_regs u)) (view d) = Some e1" and e: "e = uart_delay_cycles C (cycles_per_bit u * 12) e1"
    using assms(1) by (auto simp: uart_op_flush_def)
  obtain d1 where "poll (thre_step B (u_regs u)) d = Some d1" "view d1 = e1"
    using poll_sim [OF p thre_view [OF assms(2)]] by blast
  then show ?thesis using e idle by (simp add: uart_op_flush_def uart_delay_cycles_def)
qed

end

end
