(* ===== verification/Boot.thy ===== *)
theory Boot
  imports Bus_View Hook
begin

text \<open>
  A program from its start to its end: the calls of \<open>_start\<close> in \<open>software/sdk/src/crt0.S\<close> around
  \<open>main\<close>, on a board with the four devices that \<open>pre_main\<close> sets up, and \<open>software/app/hello_world\<close>
  as the program. Before the first call \<open>_start\<close> clears the driver objects; what the C library
  runs between \<open>exit\<close> and \<open>_exit\<close> is the parameter \<open>fini\<close>.
\<close>

section \<open>The board\<close>

record board =
  bo_uart :: uart_dev
  bo_plic :: plic_dev
  bo_clint :: clint_dev
  bo_ctrl :: ctrl_dev

definition in_range :: "addr \<Rightarrow> addr \<Rightarrow> addr \<Rightarrow> bool" where
  "in_range base len a \<longleftrightarrow> base \<le> a \<and> a < base + len"

definition in_uart :: "addr \<Rightarrow> bool" where "in_uart = in_range UART_BASE 0x1000"
definition in_ctrl :: "addr \<Rightarrow> bool" where "in_ctrl = in_range SOC_CTRL_BASE 0x1000"
definition at_plic :: "addr \<Rightarrow> bool" where "at_plic = in_range PLIC_BASE 0x3FFFFFF"
definition at_clint :: "addr \<Rightarrow> bool" where "at_clint = in_range CLINT_BASE 0xC0000"

definition board_idle :: "(nat \<Rightarrow> nat) \<Rightarrow> (clint_dev \<Rightarrow> nat) \<Rightarrow> nat \<Rightarrow> board \<Rightarrow> board" where
  "board_idle lat rtc k d =
     \<lparr>bo_uart = bus_idle (uart_bus lat) k (bo_uart d), bo_plic = bus_idle plic_bus k (bo_plic d),
      bo_clint = bus_idle (clint_bus rtc) k (bo_clint d), bo_ctrl = bus_idle ctrl_bus k (bo_ctrl d)\<rparr>"

text \<open>The device at the address answers, time passes for the others.\<close>

definition board_bus :: "(nat \<Rightarrow> nat) \<Rightarrow> (clint_dev \<Rightarrow> nat) \<Rightarrow> board bus" where
  "board_bus lat rtc =
     \<lparr>bus_rd = (\<lambda>n a d. let w = board_idle lat rtc 1 d in
        if in_uart a then let (v, u) = bus_rd (uart_bus lat) n a (bo_uart d) in (v, w\<lparr>bo_uart := u\<rparr>)
        else if at_plic a then let (v, p) = bus_rd plic_bus n a (bo_plic d) in (v, w\<lparr>bo_plic := p\<rparr>)
        else if at_clint a then let (v, c) = bus_rd (clint_bus rtc) n a (bo_clint d) in (v, w\<lparr>bo_clint := c\<rparr>)
        else if in_ctrl a then let (v, c) = bus_rd ctrl_bus n a (bo_ctrl d) in (v, w\<lparr>bo_ctrl := c\<rparr>)
        else (0, w)),
      bus_wr = (\<lambda>n a v d. let w = board_idle lat rtc 1 d in
        if in_uart a then w\<lparr>bo_uart := bus_wr (uart_bus lat) n a v (bo_uart d)\<rparr>
        else if at_plic a then w\<lparr>bo_plic := bus_wr plic_bus n a v (bo_plic d)\<rparr>
        else if at_clint a then w\<lparr>bo_clint := bus_wr (clint_bus rtc) n a v (bo_clint d)\<rparr>
        else if in_ctrl a then w\<lparr>bo_ctrl := bus_wr ctrl_bus n a v (bo_ctrl d)\<rparr>
        else w),
      bus_idle = board_idle lat rtc\<rparr>"

lemma blocks_apart:
  "in_uart a \<Longrightarrow> \<not> at_plic a \<and> \<not> at_clint a \<and> \<not> in_ctrl a" "at_plic a \<Longrightarrow> \<not> at_clint a \<and> \<not> in_ctrl a" "at_clint a \<Longrightarrow> \<not> in_ctrl a"
  by (auto simp: in_uart_def at_plic_def at_clint_def in_ctrl_def in_range_def c_const word_le_nat_alt word_less_nat_alt)

interpretation uart_view: bus_view "board_bus lat rtc" "uart_bus lat" bo_uart in_uart for lat rtc
  by unfold_locales (auto simp: board_bus_def board_idle_def Let_def split_def map_prod_def)

interpretation ctrl_view: bus_view "board_bus lat rtc" ctrl_bus bo_ctrl in_ctrl for lat rtc
  by unfold_locales (auto simp: board_bus_def board_idle_def Let_def split_def map_prod_def dest: blocks_apart)

section \<open>The program\<close>

definition run_program :: "target \<Rightarrow> 'd bus \<Rightarrow> ('d \<Rightarrow> 'd option) \<Rightarrow> (('p, 'c) drivers \<Rightarrow> 'd \<Rightarrow> (u32 \<times> 'd) option) \<Rightarrow>
    u64 \<Rightarrow> 'd \<Rightarrow> 'd option" where
  "run_program T B fini main mstatus d =
     (let (g, mstatus, d) = pre_main T B drivers_zero mstatus d
      in Option.bind (main g d) (\<lambda>(a0, d).
         Option.bind (post_main B g d) (\<lambda>d.
         Option.bind (fini d) (soc_exit B (g_soc_ctrl0 g) a0))))"

definition hello_world_main :: "'d bus \<Rightarrow> mem \<Rightarrow> ('p, 'c) drivers \<Rightarrow> 'd \<Rightarrow> (u32 \<times> 'd) option" where
  "hello_world_main B m g d =
     map_option (\<lambda>(r, d). (0, d)) (uart_printf B (g_uart0 g) m (str ''Ariane says Hello!\<newline>'') [] d)"

section \<open>The transmitter\<close>

text \<open>A transmitter that needs at most \<open>l\<close> accesses for a character.\<close>

lemma wait_tick: "tx_wait d \<le> l \<Longrightarrow> (\<And>n. lat n \<le> l) \<Longrightarrow> tx_wait (uart_tick lat d) \<le> l"
  by (auto simp: uart_tick_def split: list.split)

lemma wait_putc:
  assumes "uart_putc (uart_bus lat) u c d = Some d'" and "u_regs u = UART_BASE" and "tx_wait d \<le> l" and "\<And>n. lat n \<le> l"
  shows "tx_wait d' \<le> l"
proof -
  obtain d1 where p: "poll (thre_step (uart_bus lat) UART_BASE) d = Some d1"
    and e: "d' = wr32 (uart_bus lat) (UART_BASE + RBR_THR_DLL) (ucast c) d1"
    using assms(1,2) by (auto simp: uart_putc_def uart_op_putc_def split: if_splits)
  have "tx_wait d1 \<le> l" by (rule poll_inv [OF p]) (simp_all add: assms(3,4) thre_step_uart wait_tick)
  then have "tx_wait (uart_reg_write 0 v d1) \<le> l" for v by (simp add: uart_reg_write_def)
  then show ?thesis unfolding e using assms(4) by (simp add: dev_simps wait_tick)
qed

lemma wait_printf:
  assumes "uart_printf (uart_bus lat) u m f va d = Some (r, d')" and "u_regs u = UART_BASE" and "tx_wait d \<le> l" and "\<And>n. lat n \<le> l"
  shows "tx_wait d' \<le> l"
proof -
  let ?put = "\<lambda>c s. Option.bind s (put_char (uart_bus lat) u c)"
  have none: "fold ?put cs None = None" for cs by (induction cs) simp_all
  have fold: "tx_wait d \<le> l \<Longrightarrow> fold ?put cs (Some d) = Some d' \<Longrightarrow> tx_wait d' \<le> l" for cs d
  proof (induction cs arbitrary: d)
    case (Cons c cs)
    then obtain d1 where "put_char (uart_bus lat) u c d = Some d1" "fold ?put cs (Some d1) = Some d'"
      by (cases "put_char (uart_bus lat) u c d") (simp_all add: none)
    moreover have "tx_wait d1 \<le> l" if "put_char (uart_bus lat) u c d = Some d1" for d1
      using wait_putc [of lat u c d d1 l] that assms(2,4) Cons.prems(1) by (simp add: put_char_def)
    ultimately show ?case using Cons.IH by blast
  qed simp
  show ?thesis using assms(1) fold [OF assms(3)]
    by (cases "vsn_acts m f va") (auto simp: uart_printf_def printf_chars split: option.splits)
qed

text \<open>Idling with an empty register finishes the character on the way.\<close>

lemma idle_empty:
  "tx_fifo d = [] \<Longrightarrow> (uart_tick lat ^^ k) d = d\<lparr>tx_wait := tx_wait d - k\<rparr>"
proof (induction k)
  case (Suc k)
  then show ?case by (simp add: uart_tick_def)
qed simp

lemma flush_done:
  assumes "tx_ready d" and "u_regs u = UART_BASE" and "tx_wait d \<le> l" and "\<And>n. lat n \<le> l" and "l \<le> unat (cycles_per_bit u * 12)"
  shows "\<exists>d'. uart_op_flush (uart_bus lat) u d = Some d' \<and> tx_out d' = wire d \<and> tx_fifo d' = [] \<and> tx_wait d' = 0"
proof -
  obtain d1 where d1: "poll (thre_step (uart_bus lat) UART_BASE) d = Some d1" "wire d1 = wire d" "tx_fifo d1 = []"
    using wait_thre [OF assms(1)] .
  have "tx_wait d1 \<le> l" by (rule poll_inv [OF d1(1)]) (simp_all add: assms(3,4) thre_step_uart wait_tick)
  then show ?thesis using d1 assms(2,5)
    by (simp add: uart_op_flush_def uart_delay_cycles_def uart_bus_def idle_empty wire_def)
qed

section \<open>From the start to \<open>main\<close>\<close>

definition uart_idle :: "uart_dev \<Rightarrow> bool" where
  "uart_idle u \<longleftrightarrow> tx_ready u \<and> tx_fifo u = [] \<and> tx_wait u = 0"

lemma idle_rests: "uart_idle u \<Longrightarrow> bus_idle (uart_bus lat) 1 u = u"
  by (simp add: uart_idle_def uart_bus_def uart_tick_def)

lemma init_idle:
  "\<exists>u'. snd (uart_op_init (uart_bus lat) UART_BASE clk baud u uart_reset) = u' \<and> uart_idle u' \<and> tx_out u' = [] \<and>
     word_cat (dlm u') (dll u') = uart_divisor clk baud"
proof -
  have rest: "uart_tick lat d = d" if "tx_fifo d = []" "tx_wait d = 0" for d using that by (simp add: uart_tick_def)
  have mode: "(ucast (LCR_8N1 OR LCR_DLAB) :: byte) = 0x83" "(ucast LCR_8N1 :: byte) = 3"
    "(ucast (FCR_RX_RST OR FCR_TX_RST) :: byte) = 6" by (simp_all add: c_const)
  have "uart_idle (snd (uart_op_init (uart_bus lat) UART_BASE clk baud u uart_reset))"
    "tx_out (snd (uart_op_init (uart_bus lat) UART_BASE clk baud u uart_reset)) = []"
    by (simp_all add: uart_op_init_def uart_set_divisor_def dev_simps uart_reg_write_def mode uart_reset_def dlab_def Let_def rest
        uart_idle_def tx_ready_def)
  then show ?thesis using uart_init_device [of lat clk baud u uart_reset] by auto
qed

lemma not_uart: "at_plic a \<or> at_clint a \<or> in_ctrl a \<Longrightarrow> \<not> in_uart a"
  using blocks_apart(1) by blast

lemma plic_at: "k + 4 \<le> 0x202000 \<Longrightarrow> at_plic (PLIC_BASE + of_nat k)"
  by (simp add: at_plic_def in_range_def c_const word_le_nat_alt word_less_nat_alt unat_word_ariths unat_of_nat take_bit_eq_mod)

lemma rests_plic: "uart_view.rests lat (\<lambda>d. snd (plic_op_init (board_bus lat rtc) PLIC_BASE p d))"
proof -
  have w: "uart_view.rests lat (wr32 (board_bus lat rtc) (PLIC_BASE + of_nat k) v)" if "k + 4 \<le> 0x202000" for k v
    by (rule uart_view.rests_wr32, rule not_uart) (simp add: plic_at [OF that])
  have t: "uart_view.rests lat (plic_init_target (board_bus lat rtc) PLIC_BASE t)" if "t < 2" for t
    unfolding plic_init_target_def threshold_reg_def enable_reg_def
    by (rule uart_view.rests_comp, rule w, use that in \<open>simp add: c_const\<close>, rule uart_view.rests_fold, rule w) (use that in \<open>auto simp: c_const\<close>)
  show ?thesis unfolding plic_op_init_def Let_def snd_conv priority_reg_def
    by (rule uart_view.rests_comp, rule uart_view.rests_fold, rule t, simp add: c_const, rule uart_view.rests_fold, rule w) (auto simp: c_const)
qed

lemma rests_clint: "uart_view.rests lat (\<lambda>d. snd (clint_op_init (board_bus lat rtc) CLINT_BASE c d))"
  unfolding clint_op_init_def snd_conv
  by (rule uart_view.rests_fold, rule uart_view.rests_wr32, rule not_uart)
     (auto simp: at_clint_def in_range_def msip_reg_def c_const)

lemma rests_ctrl: "uart_view.rests lat (\<lambda>d. snd (soc_ctrl_op_init (board_bus lat rtc) SOC_CTRL_BASE c d))"
proof -
  have w: "uart_view.rests lat (wr64 (board_bus lat rtc) (SOC_CTRL_BASE + a) v)" if "a < 0x1000" for a v
  proof (rule uart_view.rests_wr64, rule not_uart)
    show "at_plic (SOC_CTRL_BASE + a) \<or> at_clint (SOC_CTRL_BASE + a) \<or> in_ctrl (SOC_CTRL_BASE + a)"
      using that by (auto simp: in_ctrl_def in_range_def c_const word_le_nat_alt word_less_nat_alt unat_word_ariths)
  qed
  show ?thesis unfolding soc_ctrl_op_init_def Let_def snd_conv
    by (rule uart_view.rests_comp; rule w) (simp_all add: c_const)
qed

lemma uart_in:
  "in_uart (UART_BASE + RBR_THR_DLL)" "in_uart (UART_BASE + IER_DLM)" "in_uart (UART_BASE + FCR_IIR)"
  "in_uart (UART_BASE + LCR)" "in_uart (UART_BASE + LSR)"
  by (simp_all add: in_uart_def in_range_def c_const)

text \<open>The UART after \<open>pre_main\<close>.\<close>

lemma boot_uart:
  assumes "pre_main T (board_bus lat rtc) (drivers_zero :: ('p, 'c) drivers) mstatus d = (g, ms', d')" and "bo_uart d = uart_reset"
  shows "uart_idle (bo_uart d') \<and> tx_out (bo_uart d') = [] \<and>
     word_cat (dlm (bo_uart d')) (dll (bo_uart d')) = uart_divisor (SYS_CLK_HZ T) (BAUD_RATE T) \<and>
     u_clk_hz (g_uart0 g) = SYS_CLK_HZ T \<and> u_baud (g_uart0 g) = BAUD_RATE T"
proof -
  let ?B = "board_bus lat rtc" and ?u = "uart_bind uart_zero"
  let ?d1 = "snd (uart_op_init ?B UART_BASE (SYS_CLK_HZ T) (BAUD_RATE T) ?u d)"
  have "bo_uart ?d1 = snd (uart_op_init (uart_bus lat) UART_BASE (SYS_CLK_HZ T) (BAUD_RATE T) ?u uart_reset)"
    using assms(2) by (simp add: uart_op_init_def uart_set_divisor_def Let_def uart_view.wr32_view uart_in)
  moreover obtain u' where u': "snd (uart_op_init (uart_bus lat) UART_BASE (SYS_CLK_HZ T) (BAUD_RATE T) ?u uart_reset) = u'" "uart_idle u'"
    "tx_out u' = []" "word_cat (dlm u') (dll u') = uart_divisor (SYS_CLK_HZ T) (BAUD_RATE T)" using init_idle by blast
  ultimately have "bo_uart ?d1 = u'" by simp
  have "uart_view.rests lat (\<lambda>d. snd (soc_ctrl_op_init ?B SOC_CTRL_BASE (soc_ctrl_bind soc_ctrl_zero)
      (snd (clint_op_init ?B CLINT_BASE (clint_bind clint_zero :: 'c clint) (snd (plic_op_init ?B PLIC_BASE (plic_bind plic_zero :: 'p plic) d))))))"
    by (rule uart_view.rests_comp [OF rests_ctrl uart_view.rests_comp [OF rests_clint rests_plic]])
  then have "bo_uart (snd (snd (pre_main T ?B (drivers_zero :: ('p, 'c) drivers) mstatus d))) = u'"
    using \<open>bo_uart ?d1 = u'\<close> idle_rests [OF u'(2)] unfolding pre_main_state uart_view.rests_def by (simp add: drivers_zero_def)
  then show ?thesis using assms(1) u' by (auto simp: pre_main_def uart_op_init_def uart_bind_def Let_def split_def)
qed

section \<open>From \<open>main\<close> to the end\<close>

text \<open>What \<open>main\<close> finds: bound drivers, a transmitter that is ready and needs at most \<open>l\<close> accesses.\<close>

definition console_ready :: "nat \<Rightarrow> ('p, 'c) drivers \<Rightarrow> byte list \<Rightarrow> board \<Rightarrow> bool" where
  "console_ready l g t d \<longleftrightarrow> u_bound (g_uart0 g) \<and> u_regs (g_uart0 g) = UART_BASE \<and>
     tx_ready (bo_uart d) \<and> wire (bo_uart d) = t \<and> tx_wait (bo_uart d) \<le> l"

text \<open>A program whose \<open>main\<close> returns, with \<open>t\<close> given to the transmitter.\<close>

lemma program_ends:
  fixes main :: "('p, 'c) drivers \<Rightarrow> board \<Rightarrow> (u32 \<times> board) option"
  assumes "bo_uart d = uart_reset" and "fini = Some"
    and lat: "\<And>n. lat n \<le> 10 * 16 * unat (uart_divisor (SYS_CLK_HZ T) (BAUD_RATE T))"
    and main: "\<And>g d. console_ready (10 * 16 * unat (uart_divisor (SYS_CLK_HZ T) (BAUD_RATE T))) g [] d \<Longrightarrow>
      \<exists>d'. main g d = Some (r, d') \<and> console_ready (10 * 16 * unat (uart_divisor (SYS_CLK_HZ T) (BAUD_RATE T))) g t d'"
  shows "\<exists>d'. run_program T (board_bus lat rtc) fini main mstatus d = Some d' \<and>
    tx_out (bo_uart d') = t \<and> tx_fifo (bo_uart d') = [] \<and> tx_wait (bo_uart d') = 0 \<and>
    ct_exit (bo_ctrl d') = push_bit 1 (ucast r) OR 1 \<and> ct_wr_active (bo_ctrl d')"
proof -
  let ?B = "board_bus lat rtc" and ?l = "10 * 16 * unat (uart_divisor (SYS_CLK_HZ T) (BAUD_RATE T))"
  obtain g ms' d1 where p: "pre_main T ?B (drivers_zero :: ('p, 'c) drivers) mstatus d = (g, ms', d1)" by (metis prod_cases3)
  note b = boot_uart [OF p assms(1)] and g = pre_main_drivers [OF p]
  have "console_ready ?l g [] d1" using b g(1) by (simp add: console_ready_def uart_idle_def wire_def)
  then obtain d2 where d2: "main g d1 = Some (r, d2)" "console_ready ?l g t d2" using main by blast
  have "?l \<le> unat (cycles_per_bit (g_uart0 g) * 12)" using b by (cases T) (simp_all add: cycles_per_bit_def uart_divisor_def)
  with d2(2) obtain e where e: "uart_op_flush (uart_bus lat) (g_uart0 g) (bo_uart d2) = Some e" "tx_out e = t" "tx_fifo e = []" "tx_wait e = 0"
    using flush_done [of "bo_uart d2" "g_uart0 g" ?l lat] lat by (auto simp: console_ready_def)
  obtain d3 where d3: "uart_op_flush ?B (g_uart0 g) d2 = Some d3" "bo_uart d3 = e"
    using uart_view.flush_view [OF e(1)] d2(2) uart_in by (auto simp: console_ready_def)
  let ?d = "soc_ctrl_op_exit ?B (g_soc_ctrl0 g) r d3"
  have c: "in_ctrl (SOC_CTRL_BASE + EXIT_OFF)" by (simp add: in_ctrl_def in_range_def c_const)
  have "bo_uart ?d = uart_tick lat e" using d3(2) g(6) not_uart c
    by (simp add: soc_ctrl_op_exit_def wr64_def uart_view.wr_other uart_bus_def)
  moreover have "bo_ctrl ?d = ctrl_reg_wr (SOC_CTRL_BASE + EXIT_OFF) (push_bit 1 (ucast r) OR 1) (bo_ctrl d3)"
    using g(6) c by (simp add: soc_ctrl_op_exit_def ctrl_view.wr64_view dev_simps)
  moreover have "run_program T ?B fini main mstatus d = Some ?d" using p d2 d3(1) g(1,6) assms(2)
    by (simp add: run_program_def post_main_def soc_exit_def)
  ultimately show ?thesis using e by (simp add: uart_tick_def ctrl_reg_wr_def dev_simps)
qed

lemma hello_ready:
  assumes "console_ready l g [] d" and "\<And>n. lat n \<le> l"
  shows "\<exists>d'. hello_world_main (board_bus lat rtc) m g d = Some (0, d') \<and> console_ready l g (str ''Ariane says Hello!\<newline>'') d'"
proof -
  define t where "t = str ''Ariane says Hello!\<newline>''"
  have u: "u_bound (g_uart0 g)" "u_regs (g_uart0 g) = UART_BASE" and d: "tx_ready (bo_uart d)" "wire (bo_uart d) = []" "tx_wait (bo_uart d) \<le> l"
    using assms(1) by (simp_all add: console_ready_def)
  have "text_of m ''Ariane says Hello!\<newline>'' [] = Some t" unfolding t_def by (rule plain_text) simp_all
  from uart_printf_wire [OF this d(1) u, of lat, folded t_def] obtain r e where
    e: "uart_printf (uart_bus lat) (g_uart0 g) m t [] (bo_uart d) = Some (r, e)" "tx_ready e" "wire e = t"
    using d(2) by auto
  obtain d' where "uart_printf (board_bus lat rtc) (g_uart0 g) m t [] d = Some (r, d')" "bo_uart d' = e"
    using uart_view.printf_view [OF e(1)] u(2) uart_in by auto
  moreover have "tx_wait e \<le> l" by (rule wait_printf [OF e(1) u(2) d(3) assms(2)])
  ultimately show ?thesis unfolding hello_world_main_def t_def [symmetric] using e(2,3) u by (simp add: console_ready_def)
qed

section \<open>The theorem\<close>

text \<open>C0. \<open>hello_world\<close> from reset to the end of the simulation, over all the devices that \<open>pre_main\<close>
  sets up: when the transmitter sends a frame of ten bits within ten bit times of the divisor that \<open>pre_main\<close>
  has programmed, the program ends, the text and nothing else has left the UART, with no
  character in its registers or on the way when \<open>exit\<close> is written, and the testbench sees the end with
  status 0.\<close>

theorem hello_world_boots:
  assumes "bo_uart d = uart_reset" and "fini = Some"
    and "\<forall>n. lat n \<le> 10 * 16 * unat (uart_divisor (SYS_CLK_HZ T) (BAUD_RATE T))"
  shows "\<exists>d'. run_program T (board_bus lat rtc) fini
      (hello_world_main (board_bus lat rtc) m :: ('p, 'c) drivers \<Rightarrow> board \<Rightarrow> (u32 \<times> board) option) mstatus d = Some d' \<and>
    tx_out (bo_uart d') = str ''Ariane says Hello!\<newline>'' \<and> tx_fifo (bo_uart d') = [] \<and> tx_wait (bo_uart d') = 0 \<and>
    drop_bit 1 (ct_exit (bo_ctrl d')) = 0 \<and> tb_finish (top_exit_o (bo_ctrl d')) = Some 0"
proof -
  have main: "\<exists>d'. hello_world_main (board_bus lat rtc) m (g :: ('p, 'c) drivers) d = Some (0, d') \<and>
      console_ready (10 * 16 * unat (uart_divisor (SYS_CLK_HZ T) (BAUD_RATE T))) g (str ''Ariane says Hello!\<newline>'') d'"
    if "console_ready (10 * 16 * unat (uart_divisor (SYS_CLK_HZ T) (BAUD_RATE T))) g [] d" for g d
    by (rule hello_ready [OF that]) (use assms(3) in blast)
  obtain d' where "run_program T (board_bus lat rtc) fini
      (hello_world_main (board_bus lat rtc) m :: ('p, 'c) drivers \<Rightarrow> board \<Rightarrow> (u32 \<times> board) option) mstatus d = Some d'"
    "tx_out (bo_uart d') = str ''Ariane says Hello!\<newline>''" "tx_fifo (bo_uart d') = []" "tx_wait (bo_uart d') = 0"
    "ct_exit (bo_ctrl d') = push_bit 1 (ucast (0 :: u32)) OR 1" "ct_wr_active (bo_ctrl d')"
    using program_ends [where lat = lat and rtc = rtc and mstatus = mstatus and T = T and main = "hello_world_main (board_bus lat rtc) m",
      OF assms(1,2) spec [OF assms(3)] main] by blast
  then show ?thesis by (simp add: top_exit_o_def ctrl_exit_o_def tb_finish_def bit_simps del: str_Cons)
qed

definition demo_board :: board where
  "demo_board = \<lparr>bo_uart = uart_reset, bo_plic = \<lparr>pd_prio = (\<lambda>_. 0), pd_thr = (\<lambda>_. 0), pd_ie = (\<lambda>_. 0), pd_ip = 0, pd_ia = 0, pd_src = 0, pd_err = 0\<rparr>,
     bo_clint = clint_reset,
     bo_ctrl = \<lparr>ct_exit = 0, ct_dram_base = 0x80000000, ct_dram_end = 0x80400000, ct_event = 0, ct_hw_cnt = 0, ct_wr_active = False\<rparr>\<rparr>"

lemma hello_world_boots_witness:
  "\<exists>d'. run_program Fpga (board_bus (\<lambda>n. 300 + n mod 7) (\<lambda>_. 1)) Some
      (hello_world_main (board_bus (\<lambda>n. 300 + n mod 7) (\<lambda>_. 1)) (\<lambda>_. 0) :: (unit, unit) drivers \<Rightarrow> board \<Rightarrow> (u32 \<times> board) option) 0 demo_board = Some d' \<and>
    tx_out (bo_uart d') = str ''Ariane says Hello!\<newline>'' \<and> tb_finish (top_exit_o (bo_ctrl d')) = Some 0"
proof -
  have u: "bo_uart demo_board = uart_reset" by (simp add: demo_board_def)
  have "300 + n mod 7 \<le> 10 * 16 * unat (uart_divisor (SYS_CLK_HZ Fpga) (BAUD_RATE Fpga))" for n :: nat
    by (simp add: uart_divisor_def)
  then show ?thesis using hello_world_boots [OF u refl, of "\<lambda>n. 300 + n mod 7" Fpga "\<lambda>_. 1" "\<lambda>_. 0" 0] by (auto simp del: str_Cons)
qed

end
