(* ===== verification/Ranged_Map.thy ===== *)
theory Ranged_Map
  imports Prelude
begin

text \<open>
  \<open>RangedMap\<close> of \<open>tb/verilator/lowrisc_dv_verilator_memutil_dpi/cpp/ranged_map.h\<close>: disjoint ranges of
  addresses with a value each, kept in a \<open>std::map\<close> that is ordered by the low ends. The map is the
  list of its entries in order, an iterator is a position in it. A failed \<open>assert\<close> is \<open>None\<close>.
\<close>

section \<open>The container\<close>

datatype 'a addr_range = AddrRange (lo: 'a) (hi: 'a)

instantiation addr_range :: (linorder) preorder
begin

definition less_addr_range :: "'a addr_range \<Rightarrow> 'a addr_range \<Rightarrow> bool" where
  "less_addr_range a b \<longleftrightarrow> lo a < lo b"

definition less_eq_addr_range :: "'a addr_range \<Rightarrow> 'a addr_range \<Rightarrow> bool" where
  "less_eq_addr_range a b \<longleftrightarrow> lo a \<le> lo b"

instance by standard (auto simp: less_addr_range_def less_eq_addr_range_def)

end

type_synonym ('a, 'v) ranged_map = "('a addr_range \<times> 'v) list"

text \<open>\<open>upper_bound\<close> and \<open>insert\<close> of \<open>std::map\<close>; an insert with an equivalent key does nothing.\<close>

definition upper_bound :: "('a :: linorder, 'v) ranged_map \<Rightarrow> 'a addr_range \<Rightarrow> nat" where
  "upper_bound m k = length (takeWhile (\<lambda>e. \<not> k < fst e) m)"

definition map_insert :: "'a addr_range \<Rightarrow> 'v \<Rightarrow> ('a :: linorder, 'v) ranged_map \<Rightarrow> ('a, 'v) ranged_map" where
  "map_insert k v m =
     (if \<exists>e \<in> set m. \<not> fst e < k \<and> \<not> k < fst e then m
      else take (upper_bound m k) m @ (k, v) # drop (upper_bound m k) m)"

section \<open>The operations\<close>

text \<open>The two loops of \<open>Emplace\<close> that move \<open>hit_hi\<close> up and \<open>hit_lo\<close> down.\<close>

function hit_up :: "('a :: linorder, 'v) ranged_map \<Rightarrow> 'a \<Rightarrow> nat \<Rightarrow> nat" where
  "hit_up m max_addr i = (if i < length m \<and> lo (fst (m ! i)) \<le> max_addr then hit_up m max_addr (Suc i) else i)"
  by pat_completeness auto
termination by (relation "measure (\<lambda>(m, _, i). length m - i)") auto

declare hit_up.simps [simp del]

fun hit_down :: "('a :: linorder, 'v) ranged_map \<Rightarrow> 'a \<Rightarrow> nat \<Rightarrow> nat" where
  "hit_down m min_addr 0 = 0"
| "hit_down m min_addr (Suc i) = (if min_addr \<le> hi (fst (m ! i)) then hit_down m min_addr i else Suc i)"

text \<open>The loop over the entries that are hit: the merged range and value so far. The merge function
  may fail an assertion.\<close>

fun merge_hits :: "('a addr_range \<Rightarrow> 'v \<Rightarrow> 'a addr_range \<Rightarrow> 'v \<Rightarrow> 'v option) \<Rightarrow> ('a :: linorder, 'v) ranged_map \<Rightarrow>
    'a \<Rightarrow> 'a \<Rightarrow> 'v \<Rightarrow> ('a \<times> 'a \<times> 'v) option" where
  "merge_hits merge [] min_addr max_addr acc = Some (min_addr, max_addr, acc)"
| "merge_hits merge ((rng0, val0) # es) min_addr max_addr acc =
     Option.bind (merge rng0 val0 (AddrRange min_addr max_addr) acc)
       (merge_hits merge es (min min_addr (lo rng0)) (max max_addr (hi rng0)))"

definition emplace :: "('a addr_range \<Rightarrow> 'v \<Rightarrow> 'a addr_range \<Rightarrow> 'v \<Rightarrow> 'v option) \<Rightarrow> 'a \<Rightarrow> 'a \<Rightarrow> 'v \<Rightarrow>
    ('a :: linorder, 'v) ranged_map \<Rightarrow> ('a, 'v) ranged_map option" where
  "emplace merge min_addr max_addr new_val m =
     (if min_addr \<le> max_addr then
        let rng = AddrRange min_addr max_addr;
            right_it = upper_bound m rng;
            hit_hi = (if m = [] then length m else hit_up m max_addr right_it);
            hit_lo = (if m = [] then length m else hit_down m min_addr right_it)
        in if hit_lo = hit_hi then Some (map_insert rng new_val m)
           else map_option (\<lambda>(l, h, acc). map_insert (AddrRange l h) acc (take hit_lo m @ drop hit_hi m))
                  (merge_hits merge (take (hit_hi - hit_lo) (drop hit_lo m)) min_addr max_addr new_val)
      else None)"

text \<open>\<open>EmplaceDisjoint\<close>: the value of an entry that overlaps, if there is one, and the map.\<close>

definition emplace_disjoint :: "'a \<Rightarrow> 'a \<Rightarrow> 'v \<Rightarrow> ('a :: linorder, 'v) ranged_map \<Rightarrow> ('v option \<times> ('a, 'v) ranged_map) option" where
  "emplace_disjoint min_addr max_addr val m =
     (if min_addr \<le> max_addr then
        let rng = AddrRange min_addr max_addr; right_it = upper_bound m rng
        in Some (
          if m \<noteq> [] \<and> right_it < length m \<and> lo (fst (m ! right_it)) \<le> max_addr then (Some (snd (m ! right_it)), m)
          else if m \<noteq> [] \<and> right_it \<noteq> 0 \<and> min_addr \<le> hi (fst (m ! (right_it - 1))) then (Some (snd (m ! (right_it - 1))), m)
          else (None, map_insert rng val m))
      else None)"

definition find_range :: "('a :: linorder, 'v) ranged_map \<Rightarrow> 'a \<Rightarrow> ('a addr_range \<times> 'v) option" where
  "find_range m addr =
     (if m = [] then None
      else let it = upper_bound m (AddrRange addr addr)
           in if it = 0 then None
              else if addr \<le> hi (fst (m ! (it - 1))) then Some (m ! (it - 1)) else None)"

section \<open>The invariant\<close>

definition hits :: "'a :: linorder \<Rightarrow> 'a \<Rightarrow> 'a addr_range \<Rightarrow> bool" where
  "hits l h r \<longleftrightarrow> l \<le> hi r \<and> lo r \<le> h"

definition ranges_ok :: "('a :: linorder, 'v) ranged_map \<Rightarrow> bool" where
  "ranges_ok m \<longleftrightarrow> sorted_wrt (\<lambda>e e'. hi (fst e) < lo (fst e')) m \<and> (\<forall>e \<in> set m. lo (fst e) \<le> hi (fst e))"

lemma ranges_ok_Nil [simp]: "ranges_ok []"
  by (simp add: ranges_ok_def)

lemma ranges_ok_Cons: "ranges_ok (e # m) \<longleftrightarrow> lo (fst e) \<le> hi (fst e) \<and> (\<forall>e' \<in> set m. hi (fst e) < lo (fst e')) \<and> ranges_ok m"
  by (auto simp: ranges_ok_def)

lemma ranges_ok_append:
  "ranges_ok (xs @ ys) \<longleftrightarrow> ranges_ok xs \<and> ranges_ok ys \<and> (\<forall>x \<in> set xs. \<forall>y \<in> set ys. hi (fst x) < lo (fst y))"
  by (auto simp: ranges_ok_def sorted_wrt_append)

text \<open>The entries below a range, those that it hits, and those above.\<close>

lemma ranges_split:
  assumes "ranges_ok m" and "l \<le> h"
  shows "\<exists>xs h1 h2 ys. m = xs @ (h1 @ h2) @ ys \<and> (\<forall>e \<in> set xs. hi (fst e) < l) \<and> (\<forall>e \<in> set (h1 @ h2). hits l h (fst e)) \<and>
    (\<forall>e \<in> set h1. lo (fst e) \<le> l) \<and> (\<forall>e \<in> set h2. l < lo (fst e)) \<and> (\<forall>e \<in> set ys. h < lo (fst e))"
  using assms(1)
proof (induction m)
  case (Cons e m)
  have ok: "lo (fst e) \<le> hi (fst e)" "\<forall>e' \<in> set m. hi (fst e) < lo (fst e')" "ranges_ok m" using Cons.prems by (auto simp: ranges_ok_Cons)
  obtain xs h1 h2 ys where i: "m = xs @ (h1 @ h2) @ ys" "\<forall>e \<in> set xs. hi (fst e) < l" "\<forall>e \<in> set (h1 @ h2). hits l h (fst e)"
    "\<forall>e \<in> set h1. lo (fst e) \<le> l" "\<forall>e \<in> set h2. l < lo (fst e)" "\<forall>e \<in> set ys. h < lo (fst e)"
    using Cons.IH [OF ok(3)] by blast
  have above: "xs = []" if "l \<le> hi (fst e)"
  proof (rule ccontr)
    assume "xs \<noteq> []"
    then obtain x where "x \<in> set xs" by (cases xs) auto
    then have "hi (fst e) < lo (fst x)" "hi (fst x) < l" "lo (fst x) \<le> hi (fst x)"
      using ok i(1,2) by (auto simp: ranges_ok_append ranges_ok_def)
    then show False using that by order
  qed
  consider "hi (fst e) < l" | "l \<le> hi (fst e)" "lo (fst e) \<le> l" | "l < lo (fst e)" "lo (fst e) \<le> h" | "h < lo (fst e)" by fastforce
  then show ?case
  proof cases
    case 1
    then show ?thesis using i by (intro exI [of _ "e # xs"] exI [of _ h1] exI [of _ h2] exI [of _ ys]) simp
  next
    case 2
    then show ?thesis using i above assms(2)
      by (intro exI [of _ "[]"] exI [of _ "e # h1"] exI [of _ h2] exI [of _ ys]) (simp add: hits_def; order)
  next
    case 3
    then have "l \<le> hi (fst e)" using ok(1) by order
    moreover have "h1 = []"
    proof (cases h1)
      case (Cons x h)
      then have "hi (fst e) < lo (fst x)" "lo (fst x) \<le> l" using i(1,4) ok(2) by simp_all
      then show ?thesis using ok(1) 3 by order
    qed
    ultimately show ?thesis using i above 3
      by (intro exI [of _ "[]"] exI [of _ "[]"] exI [of _ "e # h2"] exI [of _ ys]) (simp add: hits_def)
  next
    case 4
    then have l: "l \<le> hi (fst e)" using ok(1) assms(2) by order
    have no: "\<not> hits l h (fst x)" if "x \<in> set m" for x
    proof -
      have "hi (fst e) < lo (fst x)" using ok(2) that by blast
      then have "h < lo (fst x)" using ok(1) 4 by order
      then show ?thesis by (simp add: hits_def not_le)
    qed
    have sub: "set (h1 @ h2) \<subseteq> set m" unfolding i(1) by auto
    have "set (h1 @ h2) = {}"
    proof (rule equals0I)
      fix x assume x: "x \<in> set (h1 @ h2)"
      with i(3) no [OF subsetD [OF sub x]] show False by blast
    qed
    then have "h1 = []" "h2 = []" by simp_all
    then show ?thesis using i above l 4
      by (intro exI [of _ "[]"] exI [of _ "[]"] exI [of _ "[]"] exI [of _ "e # ys"]) simp
  qed
qed auto

section \<open>The loops\<close>

lemma upper_bound_at:
  assumes "\<forall>e \<in> set xs. lo (fst e) \<le> lo k" and "\<forall>e \<in> set ys. lo k < lo (fst e)"
  shows "upper_bound (xs @ ys) k = length xs"
proof -
  have "takeWhile (\<lambda>e. \<not> k < fst e) ys = []" using assms(2) by (cases ys) (auto simp: less_addr_range_def)
  then show ?thesis using assms(1) by (simp add: upper_bound_def takeWhile_append less_addr_range_def not_less)
qed

lemma hit_up_at:
  assumes "\<forall>e \<in> set hs. lo (fst e) \<le> h" and "\<forall>e \<in> set ys. h < lo (fst e)"
  shows "hit_up (p @ hs @ ys) h (length p) = length p + length hs"
  using assms(1)
proof (induction hs arbitrary: p)
  case Nil
  show ?case using assms(2) by (subst hit_up.simps) (cases ys, auto dest: leD)
next
  case (Cons e hs)
  then show ?case using Cons.IH [of "p @ [e]"] by (subst hit_up.simps) simp
qed

lemma hit_down_at:
  assumes "\<forall>e \<in> set hs. l \<le> hi (fst e)" and "\<forall>e \<in> set xs. hi (fst e) < l"
  shows "hit_down (xs @ hs @ q) l (length xs + length hs) = length xs"
  using assms(1)
proof (induction hs arbitrary: q rule: rev_induct)
  case Nil
  then show ?case using assms(2) by (cases xs rule: rev_cases) (auto simp: nth_append dest: leD)
next
  case (snoc e hs)
  have "(xs @ (hs @ [e]) @ q) ! (length xs + length hs) = e" by (simp add: nth_append)
  then show ?case using snoc.IH [of "e # q"] snoc.prems by simp
qed

lemma map_insert_at:
  assumes "\<forall>e \<in> set xs. lo (fst e) < lo k" and "\<forall>e \<in> set ys. lo k < lo (fst e)"
  shows "map_insert k v (xs @ ys) = xs @ (k, v) # ys"
proof -
  have "upper_bound (xs @ ys) k = length xs" by (rule upper_bound_at) (use assms in \<open>auto intro: less_imp_le\<close>)
  then show ?thesis using assms by (auto simp: map_insert_def less_addr_range_def)
qed

section \<open>What the operations do\<close>

text \<open>The bounds that the loop over the hits ends with.\<close>

lemma merge_hits_bounds:
  assumes "merge_hits merge hs l h v = Some (l', h', acc)"
  shows "l' \<le> l \<and> h \<le> h' \<and> (\<forall>e \<in> set hs. l' \<le> lo (fst e) \<and> hi (fst e) \<le> h') \<and>
    l' \<in> insert l (lo ` fst ` set hs) \<and> h' \<in> insert h (hi ` fst ` set hs)"
  using assms
proof (induction merge hs l h v rule: merge_hits.induct)
  case (2 merge rng0 val0 es l h v)
  then obtain a where "merge rng0 val0 (AddrRange l h) v = Some a"
    and m: "merge_hits merge es (min l (lo rng0)) (max h (hi rng0)) a = Some (l', h', acc)" by (auto simp: bind_eq_Some_conv)
  from 2(1) [OF this] show ?case by (auto simp: min_def max_def split: if_splits)
qed simp

text \<open>The shape of the map after \<open>Emplace\<close>: the entries that are hit give way to one.\<close>

lemma emplace_shape:
  assumes "ranges_ok m" and "l \<le> h"
  shows "\<exists>xs hs ys. m = xs @ hs @ ys \<and> (\<forall>e \<in> set xs. hi (fst e) < l) \<and> (\<forall>e \<in> set hs. hits l h (fst e)) \<and>
    (\<forall>e \<in> set ys. h < lo (fst e)) \<and>
    emplace merge l h v m = map_option (\<lambda>(l, h, acc). xs @ (AddrRange l h, acc) # ys) (merge_hits merge hs l h v)"
proof -
  obtain xs h1 h2 ys where s: "m = xs @ (h1 @ h2) @ ys" "\<forall>e \<in> set xs. hi (fst e) < l" "\<forall>e \<in> set (h1 @ h2). hits l h (fst e)"
    "\<forall>e \<in> set h1. lo (fst e) \<le> l" "\<forall>e \<in> set h2. l < lo (fst e)" "\<forall>e \<in> set ys. h < lo (fst e)"
    using ranges_split [OF assms] by blast
  define hs where "hs = h1 @ h2"
  let ?k = "AddrRange l h"
  have ins: "map_insert (AddrRange l' h') acc (xs @ ys) = xs @ (AddrRange l' h', acc) # ys"
    if "l' \<in> insert l (lo ` fst ` set hs)" for l' h' acc
  proof (rule map_insert_at; simp)
    show "\<forall>e \<in> set xs. lo (fst e) < l'"
    proof
      fix e assume e: "e \<in> set xs"
      have "lo (fst e) \<le> hi (fst e)" using assms(1) s(1) e by (simp add: ranges_ok_def)
      moreover have "hi (fst e) < l'" using that e assms(1) s(1,2) by (auto simp: hs_def ranges_ok_append)
      ultimately show "lo (fst e) < l'" by order
    qed
    show "\<forall>e \<in> set ys. l' < lo (fst e)"
    proof
      fix e assume e: "e \<in> set ys"
      have "l' \<le> h" using that assms(2) s(3) by (auto simp: hs_def hits_def)
      then show "l' < lo (fst e)" using s(6) e by auto
    qed
  qed
  have below: "lo (fst e) \<le> l" if "e \<in> set xs" for e
  proof -
    have "lo (fst e) \<le> hi (fst e)" "hi (fst e) < l" using assms(1) s(1,2) that by (simp_all add: ranges_ok_def)
    then show ?thesis by order
  qed
  have ub: "upper_bound m ?k = length xs + length h1"
    using upper_bound_at [of "xs @ h1" ?k "h2 @ ys"] s assms(2) below by force
  have up: "hit_up m h (length xs + length h1) = length xs + length hs"
    using hit_up_at [of h2 h ys "xs @ h1"] s by (simp add: hits_def hs_def)
  have down: "hit_down m l (length xs + length h1) = length xs"
    using hit_down_at [of h1 l xs "h2 @ ys"] s by (simp add: hits_def)
  have m: "m = xs @ hs @ ys" using s(1) by (simp add: hs_def)
  have "emplace merge l h v m = map_option (\<lambda>(l, h, acc). xs @ (AddrRange l h, acc) # ys) (merge_hits merge hs l h v)"
  proof (cases "hs = []")
    case True
    then show ?thesis using assms(2) ins [of l] ub up down m by (auto simp: emplace_def Let_def)
  next
    case False
    have "map_option (\<lambda>(l, h, acc). map_insert (AddrRange l h) acc (xs @ ys)) (merge_hits merge hs l h v) =
        map_option (\<lambda>(l, h, acc). xs @ (AddrRange l h, acc) # ys) (merge_hits merge hs l h v)"
      by (rule option.map_cong0) (use ins merge_hits_bounds [of merge hs l h v] in \<open>force split: prod.splits\<close>)
    then show ?thesis using False assms(2) ub up down m by (simp add: emplace_def Let_def)
  qed
  then show ?thesis using m s by (intro exI [of _ xs] exI [of _ hs] exI [of _ ys]) (simp add: hs_def)
qed

text \<open>The invariant is kept: whatever the merge function does, the ranges stay disjoint, and together they
  cover what they covered and the new range.\<close>

definition covered :: "('a :: linorder, 'v) ranged_map \<Rightarrow> 'a set" where
  "covered m = (\<Union>e \<in> set m. {lo (fst e)..hi (fst e)})"

lemma emplace_ok:
  assumes "ranges_ok m" and "emplace merge l h v m = Some m'"
  shows "ranges_ok m'" and "covered m \<union> {l..h} \<subseteq> covered m'"
proof -
  have lh: "l \<le> h" using assms(2) by (auto simp: emplace_def split: if_splits)
  obtain xs hs ys where m: "m = xs @ hs @ ys" "\<forall>e \<in> set xs. hi (fst e) < l" "\<forall>e \<in> set hs. hits l h (fst e)" "\<forall>e \<in> set ys. h < lo (fst e)"
    and e: "emplace merge l h v m = map_option (\<lambda>(l, h, acc). xs @ (AddrRange l h, acc) # ys) (merge_hits merge hs l h v)"
    using emplace_shape [OF assms(1) lh] by metis
  then obtain l' h' acc where r: "merge_hits merge hs l h v = Some (l', h', acc)" "m' = xs @ (AddrRange l' h', acc) # ys"
    using assms(2) by auto
  note b = merge_hits_bounds [OF r(1)]
  have "\<forall>x \<in> set xs. hi (fst x) < l'" using b m(1,2) assms(1) by (auto simp: ranges_ok_append)
  moreover have "\<forall>y \<in> set ys. h' < lo (fst y)" using b m(1,4) assms(1) by (auto simp: ranges_ok_append)
  ultimately show "ranges_ok m'" using assms(1) m(1) r(2) b lh by (auto simp: ranges_ok_append ranges_ok_Cons)
  show "covered m \<union> {l..h} \<subseteq> covered m'" using m(1) r(2) b by (fastforce simp: covered_def)
qed

lemma upper_bound_split:
  assumes "ranges_ok m"
  shows "\<exists>xs ys. m = xs @ ys \<and> upper_bound m k = length xs \<and> (\<forall>e \<in> set xs. lo (fst e) \<le> lo k) \<and> (\<forall>e \<in> set ys. lo k < lo (fst e))"
proof -
  let ?P = "\<lambda>e. lo (fst e) \<le> lo k"
  have "\<forall>e \<in> set (dropWhile ?P m). lo k < lo (fst e)" using assms
  proof (induction m)
    case (Cons e m)
    then show ?case by (auto simp: ranges_ok_Cons)
  qed simp
  then show ?thesis
    by (intro exI [of _ "takeWhile ?P m"] exI [of _ "dropWhile ?P m"])
       (auto simp: upper_bound_def less_addr_range_def not_less dest: set_takeWhileD)
qed

text \<open>Lookup.\<close>

lemma find_range_iff:
  assumes "ranges_ok m"
  shows "find_range m a = Some e \<longleftrightarrow> e \<in> set m \<and> lo (fst e) \<le> a \<and> a \<le> hi (fst e)"
proof -
  obtain xs ys where m: "m = xs @ ys" "upper_bound m (AddrRange a a) = length xs" "\<forall>e \<in> set xs. lo (fst e) \<le> a" "\<forall>e \<in> set ys. a < lo (fst e)"
    using upper_bound_split [OF assms, of "AddrRange a a"] by auto
  show ?thesis
  proof (cases xs rule: rev_cases)
    case Nil
    then show ?thesis using m by (auto simp: find_range_def dest: leD)
  next
    case (snoc zs z)
    have "\<forall>e \<in> set zs. hi (fst e) < a" using assms m(1,3) snoc by (auto simp: ranges_ok_append)
    then show ?thesis using m snoc by (auto simp: find_range_def nth_append dest: leD)
  qed
qed

lemma find_range_None: "ranges_ok m \<Longrightarrow> find_range m a = None \<longleftrightarrow> a \<notin> covered m"
  using find_range_iff [of m a] by (cases "find_range m a") (force simp: covered_def)+

text \<open>\<open>EmplaceDisjoint\<close> answers with an entry that overlaps exactly if there is one; otherwise the new entry
  is in.\<close>

lemma emplace_disjoint_spec:
  assumes "ranges_ok m" and "l \<le> h"
  shows "\<exists>r m'. emplace_disjoint l h v m = Some (r, m') \<and> ranges_ok m' \<and>
    (case r of Some w \<Rightarrow> m' = m \<and> (\<exists>e \<in> set m. hits l h (fst e) \<and> snd e = w)
     | None \<Rightarrow> (\<forall>e \<in> set m. \<not> hits l h (fst e)) \<and> set m' = insert (AddrRange l h, v) (set m))"
proof -
  obtain xs ys where m: "m = xs @ ys" "upper_bound m (AddrRange l h) = length xs" "\<forall>e \<in> set xs. lo (fst e) \<le> l" "\<forall>e \<in> set ys. l < lo (fst e)"
    using upper_bound_split [OF assms(1), of "AddrRange l h"] by auto
  consider (right) y zs where "ys = y # zs" "lo (fst y) \<le> h"
    | (left) z zs where "xs = zs @ [z]" "l \<le> hi (fst z)" "ys = [] \<or> h < lo (fst (hd ys))"
    | (free) "xs = [] \<or> hi (fst (last xs)) < l" "ys = [] \<or> h < lo (fst (hd ys))"
  proof (cases "ys \<noteq> [] \<and> lo (fst (hd ys)) \<le> h")
    case True
    then show thesis using right by (cases ys) auto
  next
    case y: False
    show thesis
    proof (cases "xs \<noteq> [] \<and> l \<le> hi (fst (last xs))")
      case True
      then show thesis using y left by (cases xs rule: rev_cases) (auto simp: not_le)
    next
      case False
      then show thesis using y free by (auto simp: not_le)
    qed
  qed
  then show ?thesis
  proof cases
    case right
    then have "lo (fst y) \<le> hi (fst y)" "l < lo (fst y)" using assms(1) m(1,4) by (auto simp: ranges_ok_append ranges_ok_Cons)
    then have "hits l h (fst y)" using right unfolding hits_def by auto
    moreover have "emplace_disjoint l h v m = Some (Some (snd y), m)"
      using right m(1,2) assms(2) by (simp add: emplace_disjoint_def Let_def nth_append)
    ultimately show ?thesis using m(1) right assms(1) by auto
  next
    case left
    then have "hits l h (fst z)" using m(3) assms(2) by (auto simp: hits_def)
    moreover have "emplace_disjoint l h v m = Some (Some (snd z), m)"
      using left m(1,2) assms(2) by (cases ys) (auto simp: emplace_disjoint_def Let_def nth_append dest: leD)
    ultimately show ?thesis using m(1) left assms(1) by auto
  next
    case free
    have x: "\<forall>e \<in> set xs. hi (fst e) < l"
    proof (cases xs rule: rev_cases)
      case (snoc zs z)
      then have "\<forall>e \<in> set zs. hi (fst e) < lo (fst z)" "lo (fst z) \<le> hi (fst z)" using assms(1) m(1) by (auto simp: ranges_ok_append ranges_ok_Cons)
      then show ?thesis using free(1) snoc by auto
    qed simp
    have y: "\<forall>e \<in> set ys. h < lo (fst e)"
    proof (cases ys)
      case (Cons z zs)
      then have "\<forall>e \<in> set zs. hi (fst z) < lo (fst e)" "lo (fst z) \<le> hi (fst z)" using assms(1) m(1) by (auto simp: ranges_ok_append ranges_ok_Cons)
      then show ?thesis using free(2) Cons by auto
    qed simp
    have x': "\<forall>e \<in> set xs. lo (fst e) < l" using x assms(1) m(1) by (force simp: ranges_ok_def)
    have "map_insert (AddrRange l h) v m = xs @ (AddrRange l h, v) # ys"
      unfolding m(1) by (rule map_insert_at) (use x' m(4) in auto)
    then have "emplace_disjoint l h v m = Some (None, xs @ (AddrRange l h, v) # ys)"
      using free m(1,2) assms(2) by (cases ys; cases xs rule: rev_cases) (auto simp: emplace_disjoint_def Let_def nth_append dest: leD)
    moreover have "ranges_ok (xs @ (AddrRange l h, v) # ys)" using assms m(1) x y by (auto simp: ranges_ok_append ranges_ok_Cons)
    moreover have "\<forall>e \<in> set m. \<not> hits l h (fst e)" using m(1) x y by (auto simp: hits_def not_le)
    ultimately show ?thesis using m(1) by auto
  qed
qed

end
