(* ===== verification/Staged_Mem.thy ===== *)
theory Staged_Mem
  imports Ranged_Map
begin

text \<open>
  The staging of memory images in \<open>dpi_memutil.cc\<close>: \<open>MergeSegments\<close> and the class \<open>StagedMem\<close> on the
  ranges of theory Ranged_Map. The abstract staging area is a partial map from offsets to bytes, in
  which a later segment overrides the earlier ones. A failed \<open>assert\<close> is \<open>None\<close>, as is a copy outside
  of a vector, which the asserts do not all rule out by themselves.
\<close>

section \<open>Vectors\<close>

definition resize :: "nat \<Rightarrow> byte list \<Rightarrow> byte list" where
  "resize n v = take n v @ replicate (n - length v) 0"

text \<open>\<open>memcpy(&dst[off], src, |src|)\<close>, and the \<open>n\<close> bytes from \<open>&src[off]\<close>.\<close>

definition copy_at :: "byte list \<Rightarrow> nat \<Rightarrow> byte list \<Rightarrow> byte list option" where
  "copy_at dst off src = (if off + length src \<le> length dst then Some (take off dst @ src @ drop (off + length src) dst) else None)"

definition bytes_from :: "byte list \<Rightarrow> nat \<Rightarrow> nat \<Rightarrow> byte list option" where
  "bytes_from src off n = (if off + n \<le> length src then Some (take n (drop off src)) else None)"

lemma length_resize [simp]: "length (resize n v) = n"
  by (simp add: resize_def)

lemma nth_resize: "i < n \<Longrightarrow> resize n v ! i = (if i < length v then v ! i else 0)"
  by (simp add: resize_def nth_append)

lemma copy_at_Some:
  assumes "off + length src \<le> length dst"
  shows "\<exists>v. copy_at dst off src = Some v \<and> length v = length dst \<and>
    (\<forall>i < length dst. v ! i = (if off \<le> i \<and> i < off + length src then src ! (i - off) else dst ! i))"
proof -
  let ?v = "take off dst @ src @ drop (off + length src) dst"
  have "?v ! i = (if off \<le> i \<and> i < off + length src then src ! (i - off) else dst ! i)" if "i < length dst" for i
    using assms that by (auto simp: nth_append min_def)
  then show ?thesis using assms by (intro exI [of _ ?v]) (auto simp: copy_at_def)
qed

section \<open>MergeSegments\<close>

definition assert_that :: "bool \<Rightarrow> 'a option \<Rightarrow> 'a option" where
  "assert_that b r = (if b then r else None)"

definition merge_segments :: "u32 addr_range \<Rightarrow> byte list \<Rightarrow> u32 addr_range \<Rightarrow> byte list \<Rightarrow> byte list option" where
  "merge_segments rng0 seg0 rng1 seg1 =
     (if lo rng1 \<le> lo rng0 \<and> hi rng0 \<le> hi rng1 then Some seg1
      else
        let new_bot = min (lo rng0) (lo rng1);
            new_top = max (hi rng0) (hi rng1);
            new_len = 1 + unat (new_top - new_bot)
        in assert_that (new_bot \<le> new_top \<and> length seg0 \<le> new_len \<and> length seg1 \<le> new_len)
          (if lo rng1 \<le> lo rng0 then
             assert_that (hi rng1 < hi rng0 \<and> new_len = length seg1 + unat (hi rng0 - hi rng1) \<and> lo rng0 \<le> hi rng1)
               (let ret = resize new_len seg1; src_off = 1 + (hi rng1 - lo rng0)
                in assert_that (length seg0 = unat (src_off + (hi rng0 - hi rng1)))
                  (Option.bind (bytes_from seg0 (unat src_off) (unat (hi rng0 - hi rng1))) (copy_at ret (length seg1))))
           else copy_at (resize new_len seg0) (unat (lo rng1 - lo rng0)) seg1))"

text \<open>A segment holds one byte for each address of its range. The last address is left out: the length of a
  segment of all the addresses is 0 in the 32-bit sums of the asserts, which then fail.\<close>

definition seg_ok :: "u32 addr_range \<times> byte list \<Rightarrow> bool" where
  "seg_ok e \<longleftrightarrow> lo (fst e) \<le> hi (fst e) \<and> unat (hi (fst e)) < 2 ^ 32 - 1 \<and> length (snd e) = Suc (unat (hi (fst e)) - unat (lo (fst e)))"

definition byte_at :: "u32 addr_range \<times> byte list \<Rightarrow> u32 \<Rightarrow> byte option" where
  "byte_at e a = (if lo (fst e) \<le> a \<and> a \<le> hi (fst e) then Some (snd e ! (unat a - unat (lo (fst e)))) else None)"

lemma merge_segments_spec:
  assumes "seg_ok (r0, s0)" and "seg_ok (r1, s1)" and "lo r0 \<le> hi r1" and "lo r1 \<le> hi r0"
    and "r = AddrRange (min (lo r1) (lo r0)) (max (hi r1) (hi r0))"
  shows "\<exists>s. merge_segments r0 s0 r1 s1 = Some s \<and> seg_ok (r, s) \<and> byte_at (r, s) = byte_at (r0, s0) ++ byte_at (r1, s1)"
proof -
  define l0 h0 l1 h1 where "l0 = unat (lo r0)" and "h0 = unat (hi r0)" and "l1 = unat (lo r1)" and "h1 = unat (hi r1)"
  note n = l0_def [symmetric] h0_def [symmetric] l1_def [symmetric] h1_def [symmetric]
  have o: "l0 \<le> h0" "l1 \<le> h1" "l0 \<le> h1" "l1 \<le> h0" and len: "length s0 = Suc (h0 - l0)" "length s1 = Suc (h1 - l1)"
    using assms(1-4) by (simp_all add: seg_ok_def word_le_nat_alt n)
  have bound: "h0 < 2 ^ 32 - 1" "h1 < 2 ^ 32 - 1" using assms(1,2) by (simp_all add: seg_ok_def n)
  have at: "byte_at (AddrRange a b, s) x = (if unat a \<le> unat x \<and> unat x \<le> unat b then Some (s ! (unat x - unat a)) else None)" for a b s x
    by (simp add: byte_at_def word_le_nat_alt)
  have r01: "byte_at (r0, s) x = (if l0 \<le> unat x \<and> unat x \<le> h0 then Some (s ! (unat x - l0)) else None)"
    "byte_at (r1, s) x = (if l1 \<le> unat x \<and> unat x \<le> h1 then Some (s ! (unat x - l1)) else None)" for s x
    by (simp_all add: byte_at_def word_le_nat_alt n)
  consider (inside) "l1 \<le> l0" "h0 \<le> h1" | (right) "l1 \<le> l0" "h1 < h0" | (left) "l0 < l1" by linarith
  then show ?thesis
  proof cases
    case inside
    then have w: "lo r1 \<le> lo r0" "hi r0 \<le> hi r1" by (simp_all add: word_le_nat_alt n)
    then have r: "r = r1" using assms(5) by (cases r1) (auto simp: min_def max_def)
    have "byte_at (r1, s1) = byte_at (r0, s0) ++ byte_at (r1, s1)"
      using inside by (auto simp: fun_eq_iff map_add_def r01)
    then show ?thesis using w assms(2) by (simp add: merge_segments_def r)
  next
    case right
    then have w: "lo r1 \<le> lo r0" "\<not> hi r0 \<le> hi r1" "hi r1 \<le> hi r0" "hi r1 < hi r0" by (simp_all add: word_le_nat_alt word_less_nat_alt n)
    have mm: "min (lo r0) (lo r1) = lo r1" "max (hi r0) (hi r1) = hi r0" "r = AddrRange (lo r1) (hi r0)"
      using w assms(5) by (auto simp: min_def max_def)
    have u: "unat (hi r0 - lo r1) = h0 - l1" "unat (hi r0 - hi r1) = h0 - h1" "unat (1 + (hi r1 - lo r0)) = 1 + (h1 - l0)"
      "unat (1 + (hi r1 - lo r0) + (hi r0 - hi r1)) = 1 + (h0 - l0)" "unat (1 + (hi r0 - lo r0)) = 1 + (h0 - l0)"
      using w o right bound assms(3,4) by (simp_all add: unat_sub_if' word_le_nat_alt n unat_word_ariths)
    let ?s = "s1 @ drop (1 + (h1 - l0)) s0"
    have "bytes_from s0 (1 + (h1 - l0)) (h0 - h1) = Some (drop (1 + (h1 - l0)) s0)"
      using o right len by (simp add: bytes_from_def)
    moreover have "copy_at (resize (1 + (h0 - l1)) s1) (length s1) (drop (1 + (h1 - l0)) s0) = Some ?s"
      using o right len by (simp add: copy_at_def resize_def)
    moreover have "h0 - l0 \<le> h0 - l1" "h1 - l1 \<le> h0 - l1" using o right by linarith+
    ultimately have "merge_segments r0 s0 r1 s1 = Some ?s"
      using w o right len assms(3) by (simp add: merge_segments_def mm(1,2) u assert_that_def Let_def order_trans [OF assms(4)])
    moreover have "byte_at (r, ?s) x = (byte_at (r0, s0) ++ byte_at (r1, s1)) x" for x
    proof -
      have "Suc (unat x - Suc l0) = unat x - l0" if "\<not> unat x \<le> h1" using that o by linarith
      then show ?thesis using right o len by (auto simp: mm(3) at r01 n map_add_def nth_append)
    qed
    moreover have "seg_ok (r, ?s)" using right o len bound by (simp add: mm(3) seg_ok_def word_le_nat_alt n)
    ultimately show ?thesis by blast
  next
    case left
    let ?top = "max h0 h1"
    have w: "\<not> lo r1 \<le> lo r0" "lo r0 \<le> lo r1" using left by (simp_all add: word_le_nat_alt n)
    have mm: "min (lo r0) (lo r1) = lo r0" "r = AddrRange (lo r0) (max (hi r0) (hi r1))" "unat (max (hi r0) (hi r1)) = ?top"
      using w(2) assms(5) w(1) by (simp add: min_def, simp add: min_def max.commute, simp add: max_def word_le_nat_alt n)
    have le: "lo r0 \<le> max (hi r0) (hi r1)" using o by (simp add: word_le_nat_alt mm(3) n le_max_iff_disj)
    have u: "unat (max (hi r0) (hi r1) - lo r0) = ?top - l0" "unat (lo r1 - lo r0) = l1 - l0"
      using le w(2) by (simp_all add: unat_sub mm(3) n)
    have fit: "l1 - l0 + length s1 \<le> length (resize (1 + (?top - l0)) s0)" using o left len by simp
    from copy_at_Some [OF this] obtain v where v: "copy_at (resize (1 + (?top - l0)) s0) (l1 - l0) s1 = Some v" "length v = 1 + (?top - l0)"
      "\<forall>i < 1 + (?top - l0). v ! i = (if l1 - l0 \<le> i \<and> i < l1 - l0 + length s1 then s1 ! (i - (l1 - l0)) else resize (1 + (?top - l0)) s0 ! i)"
      by auto
    have "h0 - l0 \<le> ?top - l0" "h1 - l1 \<le> ?top - l0" using left by auto
    then have "merge_segments r0 s0 r1 s1 = Some v"
      using w v(1) o left len le by (simp add: merge_segments_def mm(1) u assert_that_def Let_def)
    moreover have "byte_at (r, v) x = (byte_at (r0, s0) ++ byte_at (r1, s1)) x" for x
    proof -
      let ?i = "unat x"
      consider (out) "?i < l0 \<or> ?top < ?i" | (new) "l1 \<le> ?i" "?i \<le> h1" | (old) "l0 \<le> ?i" "?i \<le> h0" "?i < l1 \<or> h1 < ?i"
        using o left by linarith
      then show ?thesis
      proof cases
        case out
        then have "\<not> (l0 \<le> ?i \<and> ?i \<le> ?top)" "\<not> (l0 \<le> ?i \<and> ?i \<le> h0)" "\<not> (l1 \<le> ?i \<and> ?i \<le> h1)" using left by auto
        then show ?thesis by (simp only: mm(2,3) at r01 n map_add_def) simp
      next
        case new
        then have i: "?i - l0 < 1 + (?top - l0)" and j: "l1 - l0 \<le> ?i - l0 \<and> ?i - l0 < l1 - l0 + length s1"
          and "?i - l0 - (l1 - l0) = ?i - l1" "l0 \<le> ?i" "?i \<le> ?top" using o left len by auto
        moreover have "v ! (?i - l0) = s1 ! (?i - l0 - (l1 - l0))" using v(3) [rule_format, OF i] by (simp only: if_P [OF j])
        ultimately show ?thesis using new by (simp add: mm(2,3) at r01 n map_add_def)
      next
        case old
        then have i: "?i - l0 < 1 + (?top - l0)" and j: "\<not> (l1 - l0 \<le> ?i - l0 \<and> ?i - l0 < l1 - l0 + length s1)"
          and f: "?i - l0 < length s0" "\<not> (l1 \<le> ?i \<and> ?i \<le> h1)" "?i \<le> ?top" using o left len by auto
        have "v ! (?i - l0) = s0 ! (?i - l0)" using v(3) [rule_format, OF i] f(1) by (simp only: if_not_P [OF j] nth_resize [OF i] if_P)
        moreover have "byte_at (r1, s1) x = None" unfolding r01 using f(2) by (rule if_not_P)
        ultimately show ?thesis using old(1,2) f(3) by (simp add: mm(2,3) at r01(1) n map_add_def)
      qed
    qed
    moreover have "seg_ok (r, v)" using v(2) le bound by (simp add: mm(2,3) seg_ok_def n)
    ultimately show ?thesis by blast
  qed
qed

section \<open>The merge of all segments that are hit\<close>

definition staged_map :: "(u32, byte list) ranged_map \<Rightarrow> u32 \<Rightarrow> byte option" where
  "staged_map m a = Option.bind (find_range m a) (\<lambda>e. byte_at e a)"

lemma byte_at_dom: "byte_at e a = None \<longleftrightarrow> \<not> (lo (fst e) \<le> a \<and> a \<le> hi (fst e))"
  by (simp add: byte_at_def)

text \<open>The list of entries as a map: at most one of them has the address.\<close>

fun bytes_of :: "(u32 addr_range \<times> byte list) list \<Rightarrow> u32 \<Rightarrow> byte option" where
  "bytes_of [] = Map.empty"
| "bytes_of (e # es) = bytes_of es ++ byte_at e"

lemma bytes_of_None: "(\<forall>e \<in> set m. \<not> (lo (fst e) \<le> a \<and> a \<le> hi (fst e))) \<Longrightarrow> bytes_of m a = None"
  by (induction m) (auto simp: map_add_def byte_at_def)

lemma bytes_of_append: "bytes_of (xs @ ys) = bytes_of ys ++ bytes_of xs"
  by (induction xs) simp_all

lemma staged_map_bytes_of:
  assumes "ranges_ok m"
  shows "staged_map m = bytes_of m"
proof
  fix a
  show "staged_map m a = bytes_of m a"
  proof (cases "find_range m a")
    case None
    then have "\<forall>e \<in> set m. \<not> (lo (fst e) \<le> a \<and> a \<le> hi (fst e))" using find_range_iff [OF assms, of a] by fastforce
    then show ?thesis using None bytes_of_None [of m a] by (simp add: staged_map_def)
  next
    case (Some e)
    then have e: "e \<in> set m" "lo (fst e) \<le> a" "a \<le> hi (fst e)" using find_range_iff [OF assms] by auto
    then obtain xs ys where m: "m = xs @ e # ys" by (meson split_list)
    have "\<forall>e' \<in> set xs. \<not> (lo (fst e') \<le> a \<and> a \<le> hi (fst e'))" using assms e(2) m by (fastforce simp: ranges_ok_append)
    then have "bytes_of m a = byte_at e a" using bytes_of_None [of xs a] e(2,3) m
      by (auto simp: bytes_of_append map_add_def byte_at_def split: option.split)
    then show ?thesis using Some by (simp add: staged_map_def)
  qed
qed

lemma merge_hits_bytes:
  assumes "\<forall>e \<in> set hs. seg_ok e \<and> hits l h (fst e)" and "seg_ok (AddrRange l h, v)"
  shows "\<exists>l' h' w. merge_hits merge_segments hs l h v = Some (l', h', w) \<and> seg_ok (AddrRange l' h', w) \<and>
    byte_at (AddrRange l' h', w) = bytes_of hs ++ byte_at (AddrRange l h, v)"
  using assms
proof (induction hs arbitrary: l h v)
  case (Cons e hs)
  obtain r0 s0 where e: "e = (r0, s0)" by fastforce
  let ?r = "AddrRange (min l (lo r0)) (max h (hi r0))"
  obtain s where s: "merge_segments r0 s0 (AddrRange l h) v = Some s" "seg_ok (?r, s)" "byte_at (?r, s) = byte_at (r0, s0) ++ byte_at (AddrRange l h, v)"
    using merge_segments_spec [of r0 s0 "AddrRange l h" v ?r] Cons.prems by (auto simp: e hits_def)
  have "\<forall>e \<in> set hs. seg_ok e \<and> hits (min l (lo r0)) (max h (hi r0)) (fst e)" using Cons.prems(1) by (auto simp: hits_def min_le_iff_disj le_max_iff_disj)
  from Cons.IH [OF this s(2)] show ?case using s by (auto simp: e bytes_of_append)
qed (simp add: fun_eq_iff)

section \<open>StagedMem\<close>

record staged_mem =
  min_addr :: u32
  max_addr :: u32
  segs :: "(u32, byte list) ranged_map"

definition staged_empty :: staged_mem where
  "staged_empty = \<lparr>min_addr = NOT 0, max_addr = 0, segs = []\<rparr>"

definition add_segment :: "u32 \<Rightarrow> byte list \<Rightarrow> staged_mem \<Rightarrow> staged_mem option" where
  "add_segment off seg s =
     (if seg = [] then Some s
      else let seg_top = of_nat (unat off + length seg - 1)
           in assert_that (off \<le> seg_top)
                (map_option (\<lambda>m. s\<lparr>min_addr := min (min_addr s) off, max_addr := max (max_addr s) seg_top, segs := m\<rparr>)
                   (emplace merge_segments off seg_top seg (segs s))))"

fun copy_segments :: "u32 \<Rightarrow> (u32, byte list) ranged_map \<Rightarrow> byte list \<Rightarrow> byte list option" where
  "copy_segments base [] ret = Some ret"
| "copy_segments base ((rng, seg) # es) ret =
     assert_that (length seg = unat (1 + (hi rng - lo rng)) \<and> base \<le> lo rng \<and> unat (lo rng - base) + length seg \<le> length ret)
       (Option.bind (copy_at ret (unat (lo rng - base)) seg) (copy_segments base es))"

definition get_flat :: "staged_mem \<Rightarrow> byte list option" where
  "get_flat s =
     (let len = 1 + unat (max_addr s - min_addr s)
      in copy_segments (min_addr s) (segs s) (replicate len 0))"

text \<open>The invariant of the class: disjoint segments with a byte per address, and once there is one, the
  bounds are the smallest and the largest offset with data.\<close>

definition staged_ok :: "staged_mem \<Rightarrow> bool" where
  "staged_ok s \<longleftrightarrow> ranges_ok (segs s) \<and> (\<forall>e \<in> set (segs s). seg_ok e) \<and>
     (if segs s = [] then s = staged_empty
      else min_addr s \<in> covered (segs s) \<and> max_addr s \<in> covered (segs s) \<and> covered (segs s) \<subseteq> {min_addr s..max_addr s})"

definition staged_abs :: "staged_mem \<Rightarrow> u32 \<Rightarrow> byte option" where
  "staged_abs s = staged_map (segs s)"

text \<open>What a segment contributes.\<close>

definition seg_map :: "u32 \<Rightarrow> byte list \<Rightarrow> u32 \<Rightarrow> byte option" where
  "seg_map off seg a = (if off \<le> a \<and> unat a - unat off < length seg then Some (seg ! (unat a - unat off)) else None)"

lemma bytes_of_dom: "dom (bytes_of m) = covered m"
  by (induction m) (auto simp: covered_def byte_at_def dom_def map_add_def split: option.splits if_splits)

lemma staged_ok_dom: "staged_ok s \<Longrightarrow> dom (staged_abs s) = covered (segs s)"
  by (simp add: staged_abs_def staged_map_bytes_of staged_ok_def bytes_of_dom)

lemma add_segment_refines:
  assumes "staged_ok s" and "unat off + length seg < 2 ^ 32"
  shows "\<exists>s'. add_segment off seg s = Some s' \<and> staged_ok s' \<and> staged_abs s' = staged_abs s ++ seg_map off seg"
proof (cases "seg = []")
  case True
  then show ?thesis using assms(1) by (auto simp: add_segment_def seg_map_def map_add_def fun_eq_iff)
next
  case False
  define t where "t = (of_nat (unat off + length seg - 1) :: u32)"
  have top: "unat t = unat off + length seg - 1" unfolding t_def using assms(2) by (simp add: unat_of_nat take_bit_eq_mod)
  have le: "off \<le> t" unfolding word_le_nat_alt top using False by (cases seg) auto
  have ok: "seg_ok (AddrRange off t, seg)" using assms(2) False le by (simp add: seg_ok_def top)
  have b: "byte_at (AddrRange off t, seg) = seg_map off seg" using False
    by (cases seg) (auto simp: fun_eq_iff byte_at_def seg_map_def word_le_nat_alt top)
  have r: "ranges_ok (segs s)" "\<forall>e \<in> set (segs s). seg_ok e" using assms(1) by (simp_all add: staged_ok_def)
  obtain xs hs ys where m: "segs s = xs @ hs @ ys" "\<forall>e \<in> set xs. hi (fst e) < off" "\<forall>e \<in> set hs. hits off t (fst e)" "\<forall>e \<in> set ys. t < lo (fst e)"
    and e: "emplace merge_segments off t seg (segs s) = map_option (\<lambda>(l, h, acc). xs @ (AddrRange l h, acc) # ys) (merge_hits merge_segments hs off t seg)"
    using emplace_shape [OF r(1) le] by metis
  have hs: "\<forall>e \<in> set hs. seg_ok e \<and> hits off t (fst e)" using r(2) m(1,3) by auto
  obtain l' h' w where w: "merge_hits merge_segments hs off t seg = Some (l', h', w)" "seg_ok (AddrRange l' h', w)"
    "byte_at (AddrRange l' h', w) = bytes_of hs ++ byte_at (AddrRange off t, seg)"
    using merge_hits_bytes [OF hs ok] by blast
  let ?m = "xs @ (AddrRange l' h', w) # ys"
  have em: "emplace merge_segments off t seg (segs s) = Some ?m" using e w(1) by simp
  have ok': "ranges_ok ?m" by (rule emplace_ok(1) [OF r(1) em])
  have far: "bytes_of xs a = None" if "byte_at (AddrRange off t, seg) a \<noteq> None" for a
  proof (rule bytes_of_None, intro ballI)
    fix e assume "e \<in> set xs"
    then have "hi (fst e) < off" using m(2) by blast
    moreover have "off \<le> a" using that by (simp add: byte_at_def split: if_splits)
    ultimately show "\<not> (lo (fst e) \<le> a \<and> a \<le> hi (fst e))" by auto
  qed
  have new: "bytes_of ?m = bytes_of (segs s) ++ seg_map off seg"
  proof
    fix a
    show "bytes_of ?m a = (bytes_of (segs s) ++ seg_map off seg) a"
      using far [of a] by (auto simp: m(1) bytes_of_append w(3) b [symmetric] map_add_def split: option.split)
  qed
  let ?s = "s\<lparr>min_addr := min (min_addr s) off, max_addr := max (max_addr s) t, segs := ?m\<rparr>"
  have "add_segment off seg s = Some ?s" using False le em 
    by (simp add: add_segment_def assert_that_def Let_def t_def [symmetric, simplified])
  moreover have "staged_abs ?s = staged_abs s ++ seg_map off seg"
    using new by (simp add: staged_abs_def staged_map_bytes_of [OF ok'] staged_map_bytes_of [OF r(1)])
  moreover have "staged_ok ?s"
  proof -
    have "dom (seg_map off seg) = {off..t}" unfolding b [symmetric] by (auto simp: byte_at_def dom_def)
    then have cov: "covered ?m = covered (segs s) \<union> {off..t}"
      using arg_cong [OF new, of dom] unfolding bytes_of_dom dom_map_add by auto
    have "\<forall>e \<in> set ?m. seg_ok e" using r(2) m(1) w(2) by auto
    moreover have "min (min_addr s) off \<in> covered ?m \<and> max (max_addr s) t \<in> covered ?m \<and>
        covered ?m \<subseteq> {min (min_addr s) off..max (max_addr s) t}"
    proof (cases "segs s = []")
      case True
      then have "min_addr s = - 1" "max_addr s = 0" using assms(1) by (simp_all add: staged_ok_def staged_empty_def)
      moreover have "min (- 1) off = off" "max 0 t = t" by (simp_all add: min.absorb2 max.absorb2)
      moreover have "covered ?m = {off..t}" using cov True by (simp add: covered_def)
      ultimately show ?thesis using le by simp
    next
      case False
      then have "min_addr s \<in> covered (segs s)" "max_addr s \<in> covered (segs s)" "covered (segs s) \<subseteq> {min_addr s..max_addr s}"
        using assms(1) by (simp_all add: staged_ok_def)
      moreover from this have "covered (segs s) \<subseteq> {min (min_addr s) off..max (max_addr s) t}"
        by (auto simp: min_le_iff_disj le_max_iff_disj)
      ultimately show ?thesis using le unfolding cov by (auto simp: min_def max_def)
    qed
    ultimately show ?thesis using ok' by (simp add: staged_ok_def)
  qed
  ultimately show ?thesis by blast
qed

text \<open>Flattening.\<close>

definition or_zero :: "byte option \<Rightarrow> byte" where "or_zero b = (case b of Some v \<Rightarrow> v | None \<Rightarrow> 0)"

lemma copy_segments_bytes:
  assumes "\<forall>e \<in> set es. seg_ok e \<and> base \<le> lo (fst e) \<and> unat (hi (fst e)) - unat base < length ret" and "ranges_ok es"
    and "unat base + length ret \<le> 2 ^ 32"
  shows "\<exists>v. copy_segments base es ret = Some v \<and> length v = length ret \<and>
    (\<forall>i < length ret. v ! i = (case bytes_of es (base + of_nat i) of Some b \<Rightarrow> b | None \<Rightarrow> ret ! i))"
  using assms
proof (induction es arbitrary: ret)
  case (Cons e es)
  obtain rng seg where e: "e = (rng, seg)" by fastforce
  have s: "seg_ok (rng, seg)" "base \<le> lo rng" "unat (hi rng) - unat base < length ret" and r: "ranges_ok es" "\<forall>e' \<in> set es. hi rng < lo (fst e')"
    using Cons.prems(1,2) by (simp_all add: e ranges_ok_Cons)
  let ?off = "unat (lo rng - base)"
  have off: "?off = unat (lo rng) - unat base" using s(2) by (rule unat_sub)
  have n: "unat base \<le> unat (lo rng)" "unat (lo rng) \<le> unat (hi rng)" using s by (simp_all add: seg_ok_def word_le_nat_alt)
  have len: "length seg = unat (1 + (hi rng - lo rng))" "length seg = Suc (unat (hi rng) - unat (lo rng))"
  proof -
    have "Suc (unat (hi rng) - unat (lo rng)) < 2 ^ 32" using s(1) by (auto simp: seg_ok_def)
    then show "length seg = unat (1 + (hi rng - lo rng))" "length seg = Suc (unat (hi rng) - unat (lo rng))"
      using s(1) by (simp_all add: seg_ok_def unat_word_ariths unat_sub)
  qed
  have fit: "?off + length seg \<le> length ret" using s(3) n len(2) off by linarith
  from copy_at_Some [OF this] obtain v where v: "copy_at ret ?off seg = Some v" "length v = length ret"
    "\<forall>i < length ret. v ! i = (if ?off \<le> i \<and> i < ?off + length seg then seg ! (i - ?off) else ret ! i)" by auto
  have "\<forall>e \<in> set es. seg_ok e \<and> base \<le> lo (fst e) \<and> unat (hi (fst e)) - unat base < length v" using Cons.prems(1) v(2) by simp
  from Cons.IH [OF this r(1)] Cons.prems(3) v(2) obtain w where w: "copy_segments base es v = Some w" "length w = length ret"
    "\<forall>i < length ret. w ! i = (case bytes_of es (base + of_nat i) of Some b \<Rightarrow> b | None \<Rightarrow> v ! i)" by auto
  have dis: "bytes_of es a = None" if "byte_at e a = Some b" for a b
  proof (rule bytes_of_None, intro ballI)
    fix e' assume "e' \<in> set es"
    then have "hi rng < lo (fst e')" using r(2) by blast
    then show "\<not> (lo (fst e') \<le> a \<and> a \<le> hi (fst e'))" using that by (auto simp: e byte_at_def split: if_splits)
  qed
  have "v ! i = (case byte_at e (base + of_nat i) of Some b \<Rightarrow> b | None \<Rightarrow> ret ! i)" if "i < length ret" for i
  proof -
    have u: "unat (base + of_nat i) = unat base + i" using that Cons.prems(3) by (simp add: unat_word_ariths unat_of_nat take_bit_eq_mod)
    show ?thesis using v(3) that n len(2) by (auto simp: e byte_at_def word_le_nat_alt u off add.commute)
  qed
  then have "\<forall>i < length ret. w ! i = (case bytes_of (e # es) (base + of_nat i) of Some b \<Rightarrow> b | None \<Rightarrow> ret ! i)"
    using w(3) dis by (auto simp: map_add_def split: option.splits)
  moreover have "copy_segments base (e # es) ret = Some w" using w(1) v(1) s(2) len(1) fit by (simp add: e assert_that_def)
  ultimately show ?case using w(2) by blast
qed simp

lemma get_flat_bytes:
  assumes "staged_ok s" and "segs s \<noteq> []"
  shows "\<exists>v. get_flat s = Some v \<and> length v = Suc (unat (max_addr s) - unat (min_addr s)) \<and>
    (\<forall>i < length v. v ! i = or_zero (staged_abs s (min_addr s + of_nat i)))"
proof -
  have c: "min_addr s \<in> covered (segs s)" "max_addr s \<in> covered (segs s)" "covered (segs s) \<subseteq> {min_addr s..max_addr s}"
    and r: "ranges_ok (segs s)" "\<forall>e \<in> set (segs s). seg_ok e" using assms by (simp_all add: staged_ok_def)
  have mm: "min_addr s \<le> max_addr s" using c by auto
  have sub: "lo (fst e) \<in> covered (segs s)" "hi (fst e) \<in> covered (segs s)" if "e \<in> set (segs s)" for e
    using that r(2) by (auto simp: covered_def seg_ok_def)
  define n where "n = 1 + unat (max_addr s - min_addr s)"
  have n: "n = Suc (unat (max_addr s) - unat (min_addr s))" using mm by (simp add: n_def unat_sub)
  have "\<forall>e \<in> set (segs s). seg_ok e \<and> min_addr s \<le> lo (fst e) \<and> unat (hi (fst e)) - unat (min_addr s) < n"
  proof
    fix e assume e: "e \<in> set (segs s)"
    have "min_addr s \<le> lo (fst e)" "hi (fst e) \<le> max_addr s" using sub [OF e] c(3) by auto
    then show "seg_ok e \<and> min_addr s \<le> lo (fst e) \<and> unat (hi (fst e)) - unat (min_addr s) < n"
      using r(2) e unfolding n by (auto simp: word_le_nat_alt)
  qed
  moreover have "unat (min_addr s) + n \<le> 2 ^ 32"
  proof -
    have "unat (max_addr s) < 2 ^ 32" by (rule order.strict_trans2 [OF unsigned_less]) simp
    then show ?thesis using mm unfolding n word_le_nat_alt by linarith
  qed
  moreover have "(case x of Some b \<Rightarrow> b | None \<Rightarrow> replicate n 0 ! i) = or_zero x" if "i < n" for x i
    using that by (simp add: or_zero_def split: option.split)
  ultimately obtain v where "copy_segments (min_addr s) (segs s) (replicate n 0) = Some v" "length v = n"
    "\<forall>i < n. v ! i = or_zero (bytes_of (segs s) (min_addr s + of_nat i))"
    using copy_segments_bytes [of "segs s" "min_addr s" "replicate n 0"] r(1) by auto
  moreover have "get_flat s = copy_segments (min_addr s) (segs s) (replicate n 0)" by (simp only: get_flat_def n_def Let_def)
  ultimately show ?thesis using n by (auto simp: staged_abs_def staged_map_bytes_of [OF r(1)])
qed

section \<open>A sequence of segments\<close>

fun add_segments :: "(u32 \<times> byte list) list \<Rightarrow> staged_mem \<Rightarrow> staged_mem option" where
  "add_segments [] s = Some s"
| "add_segments ((off, seg) # es) s = Option.bind (add_segment off seg s) (add_segments es)"

fun image_of :: "(u32 \<times> byte list) list \<Rightarrow> u32 \<Rightarrow> byte option" where
  "image_of [] = Map.empty"
| "image_of ((off, seg) # es) = seg_map off seg ++ image_of es"

lemma staged_empty_ok: "staged_ok staged_empty" "staged_abs staged_empty = Map.empty"
  by (simp_all add: staged_ok_def staged_empty_def staged_abs_def staged_map_def find_range_def fun_eq_iff)

lemma add_segments_refines:
  assumes "\<forall>(off, seg) \<in> set es. unat off + length seg < 2 ^ 32" and "staged_ok s"
  shows "\<exists>s'. add_segments es s = Some s' \<and> staged_ok s' \<and> staged_abs s' = staged_abs s ++ image_of es"
  using assms
proof (induction es arbitrary: s)
  case (Cons e es)
  obtain off seg where e: "e = (off, seg)" by fastforce
  obtain s1 where s1: "add_segment off seg s = Some s1" "staged_ok s1" "staged_abs s1 = staged_abs s ++ seg_map off seg"
    using add_segment_refines [OF Cons.prems(2), of off seg] Cons.prems(1) by (auto simp: e)
  then show ?case using Cons.IH [OF _ s1(2)] Cons.prems(1) by (auto simp: e)
qed simp

text \<open>C0. The staging area implements a byte map in which later segments override earlier ones: no assert fails
  and no copy leaves its vector, whatever the order and the overlaps of the segments, the look-up finds
  for each offset the byte of the last segment that has it, and the flat image has this byte, or 0
  where there is none, from the smallest offset with data to the largest. The bound is that no
  segment reaches the last address.\<close>

theorem staging_refines:
  assumes "\<forall>(off, seg) \<in> set es. unat off + length seg < 2 ^ 32" and "\<exists>(off, seg) \<in> set es. seg \<noteq> []"
  shows "\<exists>s v. add_segments es staged_empty = Some s \<and> staged_ok s \<and> staged_map (segs s) = image_of es \<and> get_flat s = Some v \<and>
    min_addr s \<in> dom (image_of es) \<and> max_addr s \<in> dom (image_of es) \<and> dom (image_of es) \<subseteq> {min_addr s..max_addr s} \<and>
    length v = Suc (unat (max_addr s) - unat (min_addr s)) \<and>
    (\<forall>i < length v. v ! i = or_zero (image_of es (min_addr s + of_nat i)))"
proof -
  obtain s where s: "add_segments es staged_empty = Some s" "staged_ok s" "staged_abs s = image_of es"
    using add_segments_refines [OF assms(1) staged_empty_ok(1)] staged_empty_ok(2) by auto
  obtain off seg where e: "(off, seg) \<in> set es" "seg \<noteq> []" using assms(2) by auto
  have "image_of es off \<noteq> None" if "(off, seg) \<in> set es" for es
    using that by (induction es) (auto simp: map_add_def seg_map_def e(2) split: option.split)
  then have "off \<in> covered (segs s)" using e(1) staged_ok_dom [OF s(2)] s(3) by auto
  then have "segs s \<noteq> []" by (auto simp: covered_def)
  moreover from get_flat_bytes [OF s(2) this] obtain v where "get_flat s = Some v" "length v = Suc (unat (max_addr s) - unat (min_addr s))"
    "\<forall>i < length v. v ! i = or_zero (image_of es (min_addr s + of_nat i))" using s(3) by auto
  ultimately show ?thesis using s staged_ok_dom [OF s(2)] by (auto simp: staged_ok_def staged_abs_def)
qed

lemma staging_refines_witness:
  "\<exists>s v. add_segments [(0x10, [1, 2, 3, 4]), (0x12, [9, 9, 9]), (0x18, [7])] staged_empty = Some s \<and> get_flat s = Some v \<and>
    staged_map (segs s) 0x11 = Some 2 \<and> staged_map (segs s) 0x12 = Some 9 \<and> staged_map (segs s) 0x17 = None"
proof -
  have "\<forall>(off, seg) \<in> set [(0x10, [1, 2, 3, 4]), (0x12, [9, 9, 9]), (0x18, [7])]. unat (off :: u32) + length (seg :: byte list) < 2 ^ 32"
    "\<exists>(off, seg) \<in> set [(0x10 :: u32, [1, 2, 3, 4]), (0x12, [9, 9, 9]), (0x18, [7 :: byte])]. seg \<noteq> []" by simp_all
  from staging_refines [OF this] show ?thesis by (auto simp: seg_map_def map_add_def)
qed

end
