(* ===== verification/Memutil.thy ===== *)
theory Memutil
  imports Staged_Mem
begin

text \<open>
  The memory loader of the simulation, class \<open>DpiMemUtil\<close> in \<open>dpi_memutil.cc\<close>: the registry of memory
  areas, the area of a segment, and the loading of an ELF file into the staging areas or into one
  flat image. What libelf reads from the file is the record \<open>elf\<close>; messages to the terminal and the
  texts of the exceptions are left out.
\<close>

section \<open>The registry\<close>

record mem_area =
  ma_name :: string
  ma_location :: string
  width_byte :: u32
  ma_base :: u32
  ma_size :: u32

text \<open>A pointer to an area is its name, the key under which \<open>name_to_mem_\<close> holds it.\<close>

record memutil =
  name_to_mem :: "string \<rightharpoonup> mem_area"
  addr_to_mem :: "(u32, string) ranged_map"
  staging_area :: "string \<rightharpoonup> staged_mem"

definition memutil_empty :: memutil where
  "memutil_empty = \<lparr>name_to_mem = Map.empty, addr_to_mem = [], staging_area = Map.empty\<rparr>"

definition register_memory_area :: "string \<Rightarrow> string \<Rightarrow> nat \<Rightarrow> (u32 \<times> u32) option \<Rightarrow> memutil \<Rightarrow> (bool \<times> memutil) option" where
  "register_memory_area name location width_bit addr_loc u =
     assert_that (width_bit \<le> 512 \<and> width_bit mod 8 = 0)
       (let mem = \<lparr>ma_name = name, ma_location = location, width_byte = of_nat width_bit div 8, ma_base = 0, ma_size = 0\<rparr>
        in if name_to_mem u name \<noteq> None then Some (False, u)
           else let u = u\<lparr>name_to_mem := (name_to_mem u)(name \<mapsto> mem)\<rparr>
             in case addr_loc of
                 None \<Rightarrow> Some (True, u)
               | Some (base, sz) \<Rightarrow>
                   if sz = 0 then Some (False, u)
                   else let addr_top = base + (sz - 1)
                     in if addr_top < base then Some (False, u)
                        else Option.bind (emplace_disjoint base addr_top name (addr_to_mem u)) (\<lambda>(clash, m).
                          if clash \<noteq> None then Some (False, u\<lparr>addr_to_mem := m\<rparr>)
                          else Some (True, u\<lparr>addr_to_mem := m, name_to_mem := (name_to_mem u)(name \<mapsto> mem\<lparr>ma_base := base, ma_size := sz\<rparr>)\<rparr>)))"

text \<open>\<open>RegisterMemoryArea(name, location)\<close>.\<close>

definition register_memory_area_default :: "string \<Rightarrow> string \<Rightarrow> memutil \<Rightarrow> (bool \<times> memutil) option" where
  "register_memory_area_default name location u = register_memory_area name location 32 None u"

section \<open>ELF files\<close>

definition PT_LOAD :: u32 where "PT_LOAD = 1"

record phdr =
  p_type :: u32
  p_offset :: u64
  p_paddr :: u64
  p_filesz :: u64
  p_memsz :: u64

record elf =
  e_phdrs :: "phdr list"
  e_data :: "byte list"

text \<open>The exceptions, and a failed assert or an access that C++ does not define.\<close>

datatype elf_error = No_region | Size_overflow | Region_too_small | Misaligned | File_too_short | Address_overflow | Fault

definition or_fault :: "'a option \<Rightarrow> elf_error + 'a" where
  "or_fault r = (case r of Some v \<Rightarrow> Inr v | None \<Rightarrow> Inl Fault)"

definition get_region_for_segment :: "memutil \<Rightarrow> u32 \<Rightarrow> u32 \<Rightarrow> elf_error + mem_area" where
  "get_region_for_segment u lma mem_sz =
     (if mem_sz = 0 then Inl Fault
      else case find_range (addr_to_mem u) lma of
          None \<Rightarrow> Inl No_region
        | Some e \<Rightarrow>
            (case name_to_mem u (snd e) of
               None \<Rightarrow> Inl Fault
             | Some mem_area \<Rightarrow>
                 if \<not> ma_base mem_area \<le> lma then Inl Fault
                 else let lma_top = lma + (mem_sz - 1)
                   in if lma_top < lma then Inl Size_overflow
                      else let local_top = lma_top - ma_base mem_area
                        in if ma_size mem_area \<le> local_top then Inl Region_too_small else Inr mem_area))"

text \<open>\<open>vector(memsz, 0)\<close> with the first bytes from the file.\<close>

definition segment_bytes :: "elf \<Rightarrow> phdr \<Rightarrow> byte list option" where
  "segment_bytes f ph =
     map_option (\<lambda>src. src @ replicate (unat (p_memsz ph) - length src) 0)
       (bytes_from (e_data f) (unat (p_offset ph)) (min (unat (p_filesz ph)) (unat (p_memsz ph))))"

definition stage_phdr :: "elf \<Rightarrow> phdr \<Rightarrow> memutil \<Rightarrow> elf_error + memutil" where
  "stage_phdr f ph u =
     (if p_type ph \<noteq> PT_LOAD \<or> p_memsz ph = 0 then Inr u
      else case get_region_for_segment u (ucast (p_paddr ph)) (ucast (p_memsz ph)) of
          Inl err \<Rightarrow> Inl err
        | Inr mem_area \<Rightarrow>
            (let local_base = ucast (p_paddr ph - ucast (ma_base mem_area)) :: u32
             in if width_byte mem_area = 0 then Inl Fault
                else if local_base mod width_byte mem_area \<noteq> 0 then Inl Misaligned
                else if length (e_data f) < unat (p_offset ph + p_filesz ph) then Inl File_too_short
                else let staged_mem = (case staging_area u (ma_name mem_area) of Some s \<Rightarrow> s | None \<Rightarrow> staged_empty)
                  in map_sum id (\<lambda>s. u\<lparr>staging_area := (staging_area u)(ma_name mem_area \<mapsto> s)\<rparr>)
                       (or_fault (Option.bind (segment_bytes f ph) (\<lambda>vec. add_segment local_base vec staged_mem)))))"

fun stage_phdrs :: "elf \<Rightarrow> phdr list \<Rightarrow> memutil \<Rightarrow> elf_error + memutil" where
  "stage_phdrs f [] u = Inr u"
| "stage_phdrs f (ph # phs) u = (case stage_phdr f ph u of Inl err \<Rightarrow> Inl err | Inr u \<Rightarrow> stage_phdrs f phs u)"

definition stage_elf :: "elf \<Rightarrow> memutil \<Rightarrow> elf_error + memutil" where
  "stage_elf f u = stage_phdrs f (e_phdrs f) (u\<lparr>staging_area := Map.empty\<rparr>)"

definition get_memory_data :: "memutil \<Rightarrow> string \<Rightarrow> staged_mem" where
  "get_memory_data u mem_name = (case staging_area u mem_name of None \<Rightarrow> staged_empty | Some s \<Rightarrow> s)"

section \<open>FlattenElfFile\<close>

definition ignored :: "phdr \<Rightarrow> bool" where
  "ignored ph \<longleftrightarrow> p_type ph \<noteq> PT_LOAD \<or> p_memsz ph = 0 \<or> p_filesz ph = 0"

text \<open>The first loop: the lowest and the highest address, \<open>None\<close> before there is one.\<close>

fun flat_bounds :: "phdr list \<Rightarrow> (u64 \<times> u64) option \<Rightarrow> elf_error + (u64 \<times> u64) option" where
  "flat_bounds [] b = Inr b"
| "flat_bounds (ph # phs) b =
     (if ignored ph then flat_bounds phs b
      else let seg_top = p_paddr ph + (p_memsz ph - 1)
        in if seg_top < p_paddr ph then Inl Address_overflow
           else flat_bounds phs (case b of None \<Rightarrow> Some (p_paddr ph, seg_top)
             | Some (low, high) \<Rightarrow> Some (min (p_paddr ph) low, max seg_top high)))"

fun flat_segments :: "elf \<Rightarrow> u64 \<Rightarrow> phdr list \<Rightarrow> staged_mem \<Rightarrow> elf_error + staged_mem" where
  "flat_segments f low [] ret = Inr ret"
| "flat_segments f low (ph # phs) ret =
     (if ignored ph then flat_segments f low phs ret
      else if length (e_data f) < unat (p_offset ph + p_filesz ph) then Inl File_too_short
      else case or_fault (Option.bind (segment_bytes f ph) (\<lambda>seg. add_segment (ucast (p_paddr ph - low)) seg ret)) of
          Inl err \<Rightarrow> Inl err
        | Inr ret \<Rightarrow> flat_segments f low phs ret)"

definition flatten_elf_file :: "elf \<Rightarrow> elf_error + byte list" where
  "flatten_elf_file f =
     (case flat_bounds (e_phdrs f) None of
        Inl err \<Rightarrow> Inl err
      | Inr None \<Rightarrow> Inr []
      | Inr (Some (low, high)) \<Rightarrow>
          if \<not> low \<le> high then Inl Fault
          else case flat_segments f low (e_phdrs f) staged_empty of
              Inl err \<Rightarrow> Inl err
            | Inr ret \<Rightarrow> or_fault (get_flat ret))"

section \<open>The registry keeps its invariant\<close>

definition area_range :: "mem_area \<Rightarrow> u32 addr_range" where
  "area_range A = AddrRange (ma_base A) (ma_base A + (ma_size A - 1))"

text \<open>The areas with an address are those of \<open>addr_to_mem_\<close>.\<close>

definition registry_ok :: "memutil \<Rightarrow> bool" where
  "registry_ok u \<longleftrightarrow> ranges_ok (addr_to_mem u) \<and> (\<forall>n A. name_to_mem u n = Some A \<longrightarrow> ma_name A = n) \<and>
     (\<forall>r n. (r, n) \<in> set (addr_to_mem u) \<longleftrightarrow> (\<exists>A. name_to_mem u n = Some A \<and> ma_size A \<noteq> 0 \<and> r = area_range A))"

definition registers :: "string \<Rightarrow> (u32 \<times> u32) option \<Rightarrow> memutil \<Rightarrow> bool" where
  "registers name addr_loc u \<longleftrightarrow> name_to_mem u name = None \<and>
     (case addr_loc of None \<Rightarrow> True
      | Some (base, sz) \<Rightarrow> sz \<noteq> 0 \<and> base \<le> base + (sz - 1) \<and> {base..base + (sz - 1)} \<inter> covered (addr_to_mem u) = {})"

lemma hits_covered:
  assumes "ranges_ok m" and "l \<le> h"
  shows "(\<exists>e \<in> set m. hits l h (fst e)) \<longleftrightarrow> {l..h} \<inter> covered m \<noteq> {}"
proof
  assume "\<exists>e \<in> set m. hits l h (fst e)"
  then obtain e where e: "e \<in> set m" "l \<le> hi (fst e)" "lo (fst e) \<le> h" by (auto simp: hits_def)
  moreover have "lo (fst e) \<le> hi (fst e)" using assms(1) e(1) by (simp add: ranges_ok_def)
  ultimately have "max l (lo (fst e)) \<in> {l..h} \<inter> covered m" using assms(2) e by (auto simp: covered_def max_def intro!: bexI [of _ e])
  then show "{l..h} \<inter> covered m \<noteq> {}" by blast
next
  assume "{l..h} \<inter> covered m \<noteq> {}"
  then obtain x e where "e \<in> set m" "l \<le> x" "x \<le> h" "lo (fst e) \<le> x" "x \<le> hi (fst e)" by (auto simp: covered_def)
  then show "\<exists>e \<in> set m. hits l h (fst e)" unfolding hits_def by (meson order_trans)
qed

lemma registry_empty: "registry_ok memutil_empty"
  by (simp add: registry_ok_def memutil_empty_def)

text \<open>C0. Registering an area keeps the registry consistent: the areas with an address have disjoint ranges
  that do not leave the address space and are found under their addresses. The answer is true exactly if
  the name is new and the range, when there is one, is not empty, does not pass the last address and
  overlaps no registered range; then the area is registered as asked. Nothing registered before changes.
  A name that is refused because of its range stays registered, without an address.\<close>

theorem register_keeps:
  assumes "registry_ok u" and "width_bit \<le> 512" and "width_bit mod 8 = 0"
  shows "\<exists>u'. register_memory_area name location width_bit addr_loc u = Some (registers name addr_loc u, u') \<and> registry_ok u' \<and>
    name_to_mem u \<subseteq>\<^sub>m name_to_mem u' \<and> staging_area u' = staging_area u \<and> name_to_mem u' name \<noteq> None \<and>
    (registers name addr_loc u \<longrightarrow> (\<exists>A. name_to_mem u' name = Some A \<and> width_byte A = of_nat width_bit div 8 \<and>
       (case addr_loc of None \<Rightarrow> ma_size A = 0 | Some (base, sz) \<Rightarrow> ma_base A = base \<and> ma_size A = sz)))"
proof -
  let ?mem = "\<lparr>ma_name = name, ma_location = location, width_byte = of_nat width_bit div 8, ma_base = 0, ma_size = 0\<rparr>"
  let ?u = "u\<lparr>name_to_mem := (name_to_mem u)(name \<mapsto> ?mem)\<rparr>"
  show ?thesis
  proof (cases "name_to_mem u name")
    case (Some A)
    then show ?thesis using assms by (simp add: register_memory_area_def assert_that_def registers_def)
  next
    case None
    have out: "(r, name) \<notin> set (addr_to_mem u)" for r using assms(1) None by (auto simp: registry_ok_def)
    have ok: "registry_ok ?u" using assms(1) None out by (auto simp: registry_ok_def)
    have sub: "name_to_mem u \<subseteq>\<^sub>m (name_to_mem u)(name \<mapsto> B)" for B using None by (auto simp: map_le_def)
    show ?thesis
    proof (cases addr_loc)
      case None': None
      then show ?thesis using assms(2,3) None ok sub by (simp add: register_memory_area_def assert_that_def registers_def Let_def)
    next
      case (Some loc)
      obtain base sz where loc: "loc = (base, sz)" by fastforce
      let ?top = "base + (sz - 1)"
      show ?thesis
      proof (cases "sz = 0 \<or> ?top < base")
        case True
        then show ?thesis using assms(2,3) None ok sub Some loc
          by (auto simp: register_memory_area_def assert_that_def registers_def Let_def)
      next
        case False
        then have le: "base \<le> ?top" "sz \<noteq> 0" by auto
        have r: "ranges_ok (addr_to_mem u)" using assms(1) by (simp add: registry_ok_def)
        obtain c m where e: "emplace_disjoint base ?top name (addr_to_mem u) = Some (c, m)" "ranges_ok m"
          "case c of Some w \<Rightarrow> m = addr_to_mem u \<and> (\<exists>e \<in> set (addr_to_mem u). hits base ?top (fst e) \<and> snd e = w)
           | None \<Rightarrow> (\<forall>e \<in> set (addr_to_mem u). \<not> hits base ?top (fst e)) \<and> set m = insert (AddrRange base ?top, name) (set (addr_to_mem u))"
          using emplace_disjoint_spec [OF r le(1), of name] by blast
        have iff: "registers name addr_loc u \<longleftrightarrow> c = None" using e(3) hits_covered [OF r le(1)] None Some loc le
          by (cases c) (auto simp: registers_def)
        show ?thesis
        proof (cases c)
          case None': None
          let ?A = "?mem\<lparr>ma_base := base, ma_size := sz\<rparr>"
          let ?v = "?u\<lparr>addr_to_mem := m, name_to_mem := (name_to_mem u)(name \<mapsto> ?A)\<rparr>"
          have "area_range ?A = AddrRange base ?top" by (simp add: area_range_def)
          then have "registry_ok ?v" using assms(1) e(2,3) None' out le(2) by (auto simp: registry_ok_def)
          moreover have "register_memory_area name location width_bit addr_loc u = Some (True, ?v)"
            using assms(2,3) None Some loc False e(1) None' by (simp add: register_memory_area_def assert_that_def Let_def)
          ultimately show ?thesis using iff None' sub Some loc by auto
        next
          case (Some w)
          have "register_memory_area name location width_bit addr_loc u = Some (False, ?u\<lparr>addr_to_mem := m\<rparr>)"
            using assms(2,3) None \<open>addr_loc = Some loc\<close> loc False e(1) Some by (simp add: register_memory_area_def assert_that_def Let_def)
          moreover have "?u\<lparr>addr_to_mem := m\<rparr> = ?u" using e(3) Some by simp
          ultimately show ?thesis using iff Some ok sub by auto
        qed
      qed
    qed
  qed
qed

lemma register_keeps_witness:
  "\<exists>u v. register_memory_area ''ram'' ''tb.ram'' 32 (Some (0x80000000, 0x100)) memutil_empty = Some (True, u) \<and>
    register_memory_area ''rom'' ''tb.rom'' 64 (Some (0x800000F0, 0x20)) u = Some (False, v) \<and> name_to_mem v ''rom'' \<noteq> None \<and> registry_ok v"
proof -
  have "registers ''ram'' (Some (0x80000000, 0x100)) memutil_empty" by (simp add: registers_def memutil_empty_def covered_def)
  then obtain u A where u: "register_memory_area ''ram'' ''tb.ram'' 32 (Some (0x80000000, 0x100)) memutil_empty = Some (True, u)" "registry_ok u"
    "name_to_mem u ''ram'' = Some A" "ma_base A = 0x80000000" "ma_size A = 0x100"
    using register_keeps [OF registry_empty, of 32 "''ram''" "''tb.ram''" "Some (0x80000000, 0x100)"] by auto
  have "(area_range A, ''ram'') \<in> set (addr_to_mem u)" using u(2,3,5) by (auto simp: registry_ok_def)
  then have "0x800000F0 \<in> covered (addr_to_mem u)" using u(4,5) by (force simp: covered_def area_range_def)
  then have "0x800000F0 \<in> {0x800000F0..0x800000F0 + (0x20 - 1)} \<inter> covered (addr_to_mem u)" by simp
  then have "{0x800000F0..0x800000F0 + (0x20 - 1)} \<inter> covered (addr_to_mem u) \<noteq> {}" by blast
  then have "\<not> registers ''rom'' (Some (0x800000F0, 0x20)) u" by (simp add: registers_def)
  then show ?thesis using u(1) register_keeps [OF u(2), of 64 "''rom''" "''tb.rom''" "Some (0x800000F0, 0x20)"] by auto
qed

section \<open>Staging an ELF file\<close>

text \<open>The bytes of a segment, and the memory image of the file: a byte map in which later program headers
  override earlier ones.\<close>

definition loadable :: "phdr \<Rightarrow> bool" where
  "loadable ph \<longleftrightarrow> p_type ph = PT_LOAD \<and> p_memsz ph \<noteq> 0"

definition content :: "elf \<Rightarrow> phdr \<Rightarrow> byte list" where
  "content f ph =
     (let src = take (min (unat (p_filesz ph)) (unat (p_memsz ph))) (drop (unat (p_offset ph)) (e_data f))
      in src @ replicate (unat (p_memsz ph) - length src) 0)"

fun load_image :: "elf \<Rightarrow> phdr list \<Rightarrow> u32 \<Rightarrow> byte option" where
  "load_image f [] = Map.empty"
| "load_image f (ph # phs) = (if loadable ph then seg_map (ucast (p_paddr ph)) (content f ph) else Map.empty) ++ load_image f phs"

text \<open>The bytes of the file that a segment needs are there, and it lies in the area \<open>A\<close>, aligned to its words.\<close>

definition in_file :: "elf \<Rightarrow> phdr \<Rightarrow> bool" where
  "in_file f ph \<longleftrightarrow> unat (p_offset ph) + unat (p_filesz ph) < 2 ^ 64 \<and> unat (p_offset ph) + unat (p_filesz ph) \<le> length (e_data f)"

definition lies_in :: "phdr \<Rightarrow> mem_area \<Rightarrow> bool" where
  "lies_in ph A \<longleftrightarrow> unat (ma_base A) \<le> unat (p_paddr ph) \<and>
     unat (p_paddr ph) + unat (p_memsz ph) \<le> unat (ma_base A) + unat (ma_size A) \<and>
     width_byte A \<noteq> 0 \<and> (unat (p_paddr ph) - unat (ma_base A)) mod unat (width_byte A) = 0"

definition area_of :: "memutil \<Rightarrow> mem_area \<Rightarrow> bool" where
  "area_of u A \<longleftrightarrow> name_to_mem u (ma_name A) = Some A \<and> ma_size A \<noteq> 0"

lemma in_file_bytes:
  assumes "in_file f ph"
  shows "segment_bytes f ph = Some (content f ph)" and "length (content f ph) = unat (p_memsz ph)"
    and "unat (p_offset ph + p_filesz ph) \<le> length (e_data f)"
  using assms by (simp_all add: segment_bytes_def bytes_from_def content_def in_file_def Let_def min_def unat_word_ariths)

lemma area_bounds:
  assumes "registry_ok u" and "area_of u A"
  shows "unat (ma_base A) + unat (ma_size A) \<le> 2 ^ 32" and "unat (hi (area_range A)) = unat (ma_base A) + unat (ma_size A) - 1"
    and "0 < unat (ma_size A)" and "(area_range A, ma_name A) \<in> set (addr_to_mem u)"
proof -
  show m: "(area_range A, ma_name A) \<in> set (addr_to_mem u)" using assms by (auto simp: registry_ok_def area_of_def)
  then have le: "ma_base A \<le> ma_base A + (ma_size A - 1)" using assms(1) by (force simp: registry_ok_def ranges_ok_def area_range_def)
  show z: "0 < unat (ma_size A)" using assms(2) by (simp add: area_of_def unat_gt_0)
  then have one: "unat (ma_size A - 1) = unat (ma_size A) - 1" by (simp add: unat_sub word_le_nat_alt Suc_leI)
  have sum: "unat (ma_base A + (ma_size A - 1)) = unat (ma_base A) + unat (ma_size A - 1)"
    using le by (metis (no_types) unat_plus_simple)
  show "unat (hi (area_range A)) = unat (ma_base A) + unat (ma_size A) - 1" using sum one z by (simp add: area_range_def)
  have "unat (ma_base A + (ma_size A - 1)) < 2 ^ 32" by (rule order.strict_trans2 [OF unsigned_less]) simp
  then show "unat (ma_base A) + unat (ma_size A) \<le> 2 ^ 32" using sum one z by linarith
qed

text \<open>The area of a segment that lies in one.\<close>

lemma region_found:
  assumes "registry_ok u" and "area_of u A" and "lies_in ph A" and "p_memsz ph \<noteq> 0"
  shows "get_region_for_segment u (ucast (p_paddr ph)) (ucast (p_memsz ph)) = Inr A"
    and "unat (ucast (p_paddr ph) :: u32) = unat (p_paddr ph)" and "unat (ucast (p_memsz ph) :: u32) = unat (p_memsz ph)"
    and "unat (ucast (p_paddr ph - ucast (ma_base A)) :: u32) = unat (p_paddr ph) - unat (ma_base A)"
proof -
  note b = area_bounds [OF assms(1,2)]
  have n: "unat (ma_base A) \<le> unat (p_paddr ph)" "unat (p_paddr ph) + unat (p_memsz ph) \<le> unat (ma_base A) + unat (ma_size A)"
    using assms(3) by (simp_all add: lies_in_def)
  have z: "0 < unat (p_memsz ph)" using assms(4) by (simp add: unat_gt_0)
  have lt: "unat (p_paddr ph) < 2 ^ 32" using n(2) z b(1) by linarith
  have "unat (ma_size A) < 2 ^ 32" by (rule order.strict_trans2 [OF unsigned_less]) simp
  then have lt': "unat (p_memsz ph) < 2 ^ 32" using n by linarith
  show u1: "unat (ucast (p_paddr ph) :: u32) = unat (p_paddr ph)" and u2: "unat (ucast (p_memsz ph) :: u32) = unat (p_memsz ph)"
    using lt lt' by (simp_all add: unsigned_ucast_eq take_bit_nat_eq_self)
  have "unat (ma_base A) < 2 ^ 32" by (rule order.strict_trans2 [OF unsigned_less]) simp
  then have base: "unat (ucast (ma_base A) :: u64) = unat (ma_base A)" by (simp add: unsigned_ucast_eq take_bit_nat_eq_self)
  then have "unat (p_paddr ph - ucast (ma_base A)) = unat (p_paddr ph) - unat (ma_base A)" using n(1) by (simp add: unat_sub word_le_nat_alt)
  then show "unat (ucast (p_paddr ph - ucast (ma_base A)) :: u32) = unat (p_paddr ph) - unat (ma_base A)"
    using lt by (simp add: unsigned_ucast_eq take_bit_nat_eq_self)
  let ?lma = "ucast (p_paddr ph) :: u32" and ?sz = "ucast (p_memsz ph) :: u32"
  have one: "unat (?sz - 1) = unat (p_memsz ph) - 1" using z u2 by (simp add: unat_sub word_le_nat_alt Suc_leI)
  have top: "unat (?lma + (?sz - 1)) = unat (p_paddr ph) + (unat (p_memsz ph) - 1)"
    using n b(1) z one u1 by (simp add: unat_word_ariths)
  have "?lma \<le> hi (area_range A)" using n z b(2) u1 by (simp add: word_le_nat_alt)
  moreover have "lo (area_range A) \<le> ?lma" using n u1 by (simp add: area_range_def word_le_nat_alt)
  ultimately have "find_range (addr_to_mem u) ?lma = Some (area_range A, ma_name A)"
    using assms(1) b(4) by (simp add: find_range_iff registry_ok_def)
  moreover have "ma_base A \<le> ?lma" "\<not> ?lma + (?sz - 1) < ?lma" "\<not> ma_size A \<le> ?lma + (?sz - 1) - ma_base A"
    using n z u1 top by (simp_all add: word_le_nat_alt word_less_nat_alt unat_sub)
  moreover have "?sz \<noteq> 0" using u2 z by auto
  ultimately show "get_region_for_segment u ?lma ?sz = Inr A"
    using assms(2) by (simp add: get_region_for_segment_def area_of_def Let_def)
qed

text \<open>One segment more.\<close>

lemma stage_one:
  assumes "registry_ok u" and "area_of u A" and "lies_in ph A" and "loadable ph" and "in_file f ph"
    and "staged_ok (get_memory_data u (ma_name A))"
  shows "\<exists>s. stage_phdr f ph u = Inr (u\<lparr>staging_area := (staging_area u)(ma_name A \<mapsto> s)\<rparr>) \<and> staged_ok s \<and>
    staged_abs s = staged_abs (get_memory_data u (ma_name A)) ++ seg_map (ucast (p_paddr ph - ucast (ma_base A))) (content f ph)"
proof -
  define loc where "loc = (ucast (p_paddr ph - ucast (ma_base A)) :: u32)"
  have nz: "p_memsz ph \<noteq> 0" using assms(4) by (simp add: loadable_def)
  note r = region_found [OF assms(1-3) nz, folded loc_def] and c = in_file_bytes [OF assms(5)]
  have l: "unat (ma_base A) \<le> unat (p_paddr ph)" "unat (p_paddr ph) + unat (p_memsz ph) \<le> unat (ma_base A) + unat (ma_size A)"
    "width_byte A \<noteq> 0" "(unat (p_paddr ph) - unat (ma_base A)) mod unat (width_byte A) = 0" using assms(3) by (simp_all add: lies_in_def)
  have "unat (ma_size A) < 2 ^ 32" by (rule order.strict_trans2 [OF unsigned_less]) simp
  then have "unat loc + length (content f ph) < 2 ^ 32" using l(1,2) unfolding c(2) r(4) by linarith
  from add_segment_refines [OF assms(6) this] obtain s where
    s: "add_segment loc (content f ph) (get_memory_data u (ma_name A)) = Some s" "staged_ok s"
      "staged_abs s = staged_abs (get_memory_data u (ma_name A)) ++ seg_map loc (content f ph)" by blast
  have "unat (loc mod width_byte A) = 0" using l(4) by (simp add: unat_mod r(4))
  then have "loc mod width_byte A = 0" by (simp add: unat_eq_0)
  then have "stage_phdr f ph u = Inr (u\<lparr>staging_area := (staging_area u)(ma_name A \<mapsto> s)\<rparr>)"
    using assms(4) nz l(3) r(1) c(1,3) s(1)
    by (simp add: stage_phdr_def loadable_def loc_def [symmetric] get_memory_data_def or_fault_def)
  then show ?thesis using s(2,3) unfolding loc_def by blast
qed

definition holds_image :: "memutil \<Rightarrow> (u32 \<Rightarrow> byte option) \<Rightarrow> bool" where
  "holds_image u img \<longleftrightarrow> (\<forall>A. area_of u A \<longrightarrow> staged_ok (get_memory_data u (ma_name A)) \<and>
     (\<forall>off < ma_size A. staged_map (segs (get_memory_data u (ma_name A))) off = img (ma_base A + off)))"

text \<open>A segment in the area \<open>A\<close>, seen at an offset of the area \<open>B\<close>.\<close>

lemma seg_map_area:
  assumes "registry_ok u" and "area_of u A" and "lies_in ph A" and "p_memsz ph \<noteq> 0" and "length v = unat (p_memsz ph)"
    and "area_of u B" and "off < ma_size B"
  shows "seg_map (ucast (p_paddr ph)) v (ma_base B + off) =
    (if ma_name B = ma_name A then seg_map (ucast (p_paddr ph - ucast (ma_base A))) v off else None)"
proof -
  note r = region_found [OF assms(1-4)] and a = area_bounds [OF assms(1,2)] and b = area_bounds [OF assms(1,6)]
  have l: "unat (ma_base A) \<le> unat (p_paddr ph)" "unat (p_paddr ph) + unat (p_memsz ph) \<le> unat (ma_base A) + unat (ma_size A)"
    using assms(3) by (simp_all add: lies_in_def)
  have o: "unat off < unat (ma_size B)" using assms(7) by (simp add: word_less_nat_alt)
  then have s: "unat (ma_base B + off) = unat (ma_base B) + unat off" using b(1) by (simp add: unat_word_ariths)
  show ?thesis
  proof (cases "ma_name B = ma_name A")
    case True
    then have "B = A" using assms(2,6) by (simp add: area_of_def)
    then have e: "unat (p_paddr ph) \<le> unat (ma_base B) + unat off \<longleftrightarrow> unat (p_paddr ph) - unat (ma_base B) \<le> unat off"
      "unat (ma_base B) + unat off - unat (p_paddr ph) = unat off - (unat (p_paddr ph) - unat (ma_base B))" using l(1) by auto
    have "unat (ma_base A + off) = unat (ma_base A) + unat off" using s \<open>B = A\<close> by simp
    then show ?thesis using e \<open>B = A\<close> by (simp only: seg_map_def word_le_nat_alt r(2,4) simp_thms if_True)
  next
    case False
    have "ranges_ok (addr_to_mem u)" using assms(1) by (simp add: registry_ok_def)
    moreover have "find_range (addr_to_mem u) x = Some (area_range C, ma_name C)" if "area_of u C" "lo (area_range C) \<le> x" "x \<le> hi (area_range C)" for C x
      using find_range_iff [OF calculation] area_bounds(4) [OF assms(1) that(1)] that by auto
    ultimately have apart: "\<not> (lo (area_range A) \<le> x \<and> x \<le> hi (area_range A) \<and> lo (area_range B) \<le> x \<and> x \<le> hi (area_range B))" for x
      using assms(2,6) False by (metis Pair_inject option.inject)
    have "seg_map (ucast (p_paddr ph)) v (ma_base B + off) = None"
    proof (rule ccontr)
      assume "seg_map (ucast (p_paddr ph)) v (ma_base B + off) \<noteq> None"
      then have i: "unat (p_paddr ph) \<le> unat (ma_base B) + unat off" "unat (ma_base B) + unat off - unat (p_paddr ph) < unat (p_memsz ph)"
        by (auto simp: seg_map_def word_le_nat_alt s r(2) assms(5) split: if_splits)
      have "lo (area_range A) \<le> ma_base B + off" "ma_base B + off \<le> hi (area_range A)" "lo (area_range B) \<le> ma_base B + off" "ma_base B + off \<le> hi (area_range B)"
        unfolding word_le_nat_alt s a(2) b(2) using i l o by (simp_all add: area_range_def)
      then show False using apart by blast
    qed
    then show ?thesis using False by simp
  qed
qed

lemma stage_step:
  assumes "registry_ok u" and "area_of u A" and "lies_in ph A" and "loadable ph" and "in_file f ph" and "holds_image u img"
  shows "\<exists>s. stage_phdr f ph u = Inr (u\<lparr>staging_area := (staging_area u)(ma_name A \<mapsto> s)\<rparr>) \<and>
    holds_image (u\<lparr>staging_area := (staging_area u)(ma_name A \<mapsto> s)\<rparr>) (img ++ seg_map (ucast (p_paddr ph)) (content f ph))"
proof -
  have nz: "p_memsz ph \<noteq> 0" using assms(4) by (simp add: loadable_def)
  have ok: "staged_ok (get_memory_data u (ma_name A))" using assms(2,6) by (simp add: holds_image_def)
  obtain s where s: "stage_phdr f ph u = Inr (u\<lparr>staging_area := (staging_area u)(ma_name A \<mapsto> s)\<rparr>)" "staged_ok s"
    "staged_abs s = staged_abs (get_memory_data u (ma_name A)) ++ seg_map (ucast (p_paddr ph - ucast (ma_base A))) (content f ph)"
    using stage_one [OF assms(1-5) ok] by blast
  let ?u = "u\<lparr>staging_area := (staging_area u)(ma_name A \<mapsto> s)\<rparr>"
  have g: "get_memory_data ?u n = (if n = ma_name A then s else get_memory_data u n)" for n by (simp add: get_memory_data_def)
  have "holds_image ?u (img ++ seg_map (ucast (p_paddr ph)) (content f ph))"
    unfolding holds_image_def
  proof (intro allI impI conjI)
    fix B assume "area_of ?u B"
    then have B: "area_of u B" by (simp add: area_of_def)
    then have h: "staged_ok (get_memory_data u (ma_name B))"
      "\<And>off. off < ma_size B \<Longrightarrow> staged_map (segs (get_memory_data u (ma_name B))) off = img (ma_base B + off)"
      using assms(6) by (simp_all add: holds_image_def)
    show "staged_ok (get_memory_data ?u (ma_name B))" using h(1) s(2) by (simp add: g)
    fix off assume off: "off < ma_size B"
    note sm = seg_map_area [OF assms(1-3) nz in_file_bytes(2) [OF assms(5)] B off]
    show "staged_map (segs (get_memory_data ?u (ma_name B))) off = (img ++ seg_map (ucast (p_paddr ph)) (content f ph)) (ma_base B + off)"
      using h(2) [OF off] s(3) by (cases "ma_name B = ma_name A") (auto simp: g sm map_add_def staged_abs_def split: option.split)
  qed
  then show ?thesis using s(1) by blast
qed

lemma stage_phdrs_image:
  assumes "registry_ok u" and "\<forall>ph \<in> set phs. loadable ph \<longrightarrow> in_file f ph \<and> (\<exists>A. area_of u A \<and> lies_in ph A)" and "holds_image u img"
  shows "\<exists>u'. stage_phdrs f phs u = Inr u' \<and> name_to_mem u' = name_to_mem u \<and> addr_to_mem u' = addr_to_mem u \<and>
    holds_image u' (img ++ load_image f phs)"
  using assms
proof (induction phs arbitrary: u img)
  case (Cons ph phs)
  show ?case
  proof (cases "loadable ph")
    case False
    then have "stage_phdr f ph u = Inr u" by (auto simp: stage_phdr_def loadable_def)
    then show ?thesis using Cons.IH [OF Cons.prems(1) _ Cons.prems(3)] Cons.prems(2) False by simp
  next
    case True
    then obtain A where A: "area_of u A" "lies_in ph A" "in_file f ph" using Cons.prems(2) by auto
    obtain s where s: "stage_phdr f ph u = Inr (u\<lparr>staging_area := (staging_area u)(ma_name A \<mapsto> s)\<rparr>)"
      "holds_image (u\<lparr>staging_area := (staging_area u)(ma_name A \<mapsto> s)\<rparr>) (img ++ seg_map (ucast (p_paddr ph)) (content f ph))"
      using stage_step [OF Cons.prems(1) A(1,2) True A(3) Cons.prems(3)] by blast
    let ?u = "u\<lparr>staging_area := (staging_area u)(ma_name A \<mapsto> s)\<rparr>"
    have "registry_ok ?u" "area_of ?u = area_of u" using Cons.prems(1) by (auto simp: registry_ok_def area_of_def fun_eq_iff)
    then show ?thesis using Cons.IH [OF _ _ s(2)] Cons.prems(2) s(1) True by simp
  qed
qed simp

lemma region_of_address:
  assumes "registry_ok u" and "area_of u A" and "off < ma_size A"
  shows "find_range (addr_to_mem u) (ma_base A + off) = Some (area_range A, ma_name A)"
proof -
  note b = area_bounds [OF assms(1,2)]
  have "unat (ma_base A + off) = unat (ma_base A) + unat off" "unat off < unat (ma_size A)"
    using assms(3) b(1) by (simp_all add: unat_word_ariths word_less_nat_alt)
  then show ?thesis using assms(1) b(2,4) by (simp add: find_range_iff registry_ok_def area_range_def word_le_nat_alt)
qed

text \<open>C0. Staging places an ELF file: when every loadable segment has its bytes in the file and lies, aligned
  to the words, in one of the registered areas, \<open>StageElf\<close> ends without an error, and then each
  area holds at each of its offsets what the memory image of the file has at the load address, the
  byte of the last program header that covers it, with zeros behind the bytes of the file, and nothing
  where no segment goes; what was staged before is gone.\<close>

theorem stage_elf_places:
  assumes "registry_ok u" and "\<forall>ph \<in> set (e_phdrs f). loadable ph \<longrightarrow> in_file f ph \<and> (\<exists>A. area_of u A \<and> lies_in ph A)"
  shows "\<exists>u'. stage_elf f u = Inr u' \<and> registry_ok u' \<and> (\<forall>A off. area_of u A \<and> off < ma_size A \<longrightarrow>
    find_range (addr_to_mem u') (ma_base A + off) = Some (area_range A, ma_name A) \<and>
    staged_map (segs (get_memory_data u' (ma_name A))) off = load_image f (e_phdrs f) (ma_base A + off))"
proof -
  let ?u = "u\<lparr>staging_area := Map.empty\<rparr>"
  have r: "registry_ok ?u" "area_of ?u = area_of u" using assms(1) by (auto simp: registry_ok_def area_of_def fun_eq_iff)
  have "holds_image ?u Map.empty"
    using staged_empty_ok by (simp add: holds_image_def get_memory_data_def staged_abs_def fun_eq_iff)
  moreover have "\<forall>ph \<in> set (e_phdrs f). loadable ph \<longrightarrow> in_file f ph \<and> (\<exists>A. area_of ?u A \<and> lies_in ph A)" using assms(2) r(2) by simp
  ultimately obtain u' where
    u': "stage_elf f u = Inr u'" "name_to_mem u' = name_to_mem u" "addr_to_mem u' = addr_to_mem u" "holds_image u' (load_image f (e_phdrs f))"
    using stage_phdrs_image [OF r(1), of "e_phdrs f" f Map.empty] by (auto simp: stage_elf_def)
  then have "registry_ok u'" "area_of u' = area_of u" using assms(1) by (auto simp: registry_ok_def area_of_def fun_eq_iff)
  then show ?thesis using u' region_of_address [OF assms(1)] by (auto simp: holds_image_def)
qed

definition demo_elf :: elf where
  "demo_elf = \<lparr>e_phdrs = [\<lparr>p_type = 1, p_offset = 1, p_paddr = 0x80000010, p_filesz = 3, p_memsz = 6\<rparr>,
       \<lparr>p_type = 6, p_offset = 0, p_paddr = 0, p_filesz = 9, p_memsz = 9\<rparr>,
       \<lparr>p_type = 1, p_offset = 4, p_paddr = 0x80000014, p_filesz = 1, p_memsz = 1\<rparr>],
     e_data = [0x7F, 1, 2, 3, 4]\<rparr>"

definition demo_ram :: mem_area where
  "demo_ram = \<lparr>ma_name = ''ram'', ma_location = ''tb.ram'', width_byte = 4, ma_base = 0x80000000, ma_size = 0x100\<rparr>"

lemma stage_elf_places_witness:
  "\<exists>u u'. register_memory_area ''ram'' ''tb.ram'' 32 (Some (0x80000000, 0x100)) memutil_empty = Some (True, u) \<and> stage_elf demo_elf u = Inr u' \<and>
    staged_map (segs (get_memory_data u' ''ram'')) 0x12 = Some 3 \<and> staged_map (segs (get_memory_data u' ''ram'')) 0x14 = Some 4 \<and>
    staged_map (segs (get_memory_data u' ''ram'')) 0x15 = Some 0 \<and> staged_map (segs (get_memory_data u' ''ram'')) 0x16 = None"
proof -
  let ?u = "\<lparr>name_to_mem = [''ram'' \<mapsto> demo_ram], addr_to_mem = [(AddrRange 0x80000000 0x800000FF, ''ram'')], staging_area = Map.empty\<rparr>"
  have reg: "register_memory_area ''ram'' ''tb.ram'' 32 (Some (0x80000000, 0x100)) memutil_empty = Some (True, ?u)"
    by (simp add: register_memory_area_def assert_that_def memutil_empty_def emplace_disjoint_def map_insert_def upper_bound_def demo_ram_def)
  have ok: "registry_ok ?u" by (auto simp: registry_ok_def ranges_ok_def area_range_def demo_ram_def split: if_splits)
  have A: "area_of ?u demo_ram" by (simp add: area_of_def demo_ram_def)
  have "lies_in \<lparr>p_type = 1, p_offset = 1, p_paddr = 0x80000010, p_filesz = 3, p_memsz = 6\<rparr> demo_ram"
    "lies_in \<lparr>p_type = 1, p_offset = 4, p_paddr = 0x80000014, p_filesz = 1, p_memsz = 1\<rparr> demo_ram" by (simp_all add: lies_in_def demo_ram_def)
  then have "\<forall>ph \<in> set (e_phdrs demo_elf). loadable ph \<longrightarrow> in_file demo_elf ph \<and> (\<exists>A. area_of ?u A \<and> lies_in ph A)"
    using A by (auto simp: demo_elf_def loadable_def PT_LOAD_def in_file_def)
  from stage_elf_places [OF ok this] obtain u' where u': "stage_elf demo_elf ?u = Inr u'"
    "\<forall>off < 0x100. staged_map (segs (get_memory_data u' ''ram'')) off = load_image demo_elf (e_phdrs demo_elf) (0x80000000 + off)"
    using A by (force simp: demo_ram_def)
  have "load_image demo_elf (e_phdrs demo_elf) 0x80000012 = Some 3" "load_image demo_elf (e_phdrs demo_elf) 0x80000014 = Some 4"
    "load_image demo_elf (e_phdrs demo_elf) 0x80000015 = Some 0" "load_image demo_elf (e_phdrs demo_elf) 0x80000016 = None"
    by (simp_all add: demo_elf_def loadable_def PT_LOAD_def content_def seg_map_def map_add_def Let_def)
  then show ?thesis using reg u'(1) spec [OF u'(2), of "0x12"] spec [OF u'(2), of "0x14"] spec [OF u'(2), of "0x15"] spec [OF u'(2), of "0x16"] by auto
qed

text \<open>C0. Load addresses count modulo 2 to the 32: \<open>StageElf\<close> hands the 64-bit address of a segment to a parameter
  of 32 bits, so a file whose segments all lie 4 GiB higher is staged exactly as the file itself,
  without an error.\<close>

theorem stage_elf_wraps:
  "stage_elf (f\<lparr>e_phdrs := map (\<lambda>ph. ph\<lparr>p_paddr := p_paddr ph + 2 ^ 32\<rparr>) (e_phdrs f)\<rparr>) u = stage_elf f u"
proof -
  have t: "ucast (x + 2 ^ 32 :: u64) = (ucast x :: u32)" for x
    by (rule word_unat_eq_iff [THEN iffD2]) (simp add: unsigned_ucast_eq take_bit_eq_mod unat_word_ariths mod_mod_cancel)
  have "ucast (x + 2 ^ 32 - y :: u64) = (ucast (x - y) :: u32)" for x y using t [of "x - y"] by (simp add: algebra_simps)
  then have "stage_phdr (f\<lparr>e_phdrs := phs\<rparr>) (ph\<lparr>p_paddr := p_paddr ph + 2 ^ 32\<rparr>) u = stage_phdr f ph u" for phs ph u
    using t by (simp add: stage_phdr_def segment_bytes_def Let_def split: sum.split)
  then have "stage_phdrs (f\<lparr>e_phdrs := phs'\<rparr>) (map (\<lambda>ph. ph\<lparr>p_paddr := p_paddr ph + 2 ^ 32\<rparr>) phs) u = stage_phdrs f phs u" for phs' phs u
    by (induction phs arbitrary: u) (simp_all split: sum.split)
  then show ?thesis by (simp add: stage_elf_def)
qed

section \<open>The flat image\<close>

definition kept :: "elf \<Rightarrow> phdr list" where
  "kept f = filter (\<lambda>ph. \<not> ignored ph) (e_phdrs f)"

definition seg_top :: "phdr \<Rightarrow> u64" where
  "seg_top ph = p_paddr ph + (p_memsz ph - 1)"

lemma flat_bounds_Some:
  assumes "\<forall>ph \<in> set phs. \<not> ignored ph \<longrightarrow> p_paddr ph \<le> seg_top ph"
  shows "\<exists>low high. flat_bounds phs (Some (l, h)) = Inr (Some (low, high)) \<and>
    low = Min (insert l (p_paddr ` {ph \<in> set phs. \<not> ignored ph})) \<and> high = Max (insert h (seg_top ` {ph \<in> set phs. \<not> ignored ph}))"
  using assms
proof (induction phs arbitrary: l h)
  case (Cons ph phs)
  show ?case
  proof (cases "ignored ph")
    case True
    then have "{p \<in> set (ph # phs). \<not> ignored p} = {p \<in> set phs. \<not> ignored p}" by auto
    then show ?thesis using Cons True by simp
  next
    case False
    then have s: "{p \<in> set (ph # phs). \<not> ignored p} = insert ph {p \<in> set phs. \<not> ignored p}" by auto
    have t: "\<not> seg_top ph < p_paddr ph" using Cons.prems False by auto
    have m: "Min (insert (min (p_paddr ph) l) (p_paddr ` X)) = Min (insert l (p_paddr ` insert ph X))"
      "Max (insert (max (seg_top ph) h) (seg_top ` X)) = Max (insert h (seg_top ` insert ph X))" if "finite X" for X
      using that by (cases "X = {}"; simp add: min.left_commute min.commute min.assoc max.left_commute max.commute max.assoc)+
    show ?thesis using Cons.IH [of "min (p_paddr ph) l" "max (seg_top ph) h"] Cons.prems False t
      unfolding s by (simp add: Let_def seg_top_def [symmetric] m del: Min_insert Max_insert)
  qed
qed simp

lemma flat_bounds_None:
  assumes "\<forall>ph \<in> set phs. \<not> ignored ph \<longrightarrow> p_paddr ph \<le> seg_top ph" and "\<exists>ph \<in> set phs. \<not> ignored ph"
  shows "flat_bounds phs None = Inr (Some (Min (p_paddr ` {ph \<in> set phs. \<not> ignored ph}), Max (seg_top ` {ph \<in> set phs. \<not> ignored ph})))"
  using assms
proof (induction phs)
  case (Cons ph phs)
  show ?case
  proof (cases "ignored ph")
    case True
    then have "{p \<in> set (ph # phs). \<not> ignored p} = {p \<in> set phs. \<not> ignored p}" by auto
    then show ?thesis using Cons True by simp
  next
    case False
    then have s: "{p \<in> set (ph # phs). \<not> ignored p} = insert ph {p \<in> set phs. \<not> ignored p}" by auto
    have "\<not> seg_top ph < p_paddr ph" using Cons.prems False by auto
    then show ?thesis using flat_bounds_Some [of phs "p_paddr ph" "seg_top ph"] Cons.prems(1) False
      unfolding s by (simp add: Let_def seg_top_def [symmetric] del: Min_insert Max_insert)
  qed
qed simp

lemma flat_segments_add:
  assumes "\<forall>ph \<in> set phs. \<not> ignored ph \<longrightarrow> in_file f ph"
  shows "flat_segments f low phs ret =
    or_fault (add_segments (map (\<lambda>ph. (ucast (p_paddr ph - low), content f ph)) (filter (\<lambda>ph. \<not> ignored ph) phs)) ret)"
  using assms
proof (induction phs arbitrary: ret)
  case (Cons ph phs)
  show ?case
  proof (cases "ignored ph")
    case False
    then have "in_file f ph" using Cons.prems by simp
    note c = in_file_bytes [OF this]
    show ?thesis using Cons False c
      by (cases "add_segment (ucast (p_paddr ph - low)) (content f ph) ret") (simp_all add: or_fault_def)
  qed (use Cons in simp)
qed (simp add: or_fault_def)

text \<open>The flat image of the kept segments, relative to the lowest address.\<close>

lemma flatten_image:
  assumes "kept f \<noteq> []" and low: "low = Min (p_paddr ` set (kept f))"
    and seg: "\<forall>ph \<in> set (kept f). in_file f ph \<and> unat (p_paddr ph) + unat (p_memsz ph) \<le> 2 ^ 64 \<and>
      unat (p_paddr ph) - unat low + unat (p_memsz ph) < 2 ^ 32"
    and img: "img = image_of (map (\<lambda>ph. (ucast (p_paddr ph - low), content f ph)) (kept f))"
  shows "\<exists>v. flatten_elf_file f = Inr v \<and> v \<noteq> [] \<and> (\<forall>i < length v. v ! i = or_zero (img (of_nat i))) \<and>
    (\<forall>a. img a \<noteq> None \<longrightarrow> unat a < length v) \<and> img (of_nat (length v - 1)) \<noteq> None"
proof -
  let ?es = "map (\<lambda>ph. (ucast (p_paddr ph - low) :: u32, content f ph)) (kept f)"
  have k: "{ph \<in> set (e_phdrs f). \<not> ignored ph} = set (kept f)" by (simp add: kept_def)
  have nz: "0 < unat (p_memsz ph)" if "ph \<in> set (kept f)" for ph using that by (auto simp: kept_def ignored_def unat_gt_0)
  have ge: "low \<le> p_paddr ph" if "ph \<in> set (kept f)" for ph using that low by simp
  have top: "p_paddr ph \<le> seg_top ph" if ph: "ph \<in> set (kept f)" for ph
  proof -
    have "unat (p_memsz ph - 1) = unat (p_memsz ph) - 1" using nz [OF ph] by (simp add: unat_sub word_le_nat_alt Suc_leI)
    moreover have "unat (p_paddr ph) + (unat (p_memsz ph) - 1) < 2 ^ 64" using seg ph nz [OF ph] by fastforce
    ultimately show ?thesis by (simp add: seg_top_def word_le_nat_alt unat_word_ariths)
  qed
  have off: "unat (ucast (p_paddr ph - low) :: u32) = unat (p_paddr ph) - unat low" if ph: "ph \<in> set (kept f)" for ph
    using seg ph ge [OF ph] by (fastforce simp: unsigned_ucast_eq take_bit_nat_eq_self unat_sub)
  have "\<exists>ph \<in> set (e_phdrs f). \<not> ignored ph" using assms(1) k by (metis (mono_tags, lifting) empty_iff ex_in_conv mem_Collect_eq set_empty)
  then have b: "flat_bounds (e_phdrs f) None = Inr (Some (low, Max (seg_top ` set (kept f))))"
    using flat_bounds_None [of "e_phdrs f"] top unfolding k low by (auto simp: kept_def)
  have "low \<in> p_paddr ` set (kept f)" unfolding low by (rule Min_in) (use assms(1) in simp_all)
  then obtain ph0 where ph0: "ph0 \<in> set (kept f)" "p_paddr ph0 = low" by auto
  have "low \<le> Max (seg_top ` set (kept f))" using ph0 top [OF ph0(1)] by (auto intro: order_trans [OF _ Max_ge])
  have "\<forall>(off, seg) \<in> set ?es. unat off + length seg < 2 ^ 32" using seg off in_file_bytes(2) by auto
  from add_segments_refines [OF this staged_empty_ok(1)] obtain s where
    s: "add_segments ?es staged_empty = Some s" "staged_ok s" "staged_abs s = img" using staged_empty_ok(2) img by auto
  have dom: "dom img = covered (segs s)" using staged_ok_dom [OF s(2)] s(3) by simp
  have "image_of (map (\<lambda>ph. (ucast (p_paddr ph - low), content f ph)) phs) 0 \<noteq> None" if "ph0 \<in> set phs" "set phs \<subseteq> set (kept f)" for phs
    using that
  proof (induction phs)
    case (Cons ph phs)
    have "seg_map (ucast (p_paddr ph0 - low)) (content f ph0) 0 \<noteq> None"
      using seg ph0 nz [OF ph0(1)] in_file_bytes(2) [of f ph0] by (simp add: seg_map_def)
    then show ?case using Cons by (auto simp: map_add_def split: option.splits)
  qed simp
  then have "0 \<in> covered (segs s)" using ph0(1) dom img by auto
  then have ne: "segs s \<noteq> []" by (auto simp: covered_def)
  then have "covered (segs s) \<subseteq> {min_addr s..max_addr s}" "max_addr s \<in> covered (segs s)" using s(2) by (simp_all add: staged_ok_def)
  moreover have "min_addr s = 0" using calculation(1) \<open>0 \<in> covered (segs s)\<close> by (auto simp: word_le_nat_alt unat_eq_0)
  moreover obtain v where v: "get_flat s = Some v" "length v = Suc (unat (max_addr s) - unat (min_addr s))"
    "\<forall>i < length v. v ! i = or_zero (img (min_addr s + of_nat i))" using get_flat_bytes [OF s(2) ne] s(3) by auto
  moreover have "flatten_elf_file f = Inr v"
    using b \<open>low \<le> Max (seg_top ` set (kept f))\<close> v(1) s(1) seg
    by (simp add: flatten_elf_file_def flat_segments_add kept_def or_fault_def)
  moreover have "a \<le> max_addr s" if "img a \<noteq> None" for a
  proof -
    have "a \<in> covered (segs s)" using that unfolding dom [symmetric] by auto
    then show ?thesis using calculation(1) by auto
  qed
  moreover have "img (max_addr s) \<noteq> None" using dom calculation(2) by auto
  ultimately show ?thesis by (intro exI [of _ v]) (auto simp: word_le_nat_alt less_Suc_eq_le)
qed

end
