(* ===== verification/Mem_Writer.thy ===== *)
theory Mem_Writer
  imports Memutil "HOL-Library.List_Lexorder" "HOL-Library.Char_ord"
begin

text \<open>
  The writing of the simulated memories in \<open>dpi_memutil.cc\<close>: \<open>WriteSegment\<close>, which hands a segment word by
  word to the function \<open>simutil_set_mem\<close> of the simulation, and the two ways to load a file. The
  functions of the simulation are the parameter \<open>sim_port\<close> on a state \<open>'m\<close>: whether there is a scope,
  the setting of one word from a buffer of 64 bytes, and the loading of a VMEM file.
\<close>

record 'm sim_port =
  sp_scope :: "string \<Rightarrow> bool"
  sp_set_mem :: "string \<Rightarrow> u32 \<Rightarrow> byte list \<Rightarrow> 'm \<Rightarrow> bool \<times> 'm"
  sp_memload :: "string \<Rightarrow> string \<Rightarrow> 'm \<Rightarrow> 'm"

datatype load_error = Elf_error elf_error | No_scope | Set_failed | Bad_access | Unknown_type | Unknown_region

section \<open>WriteSegment\<close>

text \<open>The loop over the full words, from the word \<open>i\<close>; the buffer is not cleared between them.\<close>

fun write_full_words :: "'m sim_port \<Rightarrow> mem_area \<Rightarrow> u32 \<Rightarrow> byte list \<Rightarrow> nat \<Rightarrow> nat \<Rightarrow> byte list \<Rightarrow> 'm \<Rightarrow> load_error + 'm" where
  "write_full_words P m word_offset data i 0 minibuf s = Inr s"
| "write_full_words P m word_offset data i (Suc n) minibuf s =
     (let dst_word = word_offset + of_nat i; src_byte = of_nat i * width_byte m
      in case Option.bind (bytes_from data (unat src_byte) (unat (width_byte m))) (copy_at minibuf 0) of
           None \<Rightarrow> Inl Bad_access
         | Some minibuf \<Rightarrow>
             (case sp_set_mem P (ma_location m) dst_word minibuf s of (ok, s) \<Rightarrow>
                if ok then write_full_words P m word_offset data (Suc i) n minibuf s else Inl Set_failed))"

definition write_segment :: "'m sim_port \<Rightarrow> mem_area \<Rightarrow> u32 \<Rightarrow> byte list \<Rightarrow> 'm \<Rightarrow> load_error + 'm" where
  "write_segment P m offset data s =
     (if \<not> (width_byte m \<le> 64 \<and> (ma_size m = 0 \<or> unat offset + length data \<le> unat (ma_size m)) \<and>
           width_byte m \<noteq> 0 \<and> offset mod width_byte m = 0) then Inl Bad_access
      else if \<not> sp_scope P (ma_location m) then Inl No_scope
      else let minibuf = replicate 64 0;
               full_data_words = of_nat (length data div unat (width_byte m)) :: u32;
               part_data_word_len = of_nat (length data mod unat (width_byte m)) :: u32;
               word_offset = offset div width_byte m
        in case write_full_words P m word_offset data 0 (unat full_data_words) minibuf s of
             Inl err \<Rightarrow> Inl err
           | Inr s \<Rightarrow>
               if part_data_word_len = 0 then Inr s
               else let dst_word = word_offset + full_data_words; src_byte = full_data_words * width_byte m
                 in case Option.bind (bytes_from data (unat src_byte) (unat part_data_word_len)) (copy_at minibuf 0) of
                      None \<Rightarrow> Inl Bad_access
                    | Some minibuf \<Rightarrow>
                        (case sp_set_mem P (ma_location m) dst_word minibuf s of (ok, s) \<Rightarrow> if ok then Inr s else Inl Set_failed))"

section \<open>Loading\<close>

datatype image_type = Image_unknown | Image_elf | Image_vmem

definition get_mem_image_type_by_name :: "string \<Rightarrow> load_error + image_type" where
  "get_mem_image_type_by_name name =
     (if name = ''elf'' then Inr Image_elf else if name = ''vmem'' then Inr Image_vmem else Inl Unknown_type)"

definition detect_mem_image_type :: "string \<Rightarrow> load_error + image_type" where
  "detect_mem_image_type filepath =
     (if CHR ''.'' \<notin> set filepath then Inr Image_elf
      else get_mem_image_type_by_name (rev (takeWhile (\<lambda>c. c \<noteq> CHR ''.'') (rev filepath))))"

definition get_mem_image_type :: "string \<Rightarrow> string option \<Rightarrow> load_error + image_type" where
  "get_mem_image_type path type = (case type of Some name \<Rightarrow> get_mem_image_type_by_name name | None \<Rightarrow> detect_mem_image_type path)"

definition write_elf_to_mem :: "'m sim_port \<Rightarrow> mem_area \<Rightarrow> elf \<Rightarrow> 'm \<Rightarrow> load_error + 'm" where
  "write_elf_to_mem P m f s = (case flatten_elf_file f of Inl err \<Rightarrow> Inl (Elf_error err) | Inr data \<Rightarrow> write_segment P m 0 data s)"

definition write_vmem_to_mem :: "'m sim_port \<Rightarrow> mem_area \<Rightarrow> string \<Rightarrow> 'm \<Rightarrow> load_error + 'm" where
  "write_vmem_to_mem P m filepath s =
     (if sp_scope P (ma_location m) then Inr (sp_memload P (ma_location m) filepath s) else Inl No_scope)"

text \<open>\<open>read\<close> gives what libelf reads from the file at a path.\<close>

definition load_file_to_named_mem :: "'m sim_port \<Rightarrow> (string \<Rightarrow> elf) \<Rightarrow> string \<Rightarrow> string \<Rightarrow> image_type \<Rightarrow> memutil \<Rightarrow> 'm \<Rightarrow> load_error + 'm" where
  "load_file_to_named_mem P read name filepath type u s =
     (case (if type = Image_unknown then detect_mem_image_type filepath else Inr type) of
        Inl err \<Rightarrow> Inl err
      | Inr type \<Rightarrow>
          (case name_to_mem u name of
             None \<Rightarrow> Inl Unknown_region
           | Some m \<Rightarrow>
               (case type of Image_elf \<Rightarrow> write_elf_to_mem P m (read filepath) s
                | Image_vmem \<Rightarrow> write_vmem_to_mem P m filepath s | Image_unknown \<Rightarrow> Inl Bad_access)))"

text \<open>The two loops of \<open>LoadElfToMemories\<close>; a missing scope is reported and the segment left out.\<close>

fun write_segs :: "'m sim_port \<Rightarrow> mem_area \<Rightarrow> (u32, byte list) ranged_map \<Rightarrow> 'm \<Rightarrow> load_error + 'm" where
  "write_segs P mem_area [] s = Inr s"
| "write_segs P mem_area ((seg_rng, seg_data) # es) s =
     (case write_segment P mem_area (lo seg_rng) seg_data s of
        Inr s \<Rightarrow> write_segs P mem_area es s
      | Inl err \<Rightarrow> if err = No_scope then write_segs P mem_area es s else Inl err)"

fun write_staged :: "'m sim_port \<Rightarrow> memutil \<Rightarrow> string list \<Rightarrow> 'm \<Rightarrow> load_error + 'm" where
  "write_staged P u [] s = Inr s"
| "write_staged P u (mem_name # ns) s =
     (case name_to_mem u mem_name of
        None \<Rightarrow> Inl Bad_access
      | Some mem_area \<Rightarrow>
          (case write_segs P mem_area (segs (get_memory_data u mem_name)) s of
             Inl err \<Rightarrow> Inl err | Inr s \<Rightarrow> write_staged P u ns s))"

definition load_elf_to_memories :: "'m sim_port \<Rightarrow> elf \<Rightarrow> memutil \<Rightarrow> 'm \<Rightarrow> load_error + (memutil \<times> 'm)" where
  "load_elf_to_memories P f u s =
     (case stage_elf f u of
        Inl err \<Rightarrow> Inl (Elf_error err)
      | Inr u \<Rightarrow> map_sum id (Pair u) (write_staged P u (sorted_list_of_set (dom (staging_area u))) s))"

section \<open>The words of a segment\<close>

text \<open>A simulation that accepts every word and keeps the list of them.\<close>

definition log_port :: "(string \<times> u32 \<times> byte list) list sim_port" where
  "log_port = \<lparr>sp_scope = (\<lambda>_. True), sp_set_mem = (\<lambda>l i b s. (True, s @ [(l, i, b)])), sp_memload = (\<lambda>_ _ s. s)\<rparr>"

lemma log_port_simps [simp]: "sp_scope log_port l" "sp_set_mem log_port l i b s = (True, s @ [(l, i, b)])"
  by (simp_all add: log_port_def)

definition word_of :: "nat \<Rightarrow> byte list \<Rightarrow> nat \<Rightarrow> byte list" where
  "word_of w data i = take 64 (take w (drop (i * w) data) @ replicate 64 0)"

definition words_of :: "mem_area \<Rightarrow> u32 \<Rightarrow> byte list \<Rightarrow> nat list \<Rightarrow> (string \<times> u32 \<times> byte list) list" where
  "words_of m offset data is =
     map (\<lambda>i. (ma_location m, offset div width_byte m + of_nat i, word_of (unat (width_byte m)) data i)) is"

lemma copy_buf:
  assumes "length src \<le> w" and "w \<le> 64" and "length buf = 64" and "drop w buf = replicate (64 - w) 0" and "length src = w \<or> buf = replicate 64 0"
  shows "copy_at buf 0 src = Some (take 64 (src @ replicate 64 0))"
proof -
  have "drop (length src) buf = replicate (64 - length src) 0" using assms(4,5) by auto
  then show ?thesis using assms(1,2,3) by (simp add: copy_at_def)
qed

lemma write_full_log:
  assumes "w = unat (width_byte m)" and "w \<le> 64" and "length data < 2 ^ 32"
  shows "(i + n) * w \<le> length data \<Longrightarrow> length buf = 64 \<Longrightarrow> drop w buf = replicate (64 - w) 0 \<Longrightarrow>
    write_full_words log_port m (offset div width_byte m) data i n buf s = Inr (s @ words_of m offset data [i..<i + n])"
proof (induction n arbitrary: i buf s)
  case 0
  then show ?case by (simp add: words_of_def)
next
  case (Suc n)
  have le: "i * w + w \<le> length data" using Suc.prems(1) by (simp add: algebra_simps)
  have small: "i * w < 2 ^ 32" using le assms(3) by linarith
  have "unat (of_nat i * width_byte m :: u32) = i * w"
    using small assms(1) by (simp add: unat_word_ariths unat_of_nat take_bit_eq_mod mod_mult_left_eq)
  moreover have "bytes_from data (i * w) w = Some (take w (drop (i * w) data))" using le by (simp add: bytes_from_def)
  moreover have l: "length (take w (drop (i * w) data)) = w" using le by simp
  moreover have "copy_at buf 0 (take w (drop (i * w) data)) = Some (word_of w data i)"
    unfolding word_of_def by (rule copy_buf [of _ w]) (use l assms(2) Suc.prems in auto)
  moreover have "length (word_of w data i) = 64" "drop w (word_of w data i) = replicate (64 - w) 0"
    using l assms(2) by (simp_all add: word_of_def min_def)
  moreover have upt: "[i..<Suc (i + n)] = i # [Suc i..<Suc (i + n)]" by (simp add: upt_conv_Cons del: upt_Suc)
  ultimately show ?case using Suc.IH [of "Suc i" "word_of w data i"] Suc.prems(1) assms(1)
    by (simp add: words_of_def upt Let_def del: upt_Suc)
qed

text \<open>C0. \<open>WriteSegment\<close> writes the words of the segment once each, in ascending order from the word of its
  offset, each with its bytes of the segment at the bottom of the buffer and zeros above: bytes of
  an earlier word never show in a later one, although the buffer is not cleared between the full words,
  and the last word is filled up with zeros. The bound is that the segment is shorter than 4 GiB.\<close>

theorem write_segment_words:
  assumes "width_byte m \<noteq> 0" and "width_byte m \<le> 64" and "offset mod width_byte m = 0"
    and "ma_size m = 0 \<or> unat offset + length data \<le> unat (ma_size m)" and "length data < 2 ^ 32" and "w = unat (width_byte m)"
  shows "write_segment log_port m offset data s = Inr (s @ words_of m offset data [0..<(length data + w - 1) div w])"
proof -
  have w: "0 < w" "w \<le> 64" using assms(1,2,6) by (simp_all add: unat_gt_0 word_le_nat_alt)
  define n where "n = length data div w"
  define k where "k = length data mod w"
  have nk: "length data = n * w + k" "k < w" using w by (simp_all add: n_def k_def)
  have nd: "length data div unat (width_byte m) = n" "length data mod unat (width_byte m) = k" using assms(6) by (simp_all add: n_def k_def)
  have n32: "n < 2 ^ 32" unfolding n_def by (rule le_less_trans [OF div_le_dividend assms(5)])
  have un: "unat (of_nat n :: u32) = n" using n32 by (simp add: unat_of_nat take_bit_eq_mod)
  have uk: "unat (of_nat k :: u32) = k" using nk(2) w(2) by (simp add: unat_of_nat take_bit_eq_mod)
  have full: "write_full_words log_port m (offset div width_byte m) data 0 n (replicate 64 0) s = Inr (s @ words_of m offset data [0..<n])"
    using write_full_log [OF assms(6) w(2) assms(5), where i = 0 and n = n and buf = "replicate 64 0" and s = s] nk(1) by simp
  show ?thesis
  proof (cases "k = 0")
    case True
    then have "(length data + w - 1) div w = n" using nk w by (intro div_nat_eqI) (auto simp: algebra_simps)
    then show ?thesis using assms True full un
      by (simp add: write_segment_def nd Let_def del: replicate.simps)
  next
    case False
    have c: "(length data + w - 1) div w = Suc n"
      using nk w False by (intro div_nat_eqI) (auto simp: algebra_simps)
    have small: "n * w < 2 ^ 32" using nk(1) assms(5) by linarith
    then have src: "unat (of_nat n * width_byte m :: u32) = n * w" using assms(6)
      by (simp add: unat_word_ariths unat_of_nat take_bit_eq_mod mod_mult_left_eq)
    have b: "bytes_from data (n * w) k = Some (take w (drop (n * w) data))" using nk by (simp add: bytes_from_def)
    have "copy_at (replicate 64 0) 0 (take w (drop (n * w) data)) = Some (word_of w data n)"
      unfolding word_of_def by (rule copy_buf [of _ w]) (use nk w in auto)
    moreover have "of_nat k \<noteq> (0 :: u32)" using uk False by (metis unat_0)
    ultimately show ?thesis using assms full un uk c src b
      by (simp add: write_segment_def nd Let_def words_of_def del: replicate.simps)
  qed
qed

lemma write_segment_words_witness:
  "write_segment log_port (demo_ram\<lparr>width_byte := 2\<rparr>) 6 [1, 2, 3] [] =
    Inr [(''tb.ram'', 3, [1, 2] @ replicate 62 0), (''tb.ram'', 4, [3] @ replicate 63 0)]"
proof -
  have "write_segment log_port (demo_ram\<lparr>width_byte := 2\<rparr>) 6 [1, 2, 3] [] =
      Inr ([] @ words_of (demo_ram\<lparr>width_byte := 2\<rparr>) 6 [1, 2, 3] [0..<(length [1, 2, 3 :: byte] + 2 - 1) div 2])"
    by (rule write_segment_words) (simp_all add: demo_ram_def)
  then show ?thesis by (simp add: words_of_def word_of_def demo_ram_def upt_rec)
qed

end
