(* ===== verification/Spec2Isabelle.thy ===== *)
theory Spec2Isabelle
  imports Printf_Spec Minlibc Cstring Uart Plic Clint Soc_Ctrl Dma Syscalls Trap Console Vmma Mxu_Test Axu_Test
    Fmatmul_Test Dotproduct_Intrinsics Hook Dma_Irq_Test Mxu_Idma_Test
    Trap_Test Default_Slave Clint_Test Boot Mem_Writer
begin

text \<open>
  Bare-metal software of a RISC-V SoC: the C library and printf, the device drivers.
\<close>

end
